(* ===== verification/Argos_Prelude.thy ===== *)
theory Argos_Prelude
  imports Main "HOL-Library.Word" "HOL-Library.AList" "HOL-Library.Char_ord"
    "HOL-Library.List_Lexorder" "HOL-Library.Product_Lexorder" "HOL-Library.Option_ord"
    "HOL-Library.Sublist" "HOL-Library.Code_Target_Nat"
begin

text \<open>
  What every component shares: Rust's unsigned integers with their saturating and checked
  operations, byte strings and Unix paths as \<^verbatim>\<open>std::path\<close> compares them, hash and tree maps as
  association lists with distinct keys, \<^verbatim>\<open>min_by_key\<close>, and the interfaces (locales) of a keyed
  map, of a map of bounded size that evicts a victim, and of a system that keeps an invariant.
\<close>

section \<open>Unsigned machine integers\<close>

type_synonym u8 = "8 word"
type_synonym u32 = "32 word"
type_synonym u64 = "64 word"
type_synonym usize = "64 word"

definition sat_add :: "'a::len word \<Rightarrow> 'a word \<Rightarrow> 'a word" where
  "sat_add a b = (if unat a + unat b < 2 ^ LENGTH('a) then a + b else - 1)"

definition sat_sub :: "'a::len word \<Rightarrow> 'a word \<Rightarrow> 'a word" where
  "sat_sub a b = (if a < b then 0 else a - b)"

definition sat_mul :: "'a::len word \<Rightarrow> 'a word \<Rightarrow> 'a word" where
  "sat_mul a b = (if unat a * unat b < 2 ^ LENGTH('a) then a * b else - 1)"

definition checked_add :: "'a::len word \<Rightarrow> 'a word \<Rightarrow> 'a word option" where
  "checked_add a b = (if unat a + unat b < 2 ^ LENGTH('a) then Some (a + b) else None)"

definition checked_mul :: "'a::len word \<Rightarrow> 'a word \<Rightarrow> 'a word option" where
  "checked_mul a b = (if unat a * unat b < 2 ^ LENGTH('a) then Some (a * b) else None)"

definition clamp :: "'a::linorder \<Rightarrow> 'a \<Rightarrow> 'a \<Rightarrow> 'a" where
  "clamp lo hi x = (if x < lo then lo else if hi < x then hi else x)"

text \<open>The largest value of an \<^verbatim>\<open>i64\<close>, the bound of a SQLite integer column.\<close>

definition i64_max :: u64 where
  "i64_max = 9223372036854775807"

section \<open>Strings\<close>

text \<open>
  A Rust string is its UTF-8 bytes, a byte is a \<open>char\<close>, and \<^verbatim>\<open>len\<close> counts bytes.
  \<open>blank_str\<close> is \<^verbatim>\<open>trim().is_empty()\<close>: only characters of Unicode's White_Space property, each in
  its UTF-8 encoding.
\<close>

definition byte :: "char \<Rightarrow> nat" where
  "byte c = of_char c"

definition ascii_digit :: "char \<Rightarrow> bool" where
  "ascii_digit c = (48 \<le> byte c \<and> byte c \<le> 57)"

definition ascii_alphanumeric :: "char \<Rightarrow> bool" where
  "ascii_alphanumeric c =
     (ascii_digit c \<or> (65 \<le> byte c \<and> byte c \<le> 90) \<or> (97 \<le> byte c \<and> byte c \<le> 122))"

definition lower_hex_digit :: "char \<Rightarrow> bool" where
  "lower_hex_digit c = (ascii_digit c \<or> (97 \<le> byte c \<and> byte c \<le> 102))"

fun blank_bytes :: "nat list \<Rightarrow> bool" where
  "blank_bytes [] = True"
| "blank_bytes (a # b # c # bs) =
     (if (9 \<le> a \<and> a \<le> 13) \<or> a = 32 then blank_bytes (b # c # bs)
      else if a = 194 \<and> (b = 133 \<or> b = 160) then blank_bytes (c # bs)
      else if (a = 225 \<and> b = 154 \<and> c = 128)
           \<or> (a = 226 \<and> b = 128 \<and> ((128 \<le> c \<and> c \<le> 138) \<or> c = 168 \<or> c = 169 \<or> c = 175))
           \<or> (a = 226 \<and> b = 129 \<and> c = 159)
           \<or> (a = 227 \<and> b = 128 \<and> c = 128) then blank_bytes bs
      else False)"
| "blank_bytes (a # b # []) =
     (if (9 \<le> a \<and> a \<le> 13) \<or> a = 32 then blank_bytes [b] else a = 194 \<and> (b = 133 \<or> b = 160))"
| "blank_bytes [a] = ((9 \<le> a \<and> a \<le> 13) \<or> a = 32)"

definition blank_str :: "string \<Rightarrow> bool" where
  "blank_str s = blank_bytes (map byte s)"

text \<open>The decimal digits that \<^verbatim>\<open>format!\<close> prints for an unsigned integer.\<close>

fun show_nat :: "nat \<Rightarrow> string" where
  "show_nat n = (if n < 10 then [char_of (48 + n)] else show_nat (n div 10) @ [char_of (48 + n mod 10)])"

declare show_nat.simps [simp del]

text \<open>
  The characters of a string: each is its UTF-8 bytes.  \<^verbatim>\<open>str::from_utf8\<close> accepts exactly the
  sequences of well-formed characters; \<^verbatim>\<open>trim\<close> removes white space characters at both ends.
\<close>

definition utf8_extra :: "char \<Rightarrow> nat" where
  "utf8_extra c =
     (if byte c < 192 then 0 else if byte c < 224 then 1 else if byte c < 240 then 2 else 3)"

function utf8_chars :: "string \<Rightarrow> string list" where
  "utf8_chars [] = []"
| "utf8_chars (c # cs) = (c # take (utf8_extra c) cs) # utf8_chars (drop (utf8_extra c) cs)"
  by pat_completeness auto
termination
  by (relation "measure length") auto

definition continuation_byte :: "nat \<Rightarrow> bool" where
  "continuation_byte b = (128 \<le> b \<and> b \<le> 191)"

fun well_formed_char :: "nat list \<Rightarrow> bool" where
  "well_formed_char [a] = (a < 128)"
| "well_formed_char [a, b] = (194 \<le> a \<and> a \<le> 223 \<and> continuation_byte b)"
| "well_formed_char [a, b, c] =
     (224 \<le> a \<and> a \<le> 239 \<and> continuation_byte b \<and> continuation_byte c
      \<and> (a = 224 \<longrightarrow> 160 \<le> b) \<and> (a = 237 \<longrightarrow> b \<le> 159))"
| "well_formed_char [a, b, c, d] =
     (240 \<le> a \<and> a \<le> 244 \<and> continuation_byte b \<and> continuation_byte c \<and> continuation_byte d
      \<and> (a = 240 \<longrightarrow> 144 \<le> b) \<and> (a = 244 \<longrightarrow> b \<le> 143))"
| "well_formed_char _ = False"

definition from_utf8 :: "string \<Rightarrow> string option" where
  "from_utf8 bytes =
     (if list_all (\<lambda>c. well_formed_char (map byte c)) (utf8_chars bytes) then Some bytes else None)"

definition trim :: "string \<Rightarrow> string" where
  "trim s = concat (rev (dropWhile blank_str (rev (dropWhile blank_str (utf8_chars s)))))"

definition strip_prefix :: "string \<Rightarrow> string \<Rightarrow> string option" where
  "strip_prefix pre s = (if prefix pre s then Some (drop (length pre) s) else None)"

definition control_char :: "string \<Rightarrow> bool" where
  "control_char c =
     (case map byte c of [a] \<Rightarrow> a < 32 \<or> a = 127 | [a, b] \<Rightarrow> a = 194 \<and> b \<le> 159 | _ \<Rightarrow> False)"

section \<open>Paths\<close>

type_synonym path = string

datatype path_component = RootDir | CurDir | ParentDir | Normal string

text \<open>Components are ordered as \<^verbatim>\<open>std::path::Component\<close> derives it.\<close>

fun component_key :: "path_component \<Rightarrow> nat \<times> string" where
  "component_key RootDir = (0, [])"
| "component_key CurDir = (1, [])"
| "component_key ParentDir = (2, [])"
| "component_key (Normal s) = (3, s)"

lemma component_key_inject: "component_key a = component_key b \<Longrightarrow> a = b"
  by (cases a; cases b) auto

instantiation path_component :: linorder
begin

definition less_eq_path_component :: "path_component \<Rightarrow> path_component \<Rightarrow> bool" where
  "less_eq_path_component a b = (component_key a \<le> component_key b)"

definition less_path_component :: "path_component \<Rightarrow> path_component \<Rightarrow> bool" where
  "less_path_component a b = (component_key a < component_key b)"

instance
  by standard
    (auto simp: less_eq_path_component_def less_path_component_def intro: component_key_inject)

end

fun split_slash :: "string \<Rightarrow> string list" where
  "split_slash [] = [[]]"
| "split_slash (c # cs) =
     (if c = CHR ''/'' then [] # split_slash cs
      else (case split_slash cs of [] \<Rightarrow> [[c]] | s # ss \<Rightarrow> (c # s) # ss))"

definition is_absolute :: "path \<Rightarrow> bool" where
  "is_absolute p = (case p of [] \<Rightarrow> False | c # _ \<Rightarrow> c = CHR ''/'')"

definition segment_component :: "string \<Rightarrow> path_component list" where
  "segment_component s =
     (if s = [] \<or> s = ''.'' then [] else if s = ''..'' then [ParentDir] else [Normal s])"

definition components :: "path \<Rightarrow> path_component list" where
  "components p =
     (if is_absolute p then [RootDir] else if hd (split_slash p) = ''.'' then [CurDir] else [])
     @ concat (map segment_component (split_slash p))"

definition path_eq :: "path \<Rightarrow> path \<Rightarrow> bool" where
  "path_eq p q = (components p = components q)"

definition path_starts_with :: "path \<Rightarrow> path \<Rightarrow> bool" where
  "path_starts_with p base = prefix (components base) (components p)"

definition has_file_name :: "path \<Rightarrow> bool" where
  "has_file_name p =
     (case rev (components p) of Normal s # _ \<Rightarrow> True | _ \<Rightarrow> False)"

section \<open>Maps and minima\<close>

text \<open>
  A \<^verbatim>\<open>HashMap\<close> or \<^verbatim>\<open>BTreeMap\<close> is an association list with distinct keys: \<open>map_of\<close> is
  \<^verbatim>\<open>get\<close>, \<open>hm_put\<close> is \<^verbatim>\<open>insert\<close>, \<open>hm_del\<close> is \<^verbatim>\<open>remove\<close>, \<open>hm_retain\<close> is \<^verbatim>\<open>retain\<close> and
  \<open>length\<close> is \<^verbatim>\<open>len\<close>.  The order of the list is never observed where it stands for a hash map;
  \<open>bt_put\<close> keeps a tree map sorted by key where the program iterates over it.
\<close>

type_synonym ('k, 'v) hmap = "('k \<times> 'v) list"

definition hm_wf :: "('k, 'v) hmap \<Rightarrow> bool" where
  "hm_wf m = distinct (map fst m)"

definition hm_put :: "'k \<Rightarrow> 'v \<Rightarrow> ('k, 'v) hmap \<Rightarrow> ('k, 'v) hmap" where
  "hm_put k v m = AList.update k v m"

definition hm_del :: "'k \<Rightarrow> ('k, 'v) hmap \<Rightarrow> ('k, 'v) hmap" where
  "hm_del k m = AList.delete k m"

definition hm_retain :: "('k \<Rightarrow> 'v \<Rightarrow> bool) \<Rightarrow> ('k, 'v) hmap \<Rightarrow> ('k, 'v) hmap" where
  "hm_retain P m = filter (\<lambda>(k, v). P k v) m"

fun bt_put :: "'k::linorder \<Rightarrow> 'v \<Rightarrow> ('k, 'v) hmap \<Rightarrow> ('k, 'v) hmap" where
  "bt_put k v [] = [(k, v)]"
| "bt_put k v ((k', v') # m) =
     (if k < k' then (k, v) # (k', v') # m
      else if k = k' then (k, v) # m else (k', v') # bt_put k v m)"

fun min_by :: "('a \<Rightarrow> 'r::linorder) \<Rightarrow> 'a list \<Rightarrow> 'a option" where
  "min_by f [] = None"
| "min_by f (x # xs) =
     (case min_by f xs of None \<Rightarrow> Some x | Some y \<Rightarrow> if f x \<le> f y then Some x else Some y)"

fun max_by :: "('a \<Rightarrow> 'r::linorder) \<Rightarrow> 'a list \<Rightarrow> 'a option" where
  "max_by f [] = None"
| "max_by f (x # xs) =
     (case max_by f xs of None \<Rightarrow> Some x | Some y \<Rightarrow> if f y < f x then Some x else Some y)"

text \<open>
  The eviction that four caches of the program share: when a new key would exceed the capacity,
  the entry that is least by \<open>rank\<close> is removed first.
\<close>

definition evict_for ::
  "nat \<Rightarrow> ('k \<times> 'v \<Rightarrow> 'r::linorder) \<Rightarrow> 'k \<Rightarrow> ('k, 'v) hmap \<Rightarrow> ('k, 'v) hmap" where
  "evict_for cap rank k m =
     (if map_of m k = None \<and> cap \<le> length m
      then (case min_by rank m of None \<Rightarrow> m | Some (k', _) \<Rightarrow> hm_del k' m)
      else m)"

section \<open>Database transactions\<close>

text \<open>
  A transaction that reaches its commit takes effect, or is rolled back with an error, or takes
  effect although the commit reports an error.
\<close>

datatype commit_outcome = Committed | NotCommitted | CommittedButReported

definition commit :: "'e \<Rightarrow> commit_outcome \<Rightarrow> 's \<Rightarrow> 's \<Rightarrow> 'a \<Rightarrow> 's \<times> ('e + 'a)" where
  "commit error outcome old new result =
     (case outcome of
        Committed \<Rightarrow> (new, Inr result)
      | NotCommitted \<Rightarrow> (old, Inl error)
      | CommittedButReported \<Rightarrow> (new, Inl error))"

section \<open>Facts on integers\<close>

lemma unat_lt64: "unat w < 18446744073709551616" for w :: u64
  using unsigned_less [of w, where 'a = nat] by simp

lemma unat_max_word: "unat (- 1 :: 'a::len word) = 2 ^ LENGTH('a) - 1"
  by (simp add: unsigned_minus_1_eq_mask mask_eq_exp_minus_1)

lemma unat_sat_add: "unat (sat_add a b) = min (unat a + unat b) (2 ^ LENGTH('a) - 1)"
  for a b :: "'a::len word"
  by (auto simp: sat_add_def unat_max_word unat_word_ariths min_def)

lemma unat_sat_sub: "unat (sat_sub a b) = unat a - unat b" for a b :: "'a::len word"
  by (auto simp: sat_sub_def unat_sub word_less_nat_alt word_le_nat_alt not_less)

lemma unat_sat_mul: "unat (sat_mul a b) = min (unat a * unat b) (2 ^ LENGTH('a) - 1)"
  for a b :: "'a::len word"
proof (cases "unat a * unat b < 2 ^ LENGTH('a)")
  case True
  then show ?thesis by (simp add: sat_mul_def unat_word_ariths)
next
  case False
  then have "2 ^ LENGTH('a) - 1 \<le> unat a * unat b" by simp
  with False show ?thesis by (simp add: sat_mul_def unat_max_word min_absorb2)
qed

lemma checked_add_Some:
  "checked_add a b = Some c \<longleftrightarrow> unat a + unat b < 2 ^ LENGTH('a) \<and> c = a + b"
  for a b c :: "'a::len word"
  by (auto simp: checked_add_def)

lemma unat_checked_add:
  "checked_add a b = Some c \<Longrightarrow> unat c = unat a + unat b" for a b c :: "'a::len word"
  by (auto simp: checked_add_def unat_word_ariths split: if_splits)

lemma checked_add_None:
  "checked_add a b = None \<longleftrightarrow> 2 ^ LENGTH('a) \<le> unat a + unat b" for a b :: "'a::len word"
  by (auto simp: checked_add_def)

lemma clamp_bounds: "lo \<le> hi \<Longrightarrow> lo \<le> clamp lo hi x \<and> clamp lo hi x \<le> hi"
  by (auto simp: clamp_def)

lemma clamp_id: "lo \<le> x \<Longrightarrow> x \<le> hi \<Longrightarrow> clamp lo hi x = x"
  by (auto simp: clamp_def)

section \<open>Facts on lists, minima and maps\<close>

lemma find_SomeD: "find P xs = Some x \<Longrightarrow> x \<in> set xs \<and> P x"
  by (auto simp: find_Some_iff in_set_conv_nth)

lemma min_by_None [simp]: "min_by f xs = None \<longleftrightarrow> xs = []"
  by (cases xs) (auto split: option.splits)

lemma min_by_Some: "min_by f xs = Some x \<Longrightarrow> x \<in> set xs \<and> (\<forall>y\<in>set xs. f x \<le> f y)"
  by (induction xs arbitrary: x) (fastforce split: option.splits if_splits)+

lemma max_by_Some: "max_by f xs = Some x \<Longrightarrow> x \<in> set xs \<and> (\<forall>y\<in>set xs. f y \<le> f x)"
proof (induction xs arbitrary: x)
  case (Cons a xs)
  show ?case
  proof (cases "max_by f xs")
    case None
    then show ?thesis using Cons.prems by (cases xs) (auto split: option.splits if_splits)
  next
    case (Some y)
    then show ?thesis using Cons.prems Cons.IH [OF Some] by (auto split: if_splits intro: less_imp_le order_trans)
  qed
qed simp

lemma max_by_None [simp]: "max_by f xs = None \<longleftrightarrow> xs = []"
  by (cases xs) (auto split: option.splits)

lemma hm_get_put: "map_of (hm_put k v m) = (map_of m)(k \<mapsto> v)"
  by (simp add: hm_put_def update_conv')

lemma hm_get_del: "map_of (hm_del k m) = (map_of m)(k := None)"
  by (simp add: hm_del_def delete_conv')

lemma hm_wf_put: "hm_wf m \<Longrightarrow> hm_wf (hm_put k v m)"
  by (simp add: hm_wf_def hm_put_def distinct_update)

lemma hm_wf_del: "hm_wf m \<Longrightarrow> hm_wf (hm_del k m)"
  by (simp add: hm_wf_def hm_del_def distinct_delete)

lemma hm_wf_retain: "hm_wf m \<Longrightarrow> hm_wf (hm_retain P m)"
  by (simp add: hm_wf_def hm_retain_def distinct_map_filter)

lemma hm_len_put: "length (hm_put k v m) = (if map_of m k = None then Suc (length m) else length m)"
  by (induction m) (auto simp: hm_put_def)

lemma hm_len_del:
  assumes "hm_wf m"
  shows "length (hm_del k m) = (if map_of m k = None then length m else length m - 1)"
proof -
  have "length (filter (\<lambda>p. fst p \<noteq> k) m) = (if map_of m k = None then length m else length m - 1)"
    using assms
  proof (induction m)
    case (Cons p m)
    obtain k' v' where p: "p = (k', v')" by fastforce
    have id: "filter (\<lambda>p. fst p \<noteq> k) m = m" if "map_of m k = None"
      using that by (auto simp: map_of_eq_None_iff intro!: filter_True)
    show ?case
    proof (cases "k' = k")
      case True
      with Cons.prems p have "map_of m k = None" by (simp add: hm_wf_def map_of_eq_None_iff)
      with True p id show ?thesis by simp
    next
      case False
      with Cons p show ?thesis
        by (cases m) (auto simp: hm_wf_def map_of_eq_None_iff)
    qed
  qed (simp add: hm_wf_def)
  then show ?thesis by (simp add: hm_del_def AList.delete_eq case_prod_unfold eq_commute [of k])
qed

lemma hm_mem_get: "hm_wf m \<Longrightarrow> (k, v) \<in> set m \<longleftrightarrow> map_of m k = Some v"
  by (auto simp: hm_wf_def map_of_is_SomeI dest: map_of_SomeD)

lemma hm_wf_Nil [simp]: "hm_wf []"
  by (simp add: hm_wf_def)

lemma hm_len_retain: "length (hm_retain P m) \<le> length m"
  by (simp add: hm_retain_def)

lemma hm_set_del: "set (hm_del k m) \<subseteq> set m"
  by (auto simp: hm_del_def AList.delete_eq)

lemma hm_set_put: "set (hm_put k v m) \<subseteq> insert (k, v) (set m)"
  by (induction m) (auto simp: hm_put_def)

lemma hm_get_retain:
  "hm_wf m \<Longrightarrow> map_of (hm_retain P m) k = (case map_of m k of None \<Rightarrow> None | Some v \<Rightarrow> if P k v then Some v else None)"
  by (induction m) (auto simp: hm_retain_def hm_wf_def map_of_eq_None_iff split: option.splits)

text \<open>The interface of a keyed map, and its instance.\<close>

locale keyed_map =
  fixes get :: "'m \<Rightarrow> 'k \<Rightarrow> 'v option" and put :: "'k \<Rightarrow> 'v \<Rightarrow> 'm \<Rightarrow> 'm"
    and del :: "'k \<Rightarrow> 'm \<Rightarrow> 'm" and size_of :: "'m \<Rightarrow> nat" and wf_map :: "'m \<Rightarrow> bool"
  assumes get_put: "get (put k v m) = (get m)(k \<mapsto> v)"
    and get_del: "get (del k m) = (get m)(k := None)"
    and wf_put: "wf_map m \<Longrightarrow> wf_map (put k v m)"
    and wf_del: "wf_map m \<Longrightarrow> wf_map (del k m)"
    and size_put: "size_of (put k v m) = (if get m k = None then Suc (size_of m) else size_of m)"
    and size_del: "wf_map m \<Longrightarrow>
      size_of (del k m) = (if get m k = None then size_of m else size_of m - 1)"
begin

lemma size_put_le: "size_of (put k v m) \<le> Suc (size_of m)"
  by (simp add: size_put)

lemma put_after_del: "wf_map m \<Longrightarrow> size_of (put k v (del k m)) \<le> Suc (size_of m)"
  using size_put_le [of k v "del k m"] by (auto simp: size_del split: if_splits)

end

interpretation hm: keyed_map map_of hm_put hm_del length hm_wf
  by unfold_locales (simp_all add: hm_get_put hm_get_del hm_wf_put hm_wf_del hm_len_put hm_len_del)

text \<open>
  A map of bounded size: \<open>admit k m\<close> makes room for the key \<open>k\<close>.  A client that calls it before
  every insertion never exceeds the capacity, and loses at most one other entry.
\<close>

locale bounded_cache = keyed_map get put del size_of wf_map
  for get :: "'m \<Rightarrow> 'k \<Rightarrow> 'v option" and put :: "'k \<Rightarrow> 'v \<Rightarrow> 'm \<Rightarrow> 'm"
    and del :: "'k \<Rightarrow> 'm \<Rightarrow> 'm" and size_of :: "'m \<Rightarrow> nat" and wf_map :: "'m \<Rightarrow> bool" +
  fixes cap :: nat and victim :: "'m \<Rightarrow> 'k option" and admit :: "'k \<Rightarrow> 'm \<Rightarrow> 'm"
  assumes victim_present: "wf_map m \<Longrightarrow> 0 < size_of m \<Longrightarrow> \<exists>k. victim m = Some k \<and> get m k \<noteq> None"
    and admit_room: "get m k \<noteq> None \<or> size_of m < cap \<Longrightarrow> admit k m = m"
    and admit_full: "get m k = None \<Longrightarrow> cap \<le> size_of m \<Longrightarrow> victim m = Some k' \<Longrightarrow> admit k m = del k' m"
    and cap_pos: "0 < cap"
begin

lemma admit_cases:
  assumes "wf_map m"
  obtains "admit k m = m" "get m k \<noteq> None \<or> size_of m < cap"
  | k' where "admit k m = del k' m" "get m k = None" "cap \<le> size_of m" "get m k' \<noteq> None" "k' \<noteq> k"
proof (cases "get m k \<noteq> None \<or> size_of m < cap")
  case True
  then show ?thesis using that(1) admit_room by blast
next
  case False
  then have full: "get m k = None" "cap \<le> size_of m" by auto
  then have "0 < size_of m" using cap_pos by simp
  then obtain k' where k': "victim m = Some k'" "get m k' \<noteq> None"
    using victim_present [OF assms] by blast
  then show ?thesis using that(2) [of k'] admit_full full by metis
qed

lemma admit_wf: "wf_map m \<Longrightarrow> wf_map (admit k m)"
  by (cases rule: admit_cases [of m k]) (simp_all add: wf_del)

lemma insert_bounded:
  assumes "wf_map m" "size_of m \<le> cap"
  shows "size_of (put k v (admit k m)) \<le> cap"
  using assms(1)
proof (cases rule: admit_cases [of m k])
  case 1
  then show ?thesis using assms(2) by (auto simp: size_put)
next
  case (2 k')
  then show ?thesis using assms cap_pos by (auto simp: size_put size_del get_del)
qed

lemma admit_size: "wf_map m \<Longrightarrow> size_of (admit k m) \<le> size_of m"
  by (cases rule: admit_cases [of m k]) (simp_all add: size_del)

lemma admit_get: "wf_map m \<Longrightarrow> get (admit k m) x = None \<or> get (admit k m) x = get m x"
  by (cases rule: admit_cases [of m k]) (simp_all add: get_del)

lemma admit_same: "wf_map m \<Longrightarrow> get (admit k m) k = get m k"
  by (cases rule: admit_cases [of m k]) (simp_all add: get_del)

end

definition oldest :: "('k \<times> 'v \<Rightarrow> 'r::linorder) \<Rightarrow> ('k, 'v) hmap \<Rightarrow> 'k option" where
  "oldest rank m = map_option fst (min_by rank m)"

lemma oldest_present:
  assumes "hm_wf m" "0 < length m"
  shows "\<exists>k. oldest rank m = Some k \<and> map_of m k \<noteq> None"
proof -
  obtain k v where kv: "min_by rank m = Some (k, v)"
    using assms(2) by (cases "min_by rank m") auto
  then have "map_of m k = Some v"
    using assms(1) min_by_Some [OF kv] by (simp add: hm_mem_get)
  with kv show ?thesis by (simp add: oldest_def)
qed

lemma bounded_cache_evict_for:
  assumes "0 < cap"
  shows "bounded_cache map_of hm_put hm_del length hm_wf cap (oldest rank) (evict_for cap rank)"
  using assms oldest_present [of _ rank]
  by unfold_locales (auto simp: evict_for_def oldest_def split: option.splits)

text \<open>A system whose steps keep an invariant: the invariant holds after every run.\<close>

locale invariant_system =
  fixes init :: 's and step :: "'e \<Rightarrow> 's \<Rightarrow> 's" and invar :: "'s \<Rightarrow> bool"
  assumes invar_init: "invar init"
    and invar_step: "invar s \<Longrightarrow> invar (step e s)"
begin

lemma invar_fold: "invar s \<Longrightarrow> invar (fold step es s)"
  by (induction es arbitrary: s) (auto intro: invar_step)

lemma invar_run: "invar (fold step es init)"
  by (rule invar_fold) (rule invar_init)

end

end
