(* ===== verification/Argos_F64.thy ===== *)
theory Argos_F64
  imports Complex_Main "HOL-Library.Log_Nat"
begin

text \<open>
  The floating point arithmetic of the scores and entropies.  A finite \<^verbatim>\<open>f64\<close> is a rational;
  every operation computes exactly and rounds once, to nearest with ties to even, at 53 bits of
  precision, with the gradual underflow of exponent -1074 and the overflow at \<open>2 ^ 1024\<close> of IEEE
  binary64.  Infinities and NaN are constructors of their own, because \<^verbatim>\<open>f64::min\<close>,
  \<^verbatim>\<open>f64::max\<close> and the comparisons treat NaN specially and the program relies on it.  The one
  thing left out is the sign of zero, which no computation of the program can observe: its
  divisors are conversions of unsigned counts.
\<close>

section \<open>Rounding a rational to 53 bits\<close>

definition ilog2 :: "rat \<Rightarrow> int" where
  "ilog2 x = (case quotient_of x of (n, d) \<Rightarrow>
     let k = bitlen n - bitlen d
     in if 2 powi k \<le> x then k else k - 1)"

definition round_half_even :: "rat \<Rightarrow> int" where
  "round_half_even x =
     (let f = \<lfloor>x\<rfloor>; r = x - of_int f
      in if r < 1 / 2 then f else if 1 / 2 < r then f + 1 else if even f then f else f + 1)"

definition ulp_exp :: "rat \<Rightarrow> int" where
  "ulp_exp x = max (ilog2 x - 52) (- 1074)"

definition rnd_pos :: "rat \<Rightarrow> rat" where
  "rnd_pos x = of_int (round_half_even (x / 2 powi (ulp_exp x))) * 2 powi (ulp_exp x)"

definition rnd :: "rat \<Rightarrow> rat" where
  "rnd x = (if x = 0 then 0 else if 0 < x then rnd_pos x else - rnd_pos (- x))"

section \<open>The values and operations of f64\<close>

datatype f64 = Fin rat | PInf | NInf | NaN

definition overflows :: "rat \<Rightarrow> bool" where
  "overflows r = (2 ^ 1024 \<le> r)"

definition to_f64 :: "rat \<Rightarrow> f64" where
  "to_f64 x = (let r = rnd x in if overflows r then PInf else if overflows (- r) then NInf else Fin r)"

definition f64_of_nat :: "nat \<Rightarrow> f64" where
  "f64_of_nat n = to_f64 (of_nat n)"

fun f_neg :: "f64 \<Rightarrow> f64" where
  "f_neg (Fin a) = Fin (- a)"
| "f_neg PInf = NInf"
| "f_neg NInf = PInf"
| "f_neg NaN = NaN"

fun f_add :: "f64 \<Rightarrow> f64 \<Rightarrow> f64" where
  "f_add (Fin a) (Fin b) = to_f64 (a + b)"
| "f_add NaN _ = NaN"
| "f_add _ NaN = NaN"
| "f_add PInf NInf = NaN"
| "f_add NInf PInf = NaN"
| "f_add PInf _ = PInf"
| "f_add _ PInf = PInf"
| "f_add NInf _ = NInf"
| "f_add _ NInf = NInf"

definition f_sub :: "f64 \<Rightarrow> f64 \<Rightarrow> f64" where
  "f_sub a b = f_add a (f_neg b)"

fun f_sgn :: "f64 \<Rightarrow> rat" where
  "f_sgn (Fin a) = sgn a"
| "f_sgn PInf = 1"
| "f_sgn NInf = - 1"
| "f_sgn NaN = 0"

fun f_mul :: "f64 \<Rightarrow> f64 \<Rightarrow> f64" where
  "f_mul (Fin a) (Fin b) = to_f64 (a * b)"
| "f_mul NaN _ = NaN"
| "f_mul _ NaN = NaN"
| "f_mul a b = (let s = f_sgn a * f_sgn b in if s = 0 then NaN else if 0 < s then PInf else NInf)"

fun f_div :: "f64 \<Rightarrow> f64 \<Rightarrow> f64" where
  "f_div (Fin a) (Fin b) =
     (if b = 0 then (if a = 0 then NaN else if 0 < a then PInf else NInf) else to_f64 (a / b))"
| "f_div NaN _ = NaN"
| "f_div _ NaN = NaN"
| "f_div (Fin a) _ = Fin 0"
| "f_div a (Fin b) = (if b < 0 then f_neg a else a)"
| "f_div _ _ = NaN"

fun f_le :: "f64 \<Rightarrow> f64 \<Rightarrow> bool" where
  "f_le NaN _ = False"
| "f_le _ NaN = False"
| "f_le NInf _ = True"
| "f_le _ PInf = True"
| "f_le (Fin a) (Fin b) = (a \<le> b)"
| "f_le _ _ = False"

definition f_lt :: "f64 \<Rightarrow> f64 \<Rightarrow> bool" where
  "f_lt a b = (f_le a b \<and> \<not> f_le b a)"

definition f_min :: "f64 \<Rightarrow> f64 \<Rightarrow> f64" where
  "f_min a b = (if a = NaN then b else if b = NaN then a else if f_le a b then a else b)"

definition f_max :: "f64 \<Rightarrow> f64 \<Rightarrow> f64" where
  "f_max a b = (if a = NaN then b else if b = NaN then a else if f_le a b then b else a)"

fun is_finite :: "f64 \<Rightarrow> bool" where
  "is_finite (Fin _) = True"
| "is_finite _ = False"

definition f_in :: "rat \<Rightarrow> rat \<Rightarrow> f64 \<Rightarrow> bool" where
  "f_in lo hi x = (f_le (Fin lo) x \<and> f_le x (Fin hi))"

section \<open>Rounding is monotone and exact on integers\<close>

lemma ilog2_bounds:
  assumes "0 < x"
  shows "2 powi ilog2 x \<le> x \<and> x < 2 powi (ilog2 x + 1)"
proof -
  obtain n d where nd: "quotient_of x = (n, d)" by fastforce
  have d: "0 < d" and x: "x = of_int n / of_int d"
    using quotient_of_denom_pos [OF nd] quotient_of_div [OF nd] by auto
  from assms d x have n: "0 < n" by (simp add: zero_less_divide_iff)
  define fn fd where "fn = floorlog 2 (nat n)" and "fd = floorlog 2 (nat d)"
  have fn: "2 ^ (fn - 1) \<le> nat n" "nat n < 2 ^ fn"
    using floorlog_bounds [of "nat n" 2] n by (auto simp: fn_def)
  have fd: "2 ^ (fd - 1) \<le> nat d" "nat d < 2 ^ fd"
    using floorlog_bounds [of "nat d" 2] d by (auto simp: fd_def)
  have fn1: "1 \<le> fn" and fd1: "1 \<le> fd"
    using fn fd n d by (cases fn; cases fd; simp)+
  have n_lo: "(2::rat) powi (int fn - 1) \<le> of_int n"
  proof -
    have "(2::rat) ^ (fn - 1) \<le> of_nat (nat n)"
      using fn(1) by (metis of_nat_le_iff of_nat_numeral of_nat_power)
    then show ?thesis using n fn1 by (simp add: power_int_def of_nat_diff nat_diff_distrib)
  qed
  have n_hi: "of_int n < (2::rat) powi int fn"
  proof -
    have "of_nat (nat n) < (2::rat) ^ fn"
      using fn(2) by (metis of_nat_less_iff of_nat_numeral of_nat_power)
    then show ?thesis using n by (simp add: power_int_def)
  qed
  have d_lo: "(2::rat) powi (int fd - 1) \<le> of_int d"
  proof -
    have "(2::rat) ^ (fd - 1) \<le> of_nat (nat d)"
      using fd(1) by (metis of_nat_le_iff of_nat_numeral of_nat_power)
    then show ?thesis using d fd1 by (simp add: power_int_def of_nat_diff nat_diff_distrib)
  qed
  have d_hi: "of_int d < (2::rat) powi int fd"
  proof -
    have "of_nat (nat d) < (2::rat) ^ fd"
      using fd(2) by (metis of_nat_less_iff of_nat_numeral of_nat_power)
    then show ?thesis using d by (simp add: power_int_def)
  qed
  have lo: "2 powi (int fn - int fd - 1) \<le> x"
  proof -
    have "(2::rat) powi (int fn - int fd - 1) = 2 powi (int fn - 1) / 2 powi int fd"
      using power_int_diff [of "2::rat" "int fn - 1" "int fd"] by (simp add: algebra_simps)
    also have "\<dots> \<le> of_int n / of_int d"
      using n_lo d_hi d n by (intro frac_le) auto
    finally show ?thesis by (simp add: x)
  qed
  have hi: "x < 2 powi (int fn - int fd + 1)"
  proof -
    have "of_int n / of_int d < (2::rat) powi int fn / 2 powi (int fd - 1)"
      using n_hi d_lo n by (intro frac_less) auto
    also have "\<dots> = 2 powi (int fn - int fd + 1)"
      using power_int_diff [of "2::rat" "int fn" "int fd - 1"] by (simp add: algebra_simps)
    finally show ?thesis by (simp add: x)
  qed
  have "ilog2 x = (if 2 powi (int fn - int fd) \<le> x then int fn - int fd else int fn - int fd - 1)"
    by (simp add: ilog2_def nd fn_def fd_def Let_def bitlen_def)
  then show ?thesis using lo hi by (auto simp: not_le)
qed

lemma powi2_mono: "i \<le> j \<Longrightarrow> (2::rat) powi i \<le> 2 powi j"
  by (simp add: power_int_increasing)

lemma ilog2_mono:
  assumes "0 < x" "x \<le> y"
  shows "ilog2 x \<le> ilog2 y"
proof (rule ccontr)
  assume "\<not> ?thesis"
  then have "(2::rat) powi (ilog2 y + 1) \<le> 2 powi ilog2 x" by (intro powi2_mono) simp
  moreover have "y < 2 powi (ilog2 y + 1)" "2 powi ilog2 x \<le> x"
    using ilog2_bounds [of x] ilog2_bounds [of y] assms by auto
  ultimately show False using assms by linarith
qed

lemma round_half_even_of_int [simp]: "round_half_even (of_int z) = z"
  by (simp add: round_half_even_def Let_def)

lemma round_half_even_numeral [simp]: "round_half_even (numeral k) = numeral k"
  using round_half_even_of_int [of "numeral k"] by simp

lemma round_half_even_0 [simp]: "round_half_even 0 = 0"
  using round_half_even_of_int [of 0] by simp

lemma round_half_even_mono:
  assumes "x \<le> y"
  shows "round_half_even x \<le> round_half_even y"
proof -
  have f: "\<lfloor>x\<rfloor> \<le> \<lfloor>y\<rfloor>" using assms by (rule floor_mono)
  show ?thesis
  proof (cases "\<lfloor>x\<rfloor> = \<lfloor>y\<rfloor>")
    case True
    then show ?thesis using assms by (auto simp: round_half_even_def Let_def)
  next
    case False
    with f show ?thesis by (auto simp: round_half_even_def Let_def)
  qed
qed

lemma rnd_pos_upper:
  assumes "0 < x"
  shows "rnd_pos x \<le> 2 powi (ulp_exp x + 53)"
proof -
  let ?u = "(2::rat) powi ulp_exp x"
  have "x < 2 powi (ilog2 x + 1)" using ilog2_bounds [OF assms] by blast
  also have "\<dots> \<le> 2 powi (ulp_exp x + 53)" by (intro powi2_mono) (simp add: ulp_exp_def)
  also have "\<dots> = of_int (2 ^ 53) * ?u" by (simp add: power_int_add)
  finally have "x / ?u \<le> of_int (2 ^ 53)" by (simp add: divide_le_eq)
  then have "round_half_even (x / ?u) \<le> 2 ^ 53"
    using round_half_even_mono [of "x / ?u" "of_int (2 ^ 53)"] by simp
  then have "rnd_pos x \<le> of_int (2 ^ 53) * ?u"
    unfolding rnd_pos_def by (intro mult_right_mono) (simp_all only: of_int_le_iff, simp_all)
  then show ?thesis by (simp add: power_int_add)
qed

lemma rnd_pos_lower:
  assumes "0 < x" "ulp_exp x = ilog2 x - 52"
  shows "2 powi ilog2 x \<le> rnd_pos x"
proof -
  let ?u = "(2::rat) powi ulp_exp x"
  have e: "2 powi ilog2 x = of_int (2 ^ 52) * ?u"
    using assms(2) by (simp add: power_int_diff)
  have "of_int (2 ^ 52) \<le> x / ?u"
    using ilog2_bounds [OF assms(1)] e by (simp add: le_divide_eq)
  then have "2 ^ 52 \<le> round_half_even (x / ?u)"
    using round_half_even_mono [of "of_int (2 ^ 52)" "x / ?u"] by simp
  then have "of_int (2 ^ 52) * ?u \<le> rnd_pos x"
    unfolding rnd_pos_def by (intro mult_right_mono) (simp_all only: of_int_le_iff, simp_all)
  then show ?thesis by (simp only: e)
qed

lemma rnd_pos_mono:
  assumes "0 < x" "x \<le> y"
  shows "rnd_pos x \<le> rnd_pos y"
proof (cases "ulp_exp x = ulp_exp y")
  case True
  have "x / 2 powi ulp_exp x \<le> y / 2 powi ulp_exp x"
    using assms by (simp add: divide_right_mono)
  then show ?thesis
    unfolding rnd_pos_def True by (intro mult_right_mono) (simp_all add: round_half_even_mono)
next
  case False
  have "ulp_exp x \<le> ulp_exp y" using ilog2_mono [OF assms] by (simp add: ulp_exp_def)
  with False have lt: "ulp_exp x < ulp_exp y" by simp
  then have e: "ulp_exp y = ilog2 y - 52" by (auto simp: ulp_exp_def)
  have "rnd_pos x \<le> 2 powi (ulp_exp x + 53)" using assms(1) by (rule rnd_pos_upper)
  also have "\<dots> \<le> 2 powi ilog2 y" using lt e by (intro powi2_mono) simp
  also have "\<dots> \<le> rnd_pos y" using assms e by (intro rnd_pos_lower) auto
  finally show ?thesis .
qed

lemma rnd_pos_nonneg: "0 < x \<Longrightarrow> 0 \<le> rnd_pos x"
  using round_half_even_mono [of "of_int 0" "x / 2 powi ulp_exp x"]
  by (simp add: rnd_pos_def)

lemma rnd_mono:
  assumes "x \<le> y"
  shows "rnd x \<le> rnd y"
proof -
  consider "0 < x" | "y < 0" | "x \<le> 0" "0 \<le> y" by linarith
  then show ?thesis
  proof cases
    case 1
    then show ?thesis using assms rnd_pos_mono [of x y] by (simp add: rnd_def)
  next
    case 2
    then show ?thesis using assms rnd_pos_mono [of "- y" "- x"] by (simp add: rnd_def)
  next
    case 3
    have "rnd x \<le> 0" using 3(1) rnd_pos_nonneg [of "- x"] by (simp add: rnd_def)
    moreover have "0 \<le> rnd y" using 3(2) rnd_pos_nonneg [of y] by (simp add: rnd_def)
    ultimately show ?thesis by simp
  qed
qed

lemma rnd_pos_2_53: "rnd_pos 9007199254740992 = 9007199254740992"
  by code_simp

lemma rnd_pos_nat:
  assumes "0 < n" "n \<le> 2 ^ 53"
  shows "rnd_pos (of_nat n) = of_nat n"
proof (cases "n = 2 ^ 53")
  case True
  then show ?thesis by (simp add: rnd_pos_2_53)
next
  case False
  let ?x = "of_nat n :: rat"
  have lt: "n < 2 ^ 53" using assms False by simp
  have "ilog2 ?x < 53"
  proof (rule ccontr)
    assume "\<not> ?thesis"
    then have "(2::rat) powi 53 \<le> 2 powi ilog2 ?x" by (intro powi2_mono) simp
    also have "\<dots> \<le> ?x" using ilog2_bounds [of ?x] assms by simp
    finally have "(2::rat) ^ 53 \<le> of_nat n" by simp
    then show False using lt by (metis not_le of_nat_le_iff of_nat_numeral of_nat_power)
  qed
  then have e: "ulp_exp ?x \<le> 0" by (simp add: ulp_exp_def)
  define z where "z = int n * 2 ^ nat (- ulp_exp ?x)"
  have z: "?x / 2 powi ulp_exp ?x = of_int z"
    using e by (simp add: z_def power_int_def field_simps)
  then have "rnd_pos ?x = of_int z * 2 powi ulp_exp ?x" by (simp add: rnd_pos_def)
  also have "\<dots> = ?x" by (simp add: z [symmetric])
  finally show ?thesis .
qed

lemma rnd_nat: "n \<le> 2 ^ 53 \<Longrightarrow> rnd (of_nat n) = of_nat n"
  by (simp add: rnd_def rnd_pos_nat)

lemma rnd_2_64: "rnd 18446744073709551616 = 18446744073709551616"
  by code_simp

text \<open>
  What the score bounds need of the rounding is monotonicity and exactness on small integers; the
  consequences are proved once, from these two laws.
\<close>

locale monotone_rounding =
  fixes round_to :: "rat \<Rightarrow> rat" and exact_upto :: nat
  assumes mono: "x \<le> y \<Longrightarrow> round_to x \<le> round_to y"
    and exact: "n \<le> exact_upto \<Longrightarrow> round_to (of_nat n) = of_nat n"
begin

lemma round_0: "round_to 0 = 0"
  using exact [of 0] by simp

lemma round_nonneg: "0 \<le> x \<Longrightarrow> 0 \<le> round_to x"
  using mono [of 0 x] by (simp add: round_0)

lemma round_le_nat: "x \<le> of_nat n \<Longrightarrow> n \<le> exact_upto \<Longrightarrow> round_to x \<le> of_nat n"
  using mono [of x "of_nat n"] by (simp add: exact)

lemma round_ge_nat: "of_nat n \<le> x \<Longrightarrow> n \<le> exact_upto \<Longrightarrow> of_nat n \<le> round_to x"
  using mono [of "of_nat n" x] by (simp add: exact)

end

interpretation ieee: monotone_rounding rnd "2 ^ 53"
  by unfold_locales (fact rnd_mono, fact rnd_nat)

section \<open>Ranges of computed values\<close>

lemma f_in_iff: "f_in lo hi x \<longleftrightarrow> (\<exists>q. x = Fin q \<and> lo \<le> q \<and> q \<le> hi)"
  by (cases x) (auto simp: f_in_def)

lemma f_in_Fin [simp]: "f_in lo hi (Fin q) \<longleftrightarrow> lo \<le> q \<and> q \<le> hi"
  by (simp add: f_in_iff)

lemma f_in_finite: "f_in lo hi x \<Longrightarrow> is_finite x"
  by (auto simp: f_in_iff)

lemma f_le_Fin_trans: "f_le (Fin a) x \<Longrightarrow> b \<le> a \<Longrightarrow> f_le (Fin b) x"
  by (cases x) auto

lemma overflows_code [code]: "overflows r = (1024 < bitlen \<lfloor>r\<rfloor>)"
proof -
  have "overflows r \<longleftrightarrow> 2 ^ 1024 \<le> \<lfloor>r\<rfloor>"
    unfolding overflows_def by (metis le_floor_iff of_int_numeral of_int_power)
  also have "\<dots> \<longleftrightarrow> \<not> bitlen \<lfloor>r\<rfloor> \<le> 1024"
    using bitlen_le_iff_power [of "\<lfloor>r\<rfloor>" 1024] by auto
  finally show ?thesis by auto
qed

lemma not_overflows: "r \<le> 18446744073709551616 \<Longrightarrow> \<not> overflows r"
proof -
  assume "r \<le> 18446744073709551616"
  also have "(18446744073709551616::rat) = 2 ^ 64" by simp
  also have "\<dots> < (2::rat) ^ 1024" by (rule power_strict_increasing) simp_all
  finally show ?thesis by (simp only: overflows_def not_le)
qed

lemma to_f64_finite:
  assumes "0 \<le> rnd x" "rnd x \<le> 18446744073709551616"
  shows "to_f64 x = Fin (rnd x)"
  using assms not_overflows [of "rnd x"] not_overflows [of "- rnd x"] by (simp add: to_f64_def Let_def)

lemma to_f64_0 [simp]: "to_f64 0 = Fin 0"
  by (simp add: to_f64_finite ieee.round_0)

lemma of_nat_le_2_64: "n \<le> 2 ^ 53 \<Longrightarrow> (of_nat n :: rat) \<le> 18446744073709551616"
  using of_nat_mono [of n "18446744073709551616", where 'a = rat] by simp

lemma to_f64_in:
  assumes "0 \<le> x" "x \<le> of_nat n" "n \<le> 2 ^ 53"
  shows "f_in 0 (of_nat n) (to_f64 x)"
proof -
  have r: "0 \<le> rnd x" "rnd x \<le> of_nat n"
    using assms ieee.round_nonneg ieee.round_le_nat by auto
  then show ?thesis using of_nat_le_2_64 [OF assms(3)] by (simp add: to_f64_finite)
qed

lemma to_f64_nonneg: "0 \<le> x \<Longrightarrow> f_le (Fin 0) (to_f64 x)"
  using ieee.round_nonneg [of x] not_overflows [of "- rnd x"] by (auto simp: to_f64_def Let_def)

lemma f64_of_nat_small: "n \<le> 2 ^ 53 \<Longrightarrow> f64_of_nat n = Fin (of_nat n)"
  using of_nat_le_2_64 [of n] by (simp add: f64_of_nat_def to_f64_finite rnd_nat)

lemma f64_of_nat_usize:
  assumes "n < 2 ^ 64"
  shows "f64_of_nat n = Fin (rnd (of_nat n))"
proof -
  have "(of_nat n :: rat) \<le> 18446744073709551616"
    using assms of_nat_mono [of n "18446744073709551616", where 'a = rat] by simp
  then have "rnd (of_nat n) \<le> 18446744073709551616"
    using rnd_mono [of "of_nat n" 18446744073709551616] by (simp add: rnd_2_64)
  then show ?thesis by (simp add: f64_of_nat_def to_f64_finite ieee.round_nonneg)
qed

lemma f_div_nat_nonneg:
  assumes "a < 2 ^ 64" "b < 2 ^ 64" "0 < b"
  shows "f_le (Fin 0) (f_div (f64_of_nat a) (f64_of_nat b))"
proof -
  have b: "1 \<le> rnd (of_nat b)" using ieee.round_ge_nat [of 1 "of_nat b"] assms by simp
  moreover have "0 \<le> rnd (of_nat a)" by (simp add: ieee.round_nonneg)
  ultimately show ?thesis
    using assms by (auto simp: f64_of_nat_usize intro!: to_f64_nonneg)
qed

lemma f_div_nat_ratio:
  assumes "a \<le> b" "0 < b" "b < 2 ^ 64"
  shows "f_in 0 1 (f_div (f64_of_nat a) (f64_of_nat b))"
proof -
  have b: "1 \<le> rnd (of_nat b)" using ieee.round_ge_nat [of 1 "of_nat b"] assms by simp
  have a: "0 \<le> rnd (of_nat a)" "rnd (of_nat a) \<le> rnd (of_nat b)"
    using assms by (auto intro: ieee.round_nonneg rnd_mono)
  have "rnd (of_nat a) / rnd (of_nat b) \<le> 1" using a b by (simp add: divide_le_eq)
  then have "f_in 0 (of_nat 1) (to_f64 (rnd (of_nat a) / rnd (of_nat b)))"
    using a b by (intro to_f64_in) auto
  then show ?thesis using assms b by (auto simp: f64_of_nat_usize)
qed

lemma f_in_min: "f_le (Fin 0) x \<Longrightarrow> 0 \<le> hi \<Longrightarrow> f_in 0 hi (f_min x (Fin hi))"
  by (cases x) (auto simp: f_min_def)

lemma f_in_scale:
  assumes "f_in 0 1 x" "n \<le> 2 ^ 53"
  shows "f_in 0 (of_nat n) (f_mul x (Fin (of_nat n)))"
proof -
  obtain q where q: "x = Fin q" "0 \<le> q" "q \<le> 1" using assms(1) by (auto simp: f_in_iff)
  have "q * of_nat n \<le> of_nat n" using q mult_right_mono [of q 1 "of_nat n"] by simp
  then show ?thesis using q assms(2) by (auto intro!: to_f64_in)
qed

lemma f_in_add:
  assumes "f_in 0 (of_nat m) x" "f_in 0 (of_nat n) y" "m + n \<le> 2 ^ 53"
  shows "f_in 0 (of_nat (m + n)) (f_add x y)"
proof -
  obtain p q where "x = Fin p" "y = Fin q" "0 \<le> p" "p \<le> of_nat m" "0 \<le> q" "q \<le> of_nat n"
    using assms(1,2) by (auto simp: f_in_iff)
  then show ?thesis using assms(3) to_f64_in [of "p + q" "m + n"] by simp
qed

lemma f_in_mono: "f_in lo hi x \<Longrightarrow> lo' \<le> lo \<Longrightarrow> hi \<le> hi' \<Longrightarrow> f_in lo' hi' x"
  by (auto simp: f_in_iff)

lemma f_max_ge: "x \<noteq> NaN \<Longrightarrow> f_le (Fin q) (f_max x (Fin q))"
  by (cases x) (auto simp: f_max_def)

lemma f_in_max: "f_in lo hi x \<Longrightarrow> f_in lo hi y \<Longrightarrow> f_in lo hi (f_max x y)"
  by (auto simp: f_in_iff f_max_def)

end
