(* ===== verification/Argos_Common.thy ===== *)
theory Argos_Common
  imports Argos_Prelude Argos_F64
begin

text \<open>
  The data of crate \<^verbatim>\<open>argos-common\<close>: the events, detections and severities of
  \<^verbatim>\<open>event.rs\<close> and the configuration records of \<^verbatim>\<open>config.rs\<close> with their defaults.
  A field keeps the name it has in the source, after a prefix for its struct.  Korean message
  texts are not strings here: a detection's summary is the constructor of its format string
  applied to the values that the format string shows.
\<close>

section \<open>Events\<close>

type_synonym pid = u32

datatype file_action = Create | Modify | Delete | Rename | Chmod | Chown

record content_sample =
  cs_offset :: u64
  cs_length :: u32
  cs_entropy :: f64

record content_evidence =
  ce_observed_at_ms :: u64
  ce_file_size :: u64
  ce_sampled_bytes :: usize
  ce_budget_bytes :: usize
  ce_file_type :: string
  ce_samples :: "content_sample list"
  ce_complete :: bool
  ce_previous_observed_at_ms :: "u64 option"
  ce_max_entropy_increase :: "f64 option"

record process_identity =
  pi_pid :: pid
  pi_start_time_ticks :: u64
  pi_boot_id :: string

record file_process_context =
  fp_uid :: u32
  fp_exe :: string
  fp_start_time_ticks :: u64
  fp_boot_id :: string
  fp_ancestors :: "process_identity list"

record file_event =
  fe_timestamp_ms :: u64
  fe_pid :: pid
  fe_path :: string
  fe_action :: file_action
  fe_size :: "u64 option"
  fe_entropy :: "f64 option"
  fe_process :: "file_process_context option"
  fe_content :: "content_evidence option"

record process_credentials =
  pc_uids :: "u32 \<times> u32 \<times> u32 \<times> u32"
  pc_gids :: "u32 \<times> u32 \<times> u32 \<times> u32"
  pc_cap_inheritable :: u64
  pc_cap_permitted :: u64
  pc_cap_effective :: u64
  pc_cap_bounding :: u64
  pc_cap_ambient :: u64

record process_event =
  pe_timestamp_ms :: u64
  pe_pid :: pid
  pe_ppid :: pid
  pe_uid :: u32
  pe_credentials :: "process_credentials option"
  pe_start_time_ticks :: "u64 option"
  pe_boot_id :: "string option"
  pe_exe :: "string option"
  pe_comm :: string
  pe_cmdline :: string

datatype event = FileEv file_event | ProcessEv process_event

fun event_kind :: "event \<Rightarrow> string" where
  "event_kind (FileEv _) = ''file''"
| "event_kind (ProcessEv _) = ''process''"

fun event_timestamp_ms :: "event \<Rightarrow> u64" where
  "event_timestamp_ms (FileEv e) = fe_timestamp_ms e"
| "event_timestamp_ms (ProcessEv e) = pe_timestamp_ms e"

datatype severity = Low | Medium | High | Critical

fun severity_rank :: "severity \<Rightarrow> nat" where
  "severity_rank Low = 0"
| "severity_rank Medium = 1"
| "severity_rank High = 2"
| "severity_rank Critical = 3"

instantiation severity :: linorder
begin

definition less_eq_severity :: "severity \<Rightarrow> severity \<Rightarrow> bool" where
  "less_eq_severity a b = (severity_rank a \<le> severity_rank b)"

definition less_severity :: "severity \<Rightarrow> severity \<Rightarrow> bool" where
  "less_severity a b = (severity_rank a < severity_rank b)"

instance
proof
  fix a b :: severity
  show "a \<le> b \<Longrightarrow> b \<le> a \<Longrightarrow> a = b"
    by (cases a; cases b) (simp_all add: less_eq_severity_def)
qed (auto simp: less_eq_severity_def less_severity_def)

end

fun severity_as_str :: "severity \<Rightarrow> string" where
  "severity_as_str Low = ''low''"
| "severity_as_str Medium = ''medium''"
| "severity_as_str High = ''high''"
| "severity_as_str Critical = ''critical''"

datatype config_kind = Ssh | Sudo | Cron | Systemd

datatype summary =
    BehaviorSummary u64 nat nat f64
  | CanarySummary string file_action
  | GroupSummary u64 string nat "u32 list" "string list" bool bool
  | SemanticUnavailableSummary config_kind string
  | SemanticBaselineSummary config_kind
  | SemanticChangeSummary config_kind nat nat bool

record detection =
  d_timestamp_ms :: u64
  d_rule :: string
  d_score :: f64
  d_severity :: severity
  d_summary :: summary
  d_pid :: pid
  d_paths :: "string list"

section \<open>Configuration\<close>

datatype sensor_kind = Notify | Fanotify

record detection_window =
  dw_window_secs :: u64
  dw_min_changed_files :: usize
  dw_mass_change_threshold :: usize
  dw_detect_score :: f64

definition detection_window_default :: detection_window where
  "detection_window_default =
     \<lparr>dw_window_secs = 10, dw_min_changed_files = 5, dw_mass_change_threshold = 30,
      dw_detect_score = Fin 65\<rparr>"

record multi_window_config =
  mw_enabled :: bool
  mw_windows :: "detection_window list"
  mw_protected_paths :: "path list"
  mw_aggregate_by_user :: bool
  mw_aggregate_by_ancestry :: bool
  mw_max_events :: usize
  mw_max_groups :: usize
  mw_max_path_bytes :: usize

definition multi_window_config_default :: multi_window_config where
  "multi_window_config_default =
     \<lparr>mw_enabled = False,
      mw_windows =
        [detection_window_default,
         \<lparr>dw_window_secs = 60, dw_min_changed_files = 8, dw_mass_change_threshold = 40,
          dw_detect_score = Fin 65\<rparr>,
         \<lparr>dw_window_secs = 600, dw_min_changed_files = 12, dw_mass_change_threshold = 60,
          dw_detect_score = Fin 65\<rparr>],
      mw_protected_paths = [],
      mw_aggregate_by_user = True,
      mw_aggregate_by_ancestry = True,
      mw_max_events = 10000,
      mw_max_groups = 2048,
      mw_max_path_bytes = 4096\<rparr>"

record content_sampling_config =
  cc_enabled :: bool
  cc_total_bytes :: usize
  cc_max_files :: usize
  cc_history_secs :: u64
  cc_min_entropy_increase :: f64

definition content_sampling_config_default :: content_sampling_config where
  "content_sampling_config_default =
     \<lparr>cc_enabled = False, cc_total_bytes = 64 * 1024, cc_max_files = 2048,
      cc_history_secs = 600, cc_min_entropy_increase = Fin 1\<rparr>"

record approved_change =
  ac_id :: string
  ac_valid_from_ms :: u64
  ac_valid_until_ms :: u64
  ac_paths :: "path list"
  ac_exe :: path
  ac_uid :: u32
  ac_adjusted_rules :: "string list"

record detection_config =
  dc_window_secs :: u64
  dc_mass_change_threshold :: usize
  dc_min_changed_files :: usize
  dc_entropy_threshold :: f64
  dc_detect_score :: f64
  dc_entropy_sample_bytes :: usize
  dc_exclude_paths :: "path list"
  dc_approved_changes :: "approved_change list"
  dc_canary_paths :: "path list"
  dc_multi_window :: multi_window_config
  dc_content_sampling :: content_sampling_config

definition detection_config_default :: detection_config where
  "detection_config_default =
     \<lparr>dc_window_secs = 10, dc_mass_change_threshold = 30, dc_min_changed_files = 5,
      dc_entropy_threshold = to_f64 (72 / 10), dc_detect_score = Fin 40,
      dc_entropy_sample_bytes = 64 * 1024, dc_exclude_paths = [], dc_approved_changes = [],
      dc_canary_paths = [], dc_multi_window = multi_window_config_default,
      dc_content_sampling = content_sampling_config_default\<rparr>"

record response_config =
  rc_auto_block :: bool
  rc_block_score :: f64

definition response_config_default :: response_config where
  "response_config_default = \<lparr>rc_auto_block = False, rc_block_score = Fin 80\<rparr>"

record coverage_config =
  cov_enabled :: bool
  cov_interval_secs :: u64
  cov_max_entries :: usize

definition coverage_config_default :: coverage_config where
  "coverage_config_default = \<lparr>cov_enabled = True, cov_interval_secs = 30, cov_max_entries = 10000\<rparr>"

record semantic_config =
  sem_files :: "path list"
  sem_max_file_bytes :: usize

definition semantic_config_default :: semantic_config where
  "semantic_config_default = \<lparr>sem_files = [], sem_max_file_bytes = 262144\<rparr>"

record ai_config =
  ai_provider :: string
  ai_endpoint :: string
  ai_model :: string
  ai_api_key_env :: string
  ai_timeout_secs :: u64
  ai_evidence_limit :: usize

definition ai_config_default :: ai_config where
  "ai_config_default =
     \<lparr>ai_provider = ''anthropic'', ai_endpoint = [], ai_model = [], ai_api_key_env = [],
      ai_timeout_secs = 60, ai_evidence_limit = 200\<rparr>"

record policy_file_config =
  pf_path :: path
  pf_pubkey :: string
  pf_policy_id :: string
  pf_host_id :: string
  pf_groups :: "string list"
  pf_trusted_keys :: "(string, string) hmap"
  pf_state_path :: path

definition policy_file_config_default :: policy_file_config where
  "policy_file_config_default =
     \<lparr>pf_path = [], pf_pubkey = [], pf_policy_id = [], pf_host_id = [], pf_groups = [],
      pf_trusted_keys = [], pf_state_path = []\<rparr>"

definition policy_is_enabled :: "policy_file_config \<Rightarrow> bool" where
  "policy_is_enabled c = (pf_path c \<noteq> [])"

record process_monitor_config =
  pm_enabled :: bool
  pm_interval_ms :: u64

definition process_monitor_config_default :: process_monitor_config where
  "process_monitor_config_default = \<lparr>pm_enabled = True, pm_interval_ms = 1000\<rparr>"

record backup_config =
  bk_enabled :: bool
  bk_dir :: path
  bk_max_file_bytes :: u64
  bk_keep_versions :: usize
  bk_baseline_on_start :: bool
  bk_queue_capacity :: usize
  bk_io_bytes_per_sec :: u64

text \<open>The defaults that depend on the build target take it as an argument.\<close>

definition backup_config_default :: "bool \<Rightarrow> backup_config" where
  "backup_config_default linux =
     \<lparr>bk_enabled = True,
      bk_dir = (if linux then ''/var/lib/argos/backup'' else ''./argos-data/backup''),
      bk_max_file_bytes = 50 * 1024 * 1024, bk_keep_versions = 5, bk_baseline_on_start = True,
      bk_queue_capacity = 256, bk_io_bytes_per_sec = 10 * 1024 * 1024\<rparr>"

record central_config =
  ct_url :: string
  ct_token :: string
  ct_agent_id :: string

definition central_config_default :: central_config where
  "central_config_default = \<lparr>ct_url = [], ct_token = [], ct_agent_id = []\<rparr>"

definition central_config_debug :: "central_config \<Rightarrow> (string \<times> string) list" where
  "central_config_debug c =
     [(''url'', ct_url c), (''token'', ''[REDACTED]''), (''agent_id'', ct_agent_id c)]"

record agent_config =
  ag_watch_paths :: "path list"
  ag_db_path :: path
  ag_sensor :: sensor_kind
  ag_detection :: detection_config
  ag_response :: response_config
  ag_backup :: backup_config
  ag_central :: central_config
  ag_policy :: policy_file_config
  ag_process_monitor :: process_monitor_config
  ag_ai :: ai_config
  ag_semantic :: semantic_config
  ag_coverage :: coverage_config

definition default_watch_path :: "bool \<Rightarrow> path" where
  "default_watch_path linux = (if linux then ''/home'' else ''./watched'')"

definition default_db_path :: "bool \<Rightarrow> path" where
  "default_db_path linux = (if linux then ''/var/lib/argos/argos.db'' else ''./argos-data/argos.db'')"

definition agent_config_default :: "bool \<Rightarrow> agent_config" where
  "agent_config_default linux =
     \<lparr>ag_watch_paths = [default_watch_path linux],
      ag_db_path = default_db_path linux,
      ag_sensor = Notify,
      ag_detection = detection_config_default,
      ag_response = response_config_default,
      ag_backup = backup_config_default linux,
      ag_central = central_config_default,
      ag_policy = policy_file_config_default,
      ag_process_monitor = process_monitor_config_default,
      ag_ai = ai_config_default,
      ag_semantic = semantic_config_default,
      ag_coverage = coverage_config_default\<rparr>"

datatype ('io, 'parse) config_error = ConfigIo 'io | ConfigParse 'parse

text \<open>
  Loading: the file is absent (\<open>None\<close>), unreadable or read; the TOML decoder is a parameter.
\<close>

definition agent_config_load ::
  "bool \<Rightarrow> ('io + string) option \<Rightarrow> (string \<Rightarrow> 'parse + agent_config) \<Rightarrow>
     ('io, 'parse) config_error + agent_config" where
  "agent_config_load linux file toml =
     (case file of None \<Rightarrow> Inr (agent_config_default linux)
      | Some (Inl e) \<Rightarrow> Inl (ConfigIo e)
      | Some (Inr text) \<Rightarrow>
          (case toml text of Inl e \<Rightarrow> Inl (ConfigParse e) | Inr c \<Rightarrow> Inr c))"

end
