(* ===== verification/Argos_Hex.thy ===== *)
theory Argos_Hex
  imports Argos_Prelude
begin

text \<open>
  Hexadecimal text.  The programs call the \<^verbatim>\<open>hex\<close> crate, which is a parameter of the models;
  the locale \<open>hex_codec\<close> states what they rely on, and the lower-case coding defined here has it.
  Hexadecimal text is plain ASCII without white space, so reading it from a file and trimming it
  gives it back.
\<close>

definition hex_byte :: "char \<Rightarrow> string" where
  "hex_byte c = [(''0123456789abcdef'') ! (byte c div 16), (''0123456789abcdef'') ! (byte c mod 16)]"

definition hex_value :: "char \<Rightarrow> nat" where
  "hex_value c = (if byte c < 58 then byte c - 48 else byte c - 87)"

fun hex_bytes :: "string \<Rightarrow> string option" where
  "hex_bytes [] = Some []"
| "hex_bytes (a # b # cs) = map_option (\<lambda>bs. char_of (16 * hex_value a + hex_value b) # bs) (hex_bytes cs)"
| "hex_bytes [a] = None"

definition hex_encode :: "string \<Rightarrow> string" where
  "hex_encode bs = concat (map hex_byte bs)"

section \<open>Hexadecimal text survives decoding and trimming\<close>

lemma lower_hex_ascii: "lower_hex_digit c \<Longrightarrow> byte c < 128 \<and> \<not> blank_str [c]"
  by (auto simp: lower_hex_digit_def ascii_digit_def blank_str_def)

lemma hex_chars: "list_all lower_hex_digit s \<Longrightarrow> utf8_chars s = map (\<lambda>c. [c]) s"
  by (induction s) (auto simp: utf8_extra_def dest: lower_hex_ascii)

lemma hex_trim: "list_all lower_hex_digit s \<Longrightarrow> trim s = s"
proof -
  assume h: "list_all lower_hex_digit s"
  then have none: "\<not> blank_str c" if "c \<in> set (map (\<lambda>c. [c]) s)" for c
    using that lower_hex_ascii by (auto simp: list_all_iff)
  have keep: "dropWhile blank_str cs = cs" if "\<forall>c\<in>set cs. \<not> blank_str c" for cs
    using that by (cases cs) auto
  have "dropWhile blank_str (map (\<lambda>c. [c]) s) = map (\<lambda>c. [c]) s"
    "dropWhile blank_str (rev (map (\<lambda>c. [c]) s)) = rev (map (\<lambda>c. [c]) s)"
    by (rule keep; use none in auto)+
  then show ?thesis by (simp add: trim_def hex_chars [OF h])
qed

lemma hex_utf8: "list_all lower_hex_digit s \<Longrightarrow> from_utf8 s = Some s"
  using lower_hex_ascii by (auto simp: from_utf8_def hex_chars list_all_iff)

section \<open>The coding and its contract\<close>

lemma hex_table: "list_all (\<lambda>n. lower_hex_digit (''0123456789abcdef'' ! n) \<and> hex_value (''0123456789abcdef'' ! n) = n) [0..<16]"
  by code_simp

lemma hex_digit_value:
  "n < 16 \<Longrightarrow> lower_hex_digit (''0123456789abcdef'' ! n) \<and> hex_value (''0123456789abcdef'' ! n) = n"
  using hex_table by (auto simp: list_all_iff)

lemma byte_lt: "byte c < 256"
  using nat_of_char_less_256 [of c] by (simp add: byte_def)

lemma hex_encode_lower: "list_all lower_hex_digit (concat (map hex_byte bs))"
proof -
  have "list_all lower_hex_digit (hex_byte c)" for c
    using hex_digit_value [of "byte c div 16"] hex_digit_value [of "byte c mod 16"] byte_lt [of c]
    by (simp add: hex_byte_def)
  then show ?thesis by (induction bs) auto
qed

lemma hex_roundtrip: "hex_bytes (concat (map hex_byte bs)) = Some bs"
proof (induction bs)
  case (Cons c cs)
  have "16 * hex_value (''0123456789abcdef'' ! (byte c div 16)) + hex_value (''0123456789abcdef'' ! (byte c mod 16)) = byte c"
    using hex_digit_value [of "byte c div 16"] hex_digit_value [of "byte c mod 16"] byte_lt [of c] by simp
  then show ?case using Cons by (simp add: hex_byte_def byte_def)
qed simp

lemma hex_length: "length (concat (map hex_byte bs)) = 2 * length bs"
proof (induction bs)
  case (Cons b bs)
  then show ?case by (simp add: hex_byte_def)
qed simp

locale hex_codec =
  fixes encode :: "string \<Rightarrow> string" and decode :: "string \<Rightarrow> string option"
  assumes decode_encode: "decode (encode bs) = Some bs"
    and encode_lower: "list_all lower_hex_digit (encode bs)"
    and encode_length: "length (encode bs) = 2 * length bs"
begin

lemma encode_inject: "encode a = encode b \<Longrightarrow> a = b"
  by (metis decode_encode option.inject)

lemma encode_trim: "trim (encode bs) = encode bs"
  by (rule hex_trim) (rule encode_lower)

lemma encode_utf8: "from_utf8 (encode bs) = Some (encode bs)"
  by (rule hex_utf8) (rule encode_lower)

end

interpretation lower_hex: hex_codec hex_encode hex_bytes
  by (rule hex_codec.intro) (simp_all only: hex_encode_def hex_roundtrip hex_encode_lower hex_length)

end
