(* ===== verification/Vault_Core.thy ===== *)
theory Vault_Core
  imports Argos_Common Argos_Hex
begin

text \<open>
  Crate \<^verbatim>\<open>argos-vault\<close>, \<^verbatim>\<open>lib.rs\<close> and \<^verbatim>\<open>bundle.rs\<close>: signed receipts, bounded reads of
  files that must not change, the checks of private directories, and the manifests, completions
  and review histories of recovery bundles.  Cryptography and the JSON codec are the fields of
  \<open>vault_lib\<close>; what the file system shows is an argument.  Error messages are constructors.
\<close>

section \<open>Receipts\<close>

definition MAX_OBJECT_BYTES :: nat where
  "MAX_OBJECT_BYTES = 64 * 1024 * 1024"

definition MAX_RECEIPT_BYTES :: nat where
  "MAX_RECEIPT_BYTES = 16 * 1024"

definition RECEIPT_FORMAT :: string where
  "RECEIPT_FORMAT = ''argos-vault-receipt-v1''"

record receipt =
  rt_format :: string
  rt_key_id :: string
  rt_agent_id :: string
  rt_kind :: string
  rt_sha256 :: string
  rt_size_bytes :: u64
  rt_received_at_ms :: u64
  rt_retention_until_ms :: u64

record signed_receipt =
  sr_receipt :: receipt
  sr_signature_hex :: string

text \<open>The bundle documents of \<^verbatim>\<open>bundle.rs\<close>.  A JSON value is kept as its text.\<close>

record bundle_metadata =
  bm_original_path :: string
  bm_version :: "int option"
  bm_review_history :: string
  bm_recovery_plan :: "string option"

record chunk =
  ck_sha256 :: string
  ck_size_bytes :: u64

record bundle_manifest =
  mf_format :: string
  mf_bundle_id :: string
  mf_created_at_ms :: u64
  mf_metadata :: bundle_metadata
  mf_sha256 :: string
  mf_size_bytes :: u64
  mf_chunks :: "chunk list"

datatype review_decision = Good | Revoked

record review_request =
  rq_request_id :: string
  rq_decision :: review_decision
  rq_actor :: string
  rq_reason :: string

record completion =
  co_format :: string
  co_key_id :: string
  co_agent_id :: string
  co_bundle_id :: string
  co_manifest_sha256 :: string
  co_sha256 :: string
  co_size_bytes :: u64
  co_completed_at_ms :: u64

record review_event =
  re_format :: string
  re_key_id :: string
  re_agent_id :: string
  re_bundle_id :: string
  re_manifest_sha256 :: string
  re_completion_sha256 :: string
  re_sequence :: u32
  re_previous_sha256 :: "string option"
  re_reviewed_at_ms :: u64
  re_request :: review_request

record 'a signed =
  sg_value :: 'a
  sg_signature_hex :: string

record bundle_record =
  br_agent_id :: string
  br_manifest :: bundle_manifest
  br_manifest_receipt :: signed_receipt
  br_completion :: "completion signed option"
  br_reviews :: "review_event signed list"
  br_current_review :: string
  br_recommended :: bool

text \<open>
  What the crate takes from its dependencies.  A key is the bytes of its encoding; the encoders
  may fail, as \<^verbatim>\<open>serde_json\<close>'s do.
\<close>

record vault_lib =
  vl_hex_decode :: "string \<Rightarrow> string option"
  vl_hex_encode :: "string \<Rightarrow> string"
  vl_verifying_key :: "string \<Rightarrow> string option"
  vl_public_of :: "string \<Rightarrow> string"
  vl_verify :: "string \<Rightarrow> string \<Rightarrow> string \<Rightarrow> bool"
  vl_sign :: "string \<Rightarrow> string \<Rightarrow> string"
  vl_digest :: "string \<Rightarrow> string"
  vl_receipt_json :: "receipt \<Rightarrow> string option"
  vl_signed_receipt_json :: "signed_receipt \<Rightarrow> string option"
  vl_parse_receipt :: "string \<Rightarrow> signed_receipt option"
  vl_manifest_json :: "bundle_manifest \<Rightarrow> string option"
  vl_parse_manifest :: "string \<Rightarrow> bundle_manifest option"
  vl_completion_json :: "completion \<Rightarrow> string option"
  vl_signed_completion_json :: "completion signed \<Rightarrow> string option"
  vl_parse_completion :: "string \<Rightarrow> completion signed option"
  vl_review_json :: "review_event \<Rightarrow> string option"
  vl_signed_review_json :: "review_event signed \<Rightarrow> string option"
  vl_parse_review :: "string \<Rightarrow> review_event signed option"

datatype vault_error =
    BadReceiptFields | BadHex | BadKeyLength | BadKey | BadSignatureLength | BadSignature
  | BadJson | BodyMismatch | NotRegularOrTooBig | ChangedWhileRead | IoError
  | NotCleanAbsolute | LinkInPath | UntrustedOwner | WritableByOthers | NotPrivate
  | BadKeyFile | BadStorageFile | BadUtf8
  | BadManifest | BadChunk | BundleTooBig | SizeMismatch | BadReview | BadBundleScope
  | ManifestReceiptMismatch | CompletionMismatch | ReviewChainBroken | ReviewWithoutCompletion
  | ReviewStateMismatch | BadControlObject | UnknownControlObject

definition sha256 :: "vault_lib \<Rightarrow> string \<Rightarrow> string" where
  "sha256 lib bytes = vl_hex_encode lib (vl_digest lib bytes)"

definition valid_vault_id :: "string \<Rightarrow> bool" where
  "valid_vault_id value =
     (value \<noteq> [] \<and> length value \<le> 128
      \<and> list_all (\<lambda>b. ascii_alphanumeric b \<or> b \<in> set ''_-'') value)"

definition valid_hash :: "string \<Rightarrow> bool" where
  "valid_hash value = (length value = 64 \<and> list_all lower_hex_digit value)"

definition valid_kind :: "string \<Rightarrow> bool" where
  "valid_kind value =
     (value \<in> set [''evidence'', ''backup'', ''audit'', ''bundle-manifest'', ''bundle-completion'',
                  ''bundle-review''])"

definition public_key :: "vault_lib \<Rightarrow> string \<Rightarrow> vault_error + string" where
  "public_key lib hex_key =
     (case vl_hex_decode lib hex_key of
        None \<Rightarrow> Inl BadHex
      | Some bytes \<Rightarrow>
          if length bytes \<noteq> 32 then Inl BadKeyLength
          else (case vl_verifying_key lib bytes of None \<Rightarrow> Inl BadKey | Some key \<Rightarrow> Inr key))"

definition sign_receipt :: "vault_lib \<Rightarrow> receipt \<Rightarrow> string \<Rightarrow> vault_error + signed_receipt" where
  "sign_receipt lib receipt key =
     (case vl_receipt_json lib receipt of
        None \<Rightarrow> Inl BadJson
      | Some json \<Rightarrow>
          Inr \<lparr>sr_receipt = receipt, sr_signature_hex = vl_hex_encode lib (vl_sign lib key json)\<rparr>)"

text \<open>The signature check that receipts and bundle documents share.\<close>

definition check_signature :: "vault_lib \<Rightarrow> string \<Rightarrow> string option \<Rightarrow> string \<Rightarrow> vault_error + unit" where
  "check_signature lib signature_hex json pinned =
     (case vl_hex_decode lib signature_hex of
        None \<Rightarrow> Inl BadHex
      | Some signature \<Rightarrow>
          if length signature \<noteq> 64 then Inl BadSignatureLength
          else (case public_key lib pinned of
                  Inl e \<Rightarrow> Inl e
                | Inr key \<Rightarrow>
                    (case json of
                       None \<Rightarrow> Inl BadJson
                     | Some data \<Rightarrow> if vl_verify lib key data signature then Inr () else Inl BadSignature)))"

definition receipt_fields_ok :: "receipt \<Rightarrow> bool" where
  "receipt_fields_ok value =
     (rt_format value = RECEIPT_FORMAT \<and> valid_vault_id (rt_key_id value)
      \<and> valid_vault_id (rt_agent_id value) \<and> valid_kind (rt_kind value)
      \<and> valid_hash (rt_sha256 value) \<and> unat (rt_size_bytes value) \<le> MAX_OBJECT_BYTES
      \<and> rt_received_at_ms value < rt_retention_until_ms value)"

definition verify_receipt :: "vault_lib \<Rightarrow> signed_receipt \<Rightarrow> string \<Rightarrow> vault_error + unit" where
  "verify_receipt lib receipt pinned_pubkey =
     (if \<not> receipt_fields_ok (sr_receipt receipt) then Inl BadReceiptFields
      else check_signature lib (sr_signature_hex receipt) (vl_receipt_json lib (sr_receipt receipt))
             pinned_pubkey)"

definition verify_body :: "vault_lib \<Rightarrow> string \<Rightarrow> signed_receipt \<Rightarrow> vault_error + unit" where
  "verify_body lib bytes receipt =
     (if unat (rt_size_bytes (sr_receipt receipt)) \<noteq> length bytes
         \<or> rt_sha256 (sr_receipt receipt) \<noteq> sha256 lib bytes
      then Inl BodyMismatch else Inr ())"

section \<open>Reading files that must not change\<close>

text \<open>What \<^verbatim>\<open>metadata\<close> and \<^verbatim>\<open>symlink_metadata\<close> show of a file.\<close>

record fstat =
  fs_is_file :: bool
  fs_is_dir :: bool
  fs_symlink :: bool
  fs_len :: u64
  fs_modified :: nat
  fs_ctime :: "nat \<times> nat"
  fs_dev :: u64
  fs_ino :: u64
  fs_uid :: u32
  fs_mode :: u32
  fs_nlink :: u64

text \<open>
  One read: the metadata of the opened file before and after it, what the file gave, and the
  metadata of the path afterwards.  \<open>None\<close> is an error of the operating system.
\<close>

record observed_file =
  ob_before :: "fstat option"
  ob_data :: "string option"
  ob_after :: "fstat option"
  ob_path_after :: "fstat option"

definition stable_read :: "fstat \<Rightarrow> fstat \<Rightarrow> fstat \<Rightarrow> string \<Rightarrow> nat \<Rightarrow> bool" where
  "stable_read before after path_after bytes limit =
     (fs_len before = fs_len after \<and> fs_modified before = fs_modified after
      \<and> fs_is_file path_after \<and> \<not> fs_symlink path_after
      \<and> length bytes = unat (fs_len before) \<and> length bytes \<le> limit
      \<and> fs_ctime before = fs_ctime after \<and> fs_dev before = fs_dev path_after
      \<and> fs_ino before = fs_ino path_after)"

definition read_bounded_file :: "observed_file option \<Rightarrow> nat \<Rightarrow> vault_error + string" where
  "read_bounded_file opened limit =
     (case opened of None \<Rightarrow> Inl IoError | Some f \<Rightarrow>
      case ob_before f of None \<Rightarrow> Inl IoError | Some before \<Rightarrow>
      if \<not> fs_is_file before \<or> limit < unat (fs_len before) then Inl NotRegularOrTooBig
      else case ob_data f of None \<Rightarrow> Inl IoError | Some data \<Rightarrow>
      case ob_after f of None \<Rightarrow> Inl IoError | Some after \<Rightarrow>
      case ob_path_after f of None \<Rightarrow> Inl IoError | Some path_after \<Rightarrow>
      let bytes = take (limit + 1) data
      in if stable_read before after path_after bytes limit then Inr bytes else Inl ChangedWhileRead)"

definition verify_vault_file :: "vault_lib \<Rightarrow> observed_file option \<Rightarrow> signed_receipt \<Rightarrow> string \<Rightarrow> vault_error + unit" where
  "verify_vault_file lib file receipt pinned_pubkey =
     (case verify_receipt lib receipt pinned_pubkey of
        Inl e \<Rightarrow> Inl e
      | Inr _ \<Rightarrow>
          (case read_bounded_file file MAX_OBJECT_BYTES of
             Inl e \<Rightarrow> Inl e | Inr bytes \<Rightarrow> verify_body lib bytes receipt))"

definition read_receipt :: "vault_lib \<Rightarrow> observed_file option \<Rightarrow> vault_error + signed_receipt" where
  "read_receipt lib file =
     (case read_bounded_file file MAX_RECEIPT_BYTES of
        Inl e \<Rightarrow> Inl e
      | Inr bytes \<Rightarrow> (case vl_parse_receipt lib bytes of None \<Rightarrow> Inl BadJson | Some r \<Rightarrow> Inr r))"

section \<open>Private directories and key files\<close>

definition mode_bits :: "u32 \<Rightarrow> fstat \<Rightarrow> u32" where
  "mode_bits bits m = and (fs_mode m) bits"

definition check_directory :: "u32 \<Rightarrow> bool \<Rightarrow> fstat \<Rightarrow> vault_error + unit" where
  "check_directory euid is_target m =
     (if \<not> fs_is_dir m \<or> fs_symlink m then Inl LinkInPath
      else if fs_uid m \<noteq> euid \<and> fs_uid m \<noteq> 0 then Inl UntrustedOwner
      else if mode_bits 18 m \<noteq> 0 \<and> \<not> (mode_bits 512 m \<noteq> 0 \<and> fs_uid m = 0)
      then Inl WritableByOthers
      else if is_target \<and> (fs_uid m \<noteq> euid \<or> mode_bits 511 m \<noteq> 448) then Inl NotPrivate
      else Inr ())"

text \<open>Every prefix of the path is examined, from the root on.\<close>

fun check_prefixes ::
  "(path_component list \<Rightarrow> fstat option) \<Rightarrow> u32 \<Rightarrow> path_component list \<Rightarrow> path_component list \<Rightarrow>
     vault_error + unit" where
  "check_prefixes stat euid seen [] = Inr ()"
| "check_prefixes stat euid seen (c # cs) =
     (case stat (seen @ [c]) of
        None \<Rightarrow> Inl IoError
      | Some m \<Rightarrow>
          (case check_directory euid (cs = []) m of
             Inl e \<Rightarrow> Inl e
           | Inr _ \<Rightarrow> check_prefixes stat euid (seen @ [c]) cs))"

definition validate_private_directory ::
  "(path_component list \<Rightarrow> fstat option) \<Rightarrow> u32 \<Rightarrow> path \<Rightarrow> vault_error + unit" where
  "validate_private_directory stat euid p =
     (if \<not> is_absolute p \<or> ParentDir \<in> set (components p) then Inl NotCleanAbsolute
      else check_prefixes stat euid [] (components p))"

definition private_file :: "u32 \<Rightarrow> fstat \<Rightarrow> bool" where
  "private_file euid m = (fs_uid m = euid \<and> mode_bits 511 m = 384 \<and> fs_nlink m = 1)"

definition read_storage_file ::
  "u32 \<Rightarrow> fstat option \<Rightarrow> observed_file option \<Rightarrow> nat \<Rightarrow> vault_error + string" where
  "read_storage_file euid path_stat file maximum =
     (case path_stat of
        None \<Rightarrow> Inl IoError
      | Some m \<Rightarrow> if \<not> private_file euid m then Inl BadStorageFile else read_bounded_file file maximum)"

definition load_key ::
  "vault_lib \<Rightarrow> (path_component list \<Rightarrow> fstat option) \<Rightarrow> u32 \<Rightarrow> path option \<Rightarrow> fstat option \<Rightarrow>
     observed_file option \<Rightarrow> vault_error + string" where
  "load_key lib stat euid parent path_stat file =
     (case parent of None \<Rightarrow> Inl NotCleanAbsolute | Some dir \<Rightarrow>
      case validate_private_directory stat euid dir of Inl e \<Rightarrow> Inl e | Inr _ \<Rightarrow>
      case path_stat of None \<Rightarrow> Inl IoError | Some m \<Rightarrow>
      if \<not> private_file euid m then Inl BadKeyFile
      else case read_bounded_file file 128 of Inl e \<Rightarrow> Inl e | Inr bytes \<Rightarrow>
      case from_utf8 bytes of None \<Rightarrow> Inl BadUtf8 | Some text \<Rightarrow>
      case vl_hex_decode lib (trim text) of None \<Rightarrow> Inl BadHex | Some key \<Rightarrow>
      if length key = 32 then Inr key else Inl BadKeyLength)"

section \<open>Bundles\<close>

definition CHUNK_BYTES :: nat where
  "CHUNK_BYTES = 16 * 1024 * 1024"

definition MAX_BUNDLE_BYTES :: nat where
  "MAX_BUNDLE_BYTES = 1024 * 1024 * 1024"

definition MAX_MANIFEST_BYTES :: nat where
  "MAX_MANIFEST_BYTES = 256 * 1024"

definition MAX_REVIEWS :: nat where
  "MAX_REVIEWS = 100"

definition valid_bundle_id :: "string \<Rightarrow> bool" where
  "valid_bundle_id value = (length value = 32 \<and> list_all lower_hex_digit value)"

definition manifest_fields_ok :: "bundle_manifest \<Rightarrow> string \<Rightarrow> bool" where
  "manifest_fields_ok manifest bytes =
     (mf_format manifest = ''argos-recovery-bundle-v1'' \<and> valid_bundle_id (mf_bundle_id manifest)
      \<and> valid_hash (mf_sha256 manifest) \<and> mf_size_bytes manifest \<noteq> 0
      \<and> unat (mf_size_bytes manifest) \<le> MAX_BUNDLE_BYTES
      \<and> bm_original_path (mf_metadata manifest) \<noteq> []
      \<and> length (bm_original_path (mf_metadata manifest)) \<le> 4096
      \<and> is_absolute (bm_original_path (mf_metadata manifest))
      \<and> (case bm_recovery_plan (mf_metadata manifest) of None \<Rightarrow> True | Some p \<Rightarrow> length p \<le> 65536)
      \<and> mf_chunks manifest \<noteq> [] \<and> length (mf_chunks manifest) \<le> 64
      \<and> length bytes \<le> MAX_MANIFEST_BYTES)"

fun sum_chunks :: "chunk list \<Rightarrow> u64 \<Rightarrow> vault_error + u64" where
  "sum_chunks [] acc = Inr acc"
| "sum_chunks (c # cs) acc =
     (if \<not> valid_hash (ck_sha256 c) \<or> ck_size_bytes c = 0 \<or> CHUNK_BYTES < unat (ck_size_bytes c)
         \<or> (cs \<noteq> [] \<and> unat (ck_size_bytes c) \<noteq> CHUNK_BYTES)
      then Inl BadChunk
      else case checked_add acc (ck_size_bytes c) of
        None \<Rightarrow> Inl BundleTooBig | Some acc' \<Rightarrow> sum_chunks cs acc')"

definition validate_manifest :: "vault_lib \<Rightarrow> bundle_manifest \<Rightarrow> vault_error + unit" where
  "validate_manifest lib manifest =
     (case vl_manifest_json lib manifest of
        None \<Rightarrow> Inl BadJson
      | Some bytes \<Rightarrow>
          if \<not> manifest_fields_ok manifest bytes then Inl BadManifest
          else (case sum_chunks (mf_chunks manifest) 0 of
                  Inl e \<Rightarrow> Inl e
                | Inr sum_bytes \<Rightarrow> if sum_bytes \<noteq> mf_size_bytes manifest then Inl SizeMismatch else Inr ()))"

definition sign_value :: "vault_lib \<Rightarrow> ('a \<Rightarrow> string option) \<Rightarrow> 'a \<Rightarrow> string \<Rightarrow> vault_error + 'a signed" where
  "sign_value lib json value key =
     (case json value of
        None \<Rightarrow> Inl BadJson
      | Some data \<Rightarrow>
          Inr \<lparr>sg_value = value, sg_signature_hex = vl_hex_encode lib (vl_sign lib key data)\<rparr>)"

definition verify_value :: "vault_lib \<Rightarrow> ('a \<Rightarrow> string option) \<Rightarrow> 'a signed \<Rightarrow> string \<Rightarrow> vault_error + unit" where
  "verify_value lib json v key = check_signature lib (sg_signature_hex v) (json (sg_value v)) key"

definition validate_review :: "review_request \<Rightarrow> vault_error + unit" where
  "validate_review request =
     (if \<not> valid_vault_id (rq_request_id request) \<or> blank_str (rq_actor request)
         \<or> 256 < length (rq_actor request) \<or> blank_str (rq_reason request)
         \<or> 4096 < length (rq_reason request)
      then Inl BadReview else Inr ())"

definition completion_matches :: "bundle_record \<Rightarrow> string \<Rightarrow> string \<Rightarrow> completion \<Rightarrow> bool" where
  "completion_matches record key_id manifest_hash c =
     (co_format c = ''argos-bundle-completion-v1'' \<and> co_key_id c = key_id
      \<and> co_agent_id c = br_agent_id record \<and> co_bundle_id c = mf_bundle_id (br_manifest record)
      \<and> co_manifest_sha256 c = manifest_hash \<and> co_sha256 c = mf_sha256 (br_manifest record)
      \<and> co_size_bytes c = mf_size_bytes (br_manifest record))"

definition review_matches ::
  "bundle_record \<Rightarrow> string \<Rightarrow> string \<Rightarrow> string \<Rightarrow> nat \<Rightarrow> string option \<Rightarrow> review_event \<Rightarrow> bool" where
  "review_matches record key_id manifest_hash completion_hash i previous e =
     (re_format e = ''argos-bundle-review-v1'' \<and> re_key_id e = key_id
      \<and> re_agent_id e = br_agent_id record \<and> re_bundle_id e = mf_bundle_id (br_manifest record)
      \<and> re_manifest_sha256 e = manifest_hash \<and> re_completion_sha256 e = completion_hash
      \<and> re_sequence e = of_nat i + 1 \<and> re_previous_sha256 e = previous)"

fun decision_state :: "review_decision \<Rightarrow> string" where
  "decision_state Good = ''good''"
| "decision_state Revoked = ''revoked''"

fun check_reviews ::
  "vault_lib \<Rightarrow> string \<Rightarrow> bundle_record \<Rightarrow> string \<Rightarrow> string \<Rightarrow> string \<Rightarrow> review_event signed list \<Rightarrow>
     nat \<Rightarrow> string option \<Rightarrow> string \<Rightarrow> vault_error + string" where
  "check_reviews lib key record key_id mh ch [] i previous state = Inr state"
| "check_reviews lib key record key_id mh ch (e # es) i previous state =
     (case verify_value lib (vl_review_json lib) e key of Inl x \<Rightarrow> Inl x | Inr _ \<Rightarrow>
      case validate_review (re_request (sg_value e)) of Inl x \<Rightarrow> Inl x | Inr _ \<Rightarrow>
      if \<not> review_matches record key_id mh ch i previous (sg_value e) then Inl ReviewChainBroken
      else case vl_signed_review_json lib e of
        None \<Rightarrow> Inl BadJson
      | Some json \<Rightarrow>
          check_reviews lib key record key_id mh ch es (Suc i) (Some (sha256 lib json))
            (decision_state (rq_decision (re_request (sg_value e)))))"

definition record_state ::
  "vault_lib \<Rightarrow> string \<Rightarrow> string \<Rightarrow> string \<Rightarrow> bundle_record \<Rightarrow> vault_error + string" where
  "record_state lib key key_id manifest_hash record =
     (case br_completion record of
        None \<Rightarrow> if br_reviews record \<noteq> [] then Inl ReviewWithoutCompletion else Inr ''unknown''
      | Some completion \<Rightarrow>
          (case verify_value lib (vl_completion_json lib) completion key of Inl e \<Rightarrow> Inl e | Inr _ \<Rightarrow>
           if \<not> completion_matches record key_id manifest_hash (sg_value completion)
           then Inl CompletionMismatch
           else case vl_signed_completion_json lib completion of
             None \<Rightarrow> Inl BadJson
           | Some json \<Rightarrow>
               check_reviews lib key record key_id manifest_hash (sha256 lib json) (br_reviews record)
                 0 None ''unknown''))"

definition manifest_receipt_matches :: "bundle_record \<Rightarrow> string \<Rightarrow> string \<Rightarrow> nat \<Rightarrow> bool" where
  "manifest_receipt_matches record key_id manifest_hash len =
     (let r = sr_receipt (br_manifest_receipt record)
      in rt_agent_id r = br_agent_id record \<and> rt_sha256 r = manifest_hash \<and> rt_key_id r = key_id
         \<and> rt_kind r = ''bundle-manifest'' \<and> unat (rt_size_bytes r) = len)"

definition verify_record :: "vault_lib \<Rightarrow> bundle_record \<Rightarrow> string \<Rightarrow> string \<Rightarrow> vault_error + unit" where
  "verify_record lib record key key_id =
     (case validate_manifest lib (br_manifest record) of Inl e \<Rightarrow> Inl e | Inr _ \<Rightarrow>
      if \<not> valid_vault_id (br_agent_id record) \<or> MAX_REVIEWS < length (br_reviews record)
      then Inl BadBundleScope
      else case vl_manifest_json lib (br_manifest record) of None \<Rightarrow> Inl BadJson | Some manifest_bytes \<Rightarrow>
      case verify_receipt lib (br_manifest_receipt record) key of Inl e \<Rightarrow> Inl e | Inr _ \<Rightarrow>
      let manifest_hash = sha256 lib manifest_bytes
      in if \<not> manifest_receipt_matches record key_id manifest_hash (length manifest_bytes)
         then Inl ManifestReceiptMismatch
         else case record_state lib key key_id manifest_hash record of Inl e \<Rightarrow> Inl e | Inr state \<Rightarrow>
         if br_current_review record \<noteq> state
            \<or> br_recommended record \<noteq> (state = ''good'' \<and> br_completion record \<noteq> None)
         then Inl ReviewStateMismatch else Inr ())"

section \<open>The identity of a control object\<close>

definition completion_identity_ok :: "string \<Rightarrow> string \<Rightarrow> completion \<Rightarrow> bool" where
  "completion_identity_ok agent key_id c =
     (co_format c = ''argos-bundle-completion-v1'' \<and> co_agent_id c = agent \<and> co_key_id c = key_id
      \<and> valid_bundle_id (co_bundle_id c) \<and> valid_hash (co_manifest_sha256 c)
      \<and> valid_hash (co_sha256 c) \<and> co_size_bytes c \<noteq> 0 \<and> unat (co_size_bytes c) \<le> MAX_BUNDLE_BYTES)"

definition review_identity_ok :: "string \<Rightarrow> string \<Rightarrow> review_event \<Rightarrow> bool" where
  "review_identity_ok agent key_id r =
     (re_format r = ''argos-bundle-review-v1'' \<and> re_agent_id r = agent \<and> re_key_id r = key_id
      \<and> valid_bundle_id (re_bundle_id r) \<and> valid_hash (re_manifest_sha256 r)
      \<and> valid_hash (re_completion_sha256 r) \<and> re_sequence r \<noteq> 0
      \<and> unat (re_sequence r) \<le> MAX_REVIEWS
      \<and> (case re_previous_sha256 r of None \<Rightarrow> True | Some h \<Rightarrow> valid_hash h))"

definition control_identity ::
  "vault_lib \<Rightarrow> string \<Rightarrow> string \<Rightarrow> string \<Rightarrow> string \<Rightarrow> string \<Rightarrow> vault_error + (string \<times> bool)" where
  "control_identity lib kind bytes agent key_id key =
     (if kind = ''bundle-manifest'' then
        (case vl_parse_manifest lib bytes of None \<Rightarrow> Inl BadJson | Some manifest \<Rightarrow>
         case validate_manifest lib manifest of Inl e \<Rightarrow> Inl e | Inr _ \<Rightarrow> Inr (mf_bundle_id manifest, False))
      else if kind = ''bundle-completion'' then
        (case vl_parse_completion lib bytes of None \<Rightarrow> Inl BadJson | Some doc \<Rightarrow>
         case verify_value lib (vl_completion_json lib) doc key of Inl e \<Rightarrow> Inl e | Inr _ \<Rightarrow>
         if \<not> completion_identity_ok agent key_id (sg_value doc) then Inl BadControlObject
         else Inr (co_bundle_id (sg_value doc), False))
      else if kind = ''bundle-review'' then
        (case vl_parse_review lib bytes of None \<Rightarrow> Inl BadJson | Some doc \<Rightarrow>
         case verify_value lib (vl_review_json lib) doc key of Inl e \<Rightarrow> Inl e | Inr _ \<Rightarrow>
         case validate_review (re_request (sg_value doc)) of Inl e \<Rightarrow> Inl e | Inr _ \<Rightarrow>
         if \<not> review_identity_ok agent key_id (sg_value doc) then Inl BadControlObject
         else Inr (re_bundle_id (sg_value doc), rq_decision (re_request (sg_value doc)) = Revoked))
      else Inl UnknownControlObject)"

section \<open>Specification notions\<close>

text \<open>
  What the crate relies on of the hexadecimal coding and of Ed25519, for one key pair: a public key
  has 32 bytes and can be loaded, a signature has 64 bytes and verifies under the public key.
\<close>

definition honest_key :: "vault_lib \<Rightarrow> string \<Rightarrow> bool" where
  "honest_key lib key =
     (hex_codec (vl_hex_encode lib) (vl_hex_decode lib)
      \<and> length (vl_public_of lib key) = 32
      \<and> vl_verifying_key lib (vl_public_of lib key) = Some (vl_public_of lib key)
      \<and> (\<forall>data. length (vl_sign lib key data) = 64
               \<and> vl_verify lib (vl_public_of lib key) data (vl_sign lib key data)))"

definition pinned_key :: "vault_lib \<Rightarrow> string \<Rightarrow> string" where
  "pinned_key lib key = vl_hex_encode lib (vl_public_of lib key)"

text \<open>
  A history is chained when the events are numbered from 1, each names the digest of the one
  before, and all are signed and about this bundle, this manifest and this completion.
\<close>

fun chained :: "vault_lib \<Rightarrow> string option \<Rightarrow> nat \<Rightarrow> review_event signed list \<Rightarrow> bool" where
  "chained lib previous i [] = True"
| "chained lib previous i (e # es) =
     (re_previous_sha256 (sg_value e) = previous \<and> re_sequence (sg_value e) = of_nat i + 1
      \<and> chained lib (map_option (sha256 lib) (vl_signed_review_json lib e)) (Suc i) es)"

definition review_authentic :: "vault_lib \<Rightarrow> string \<Rightarrow> bundle_record \<Rightarrow> string \<Rightarrow> string \<Rightarrow> review_event signed \<Rightarrow> bool" where
  "review_authentic lib key record manifest_hash completion_hash e =
     (verify_value lib (vl_review_json lib) e key = Inr ()
      \<and> re_agent_id (sg_value e) = br_agent_id record
      \<and> re_bundle_id (sg_value e) = mf_bundle_id (br_manifest record)
      \<and> re_manifest_sha256 (sg_value e) = manifest_hash
      \<and> re_completion_sha256 (sg_value e) = completion_hash)"

text \<open>
  An instance of the parameters, for examples: real hexadecimal coding, and stand-ins for the
  digest, the signatures and the JSON encoders.
\<close>

definition demo_sign :: "string \<Rightarrow> string \<Rightarrow> string" where
  "demo_sign key data = take 64 (data @ key @ replicate 64 (CHR ''x''))"

definition demo_vault_lib :: vault_lib where
  "demo_vault_lib =
     \<lparr>vl_hex_decode = hex_bytes, vl_hex_encode = hex_encode, vl_verifying_key = Some,
      vl_public_of = (\<lambda>key. key), vl_verify = (\<lambda>key data sig. sig = demo_sign key data),
      vl_sign = demo_sign, vl_digest = (\<lambda>bs. take 32 (rev bs @ replicate 32 (CHR ''z''))),
      vl_receipt_json = (\<lambda>r. Some (rt_agent_id r @ rt_kind r @ rt_sha256 r)),
      vl_signed_receipt_json = (\<lambda>r. Some (sr_signature_hex r)), vl_parse_receipt = (\<lambda>_. None),
      vl_manifest_json = (\<lambda>m. Some (mf_bundle_id m)), vl_parse_manifest = (\<lambda>_. None),
      vl_completion_json = (\<lambda>c. Some (co_sha256 c)),
      vl_signed_completion_json = (\<lambda>c. Some (sg_signature_hex c)), vl_parse_completion = (\<lambda>_. None),
      vl_review_json = (\<lambda>r. Some (rq_actor (re_request r))),
      vl_signed_review_json = (\<lambda>r. Some (sg_signature_hex r)), vl_parse_review = (\<lambda>_. None)\<rparr>"

definition demo_key :: string where
  "demo_key = replicate 32 (CHR ''k'')"

definition demo_manifest :: bundle_manifest where
  "demo_manifest =
     \<lparr>mf_format = ''argos-recovery-bundle-v1'', mf_bundle_id = replicate 32 (CHR ''a''), mf_created_at_ms = 1,
      mf_metadata = \<lparr>bm_original_path = ''/d/f'', bm_version = None, bm_review_history = ''[]'', bm_recovery_plan = None\<rparr>,
      mf_sha256 = replicate 64 (CHR ''b''), mf_size_bytes = 16777217,
      mf_chunks = [\<lparr>ck_sha256 = replicate 64 (CHR ''c''), ck_size_bytes = 16777216\<rparr>,
                   \<lparr>ck_sha256 = replicate 64 (CHR ''d''), ck_size_bytes = 1\<rparr>]\<rparr>"

definition demo_manifest_hash :: string where
  "demo_manifest_hash = sha256 demo_vault_lib (replicate 32 (CHR ''a''))"

definition demo_receipt :: receipt where
  "demo_receipt =
     \<lparr>rt_format = RECEIPT_FORMAT, rt_key_id = ''k1'', rt_agent_id = ''a1'', rt_kind = ''bundle-manifest'',
      rt_sha256 = demo_manifest_hash, rt_size_bytes = 32, rt_received_at_ms = 1, rt_retention_until_ms = 2\<rparr>"

definition demo_signature :: "string \<Rightarrow> string" where
  "demo_signature data = hex_encode (demo_sign demo_key data)"

definition demo_completion :: "completion signed" where
  "demo_completion =
     \<lparr>sg_value = \<lparr>co_format = ''argos-bundle-completion-v1'', co_key_id = ''k1'', co_agent_id = ''a1'',
        co_bundle_id = replicate 32 (CHR ''a''), co_manifest_sha256 = demo_manifest_hash,
        co_sha256 = replicate 64 (CHR ''b''), co_size_bytes = 16777217, co_completed_at_ms = 2\<rparr>,
      sg_signature_hex = demo_signature (replicate 64 (CHR ''b''))\<rparr>"

definition demo_review :: "review_event signed" where
  "demo_review =
     \<lparr>sg_value = \<lparr>re_format = ''argos-bundle-review-v1'', re_key_id = ''k1'', re_agent_id = ''a1'',
        re_bundle_id = replicate 32 (CHR ''a''), re_manifest_sha256 = demo_manifest_hash,
        re_completion_sha256 = sha256 demo_vault_lib (sg_signature_hex demo_completion),
        re_sequence = 1, re_previous_sha256 = None, re_reviewed_at_ms = 3,
        re_request = \<lparr>rq_request_id = ''r1'', rq_decision = Good, rq_actor = ''op'', rq_reason = ''ok''\<rparr>\<rparr>,
      sg_signature_hex = demo_signature ''op''\<rparr>"

definition demo_record :: bundle_record where
  "demo_record =
     \<lparr>br_agent_id = ''a1'', br_manifest = demo_manifest,
      br_manifest_receipt = \<lparr>sr_receipt = demo_receipt,
        sr_signature_hex = demo_signature (''a1'' @ ''bundle-manifest'' @ demo_manifest_hash)\<rparr>,
      br_completion = Some demo_completion, br_reviews = [demo_review],
      br_current_review = ''good'', br_recommended = True\<rparr>"

definition demo_fstat :: "u64 \<Rightarrow> fstat" where
  "demo_fstat len =
     \<lparr>fs_is_file = True, fs_is_dir = False, fs_symlink = False, fs_len = len, fs_modified = 0, fs_ctime = (0, 0),
      fs_dev = 1, fs_ino = 2, fs_uid = 0, fs_mode = 384, fs_nlink = 1\<rparr>"

section \<open>Signatures\<close>

lemma honest_signature:
  assumes "honest_key lib key"
  shows "check_signature lib (vl_hex_encode lib (vl_sign lib key data)) (Some data) (pinned_key lib key) = Inr ()"
  using assms by (simp add: honest_key_def check_signature_def public_key_def pinned_key_def hex_codec.decode_encode)

lemma signed_receipt_verifies:
  assumes "honest_key lib key" "receipt_fields_ok r" "sign_receipt lib r key = Inr sr"
  shows "sr_receipt sr = r \<and> verify_receipt lib sr (pinned_key lib key) = Inr ()"
  using assms honest_signature [of lib key]
  by (auto simp: sign_receipt_def verify_receipt_def split: option.splits)

lemma signed_value_verifies:
  assumes "honest_key lib key" "sign_value lib json v key = Inr sv"
  shows "sg_value sv = v \<and> verify_value lib json sv (pinned_key lib key) = Inr ()"
  using assms honest_signature [of lib key]
  by (auto simp: sign_value_def verify_value_def split: option.splits)

section \<open>Stable reads\<close>

text \<open>
  A bounded read returns a file only as a whole: exactly the bytes the file gave, as many as
  its size before and after the read, no more than the limit, and the path still names that file.
\<close>

theorem bounded_read_is_whole:
  assumes "read_bounded_file (Some f) limit = Inr bytes"
  shows "ob_data f = Some bytes \<and> length bytes \<le> limit
     \<and> (\<exists>before after path_after. ob_before f = Some before \<and> ob_after f = Some after
          \<and> ob_path_after f = Some path_after \<and> fs_is_file before \<and> \<not> fs_symlink path_after
          \<and> length bytes = unat (fs_len before) \<and> fs_len after = fs_len before
          \<and> (fs_dev path_after, fs_ino path_after) = (fs_dev before, fs_ino before))"
proof -
  obtain before data after path_after where
    o: "ob_before f = Some before" "ob_data f = Some data" "ob_after f = Some after"
      "ob_path_after f = Some path_after" "fs_is_file before"
    and s: "stable_read before after path_after (take (limit + 1) data) limit"
    and b: "bytes = take (limit + 1) data"
    using assms by (auto simp: read_bounded_file_def Let_def split: option.splits if_splits)
  note s = s [folded b, unfolded stable_read_def]
  then have "length bytes \<le> limit" by blast
  then have "length data \<le> limit" unfolding b by (simp add: min_def split: if_splits)
  then have "bytes = data" using b by simp
  with o s show ?thesis by auto
qed

section \<open>Manifests\<close>

lemma sum_chunks_Inr:
  "sum_chunks cs acc = Inr n \<Longrightarrow>
     unat n = unat acc + sum_list (map (\<lambda>c. unat (ck_size_bytes c)) cs)
     \<and> list_all (\<lambda>c. valid_hash (ck_sha256 c) \<and> 0 < unat (ck_size_bytes c) \<and> unat (ck_size_bytes c) \<le> CHUNK_BYTES) cs
     \<and> list_all (\<lambda>c. unat (ck_size_bytes c) = CHUNK_BYTES) (butlast cs)"
proof (induction cs arbitrary: acc)
  case (Cons c cs)
  then obtain acc' where a: "checked_add acc (ck_size_bytes c) = Some acc'" "sum_chunks cs acc' = Inr n"
    by (auto split: if_splits option.splits)
  have "0 < unat (ck_size_bytes c)" using Cons.prems by (auto simp: unat_gt_0 split: if_splits)
  with Cons.IH [OF a(2)] unat_checked_add [OF a(1)] Cons.prems show ?case
    by (auto split: if_splits)
qed simp

lemma full_chunks:
  assumes "cs \<noteq> []" "list_all (\<lambda>c. unat (ck_size_bytes c) = B) (butlast cs)"
  shows "sum_list (map (\<lambda>c. unat (ck_size_bytes c)) cs) = (length cs - 1) * B + unat (ck_size_bytes (last cs))"
proof -
  have "sum_list (map (\<lambda>c. unat (ck_size_bytes c)) xs) = length xs * B"
    if "list_all (\<lambda>c. unat (ck_size_bytes c) = B) xs" for xs
    using that by (induction xs) auto
  from this [OF assms(2)] have "sum_list (map (\<lambda>c. unat (ck_size_bytes c)) (butlast cs @ [last cs]))
      = (length cs - 1) * B + unat (ck_size_bytes (last cs))"
    by simp
  then show ?thesis using assms(1) by simp
qed

text \<open>
  The size of an accepted bundle fixes its division into chunks: every chunk but the last has
  16 MiB, the last has the rest, at least one byte, and there are as many as needed and at most
  64; the sizes add up to the declared size, without overflow and to at most 1 GiB.
\<close>

theorem accepted_manifest_is_exact:
  assumes "validate_manifest lib mf = Inr ()"
  defines "n \<equiv> length (mf_chunks mf)"
  shows "sum_list (map (\<lambda>c. unat (ck_size_bytes c)) (mf_chunks mf)) = unat (mf_size_bytes mf)
     \<and> 0 < unat (mf_size_bytes mf) \<and> unat (mf_size_bytes mf) \<le> MAX_BUNDLE_BYTES
     \<and> n = (unat (mf_size_bytes mf) + (CHUNK_BYTES - 1)) div CHUNK_BYTES \<and> 0 < n \<and> n \<le> 64
     \<and> (\<forall>i < n. unat (ck_size_bytes (mf_chunks mf ! i)) =
             (if i = n - 1 then unat (mf_size_bytes mf) - i * CHUNK_BYTES else CHUNK_BYTES)
             \<and> valid_hash (ck_sha256 (mf_chunks mf ! i)))"
proof -
  let ?cs = "mf_chunks mf"
  obtain bytes total where f: "manifest_fields_ok mf bytes" and s: "sum_chunks ?cs 0 = Inr total"
    and t: "total = mf_size_bytes mf"
    using assms(1) by (auto simp: validate_manifest_def split: option.splits sum.splits if_splits)
  have ne: "?cs \<noteq> []" "n \<le> 64" "0 < unat (mf_size_bytes mf)" "unat (mf_size_bytes mf) \<le> MAX_BUNDLE_BYTES"
    using f by (auto simp: manifest_fields_ok_def n_def unat_gt_0)
  note c = sum_chunks_Inr [OF s]
  then have sum: "unat (mf_size_bytes mf) = (n - 1) * CHUNK_BYTES + unat (ck_size_bytes (last ?cs))"
    using full_chunks [OF ne(1)] t by (simp add: n_def)
  have last: "0 < unat (ck_size_bytes (last ?cs))" "unat (ck_size_bytes (last ?cs)) \<le> CHUNK_BYTES"
    using c ne(1) by (auto simp: list_all_iff)
  have "n - 1 = (unat (mf_size_bytes mf) - 1) div CHUNK_BYTES"
    using sum last by (simp add: CHUNK_BYTES_def)
  then have n: "n = (unat (mf_size_bytes mf) + (CHUNK_BYTES - 1)) div CHUNK_BYTES"
  proof -
    have "(unat (mf_size_bytes mf) - 1 + CHUNK_BYTES) div CHUNK_BYTES = Suc (n - 1)"
      using \<open>n - 1 = _\<close> by (simp add: CHUNK_BYTES_def)
    moreover have "0 < n" using ne(1) by (simp add: n_def)
    ultimately show ?thesis using ne(3) by (simp add: CHUNK_BYTES_def)
  qed
  have "unat (ck_size_bytes (?cs ! i)) = (if i = n - 1 then unat (mf_size_bytes mf) - i * CHUNK_BYTES else CHUNK_BYTES)
      \<and> valid_hash (ck_sha256 (?cs ! i))" if i: "i < n" for i
  proof (cases "i = n - 1")
    case True
    then show ?thesis using sum ne(1) c i by (auto simp: last_conv_nth n_def list_all_iff)
  next
    case False
    then have "?cs ! i \<in> set (butlast ?cs)" using i ne(1)
      by (metis One_nat_def butlast_conv_take in_set_conv_nth length_butlast less_antisym n_def nth_butlast Suc_pred length_greater_0_conv)
    then show ?thesis using c False i by (auto simp: list_all_iff n_def)
  qed
  moreover have "0 < n" using ne(1) by (simp add: n_def)
  moreover have "sum_list (map (\<lambda>c. unat (ck_size_bytes c)) ?cs) = unat (mf_size_bytes mf)"
    using c t by simp
  ultimately show ?thesis using n ne(2-4) by blast
qed

section \<open>Review histories\<close>

lemma check_reviews_Inr:
  "check_reviews lib key record key_id mh ch es i previous st = Inr out \<Longrightarrow>
     chained lib previous i es \<and> list_all (review_authentic lib key record mh ch) es
     \<and> out = (if es = [] then st else decision_state (rq_decision (re_request (sg_value (last es)))))"
proof (induction es arbitrary: i previous st)
  case (Cons e es)
  then obtain json where a: "verify_value lib (vl_review_json lib) e key = Inr ()"
      "review_matches record key_id mh ch i previous (sg_value e)" "vl_signed_review_json lib e = Some json"
      "check_reviews lib key record key_id mh ch es (Suc i) (Some (sha256 lib json))
         (decision_state (rq_decision (re_request (sg_value e)))) = Inr out"
    by (auto split: sum.splits if_splits option.splits)
  from Cons.IH [OF a(4)] a(1-3) show ?case
    by (auto simp: review_matches_def review_authentic_def)
qed simp

lemma decision_good [simp]: "decision_state d = ''good'' \<longleftrightarrow> d = Good"
  by (cases d) auto

text \<open>
  C38: in a verified bundle record the reviews form an unbroken signed chain about exactly this
  manifest and this completion, and the bundle is recommended exactly when it is completed and
  its last review says good.
\<close>

theorem recommended_bundle_was_reviewed:
  assumes "verify_record lib record key key_id = Inr ()"
  shows "chained lib None 0 (br_reviews record) \<and> length (br_reviews record) \<le> MAX_REVIEWS
     \<and> br_recommended record =
         (br_completion record \<noteq> None \<and> br_reviews record \<noteq> []
          \<and> rq_decision (re_request (sg_value (last (br_reviews record)))) = Good)
     \<and> (br_reviews record \<noteq> [] \<longrightarrow>
          (\<exists>completion cjson mjson. br_completion record = Some completion
             \<and> verify_value lib (vl_completion_json lib) completion key = Inr ()
             \<and> vl_signed_completion_json lib completion = Some cjson
             \<and> vl_manifest_json lib (br_manifest record) = Some mjson
             \<and> list_all (review_authentic lib key record (sha256 lib mjson) (sha256 lib cjson)) (br_reviews record)))"
proof -
  obtain mjson st where m: "vl_manifest_json lib (br_manifest record) = Some mjson"
    and len: "length (br_reviews record) \<le> MAX_REVIEWS"
    and st: "record_state lib key key_id (sha256 lib mjson) record = Inr st"
    and rec: "br_recommended record = (st = ''good'' \<and> br_completion record \<noteq> None)"
    using assms by (auto simp: verify_record_def Let_def split: sum.splits option.splits if_splits)
  show ?thesis
  proof (cases "br_completion record")
    case None
    then show ?thesis using st rec len by (auto simp: record_state_def split: if_splits)
  next
    case (Some completion)
    then obtain cjson where c: "verify_value lib (vl_completion_json lib) completion key = Inr ()"
        "vl_signed_completion_json lib completion = Some cjson"
        "check_reviews lib key record key_id (sha256 lib mjson) (sha256 lib cjson) (br_reviews record) 0 None ''unknown'' = Inr st"
      using st by (auto simp: record_state_def split: sum.splits option.splits if_splits)
    show ?thesis using check_reviews_Inr [OF c(3)] c(1,2) Some m rec len by auto
  qed
qed

section \<open>A concrete library and record\<close>

lemma demo_honest: "honest_key demo_vault_lib demo_key"
  using lower_hex.hex_codec_axioms by (auto simp: honest_key_def demo_vault_lib_def demo_key_def demo_sign_def min_def)

theorem bounded_read_is_whole_witness:
  "\<exists>f. read_bounded_file (Some f) 8 = Inr ''abc'' \<and> ob_data f = Some ''abc''"
proof -
  let ?f = "\<lparr>ob_before = Some (demo_fstat 3), ob_data = Some ''abc'', ob_after = Some (demo_fstat 3),
              ob_path_after = Some (demo_fstat 3)\<rparr>"
  have r: "read_bounded_file (Some ?f) 8 = Inr ''abc''" by code_simp
  from bounded_read_is_whole [OF r] r show ?thesis by blast
qed

theorem accepted_manifest_is_exact_witness:
  "validate_manifest demo_vault_lib demo_manifest = Inr ()
   \<and> length (mf_chunks demo_manifest) = (unat (mf_size_bytes demo_manifest) + (CHUNK_BYTES - 1)) div CHUNK_BYTES"
proof -
  have v: "validate_manifest demo_vault_lib demo_manifest = Inr ()" by code_simp
  from accepted_manifest_is_exact [OF v] v show ?thesis by blast
qed

theorem recommended_bundle_was_reviewed_witness:
  "verify_record demo_vault_lib demo_record (pinned_key demo_vault_lib demo_key) ''k1'' = Inr ()
   \<and> br_recommended demo_record
   \<and> rq_decision (re_request (sg_value (last (br_reviews demo_record)))) = Good"
proof -
  have v: "verify_record demo_vault_lib demo_record (pinned_key demo_vault_lib demo_key) ''k1'' = Inr ()"
    by code_simp
  have "br_recommended demo_record" by (simp add: demo_record_def)
  with recommended_bundle_was_reviewed [OF v] v show ?thesis by blast
qed

end
