(* ===== verification/Vault_Quota.thy ===== *)
theory Vault_Quota
  imports Vault_Core
begin

text \<open>
  Crate \<^verbatim>\<open>argos-vault\<close>, \<^verbatim>\<open>quota.rs\<close>: the logical capacity of the vault.  At start the counters
  are rebuilt from a scan of the storage directory; afterwards every new object is admitted
  against global, per-agent and free-space limits, with a budget of its own for revocations.
  What the directory holds (\<open>vault_dir\<close>), the metadata of the lock file and the free space that
  \<^verbatim>\<open>fstatvfs\<close> reports are arguments.
\<close>

section \<open>Configuration and usage\<close>

record agent_capacity_limit =
  al_max_bytes :: u64
  al_max_objects :: u64

record capacity_config =
  cf_global_max_bytes :: u64
  cf_global_max_objects :: u64
  cf_agent_max_bytes :: u64
  cf_agent_max_objects :: u64
  cf_min_free_bytes :: u64
  cf_revocation_max_bytes :: u64
  cf_revocation_max_objects :: u64
  cf_revocation_agent_max_bytes :: u64
  cf_revocation_agent_max_objects :: u64
  cf_revocation_reserved_free_bytes :: u64
  cf_max_scan_entries :: usize
  cf_max_tracked_agents :: usize
  cf_agent_overrides :: "(string, agent_capacity_limit) hmap"

definition capacity_config_default :: capacity_config where
  "capacity_config_default =
     \<lparr>cf_global_max_bytes = 100 * 1024 * 1024 * 1024, cf_global_max_objects = 1000000,
      cf_agent_max_bytes = 10 * 1024 * 1024 * 1024, cf_agent_max_objects = 100000,
      cf_min_free_bytes = 1024 * 1024 * 1024,
      cf_revocation_max_bytes = 8 * 1024 * 1024, cf_revocation_max_objects = 1000,
      cf_revocation_agent_max_bytes = 1024 * 1024, cf_revocation_agent_max_objects = 100,
      cf_revocation_reserved_free_bytes = 128 * 1024 * 1024,
      cf_max_scan_entries = 2100000, cf_max_tracked_agents = 4096, cf_agent_overrides = []\<rparr>"

record object_usage =
  ou_logical_bytes :: u64
  ou_objects :: u64
  ou_receipted_objects :: u64

definition object_usage_default :: object_usage where
  "object_usage_default = \<lparr>ou_logical_bytes = 0, ou_objects = 0, ou_receipted_objects = 0\<rparr>"

record agent_capacity_usage =
  au_usage :: object_usage
  au_normal_usage :: object_usage
  au_revocation_usage :: object_usage
  au_limits :: agent_capacity_limit

record filesystem_capacity =
  fc_supported :: bool
  fc_available_bytes :: "u64 option"
  fc_error :: "string option"

record capacity_usage =
  us_limits :: capacity_config
  us_total :: object_usage
  us_normal_usage :: object_usage
  us_revocation_usage :: object_usage
  us_agents :: "(string, agent_capacity_usage) hmap"
  us_filesystem :: filesystem_capacity
  us_reconstruction_complete :: bool
  us_storage_consistent :: bool
  us_new_uploads_blocked :: bool
  us_reasons :: "string list"
  us_admission_rejections :: u64

definition MAX_REASONS :: nat where
  "MAX_REASONS = 32"

definition METADATA_MARGIN :: u64 where
  "METADATA_MARGIN = of_nat (MAX_RECEIPT_BYTES + 65536)"

definition LOCK_NAME :: string where
  "LOCK_NAME = ''.argos-vault.lock''"

section \<open>The writer lock\<close>

text \<open>The lock keeps its file open; later metadata calls on it show the device.\<close>

record writer_lock =
  wl_dev :: "u64 option"

definition acquire_lock :: "u32 \<Rightarrow> fstat option \<Rightarrow> fstat option \<Rightarrow> bool \<Rightarrow> vault_error + writer_lock" where
  "acquire_lock euid opened path_stat flock_ok =
     (case opened of None \<Rightarrow> Inl IoError | Some m \<Rightarrow>
      case path_stat of None \<Rightarrow> Inl IoError | Some p \<Rightarrow>
      if \<not> fs_is_file m \<or> \<not> private_file euid m \<or> fs_dev m \<noteq> fs_dev p \<or> fs_ino m \<noteq> fs_ino p
      then Inl BadStorageFile
      else if \<not> flock_ok then Inl IoError
      else Inr \<lparr>wl_dev = Some (fs_dev m)\<rparr>)"

text \<open>\<open>info\<close> is what \<^verbatim>\<open>fstatvfs\<close> returned: available blocks and their size.\<close>

definition free_space :: "(u64 \<times> u64) option \<Rightarrow> filesystem_capacity" where
  "free_space info =
     (case info of
        None \<Rightarrow> \<lparr>fc_supported = True, fc_available_bytes = None,
                 fc_error = Some ''filesystem_free_probe_failed''\<rparr>
      | Some (bavail, frsize) \<Rightarrow>
          let bytes = checked_mul bavail frsize
          in \<lparr>fc_supported = True, fc_available_bytes = bytes,
              fc_error = (if bytes = None then Some ''filesystem_free_overflow'' else None)\<rparr>)"

definition same_filesystem :: "writer_lock \<Rightarrow> fstat \<Rightarrow> bool" where
  "same_filesystem lock m = (wl_dev lock = Some (fs_dev m))"

section \<open>The capacity state\<close>

record capacity_state =
  qs_limits :: capacity_config
  qs_total :: object_usage
  qs_agents :: "(string, object_usage) hmap"
  qs_reconstruction_complete :: bool
  qs_storage_consistent :: bool
  qs_reasons :: "string list"
  qs_admission_rejections :: u64
  qs_writer :: writer_lock
  qs_bundle_control_objects :: u64
  qs_bundle_control_owners :: "(string \<times> string, u64) hmap"
  qs_revocations :: object_usage
  qs_agent_revocations :: "(string, object_usage) hmap"

definition inconsistent :: "string \<Rightarrow> capacity_state \<Rightarrow> capacity_state" where
  "inconsistent code s =
     (let s = s\<lparr>qs_storage_consistent := False\<rparr>
      in if length (qs_reasons s) < MAX_REASONS \<and> code \<notin> set (qs_reasons s)
         then s\<lparr>qs_reasons := qs_reasons s @ [code]\<rparr> else s)"

definition count_entry :: "nat \<Rightarrow> capacity_state \<Rightarrow> capacity_state \<times> nat option" where
  "count_entry entries s =
     (if unat (cf_max_scan_entries (qs_limits s)) \<le> entries
      then (inconsistent ''startup_scan_limit'' (s\<lparr>qs_reconstruction_complete := False\<rparr>), None)
      else (s, Some (entries + 1)))"

definition subtract_usage :: "object_usage \<Rightarrow> object_usage \<Rightarrow> object_usage" where
  "subtract_usage total_use reserved =
     \<lparr>ou_logical_bytes = sat_sub (ou_logical_bytes total_use) (ou_logical_bytes reserved),
      ou_objects = sat_sub (ou_objects total_use) (ou_objects reserved),
      ou_receipted_objects = sat_sub (ou_receipted_objects total_use) (ou_receipted_objects reserved)\<rparr>"

definition agent_limit :: "capacity_state \<Rightarrow> string \<Rightarrow> agent_capacity_limit" where
  "agent_limit s agent =
     (case map_of (cf_agent_overrides (qs_limits s)) agent of
        Some l \<Rightarrow> l
      | None \<Rightarrow> \<lparr>al_max_bytes = cf_agent_max_bytes (qs_limits s),
                 al_max_objects = cf_agent_max_objects (qs_limits s)\<rparr>)"

text \<open>All four sums are computed before any counter changes.\<close>

definition add_usage :: "string \<Rightarrow> u64 \<Rightarrow> capacity_state \<Rightarrow> capacity_state option" where
  "add_usage agent bytes s =
     (case map_of (qs_agents s) agent of None \<Rightarrow> None | Some current \<Rightarrow>
      case checked_add (ou_logical_bytes (qs_total s)) bytes of None \<Rightarrow> None | Some total_bytes \<Rightarrow>
      case checked_add (ou_objects (qs_total s)) 1 of None \<Rightarrow> None | Some total_objects \<Rightarrow>
      case checked_add (ou_logical_bytes current) bytes of None \<Rightarrow> None | Some agent_bytes \<Rightarrow>
      case checked_add (ou_objects current) 1 of None \<Rightarrow> None | Some agent_objects \<Rightarrow>
      Some (s\<lparr>qs_total := (qs_total s)\<lparr>ou_logical_bytes := total_bytes, ou_objects := total_objects\<rparr>,
              qs_agents := hm_put agent
                (current\<lparr>ou_logical_bytes := agent_bytes, ou_objects := agent_objects\<rparr>) (qs_agents s)\<rparr>))"

definition note_control :: "string \<Rightarrow> string \<Rightarrow> capacity_state \<Rightarrow> capacity_state \<times> bool" where
  "note_control agent bundle s =
     (let key = (agent, bundle)
      in if map_of (qs_bundle_control_owners s) key = None \<and> 10000 \<le> length (qs_bundle_control_owners s)
         then (inconsistent ''bundle_owner_tracking_limit'' s, False)
         else (s\<lparr>qs_bundle_control_owners :=
                   hm_put key (case map_of (qs_bundle_control_owners s) key of None \<Rightarrow> 1 | Some n \<Rightarrow> n + 1)
                     (qs_bundle_control_owners s),
                 qs_bundle_control_objects := qs_bundle_control_objects s + 1\<rparr>, True))"

definition revocation_enabled :: "capacity_state \<Rightarrow> bool" where
  "revocation_enabled s =
     (0 < cf_revocation_max_bytes (qs_limits s) \<and> 0 < cf_revocation_max_objects (qs_limits s)
      \<and> 0 < cf_revocation_agent_max_bytes (qs_limits s)
      \<and> 0 < cf_revocation_agent_max_objects (qs_limits s))"

definition agent_reserved :: "capacity_state \<Rightarrow> string \<Rightarrow> object_usage" where
  "agent_reserved s agent =
     (case map_of (qs_agent_revocations s) agent of None \<Rightarrow> object_usage_default | Some u \<Rightarrow> u)"

definition add_revocation :: "string \<Rightarrow> u64 \<Rightarrow> capacity_state \<Rightarrow> capacity_state" where
  "add_revocation agent bytes s =
     (let r = qs_revocations s; u = agent_reserved s agent
      in s\<lparr>qs_revocations := r\<lparr>ou_logical_bytes := ou_logical_bytes r + bytes, ou_objects := ou_objects r + 1\<rparr>,
           qs_agent_revocations := hm_put agent
             (u\<lparr>ou_logical_bytes := ou_logical_bytes u + bytes, ou_objects := ou_objects u + 1\<rparr>)
             (qs_agent_revocations s)\<rparr>)"

definition mark_revocation_receipted :: "string \<Rightarrow> capacity_state \<Rightarrow> capacity_state" where
  "mark_revocation_receipted agent s =
     (if \<not> revocation_enabled s then s
      else let r = qs_revocations s; u = agent_reserved s agent
        in s\<lparr>qs_revocations := r\<lparr>ou_receipted_objects := ou_receipted_objects r + 1\<rparr>,
             qs_agent_revocations := hm_put agent
               (u\<lparr>ou_receipted_objects := ou_receipted_objects u + 1\<rparr>) (qs_agent_revocations s)\<rparr>)"

definition mark_receipted :: "string \<Rightarrow> capacity_state \<Rightarrow> capacity_state" where
  "mark_receipted agent s =
     (let s = s\<lparr>qs_total := (qs_total s)\<lparr>ou_receipted_objects := sat_add (ou_receipted_objects (qs_total s)) 1\<rparr>\<rparr>
      in case map_of (qs_agents s) agent of
           None \<Rightarrow> s
         | Some u \<Rightarrow> s\<lparr>qs_agents := hm_put agent
             (u\<lparr>ou_receipted_objects := sat_add (ou_receipted_objects u) 1\<rparr>) (qs_agents s)\<rparr>)"

definition write_failed :: "capacity_state \<Rightarrow> capacity_state" where
  "write_failed s = inconsistent ''publish_failed_restart_required'' s"

section \<open>Admission\<close>

definition over_limit :: "object_usage \<Rightarrow> u64 \<Rightarrow> u64 \<Rightarrow> u64 \<Rightarrow> bool" where
  "over_limit use bytes max_bytes max_objects =
     (max_bytes \<le> ou_logical_bytes use
      \<or> (case checked_add (ou_logical_bytes use) bytes of None \<Rightarrow> True | Some v \<Rightarrow> max_bytes < v)
      \<or> (case checked_add (ou_objects use) 1 of None \<Rightarrow> True | Some v \<Rightarrow> max_objects < v))"

definition reserved_free :: "bool \<Rightarrow> capacity_state \<Rightarrow> u64" where
  "reserved_free revocation s =
     (if \<not> revocation \<and> revocation_enabled s then cf_revocation_reserved_free_bytes (qs_limits s) else 0)"

definition free_floor_blocks :: "(u64 \<times> u64) option \<Rightarrow> u64 \<Rightarrow> u64 \<Rightarrow> u64 \<Rightarrow> bool" where
  "free_floor_blocks info min_free extra bytes =
     ((0 < min_free \<or> 0 < extra)
      \<and> (case (fc_available_bytes (free_space info),
               Option.bind (Option.bind (checked_add min_free extra) (\<lambda>v. checked_add v bytes))
                 (\<lambda>v. checked_add v METADATA_MARGIN)) of
           (Some free, Some needed) \<Rightarrow> free < needed
         | _ \<Rightarrow> True))"

text \<open>The budget that an admission is checked against: usage and limits, global and per agent.\<close>

definition admission_budget ::
  "capacity_state \<Rightarrow> string \<Rightarrow> object_usage \<Rightarrow> bool \<Rightarrow>
     object_usage \<times> object_usage \<times> u64 \<times> u64 \<times> agent_capacity_limit" where
  "admission_budget s agent current revocation =
     (if revocation
      then (qs_revocations s, agent_reserved s agent,
            cf_revocation_max_bytes (qs_limits s), cf_revocation_max_objects (qs_limits s),
            \<lparr>al_max_bytes = cf_revocation_agent_max_bytes (qs_limits s),
             al_max_objects = cf_revocation_agent_max_objects (qs_limits s)\<rparr>)
      else (subtract_usage (qs_total s) (qs_revocations s),
            subtract_usage current (agent_reserved s agent),
            cf_global_max_bytes (qs_limits s), cf_global_max_objects (qs_limits s),
            agent_limit s agent))"

definition capacity_admit ::
  "(u64 \<times> u64) option \<Rightarrow> string \<Rightarrow> u64 \<Rightarrow> bool \<Rightarrow> capacity_state \<Rightarrow> string + capacity_state" where
  "capacity_admit info agent bytes revocation s =
     (if \<not> qs_storage_consistent s \<or> \<not> qs_reconstruction_complete s
      then Inl ''storage_accounting_incomplete''
      else case map_of (qs_agents s) agent of None \<Rightarrow> Inl ''untracked_agent'' | Some current \<Rightarrow>
      (case admission_budget s agent current revocation of (total_use, agent_use, global_bytes, global_objects, limit) \<Rightarrow>
       if over_limit total_use bytes global_bytes global_objects
       then Inl (if revocation then ''revocation_global_limit'' else ''global_limit'')
       else if over_limit agent_use bytes (al_max_bytes limit) (al_max_objects limit)
       then Inl (if revocation then ''revocation_agent_limit'' else ''agent_limit'')
       else if free_floor_blocks info (cf_min_free_bytes (qs_limits s)) (reserved_free revocation s) bytes
       then Inl ''filesystem_free_floor_or_unavailable''
       else case add_usage agent bytes s of
         None \<Rightarrow> Inl ''accounting_overflow''
       | Some s' \<Rightarrow> Inr (if revocation then add_revocation agent bytes s' else s')))"

definition reserve_for ::
  "(u64 \<times> u64) option \<Rightarrow> string \<Rightarrow> u64 \<Rightarrow> bool \<Rightarrow> capacity_state \<Rightarrow> capacity_state \<times> (string + unit)" where
  "reserve_for info agent bytes revocation s =
     (case capacity_admit info agent bytes (revocation \<and> revocation_enabled s) s of
        Inl e \<Rightarrow> (s\<lparr>qs_admission_rejections := sat_add (qs_admission_rejections s) 1\<rparr>, Inl e)
      | Inr s' \<Rightarrow> (s', Inr ()))"

definition reserve ::
  "(u64 \<times> u64) option \<Rightarrow> string \<Rightarrow> u64 \<Rightarrow> capacity_state \<Rightarrow> capacity_state \<times> (string + unit)" where
  "reserve info agent bytes s = reserve_for info agent bytes False s"

definition reserve_revocation ::
  "(u64 \<times> u64) option \<Rightarrow> string \<Rightarrow> u64 \<Rightarrow> capacity_state \<Rightarrow> capacity_state \<times> (string + unit)" where
  "reserve_revocation info agent bytes s = reserve_for info agent bytes True s"

section \<open>The usage report\<close>

definition floor_blocked :: "filesystem_capacity \<Rightarrow> u64 \<Rightarrow> u64 \<Rightarrow> bool" where
  "floor_blocked fs min_free extra =
     ((0 < min_free \<or> 0 < extra)
      \<and> (case fc_available_bytes fs of
           None \<Rightarrow> True
         | Some free \<Rightarrow>
             (case Option.bind (checked_add min_free extra) (\<lambda>v. checked_add v METADATA_MARGIN) of
                None \<Rightarrow> True | Some needed \<Rightarrow> free < needed)))"

definition agent_usage :: "capacity_state \<Rightarrow> string \<times> object_usage \<Rightarrow> string \<times> agent_capacity_usage" where
  "agent_usage s = (\<lambda>(id, use).
     (id, \<lparr>au_usage = use, au_normal_usage = subtract_usage use (agent_reserved s id),
           au_revocation_usage = agent_reserved s id, au_limits = agent_limit s id\<rparr>))"

definition usage :: "(u64 \<times> u64) option \<Rightarrow> capacity_state \<Rightarrow> capacity_usage" where
  "usage info s =
     (let filesystem = free_space info;
          floor = floor_blocked filesystem (cf_min_free_bytes (qs_limits s)) (reserved_free False s);
          normal = subtract_usage (qs_total s) (qs_revocations s);
          global = (cf_global_max_bytes (qs_limits s) \<le> ou_logical_bytes normal
                    \<or> cf_global_max_objects (qs_limits s) \<le> ou_objects normal)
      in \<lparr>us_limits = qs_limits s, us_total = qs_total s, us_normal_usage = normal,
          us_revocation_usage = qs_revocations s, us_agents = map (agent_usage s) (qs_agents s),
          us_filesystem = filesystem, us_reconstruction_complete = qs_reconstruction_complete s,
          us_storage_consistent = qs_storage_consistent s,
          us_new_uploads_blocked =
            (\<not> qs_reconstruction_complete s \<or> \<not> qs_storage_consistent s \<or> floor \<or> global),
          us_reasons = qs_reasons s @ (if global then [''global_capacity_reached''] else [])
            @ (if floor then [''filesystem_free_floor_or_unavailable''] else []),
          us_admission_rejections = qs_admission_rejections s\<rparr>)"

section \<open>The scan at start\<close>

text \<open>
  What the scan finds: the entries of the root directory, in the order of \<^verbatim>\<open>read_dir\<close>, and for an
  agent directory its own entries and files by name.  \<open>None\<close> is an error of the operating system.
\<close>

record scanned_file =
  sc_stat :: "fstat option"
  sc_is_file :: bool
  sc_read :: "observed_file option"

record scanned_entry =
  se_name :: string
  se_stat :: "fstat option"
  se_objects :: "string option list option"
  se_files :: "string \<Rightarrow> scanned_file"

record vault_dir =
  vd_euid :: u32
  vd_stat :: "path_component list \<Rightarrow> fstat option"
  vd_path :: path
  vd_entries :: "scanned_entry option list option"

definition strip_suffix :: "string \<Rightarrow> string \<Rightarrow> string option" where
  "strip_suffix suf s =
     (if suffix suf s then Some (take (length s - length suf) s) else None)"

definition object_metadata :: "vault_dir \<Rightarrow> capacity_state \<Rightarrow> scanned_file \<Rightarrow> fstat option" where
  "object_metadata d s f =
     (case sc_stat f of
        None \<Rightarrow> None
      | Some m \<Rightarrow>
          if fs_is_file m \<and> \<not> fs_symlink m \<and> private_file (vd_euid d) m \<and> same_filesystem (qs_writer s) m
          then Some m else None)"

definition receipt_matches_object :: "string \<Rightarrow> string \<Rightarrow> string \<Rightarrow> u64 \<Rightarrow> receipt \<Rightarrow> bool" where
  "receipt_matches_object agent hash key_id len r =
     (rt_agent_id r = agent \<and> rt_sha256 r = hash \<and> rt_key_id r = key_id \<and> rt_size_bytes r = len)"

text \<open>The control objects of bundles are counted for their bundle, revocations also in their budget.\<close>

definition count_control ::
  "vault_lib \<Rightarrow> string \<Rightarrow> string \<Rightarrow> string \<Rightarrow> scanned_file \<Rightarrow> u64 \<Rightarrow> signed_receipt \<Rightarrow> capacity_state \<Rightarrow>
     capacity_state \<times> bool" where
  "count_control lib public key_id agent blob len sr s =
     (case read_bounded_file (sc_read blob) MAX_MANIFEST_BYTES of Inl _ \<Rightarrow> (s, False) | Inr bytes \<Rightarrow>
      case verify_body lib bytes sr of Inl _ \<Rightarrow> (s, False) | Inr _ \<Rightarrow>
      case control_identity lib (rt_kind (sr_receipt sr)) bytes agent key_id public of
        Inl _ \<Rightarrow> (s, False)
      | Inr (bundle, revoked) \<Rightarrow>
          (case note_control agent bundle s of (s, ok) \<Rightarrow>
             if \<not> ok then (s, False)
             else if revoked \<and> revocation_enabled s
             then (mark_revocation_receipted agent (add_revocation agent len s), True)
             else (s, True)))"

definition verify_object ::
  "vault_lib \<Rightarrow> string \<Rightarrow> string \<Rightarrow> vault_dir \<Rightarrow> string \<Rightarrow> string \<Rightarrow> scanned_file \<Rightarrow> scanned_file \<Rightarrow> u64 \<Rightarrow>
     capacity_state \<Rightarrow> capacity_state \<times> bool" where
  "verify_object lib public key_id d agent hash blob receipt_file len s =
     (case object_metadata d s receipt_file of None \<Rightarrow> (s, False) | Some _ \<Rightarrow>
      case read_receipt lib (sc_read receipt_file) of Inl _ \<Rightarrow> (s, False) | Inr sr \<Rightarrow>
      case verify_receipt lib sr public of Inl _ \<Rightarrow> (s, False) | Inr _ \<Rightarrow>
      if \<not> receipt_matches_object agent hash key_id len (sr_receipt sr) then (s, False)
      else if prefix ''bundle-'' (rt_kind (sr_receipt sr))
      then count_control lib public key_id agent blob len sr s
      else (s, True))"

datatype scan_outcome = ScanOk nat | ScanStopped | ScanFailed

definition scan_object ::
  "vault_lib \<Rightarrow> string \<Rightarrow> string \<Rightarrow> vault_dir \<Rightarrow> scanned_entry \<Rightarrow> string \<Rightarrow> capacity_state \<Rightarrow>
     capacity_state \<times> bool" where
  "scan_object lib public key_id d e filename s =
     (case strip_suffix ''.blob'' filename of
        None \<Rightarrow>
          (case strip_suffix ''.receipt.json'' filename of
             None \<Rightarrow> (inconsistent ''unexpected_or_temporary_object_file'' s, True)
           | Some hash \<Rightarrow>
               if \<not> valid_hash hash then (inconsistent ''unexpected_or_temporary_object_file'' s, True)
               else if \<not> sc_is_file (se_files e (hash @ ''.blob''))
               then (inconsistent ''receipt_without_object'' s, True) else (s, True))
      | Some hash \<Rightarrow>
          if \<not> valid_hash hash then (inconsistent ''invalid_object_name'' s, True)
          else (case object_metadata d s (se_files e filename) of
            None \<Rightarrow> ((inconsistent ''invalid_object_file'' s)\<lparr>qs_reconstruction_complete := False\<rparr>, True)
          | Some m \<Rightarrow>
              (case add_usage (se_name e) (fs_len m) s of
                 None \<Rightarrow> (s, False)
               | Some s \<Rightarrow>
                   (case verify_object lib public key_id d (se_name e) hash (se_files e filename)
                           (se_files e (hash @ ''.receipt.json'')) (fs_len m) s of (s, verified) \<Rightarrow>
                      (if verified then mark_receipted (se_name e) s
                       else inconsistent ''object_receipt_missing_invalid_or_mismatched'' s, True)))))"

fun scan_objects ::
  "vault_lib \<Rightarrow> string \<Rightarrow> string \<Rightarrow> vault_dir \<Rightarrow> scanned_entry \<Rightarrow> string option list \<Rightarrow> nat \<Rightarrow>
     capacity_state \<Rightarrow> capacity_state \<times> scan_outcome" where
  "scan_objects lib public key_id d e [] entries s = (s, ScanOk entries)"
| "scan_objects lib public key_id d e (x # xs) entries s =
     (case count_entry entries s of
        (s, None) \<Rightarrow> (s, ScanStopped)
      | (s, Some entries) \<Rightarrow>
          (case x of
             None \<Rightarrow> (s, ScanFailed)
           | Some filename \<Rightarrow>
               (case scan_object lib public key_id d e filename s of (s, ok) \<Rightarrow>
                  if ok then scan_objects lib public key_id d e xs entries s else (s, ScanFailed))))"

definition track_agent :: "string \<Rightarrow> capacity_state \<Rightarrow> capacity_state \<times> bool" where
  "track_agent name s =
     (if map_of (qs_agents s) name \<noteq> None then (s, True)
      else if unat (cf_max_tracked_agents (qs_limits s)) \<le> length (qs_agents s)
      then (inconsistent ''agent_tracking_limit'' (s\<lparr>qs_reconstruction_complete := False\<rparr>), False)
      else (s\<lparr>qs_agents := hm_put name object_usage_default (qs_agents s)\<rparr>, True))"

definition scan_agent_dir ::
  "vault_lib \<Rightarrow> string \<Rightarrow> string \<Rightarrow> vault_dir \<Rightarrow> scanned_entry \<Rightarrow> fstat \<Rightarrow> nat \<Rightarrow> capacity_state \<Rightarrow>
     capacity_state \<times> scan_outcome" where
  "scan_agent_dir lib public key_id d e m entries s =
     (if \<not> valid_vault_id (se_name e) then (inconsistent ''invalid_agent_directory'' s, ScanOk entries)
      else case track_agent (se_name e) s of (s, tracked) \<Rightarrow>
        if \<not> tracked then (s, ScanStopped)
        else if validate_private_directory (vd_stat d) (vd_euid d) (vd_path d @ ''/'' @ se_name e) \<noteq> Inr ()
             \<or> \<not> same_filesystem (qs_writer s) m
        then ((inconsistent ''invalid_agent_directory_permissions_or_filesystem'' s)
                \<lparr>qs_reconstruction_complete := False\<rparr>, ScanOk entries)
        else (case se_objects e of
                None \<Rightarrow> (s, ScanFailed)
              | Some objects \<Rightarrow> scan_objects lib public key_id d e objects entries s))"

definition scan_root_entry ::
  "vault_lib \<Rightarrow> string \<Rightarrow> string \<Rightarrow> vault_dir \<Rightarrow> scanned_entry \<Rightarrow> nat \<Rightarrow> capacity_state \<Rightarrow>
     capacity_state \<times> scan_outcome" where
  "scan_root_entry lib public key_id d e entries s =
     (if se_name e = LOCK_NAME then (s, ScanOk entries)
      else case se_stat e of
        None \<Rightarrow> (s, ScanFailed)
      | Some m \<Rightarrow>
          if \<not> fs_is_dir m \<or> fs_symlink m
          then (if map_of (qs_agents s) (se_name e) \<noteq> None \<or> prefix ''.argos-vault-'' (se_name e)
                then inconsistent ''unexpected_root_entry'' s else s, ScanOk entries)
          else scan_agent_dir lib public key_id d e m entries s)"

fun scan_root ::
  "vault_lib \<Rightarrow> string \<Rightarrow> string \<Rightarrow> vault_dir \<Rightarrow> scanned_entry option list \<Rightarrow> nat \<Rightarrow> capacity_state \<Rightarrow>
     capacity_state \<times> scan_outcome" where
  "scan_root lib public key_id d [] entries s = (s, ScanOk entries)"
| "scan_root lib public key_id d (x # xs) entries s =
     (case count_entry entries s of
        (s, None) \<Rightarrow> (s, ScanStopped)
      | (s, Some entries) \<Rightarrow>
          (case x of
             None \<Rightarrow> (s, ScanFailed)
           | Some e \<Rightarrow>
               (case scan_root_entry lib public key_id d e entries s of
                  (s, ScanOk entries) \<Rightarrow> scan_root lib public key_id d xs entries s
                | (s, stop) \<Rightarrow> (s, stop))))"

definition scan ::
  "vault_lib \<Rightarrow> vault_dir \<Rightarrow> string \<Rightarrow> string \<Rightarrow> capacity_state \<Rightarrow> capacity_state \<times> scan_outcome" where
  "scan lib d key key_id s =
     (case vd_entries d of
        None \<Rightarrow> (s, ScanFailed)
      | Some entries \<Rightarrow>
          scan_root lib (vl_hex_encode lib (vl_public_of lib key)) key_id d entries 0 s)"

definition capacity_limits_ok :: "capacity_config \<Rightarrow> bool" where
  "capacity_limits_ok limits =
     (1 \<le> cf_max_scan_entries limits \<and> cf_max_scan_entries limits \<le> 2100000
      \<and> 1 \<le> cf_max_tracked_agents limits \<and> cf_max_tracked_agents limits \<le> 16384
      \<and> length (cf_agent_overrides limits) \<le> unat (cf_max_tracked_agents limits)
      \<and> list_all (\<lambda>(id, _). valid_vault_id id) (cf_agent_overrides limits))"

definition capacity_state_new :: "capacity_config \<Rightarrow> writer_lock \<Rightarrow> capacity_state" where
  "capacity_state_new limits lock =
     \<lparr>qs_limits = limits, qs_total = object_usage_default, qs_agents = [],
      qs_reconstruction_complete = True, qs_storage_consistent = True, qs_reasons = [],
      qs_admission_rejections = 0, qs_writer = lock, qs_bundle_control_objects = 0,
      qs_bundle_control_owners = [], qs_revocations = object_usage_default, qs_agent_revocations = []\<rparr>"

fun track_configured :: "string list \<Rightarrow> capacity_state \<Rightarrow> capacity_state option" where
  "track_configured [] s = Some s"
| "track_configured (a # as) s =
     (if unat (cf_max_tracked_agents (qs_limits s)) \<le> length (qs_agents s) then None
      else track_configured as (s\<lparr>qs_agents := hm_put a object_usage_default (qs_agents s)\<rparr>))"

datatype capacity_error = BadCapacityLimits | LockError vault_error | TooManyAgents

definition capacity_open ::
  "vault_lib \<Rightarrow> vault_dir \<Rightarrow> (vault_error + writer_lock) \<Rightarrow> capacity_config \<Rightarrow> string list \<Rightarrow> string \<Rightarrow>
     string \<Rightarrow> capacity_error + capacity_state" where
  "capacity_open lib d lock limits configured key key_id =
     (if \<not> capacity_limits_ok limits then Inl BadCapacityLimits
      else case lock of Inl e \<Rightarrow> Inl (LockError e) | Inr lock \<Rightarrow>
      case track_configured configured (capacity_state_new limits lock) of
        None \<Rightarrow> Inl TooManyAgents
      | Some s \<Rightarrow>
          (case scan lib d key key_id s of
             (s, ScanFailed) \<Rightarrow>
               Inr (inconsistent ''startup_scan_failed'' (s\<lparr>qs_reconstruction_complete := False\<rparr>))
           | (s, _) \<Rightarrow> Inr s))"

section \<open>Specification notions\<close>

text \<open>
  The accounting invariant: the totals are the sums over the agents, the revocation budget is the
  sum over the agents' revocations, and no agent's revocations exceed its usage.  \<open>revocation_room\<close> asks
  for room for one more revocation of an agent, which is there right after its object was counted.
\<close>

definition bytes_of :: "('k, object_usage) hmap \<Rightarrow> nat" where
  "bytes_of m = sum_list (map (\<lambda>(_, u). unat (ou_logical_bytes u)) m)"

definition objects_of :: "('k, object_usage) hmap \<Rightarrow> nat" where
  "objects_of m = sum_list (map (\<lambda>(_, u). unat (ou_objects u)) m)"

definition agent_used :: "capacity_state \<Rightarrow> string \<Rightarrow> object_usage" where
  "agent_used s agent =
     (case map_of (qs_agents s) agent of None \<Rightarrow> object_usage_default | Some u \<Rightarrow> u)"

definition revocation_fits :: "capacity_state \<Rightarrow> string \<Rightarrow> nat \<Rightarrow> nat \<Rightarrow> bool" where
  "revocation_fits s agent bytes objects =
     (unat (ou_logical_bytes (agent_reserved s agent)) + bytes \<le> unat (ou_logical_bytes (agent_used s agent))
      \<and> unat (ou_objects (agent_reserved s agent)) + objects \<le> unat (ou_objects (agent_used s agent)))"

definition revocation_room :: "capacity_state \<Rightarrow> string \<Rightarrow> nat \<Rightarrow> bool" where
  "revocation_room s agent bytes =
     (revocation_fits s agent bytes 1
      \<and> unat (ou_logical_bytes (qs_revocations s)) + bytes \<le> unat (ou_logical_bytes (qs_total s))
      \<and> unat (ou_objects (qs_revocations s)) + 1 \<le> unat (ou_objects (qs_total s)))"

definition accounting_exact :: "capacity_state \<Rightarrow> bool" where
  "accounting_exact s =
     (hm_wf (qs_agents s) \<and> hm_wf (qs_agent_revocations s)
      \<and> unat (ou_logical_bytes (qs_total s)) = bytes_of (qs_agents s)
      \<and> unat (ou_objects (qs_total s)) = objects_of (qs_agents s)
      \<and> unat (ou_logical_bytes (qs_revocations s)) = bytes_of (qs_agent_revocations s)
      \<and> unat (ou_objects (qs_revocations s)) = objects_of (qs_agent_revocations s)
      \<and> (\<forall>agent. revocation_fits s agent 0 0))"

definition flags_ok :: "capacity_state \<Rightarrow> bool" where
  "flags_ok s =
     ((qs_storage_consistent s \<longleftrightarrow> qs_reasons s = [])
      \<and> (qs_storage_consistent s \<longrightarrow> qs_reconstruction_complete s)
      \<and> distinct (qs_reasons s) \<and> length (qs_reasons s) \<le> MAX_REASONS
      \<and> hm_wf (qs_bundle_control_owners s) \<and> length (qs_bundle_control_owners s) \<le> 10000
      \<and> length (qs_agents s) \<le> unat (cf_max_tracked_agents (qs_limits s)))"

text \<open>One call of the server on the capacity state, and the states that a server process reaches.\<close>

inductive capacity_step :: "capacity_state \<Rightarrow> capacity_state \<Rightarrow> bool" where
  step_reserve: "capacity_step s (fst (reserve_for info agent bytes revocation s))"
| step_receipted: "capacity_step s (mark_receipted agent s)"
| step_revocation_receipted: "capacity_step s (mark_revocation_receipted agent s)"
| step_note_control: "capacity_step s (fst (note_control agent bndl s))"
| step_write_failed: "capacity_step s (write_failed s)"

inductive capacity_reach :: "vault_lib \<Rightarrow> capacity_state \<Rightarrow> bool" for lib where
  reach_open: "capacity_open lib d lock limits configured key key_id = Inr s \<Longrightarrow> capacity_reach lib s"
| reach_step: "capacity_reach lib s \<Longrightarrow> capacity_step s s' \<Longrightarrow> capacity_reach lib s'"

definition normal_use :: "capacity_state \<Rightarrow> object_usage" where
  "normal_use s = subtract_usage (qs_total s) (qs_revocations s)"

definition agent_normal :: "capacity_state \<Rightarrow> string \<Rightarrow> object_usage" where
  "agent_normal s agent = subtract_usage (agent_used s agent) (agent_reserved s agent)"

definition fits_in :: "object_usage \<Rightarrow> u64 \<Rightarrow> u64 \<Rightarrow> u64 \<Rightarrow> bool" where
  "fits_in use bytes max_bytes max_objects =
     (unat (ou_logical_bytes use) < unat max_bytes
      \<and> unat (ou_logical_bytes use) + unat bytes \<le> unat max_bytes
      \<and> unat (ou_objects use) + 1 \<le> unat max_objects)"

definition free_enough :: "(u64 \<times> u64) option \<Rightarrow> u64 \<Rightarrow> u64 \<Rightarrow> u64 \<Rightarrow> bool" where
  "free_enough info min_free extra bytes =
     ((min_free = 0 \<and> extra = 0)
      \<or> (\<exists>free. fc_available_bytes (free_space info) = Some free
            \<and> unat min_free + unat extra + unat bytes + 81920 \<le> unat free))"

text \<open>A vault with one agent, opened on an empty directory, with 4 GB free.\<close>

definition demo_dir :: vault_dir where
  "demo_dir = \<lparr>vd_euid = 0, vd_stat = (\<lambda>_. None), vd_path = ''/v'', vd_entries = Some []\<rparr>"

definition demo_capacity :: capacity_state where
  "demo_capacity =
     (capacity_state_new capacity_config_default \<lparr>wl_dev = Some 1\<rparr>)\<lparr>qs_agents := [(''a1'', object_usage_default)]\<rparr>"

definition demo_free :: "(u64 \<times> u64) option" where
  "demo_free = Some (1000000, 4096)"

definition demo_capacity2 :: capacity_state where
  "demo_capacity2 = fst (reserve_for demo_free ''a1'' 100 True (fst (reserve_for demo_free ''a1'' 5000 False demo_capacity)))"

section \<open>Sums over maps\<close>

lemma sum_put:
  fixes f :: "'v \<Rightarrow> nat"
  assumes "hm_wf m"
  shows "sum_list (map (\<lambda>(_, u). f u) (hm_put k v m)) + (case map_of m k of None \<Rightarrow> 0 | Some u \<Rightarrow> f u)
     = sum_list (map (\<lambda>(_, u). f u) m) + f v"
  using assms
proof (induction m)
  case (Cons p m)
  obtain k' v' where p: "p = (k', v')" by fastforce
  show ?case
  proof (cases "k' = k")
    case True
    then have "map_of m k = None" using Cons.prems p by (simp add: hm_wf_def map_of_eq_None_iff)
    with True p show ?thesis by (simp add: hm_put_def)
  next
    case False
    with Cons p show ?thesis by (simp add: hm_put_def hm_wf_def)
  qed
qed (simp add: hm_put_def)

lemma sum_get: "map_of m k = Some u \<Longrightarrow> (f u :: nat) \<le> sum_list (map (\<lambda>(_, u). f u) m)"
  by (induction m) (auto split: if_splits)

lemma sum_del:
  fixes f :: "'v \<Rightarrow> nat"
  assumes "hm_wf m"
  shows "sum_list (map (\<lambda>(_, u). f u) (hm_del k m)) + (case map_of m k of None \<Rightarrow> 0 | Some u \<Rightarrow> f u)
     = sum_list (map (\<lambda>(_, u). f u) m)"
  using assms
proof (induction m)
  case (Cons p m)
  obtain k' v' where p: "p = (k', v')" by fastforce
  show ?case
  proof (cases "k' = k")
    case True
    then have "hm_del k m = m" using Cons.prems p by (simp add: hm_wf_def hm_del_def AList.delete_idem)
    with True Cons.prems p show ?thesis by (simp add: hm_del_def)
  next
    case False
    with Cons p show ?thesis by (simp add: hm_del_def hm_wf_def)
  qed
qed (simp add: hm_del_def)

lemma sum_le:
  fixes f :: "'v \<Rightarrow> nat"
  assumes "hm_wf r" "hm_wf m"
    "\<And>k u. map_of r k = Some u \<Longrightarrow> f u \<le> (case map_of m k of None \<Rightarrow> 0 | Some v \<Rightarrow> f v)"
  shows "sum_list (map (\<lambda>(_, u). f u) r) \<le> sum_list (map (\<lambda>(_, u). f u) m)"
  using assms
proof (induction r arbitrary: m)
  case (Cons p r)
  obtain k u where p: "p = (k, u)" by fastforce
  have "sum_list (map (\<lambda>(_, u). f u) r) \<le> sum_list (map (\<lambda>(_, u). f u) (hm_del k m))"
  proof (rule Cons.IH)
    show "hm_wf r" using Cons.prems(1) p by (simp add: hm_wf_def)
    show "hm_wf (hm_del k m)" using Cons.prems(2) by (rule hm_wf_del)
    fix k' u' assume r: "map_of r k' = Some u'"
    have "map_of r k = None" using Cons.prems(1) p by (simp add: hm_wf_def map_of_eq_None_iff)
    then have "k' \<noteq> k" using r by auto
    then show "f u' \<le> (case map_of (hm_del k m) k' of None \<Rightarrow> 0 | Some v \<Rightarrow> f v)"
      using Cons.prems(3) [of k' u'] p r by (simp add: hm_get_del)
  qed
  with sum_del [OF Cons.prems(2), of f k] Cons.prems(3) [of k u] p show ?case by simp
qed simp

lemma default_zero [simp]:
  "ou_logical_bytes object_usage_default = 0" "ou_objects object_usage_default = 0"
  by (simp_all add: object_usage_default_def)

section \<open>Invariants of the capacity state\<close>

text \<open>
  An invariant of the capacity state is kept by the scan at start, by an admission and by every
  later call as soon as the primitive updates keep it.  \<open>room\<close> is what counting an object
  guarantees for counting it as a revocation too.
\<close>

locale capacity_invariant =
  fixes inv :: "capacity_state \<Rightarrow> bool" and room :: "capacity_state \<Rightarrow> string \<Rightarrow> u64 \<Rightarrow> bool"
  assumes inv_new: "inv (capacity_state_new limits lock)"
    and inv_add_usage: "add_usage agent bytes s = Some s' \<Longrightarrow> inv s \<Longrightarrow> inv s' \<and> room s' agent bytes"
    and inv_add_revocation: "inv s \<Longrightarrow> room s agent bytes \<Longrightarrow> inv (add_revocation agent bytes s)"
    and inv_note_control: "inv s \<Longrightarrow> inv (fst (note_control agent b s))"
    and room_note_control: "room s agent bytes \<Longrightarrow> room (fst (note_control agent b s)) agent bytes"
    and inv_mark_receipted: "inv s \<Longrightarrow> inv (mark_receipted agent s)"
    and inv_mark_revocation: "inv s \<Longrightarrow> inv (mark_revocation_receipted agent s)"
    and inv_rejections: "inv s \<Longrightarrow> inv (s\<lparr>qs_admission_rejections := n\<rparr>)"
    and inv_inconsistent: "inv s \<Longrightarrow> inv (inconsistent code s)"
    and inv_incomplete: "inv s \<Longrightarrow> inv (inconsistent code (s\<lparr>qs_reconstruction_complete := False\<rparr>))"
    and inv_incomplete': "inv s \<Longrightarrow> inv ((inconsistent code s)\<lparr>qs_reconstruction_complete := False\<rparr>)"
    and inv_track: "inv s \<Longrightarrow> agent_used s a = object_usage_default \<Longrightarrow>
      length (qs_agents s) < unat (cf_max_tracked_agents (qs_limits s)) \<Longrightarrow>
      inv (s\<lparr>qs_agents := hm_put a object_usage_default (qs_agents s)\<rparr>)"
begin

lemma admit_inv:
  assumes "capacity_admit info agent bytes revocation s = Inr s'" "inv s"
  shows "inv s'"
proof -
  obtain t where t: "add_usage agent bytes s = Some t" "s' = (if revocation then add_revocation agent bytes t else t)"
    using assms(1) by (auto simp: capacity_admit_def split: if_splits option.splits prod.splits)
  with inv_add_usage [OF t(1) assms(2)] inv_add_revocation show ?thesis by simp
qed

lemma step_inv:
  assumes "capacity_step s s'" "inv s"
  shows "inv s'"
  using assms
proof cases
  case (step_reserve info agent bytes revocation)
  then show ?thesis using assms(2) by (auto simp: reserve_for_def inv_rejections split: sum.splits dest: admit_inv)
qed (simp_all add: inv_mark_receipted inv_mark_revocation inv_note_control write_failed_def inv_inconsistent)

lemma count_control_inv:
  assumes "inv s" "room s agent len"
  shows "inv (fst (count_control lib public key_id agent blob len sr s))"
proof -
  have "inv (mark_revocation_receipted agent (add_revocation agent len (fst (note_control agent b s))))" for b
    by (intro inv_mark_revocation inv_add_revocation inv_note_control room_note_control assms)
  then show ?thesis using assms(1) inv_note_control [OF assms(1)]
    by (auto simp: count_control_def split: sum.splits prod.splits) (metis fst_conv)+
qed

lemma verify_object_inv:
  assumes "inv s" "room s agent len"
  shows "inv (fst (verify_object lib public key_id d agent hash blob rf len s))"
  using assms(1) count_control_inv [OF assms]
  by (auto simp: verify_object_def split: option.splits sum.splits)

lemma scan_object_inv:
  assumes "inv s"
  shows "inv (fst (scan_object lib public key_id d e filename s))"
proof -
  have v: "inv t'" if "add_usage (se_name e) len s = Some t"
    "verify_object lib public key_id d (se_name e) hash blob rf len t = (t', ok)" for len t hash blob rf t' ok
    using verify_object_inv [of t "se_name e" len lib public key_id d hash blob rf] inv_add_usage [OF that(1) assms] that(2)
    by simp
  show ?thesis using assms v
    by (auto simp: scan_object_def inv_inconsistent inv_incomplete' split: option.splits prod.splits
        intro: inv_mark_receipted)
qed

lemma count_entry_inv: "inv s \<Longrightarrow> inv (fst (count_entry entries s))"
  by (simp add: count_entry_def inv_incomplete)

lemma scan_objects_inv:
  "inv s \<Longrightarrow> inv (fst (scan_objects lib public key_id d e xs entries s))"
proof (induction xs arbitrary: entries s)
  case (Cons x xs)
  show ?case using count_entry_inv [OF Cons.prems, of entries] scan_object_inv Cons.IH
    by (auto split: prod.splits option.splits) (metis fst_conv)+
qed simp

lemma track_agent_inv: "inv s \<Longrightarrow> inv (fst (track_agent name s))"
  by (auto simp: track_agent_def inv_track inv_incomplete agent_used_def)

lemma scan_root_entry_inv:
  assumes "inv s"
  shows "inv (fst (scan_root_entry lib public key_id d e entries s))"
proof -
  have "inv (fst (scan_agent_dir lib public key_id d e m entries s))" for m
    using assms track_agent_inv [OF assms, of "se_name e"]
    by (auto simp: scan_agent_dir_def scan_objects_inv inv_inconsistent inv_incomplete' split: prod.splits option.splits)
  then show ?thesis using assms by (auto simp: scan_root_entry_def inv_inconsistent split: option.splits)
qed

lemma scan_root_inv:
  "inv s \<Longrightarrow> inv (fst (scan_root lib public key_id d xs entries s))"
proof (induction xs arbitrary: entries s)
  case (Cons x xs)
  show ?case using count_entry_inv [OF Cons.prems, of entries] scan_root_entry_inv Cons.IH
    by (auto split: prod.splits option.splits scan_outcome.splits) (metis fst_conv)+
qed simp

lemma track_configured_inv:
  "track_configured as s = Some s' \<Longrightarrow> inv s \<Longrightarrow> (\<And>a. agent_used s a = object_usage_default) \<Longrightarrow> inv s'"
proof (induction as arbitrary: s)
  case (Cons a as)
  let ?s = "s\<lparr>qs_agents := hm_put a object_usage_default (qs_agents s)\<rparr>"
  have t: "track_configured as ?s = Some s'" "length (qs_agents s) < unat (cf_max_tracked_agents (qs_limits s))"
    using Cons.prems(1) by (simp_all split: if_splits)
  moreover have "agent_used ?s b = object_usage_default" for b
    using Cons.prems(3) [of b] by (simp add: agent_used_def hm_get_put)
  ultimately show ?case using Cons.IH [of ?s] inv_track [OF Cons.prems(2,3) t(2)] by simp
qed simp

lemma open_inv:
  assumes "capacity_open lib d lock limits configured key key_id = Inr s"
  shows "inv s"
proof -
  obtain lk t u out where t: "track_configured configured (capacity_state_new limits lk) = Some t"
    and u: "scan lib d key key_id t = (u, out)"
    and s: "s = u \<or> s = inconsistent ''startup_scan_failed'' (u\<lparr>qs_reconstruction_complete := False\<rparr>)"
    using assms by (auto simp: capacity_open_def split: if_splits sum.splits option.splits prod.splits scan_outcome.splits)
  have "inv t" by (rule track_configured_inv [OF t inv_new]) (simp add: capacity_state_new_def agent_used_def)
  then have "inv (fst (scan lib d key key_id t))" by (simp add: scan_def scan_root_inv split: option.splits)
  then show ?thesis using u s by (auto simp: inv_incomplete)
qed

lemma reach_inv: "capacity_reach lib s \<Longrightarrow> inv s"
  by (induction rule: capacity_reach.induct) (auto intro: open_inv step_inv)

end

section \<open>The counters stay exact\<close>

lemma add_usage_Some:
  assumes "add_usage agent bytes s = Some s'"
  obtains u where "map_of (qs_agents s) agent = Some u"
    "unat (ou_logical_bytes (qs_total s)) + unat bytes < 2 ^ 64"
    "unat (ou_logical_bytes (qs_total s')) = unat (ou_logical_bytes (qs_total s)) + unat bytes"
    "unat (ou_objects (qs_total s')) = unat (ou_objects (qs_total s)) + 1"
    "unat (ou_logical_bytes u + bytes) = unat (ou_logical_bytes u) + unat bytes"
    "unat (ou_objects u + 1) = unat (ou_objects u) + 1"
    "s' = s\<lparr>qs_total := (qs_total s)\<lparr>ou_logical_bytes := ou_logical_bytes (qs_total s) + bytes, ou_objects := ou_objects (qs_total s) + 1\<rparr>,
            qs_agents := hm_put agent (u\<lparr>ou_logical_bytes := ou_logical_bytes u + bytes, ou_objects := ou_objects u + 1\<rparr>) (qs_agents s)\<rparr>"
proof -
  obtain u where u: "map_of (qs_agents s) agent = Some u" using assms by (auto simp: add_usage_def split: option.splits)
  obtain a b c d where c: "checked_add (ou_logical_bytes (qs_total s)) bytes = Some a"
    "checked_add (ou_objects (qs_total s)) 1 = Some b" "checked_add (ou_logical_bytes u) bytes = Some c"
    "checked_add (ou_objects u) 1 = Some d"
    and s': "s' = s\<lparr>qs_total := (qs_total s)\<lparr>ou_logical_bytes := a, ou_objects := b\<rparr>,
            qs_agents := hm_put agent (u\<lparr>ou_logical_bytes := c, ou_objects := d\<rparr>) (qs_agents s)\<rparr>"
    using assms u by (auto simp: add_usage_def split: option.splits)
  note n = c [THEN unat_checked_add]
  have "a = ou_logical_bytes (qs_total s) + bytes" "b = ou_objects (qs_total s) + 1"
    "c = ou_logical_bytes u + bytes" "d = ou_objects u + 1" "unat (ou_logical_bytes (qs_total s)) + unat bytes < 2 ^ 64"
    using c by (auto simp: checked_add_Some)
  with n u s' that show ?thesis by simp
qed

lemma exact_fits: "accounting_exact s \<Longrightarrow> revocation_fits s a 0 0"
  by (auto simp: accounting_exact_def)

lemma revocations_le_total:
  assumes "accounting_exact s"
  shows "unat (ou_logical_bytes (qs_revocations s)) \<le> unat (ou_logical_bytes (qs_total s))
     \<and> unat (ou_objects (qs_revocations s)) \<le> unat (ou_objects (qs_total s))"
proof -
  have wf: "hm_wf (qs_agent_revocations s)" "hm_wf (qs_agents s)" using assms by (auto simp: accounting_exact_def)
  note fits = exact_fits [OF assms, unfolded revocation_fits_def agent_used_def agent_reserved_def]
  have "bytes_of (qs_agent_revocations s) \<le> bytes_of (qs_agents s)"
    unfolding bytes_of_def
  proof (rule sum_le [OF wf])
    fix k u assume "map_of (qs_agent_revocations s) k = Some u"
    then show "unat (ou_logical_bytes u) \<le> (case map_of (qs_agents s) k of None \<Rightarrow> 0 | Some v \<Rightarrow> unat (ou_logical_bytes v))"
      using fits [of k] by (auto split: option.splits)
  qed
  moreover have "objects_of (qs_agent_revocations s) \<le> objects_of (qs_agents s)"
    unfolding objects_of_def
  proof (rule sum_le [OF wf])
    fix k u assume "map_of (qs_agent_revocations s) k = Some u"
    then show "unat (ou_objects u) \<le> (case map_of (qs_agents s) k of None \<Rightarrow> 0 | Some v \<Rightarrow> unat (ou_objects v))"
      using fits [of k] by (auto split: option.splits)
  qed
  ultimately show ?thesis using assms by (simp add: accounting_exact_def)
qed

lemma add_usage_inv:
  assumes "add_usage agent bytes s = Some s'" "accounting_exact s"
  shows "accounting_exact s' \<and> revocation_room s' agent (unat bytes)"
proof -
  obtain u where u: "map_of (qs_agents s) agent = Some u"
    and n: "unat (ou_logical_bytes (qs_total s')) = unat (ou_logical_bytes (qs_total s)) + unat bytes"
      "unat (ou_objects (qs_total s')) = unat (ou_objects (qs_total s)) + 1"
      "unat (ou_logical_bytes u + bytes) = unat (ou_logical_bytes u) + unat bytes"
      "unat (ou_objects u + 1) = unat (ou_objects u) + 1"
    and s': "s' = s\<lparr>qs_total := (qs_total s)\<lparr>ou_logical_bytes := ou_logical_bytes (qs_total s) + bytes, ou_objects := ou_objects (qs_total s) + 1\<rparr>,
            qs_agents := hm_put agent (u\<lparr>ou_logical_bytes := ou_logical_bytes u + bytes, ou_objects := ou_objects u + 1\<rparr>) (qs_agents s)\<rparr>"
    using assms(1) by (rule add_usage_Some) auto
  let ?v = "u\<lparr>ou_logical_bytes := ou_logical_bytes u + bytes, ou_objects := ou_objects u + 1\<rparr>"
  have wf: "hm_wf (qs_agents s)" using assms(2) by (simp add: accounting_exact_def)
  have sums: "bytes_of (hm_put agent ?v (qs_agents s)) = bytes_of (qs_agents s) + unat bytes"
    "objects_of (hm_put agent ?v (qs_agents s)) = objects_of (qs_agents s) + 1"
    using sum_put [OF wf, of "\<lambda>u. unat (ou_logical_bytes u)" agent ?v] sum_put [OF wf, of "\<lambda>u. unat (ou_objects u)" agent ?v] u n(3,4)
    by (auto simp: bytes_of_def objects_of_def)
  have sel: "qs_agent_revocations s' = qs_agent_revocations s" "qs_revocations s' = qs_revocations s"
    "qs_agents s' = hm_put agent ?v (qs_agents s)"
    by (simp_all add: s')
  have res: "agent_reserved s' a = agent_reserved s a"
    "agent_used s' a = (if a = agent then ?v else agent_used s a)" for a
    by (simp_all add: sel agent_reserved_def agent_used_def hm_get_put)
  have own: "agent_used s agent = u" using u by (simp add: agent_used_def)
  have "revocation_fits s' a 0 0" for a
    using exact_fits [OF assms(2), of a] n(3,4) own by (auto simp: revocation_fits_def res)
  moreover have "revocation_fits s' agent (unat bytes) 1"
    using exact_fits [OF assms(2), of agent] n(3,4) own by (auto simp: revocation_fits_def res)
  ultimately show ?thesis using assms(2) sums n(1,2) wf revocations_le_total [OF assms(2)]
    unfolding accounting_exact_def revocation_room_def by (simp add: hm_wf_put sel)
qed

lemma put_reserved:
  assumes "hm_wf (qs_agent_revocations s)"
  shows "bytes_of (hm_put agent v (qs_agent_revocations s)) + unat (ou_logical_bytes (agent_reserved s agent))
      = bytes_of (qs_agent_revocations s) + unat (ou_logical_bytes v)"
    "objects_of (hm_put agent v (qs_agent_revocations s)) + unat (ou_objects (agent_reserved s agent))
      = objects_of (qs_agent_revocations s) + unat (ou_objects v)"
  using sum_put [OF assms, of "\<lambda>u. unat (ou_logical_bytes u)" agent v] sum_put [OF assms, of "\<lambda>u. unat (ou_objects u)" agent v]
  by (auto simp: agent_reserved_def bytes_of_def objects_of_def split: option.splits)

text \<open>Counting a revocation keeps the counters exact, without wrapping, when its object was just counted.\<close>

lemma plus_no_wrap: "unat a + unat b \<le> unat c \<Longrightarrow> unat (a + b) = unat a + unat b" for a b c :: u64
  using unat_lt64 [of c] by (simp add: unat_word_ariths)

lemma add_revocation_inv:
  assumes "accounting_exact s" "revocation_room s agent (unat bytes)"
  shows "accounting_exact (add_revocation agent bytes s)"
proof -
  let ?s = "add_revocation agent bytes s" and ?u = "agent_reserved s agent" and ?r = "qs_revocations s"
  let ?v = "?u\<lparr>ou_logical_bytes := ou_logical_bytes ?u + bytes, ou_objects := ou_objects ?u + 1\<rparr>"
  note room = assms(2) [unfolded revocation_room_def revocation_fits_def]
  have p: "unat (ou_logical_bytes ?u + bytes) = unat (ou_logical_bytes ?u) + unat bytes"
    "unat (ou_objects ?u + 1) = unat (ou_objects ?u) + 1"
    "unat (ou_logical_bytes ?r + bytes) = unat (ou_logical_bytes ?r) + unat bytes"
    "unat (ou_objects ?r + 1) = unat (ou_objects ?r) + 1"
    using room plus_no_wrap [of "ou_logical_bytes ?u" bytes "ou_logical_bytes (agent_used s agent)"]
      plus_no_wrap [of "ou_objects ?u" 1 "ou_objects (agent_used s agent)"]
      plus_no_wrap [of "ou_logical_bytes ?r" bytes "ou_logical_bytes (qs_total s)"]
      plus_no_wrap [of "ou_objects ?r" 1 "ou_objects (qs_total s)"] by simp_all
  have wf: "hm_wf (qs_agent_revocations s)" using assms(1) by (simp add: accounting_exact_def)
  have sel: "qs_agents ?s = qs_agents s" "qs_total ?s = qs_total s" "qs_agent_revocations ?s = hm_put agent ?v (qs_agent_revocations s)"
    "qs_revocations ?s = ?r\<lparr>ou_logical_bytes := ou_logical_bytes ?r + bytes, ou_objects := ou_objects ?r + 1\<rparr>"
    by (simp_all add: add_revocation_def Let_def)
  have res: "agent_reserved ?s a = (if a = agent then ?v else agent_reserved s a)" "agent_used ?s a = agent_used s a" for a
    by (simp_all add: agent_reserved_def agent_used_def sel hm_get_put)
  have "revocation_fits ?s a 0 0" for a
    using exact_fits [OF assms(1), of a] room p by (auto simp: revocation_fits_def res)
  then show ?thesis using assms(1) put_reserved [OF wf, of agent ?v] p
    unfolding accounting_exact_def by (auto simp: sel hm_wf_put)
qed

text \<open>The other operations change no byte or object counter.\<close>

lemma inconsistent_frame [simp]:
  "qs_limits (inconsistent code s) = qs_limits s" "qs_total (inconsistent code s) = qs_total s"
  "qs_agents (inconsistent code s) = qs_agents s" "qs_revocations (inconsistent code s) = qs_revocations s"
  "qs_agent_revocations (inconsistent code s) = qs_agent_revocations s" "qs_writer (inconsistent code s) = qs_writer s"
  "qs_bundle_control_owners (inconsistent code s) = qs_bundle_control_owners s"
  "qs_reconstruction_complete (inconsistent code s) = qs_reconstruction_complete s"
  "qs_storage_consistent (inconsistent code s) = False"
  "qs_admission_rejections (inconsistent code s) = qs_admission_rejections s"
  by (simp_all add: inconsistent_def Let_def)

lemma accounting_frame:
  assumes "qs_total s' = qs_total s" "qs_agents s' = qs_agents s" "qs_revocations s' = qs_revocations s"
    "qs_agent_revocations s' = qs_agent_revocations s"
  shows "accounting_exact s' = accounting_exact s" "revocation_room s' = revocation_room s"
  by (auto simp: fun_eq_iff accounting_exact_def revocation_room_def revocation_fits_def agent_reserved_def agent_used_def assms)

lemma inconsistent_exact [simp]:
  "accounting_exact (inconsistent code s) = accounting_exact s"
  "accounting_exact (s\<lparr>qs_reconstruction_complete := b\<rparr>) = accounting_exact s"
  "accounting_exact (s\<lparr>qs_admission_rejections := n\<rparr>) = accounting_exact s"
  by (rule accounting_frame; simp)+

lemma note_control_frame:
  "accounting_exact (fst (note_control agent bundle s)) = accounting_exact s"
  "revocation_room (fst (note_control agent bundle s)) = revocation_room s"
  by (rule accounting_frame; simp add: note_control_def Let_def)+

lemma put_same_counters:
  fixes m :: "('k, object_usage) hmap"
  assumes "hm_wf m" "map_of m k = Some u \<or> (map_of m k = None \<and> u = object_usage_default)"
    "ou_logical_bytes v = ou_logical_bytes u" "ou_objects v = ou_objects u"
  shows "bytes_of (hm_put k v m) = bytes_of m" "objects_of (hm_put k v m) = objects_of m"
  using sum_put [OF assms(1), of "\<lambda>u. unat (ou_logical_bytes u)" k v] sum_put [OF assms(1), of "\<lambda>u. unat (ou_objects u)" k v] assms(2-4)
  by (auto simp: bytes_of_def objects_of_def)

lemma mark_receipted_inv: "accounting_exact s \<Longrightarrow> accounting_exact (mark_receipted agent s)"
proof (cases "map_of (qs_agents s) agent")
  case None
  then show "accounting_exact s \<Longrightarrow> ?thesis"
    by (simp add: mark_receipted_def Let_def accounting_exact_def revocation_fits_def agent_reserved_def agent_used_def)
next
  case (Some u)
  let ?v = "u\<lparr>ou_receipted_objects := sat_add (ou_receipted_objects u) 1\<rparr>"
  assume a: "accounting_exact s"
  then have wf: "hm_wf (qs_agents s)" by (simp add: accounting_exact_def)
  have "revocation_fits (mark_receipted agent s) a' 0 0" for a'
    using exact_fits [OF a, of a'] Some
    by (auto simp: mark_receipted_def Let_def revocation_fits_def agent_reserved_def agent_used_def hm_get_put)
  with Some a put_same_counters [OF wf, of agent u ?v] show ?thesis
    by (auto simp: mark_receipted_def Let_def accounting_exact_def hm_wf_put)
qed

lemma mark_revocation_receipted_inv:
  assumes "accounting_exact s"
  shows "accounting_exact (mark_revocation_receipted agent s)"
proof (cases "revocation_enabled s")
  case True
  let ?u = "agent_reserved s agent"
  let ?v = "?u\<lparr>ou_receipted_objects := ou_receipted_objects ?u + 1\<rparr>"
  have wf: "hm_wf (qs_agent_revocations s)" using assms by (simp add: accounting_exact_def)
  have "map_of (qs_agent_revocations s) agent = Some ?u \<or> (map_of (qs_agent_revocations s) agent = None \<and> ?u = object_usage_default)"
    by (simp add: agent_reserved_def split: option.splits)
  note same = put_same_counters [OF wf this, of ?v]
  have "revocation_fits (mark_revocation_receipted agent s) a 0 0" for a
    using exact_fits [OF assms, of a] True
    by (auto simp: mark_revocation_receipted_def Let_def revocation_fits_def agent_reserved_def agent_used_def hm_get_put)
  with same assms True show ?thesis
    by (auto simp: mark_revocation_receipted_def Let_def accounting_exact_def hm_wf_put)
qed (simp add: mark_revocation_receipted_def assms)

lemma track_default_inv:
  assumes "accounting_exact s" "agent_used s a = object_usage_default"
  shows "accounting_exact (s\<lparr>qs_agents := hm_put a object_usage_default (qs_agents s)\<rparr>)"
proof -
  let ?s = "s\<lparr>qs_agents := hm_put a object_usage_default (qs_agents s)\<rparr>"
  have wf: "hm_wf (qs_agents s)" using assms by (simp add: accounting_exact_def)
  have "agent_used ?s b = agent_used s b" "agent_reserved ?s b = agent_reserved s b" for b
    using assms(2) by (simp_all add: agent_used_def agent_reserved_def hm_get_put)
  moreover have "map_of (qs_agents s) a = Some object_usage_default \<or> (map_of (qs_agents s) a = None \<and> object_usage_default = object_usage_default)"
    using assms(2) by (simp add: agent_used_def split: option.splits)
  ultimately show ?thesis using assms put_same_counters [OF wf, of a object_usage_default object_usage_default]
    unfolding accounting_exact_def revocation_fits_def by (simp add: hm_wf_put)
qed

section \<open>Flags and bounds\<close>

lemma flags_inconsistent:
  "flags_ok s \<Longrightarrow> flags_ok (inconsistent code s)"
  "flags_ok s \<Longrightarrow> flags_ok (inconsistent code (s\<lparr>qs_reconstruction_complete := b\<rparr>))"
  "flags_ok s \<Longrightarrow> flags_ok ((inconsistent code s)\<lparr>qs_reconstruction_complete := b\<rparr>)"
  by (auto simp: flags_ok_def inconsistent_def Let_def MAX_REASONS_def)

lemma flags_put:
  assumes "flags_ok s" "map_of (qs_agents s) a \<noteq> None \<or> length (qs_agents s) < unat (cf_max_tracked_agents (qs_limits s))"
  shows "flags_ok (s\<lparr>qs_agents := hm_put a v (qs_agents s)\<rparr>)" "flags_ok (s\<lparr>qs_total := w, qs_agents := hm_put a v (qs_agents s)\<rparr>)"
  using assms by (auto simp: flags_ok_def hm_len_put)

lemma flags_add_usage: "add_usage agent bytes s = Some s' \<Longrightarrow> flags_ok s \<Longrightarrow> flags_ok s'"
  by (erule add_usage_Some) (simp add: flags_put)

lemma flags_revocation [simp]:
  "flags_ok (add_revocation agent bytes s) = flags_ok s"
  "flags_ok (mark_revocation_receipted agent s) = flags_ok s"
  "flags_ok (s\<lparr>qs_admission_rejections := n\<rparr>) = flags_ok s"
  by (simp_all add: flags_ok_def add_revocation_def mark_revocation_receipted_def Let_def)

lemma flags_mark_receipted: "flags_ok s \<Longrightarrow> flags_ok (mark_receipted agent s)"
  by (auto simp: mark_receipted_def Let_def flags_put split: option.splits) (simp add: flags_ok_def)

lemma flags_note_control: "flags_ok s \<Longrightarrow> flags_ok (fst (note_control agent b s))"
  using flags_inconsistent(1) [of s]
  by (auto simp: note_control_def Let_def) (auto simp: flags_ok_def hm_len_put hm_wf_put)

interpretation exact: capacity_invariant accounting_exact "\<lambda>s agent bytes. revocation_room s agent (unat bytes)"
proof
  show "accounting_exact (capacity_state_new limits lock)" for limits lock
    by (simp add: accounting_exact_def capacity_state_new_def bytes_of_def objects_of_def revocation_fits_def
        agent_reserved_def agent_used_def)
qed (use add_usage_inv in \<open>simp_all add: add_revocation_inv note_control_frame mark_receipted_inv
        mark_revocation_receipted_inv track_default_inv\<close>)

interpretation flags: capacity_invariant flags_ok "\<lambda>s agent bytes. True"
proof
  show "flags_ok (capacity_state_new limits lock)" for limits lock
    by (simp add: flags_ok_def capacity_state_new_def MAX_REASONS_def)
qed (use flags_add_usage in \<open>simp_all add: flags_note_control flags_mark_receipted flags_inconsistent flags_put\<close>)

text \<open>
  C15: in every state that a vault server reaches, after the scan of its storage and any sequence
  of admissions, receipts and failures, the global counters are exactly the sums over the agents,
  the revocation budget is the sum over the agents' revocations, and revocations never exceed the
  usage they belong to.
\<close>

theorem capacity_accounting_exact:
  assumes "capacity_reach lib s"
  shows "unat (ou_logical_bytes (qs_total s)) = bytes_of (qs_agents s)
     \<and> unat (ou_objects (qs_total s)) = objects_of (qs_agents s)
     \<and> unat (ou_logical_bytes (qs_revocations s)) = bytes_of (qs_agent_revocations s)
     \<and> unat (ou_objects (qs_revocations s)) = objects_of (qs_agent_revocations s)
     \<and> ou_logical_bytes (qs_revocations s) \<le> ou_logical_bytes (qs_total s)
     \<and> ou_objects (qs_revocations s) \<le> ou_objects (qs_total s)
     \<and> (\<forall>agent. ou_logical_bytes (agent_reserved s agent) \<le> ou_logical_bytes (agent_used s agent)
              \<and> ou_objects (agent_reserved s agent) \<le> ou_objects (agent_used s agent))"
proof -
  note e = exact.reach_inv [OF assms]
  show ?thesis using e revocations_le_total [OF e] exact_fits [OF e]
    by (simp add: accounting_exact_def revocation_fits_def word_le_nat_alt)
qed

text \<open>
  In every reachable state the vault is inconsistent exactly when it names a reason, an
  incomplete reconstruction is inconsistent too, and reasons, tracked agents and bundle owners
  stay within their limits.
\<close>

theorem inconsistency_is_explained:
  assumes "capacity_reach lib s"
  shows "(\<not> qs_storage_consistent s) = (qs_reasons s \<noteq> [])
     \<and> (\<not> qs_reconstruction_complete s \<longrightarrow> \<not> qs_storage_consistent s)
     \<and> length (qs_reasons s) \<le> 32 \<and> distinct (qs_reasons s)
     \<and> length (qs_agents s) \<le> unat (cf_max_tracked_agents (qs_limits s))
     \<and> length (qs_bundle_control_owners s) \<le> 10000"
  using flags.reach_inv [OF assms] by (auto simp: flags_ok_def MAX_REASONS_def)

section \<open>Admission\<close>

lemma over_limit_fits: "over_limit use bytes mb mo = (\<not> fits_in use bytes mb mo)"
proof -
  have "unat mb < 2 ^ 64" "unat mo < 2 ^ 64" using unat_lt64 [of mb] unat_lt64 [of mo] by simp_all
  then show ?thesis
    by (auto simp: over_limit_def fits_in_def word_le_nat_alt word_less_nat_alt checked_add_None
        split: option.splits dest!: unat_checked_add)
qed

lemma margin: "unat METADATA_MARGIN = 81920"
  by (simp add: METADATA_MARGIN_def MAX_RECEIPT_BYTES_def)

lemma checked_sum:
  "Option.bind (checked_add a b) (\<lambda>v. checked_add v c) =
     (if unat a + unat b + unat c < 2 ^ 64 then Some (a + b + c) else None)" for a b c :: u64
  by (auto simp: checked_add_def unat_word_ariths split: option.splits)

lemma free_floor_enough: "free_floor_blocks info min_free extra bytes = (\<not> free_enough info min_free extra bytes)"
proof -
  define needed where "needed = Option.bind (Option.bind (checked_add min_free extra) (\<lambda>v. checked_add v bytes)) (\<lambda>v. checked_add v METADATA_MARGIN)"
  let ?n = "unat min_free + unat extra + unat bytes + 81920"
  have needed: "needed = (if ?n < 2 ^ 64 then Some (min_free + extra + bytes + METADATA_MARGIN) else None)"
    unfolding needed_def checked_sum by (auto simp: checked_add_def margin unat_word_ariths)
  show ?thesis
  proof (cases "fc_available_bytes (free_space info)")
    case (Some free)
    have "(case needed of None \<Rightarrow> True | Some n \<Rightarrow> free < n) = (unat free < ?n)"
      using unat_lt64 [of free] by (auto simp: needed word_less_nat_alt unat_word_ariths margin)
    then show ?thesis using Some
      unfolding free_floor_blocks_def free_enough_def needed_def [symmetric] by (auto simp: word_gt_0 split: option.splits)
  qed (simp add: free_floor_blocks_def free_enough_def word_gt_0)
qed

lemma add_usage_None:
  assumes "accounting_exact s" "map_of (qs_agents s) agent = Some u"
  shows "add_usage agent bytes s = None \<longleftrightarrow>
     2 ^ 64 \<le> unat (ou_logical_bytes (qs_total s)) + unat bytes \<or> 2 ^ 64 \<le> unat (ou_objects (qs_total s)) + 1"
proof -
  have "unat (ou_logical_bytes u) \<le> unat (ou_logical_bytes (qs_total s))" "unat (ou_objects u) \<le> unat (ou_objects (qs_total s))"
    using assms sum_get [OF assms(2), of "\<lambda>u. unat (ou_logical_bytes u)"] sum_get [OF assms(2), of "\<lambda>u. unat (ou_objects u)"]
    by (auto simp: accounting_exact_def bytes_of_def objects_of_def)
  then show ?thesis using assms(2)
    by (auto simp: add_usage_def checked_add_None split: option.splits) (auto simp: checked_add_def split: if_splits)
qed

text \<open>
  C37: an admission succeeds exactly when the accounting is intact, the agent is tracked, the
  object fits the global and the agent's budget (the revocation budgets for a revocation), the
  file system keeps its free floor and no counter overflows; a refused one changes nothing but
  the count of refusals.
\<close>

theorem admission_decision:
  assumes "capacity_reach lib s"
  defines "budget r \<equiv> r \<and> revocation_enabled s"
  shows "(snd (reserve_for info agent bytes r s) = Inr ()) =
     (qs_storage_consistent s \<and> map_of (qs_agents s) agent \<noteq> None
      \<and> (if budget r
         then fits_in (qs_revocations s) bytes (cf_revocation_max_bytes (qs_limits s)) (cf_revocation_max_objects (qs_limits s))
            \<and> fits_in (agent_reserved s agent) bytes (cf_revocation_agent_max_bytes (qs_limits s)) (cf_revocation_agent_max_objects (qs_limits s))
         else fits_in (normal_use s) bytes (cf_global_max_bytes (qs_limits s)) (cf_global_max_objects (qs_limits s))
            \<and> fits_in (agent_normal s agent) bytes (al_max_bytes (agent_limit s agent)) (al_max_objects (agent_limit s agent)))
      \<and> free_enough info (cf_min_free_bytes (qs_limits s)) (reserved_free (budget r) s) bytes
      \<and> unat (ou_logical_bytes (qs_total s)) + unat bytes < 2 ^ 64 \<and> unat (ou_objects (qs_total s)) + 1 < 2 ^ 64)
   \<and> (snd (reserve_for info agent bytes r s) \<noteq> Inr () \<longrightarrow>
       fst (reserve_for info agent bytes r s) = s\<lparr>qs_admission_rejections := sat_add (qs_admission_rejections s) 1\<rparr>)"
proof -
  note e = exact.reach_inv [OF assms(1)]
  have c: "qs_storage_consistent s \<Longrightarrow> qs_reconstruction_complete s"
    using flags.reach_inv [OF assms(1)] by (simp add: flags_ok_def)
  have frame: "snd (reserve_for info agent bytes r s) \<noteq> Inr () \<longrightarrow>
       fst (reserve_for info agent bytes r s) = s\<lparr>qs_admission_rejections := sat_add (qs_admission_rejections s) 1\<rparr>"
    by (simp add: reserve_for_def split: sum.splits)
  have ok: "(snd (reserve_for info agent bytes r s) = Inr ()) = (\<exists>s'. capacity_admit info agent bytes (budget r) s = Inr s')"
    by (auto simp: reserve_for_def budget_def split: sum.splits)
  show ?thesis
  proof (cases "map_of (qs_agents s) agent")
    case None
    then show ?thesis using frame ok by (auto simp: capacity_admit_def)
  next
    case (Some u)
    then have u: "agent_used s agent = u" by (simp add: agent_used_def)
    show ?thesis using frame ok Some u c add_usage_None [OF e Some, of bytes]
      by (auto simp: capacity_admit_def admission_budget_def over_limit_fits free_floor_enough normal_use_def
          agent_normal_def not_le split: option.splits if_splits)
  qed
qed

lemma normal_nat [simp]:
  "unat (ou_logical_bytes (normal_use s)) = unat (ou_logical_bytes (qs_total s)) - unat (ou_logical_bytes (qs_revocations s))"
  "unat (ou_objects (normal_use s)) = unat (ou_objects (qs_total s)) - unat (ou_objects (qs_revocations s))"
  "unat (ou_logical_bytes (agent_normal s a)) = unat (ou_logical_bytes (agent_used s a)) - unat (ou_logical_bytes (agent_reserved s a))"
  "unat (ou_objects (agent_normal s a)) = unat (ou_objects (agent_used s a)) - unat (ou_objects (agent_reserved s a))"
  by (simp_all add: normal_use_def agent_normal_def subtract_usage_def unat_sat_sub)

text \<open>What an admission adds to the counters, as natural numbers.\<close>

lemma admitted_counters:
  assumes "accounting_exact s" "capacity_admit info agent bytes budget s = Inr s'"
  defines "r \<equiv> if budget then unat bytes else 0" and "k \<equiv> if budget then 1 else 0"
  shows "unat (ou_logical_bytes (qs_total s')) = unat (ou_logical_bytes (qs_total s)) + unat bytes"
    "unat (ou_objects (qs_total s')) = unat (ou_objects (qs_total s)) + 1"
    "unat (ou_logical_bytes (agent_used s' agent)) = unat (ou_logical_bytes (agent_used s agent)) + unat bytes"
    "unat (ou_objects (agent_used s' agent)) = unat (ou_objects (agent_used s agent)) + 1"
    "unat (ou_logical_bytes (qs_revocations s')) = unat (ou_logical_bytes (qs_revocations s)) + r"
    "unat (ou_objects (qs_revocations s')) = unat (ou_objects (qs_revocations s)) + k"
    "unat (ou_logical_bytes (agent_reserved s' agent)) = unat (ou_logical_bytes (agent_reserved s agent)) + r"
    "unat (ou_objects (agent_reserved s' agent)) = unat (ou_objects (agent_reserved s agent)) + k"
    "a \<noteq> agent \<Longrightarrow> agent_used s' a = agent_used s a \<and> agent_reserved s' a = agent_reserved s a"
    "qs_limits s' = qs_limits s"
proof -
  obtain t where t: "add_usage agent bytes s = Some t" and s': "s' = (if budget then add_revocation agent bytes t else t)"
    using assms(2) by (auto simp: capacity_admit_def split: if_splits option.splits prod.splits)
  obtain u where u: "map_of (qs_agents s) agent = Some u"
    and n: "unat (ou_logical_bytes (qs_total t)) = unat (ou_logical_bytes (qs_total s)) + unat bytes"
      "unat (ou_objects (qs_total t)) = unat (ou_objects (qs_total s)) + 1"
      "unat (ou_logical_bytes u + bytes) = unat (ou_logical_bytes u) + unat bytes"
      "unat (ou_objects u + 1) = unat (ou_objects u) + 1"
    and t': "t = s\<lparr>qs_total := (qs_total s)\<lparr>ou_logical_bytes := ou_logical_bytes (qs_total s) + bytes, ou_objects := ou_objects (qs_total s) + 1\<rparr>,
            qs_agents := hm_put agent (u\<lparr>ou_logical_bytes := ou_logical_bytes u + bytes, ou_objects := ou_objects u + 1\<rparr>) (qs_agents s)\<rparr>"
    using t by (rule add_usage_Some) auto
  have used: "agent_used t agent = u\<lparr>ou_logical_bytes := ou_logical_bytes u + bytes, ou_objects := ou_objects u + 1\<rparr>"
    "agent_used s agent = u" "agent_reserved t b = agent_reserved s b" "qs_revocations t = qs_revocations s" "qs_limits t = qs_limits s"
    "b \<noteq> agent \<Longrightarrow> agent_used t b = agent_used s b" for b
    using u by (simp_all add: t' agent_used_def agent_reserved_def hm_get_put)
  have room: "revocation_room t agent (unat bytes)" using add_usage_inv [OF t assms(1)] by simp
  have rev: "agent_used (add_revocation agent bytes t) b = agent_used t b" "qs_total (add_revocation agent bytes t) = qs_total t"
    "qs_limits (add_revocation agent bytes t) = qs_limits t"
    "b \<noteq> agent \<Longrightarrow> agent_reserved (add_revocation agent bytes t) b = agent_reserved t b"
    "ou_logical_bytes (qs_revocations (add_revocation agent bytes t)) = ou_logical_bytes (qs_revocations s) + bytes"
    "ou_objects (qs_revocations (add_revocation agent bytes t)) = ou_objects (qs_revocations s) + 1"
    "ou_logical_bytes (agent_reserved (add_revocation agent bytes t) agent) = ou_logical_bytes (agent_reserved s agent) + bytes"
    "ou_objects (agent_reserved (add_revocation agent bytes t) agent) = ou_objects (agent_reserved s agent) + 1" for b
    using used(3,4) by (simp_all add: add_revocation_def Let_def agent_used_def) (simp_all add: agent_reserved_def hm_get_put)
  have plus: "unat (ou_logical_bytes (qs_revocations s) + bytes) = unat (ou_logical_bytes (qs_revocations s)) + unat bytes"
    "unat (ou_objects (qs_revocations s) + 1) = unat (ou_objects (qs_revocations s)) + 1"
    "unat (ou_logical_bytes (agent_reserved s agent) + bytes) = unat (ou_logical_bytes (agent_reserved s agent)) + unat bytes"
    "unat (ou_objects (agent_reserved s agent) + 1) = unat (ou_objects (agent_reserved s agent)) + 1"
    using room [unfolded revocation_room_def revocation_fits_def used(3,4)]
      plus_no_wrap [of "ou_logical_bytes (qs_revocations s)" bytes "ou_logical_bytes (qs_total t)"]
      plus_no_wrap [of "ou_objects (qs_revocations s)" 1 "ou_objects (qs_total t)"]
      plus_no_wrap [of "ou_logical_bytes (agent_reserved s agent)" bytes "ou_logical_bytes (agent_used t agent)"]
      plus_no_wrap [of "ou_objects (agent_reserved s agent)" 1 "ou_objects (agent_used t agent)"] by simp_all
  show "unat (ou_logical_bytes (qs_total s')) = unat (ou_logical_bytes (qs_total s)) + unat bytes"
    "unat (ou_objects (qs_total s')) = unat (ou_objects (qs_total s)) + 1"
    "unat (ou_logical_bytes (agent_used s' agent)) = unat (ou_logical_bytes (agent_used s agent)) + unat bytes"
    "unat (ou_objects (agent_used s' agent)) = unat (ou_objects (agent_used s agent)) + 1"
    "unat (ou_logical_bytes (qs_revocations s')) = unat (ou_logical_bytes (qs_revocations s)) + r"
    "unat (ou_objects (qs_revocations s')) = unat (ou_objects (qs_revocations s)) + k"
    "unat (ou_logical_bytes (agent_reserved s' agent)) = unat (ou_logical_bytes (agent_reserved s agent)) + r"
    "unat (ou_objects (agent_reserved s' agent)) = unat (ou_objects (agent_reserved s agent)) + k"
    "a \<noteq> agent \<Longrightarrow> agent_used s' a = agent_used s a \<and> agent_reserved s' a = agent_reserved s a"
    "qs_limits s' = qs_limits s"
    by (simp_all add: s' r_def k_def n used rev plus)
qed

lemma admitted_fits:
  assumes "capacity_admit info agent bytes budget s = Inr s'"
  shows "if budget
     then fits_in (qs_revocations s) bytes (cf_revocation_max_bytes (qs_limits s)) (cf_revocation_max_objects (qs_limits s))
        \<and> fits_in (agent_reserved s agent) bytes (cf_revocation_agent_max_bytes (qs_limits s)) (cf_revocation_agent_max_objects (qs_limits s))
     else fits_in (normal_use s) bytes (cf_global_max_bytes (qs_limits s)) (cf_global_max_objects (qs_limits s))
        \<and> fits_in (agent_normal s agent) bytes (al_max_bytes (agent_limit s agent)) (al_max_objects (agent_limit s agent))"
  using assms
  by (auto simp: capacity_admit_def admission_budget_def over_limit_fits normal_use_def agent_normal_def agent_used_def
      split: option.splits if_splits)

text \<open>
  An admitted object raises the counters of its budget by exactly its size and one object and
  keeps them within the limits of that budget, globally and for its agent; a revocation leaves
  the normal usage as it was, a normal object leaves the revocations, and no other agent's
  counters change.
\<close>

theorem admission_stays_in_budget:
  assumes "capacity_reach lib s" "reserve_for info agent bytes r s = (s', Inr ())"
  shows "(if r \<and> revocation_enabled s
      then unat (ou_logical_bytes (qs_revocations s')) = unat (ou_logical_bytes (qs_revocations s)) + unat bytes
         \<and> ou_logical_bytes (qs_revocations s') \<le> cf_revocation_max_bytes (qs_limits s')
         \<and> ou_objects (qs_revocations s') \<le> cf_revocation_max_objects (qs_limits s')
         \<and> ou_logical_bytes (agent_reserved s' agent) \<le> cf_revocation_agent_max_bytes (qs_limits s')
         \<and> ou_logical_bytes (normal_use s') = ou_logical_bytes (normal_use s)
         \<and> ou_objects (normal_use s') = ou_objects (normal_use s)
      else unat (ou_logical_bytes (normal_use s')) = unat (ou_logical_bytes (normal_use s)) + unat bytes
         \<and> ou_logical_bytes (normal_use s') \<le> cf_global_max_bytes (qs_limits s')
         \<and> ou_objects (normal_use s') \<le> cf_global_max_objects (qs_limits s')
         \<and> ou_logical_bytes (agent_normal s' agent) \<le> al_max_bytes (agent_limit s' agent)
         \<and> ou_objects (agent_normal s' agent) \<le> al_max_objects (agent_limit s' agent)
         \<and> ou_logical_bytes (qs_revocations s') = ou_logical_bytes (qs_revocations s))
    \<and> (\<forall>a. a \<noteq> agent \<longrightarrow> agent_used s' a = agent_used s a \<and> agent_reserved s' a = agent_reserved s a)"
proof -
  let ?b = "r \<and> revocation_enabled s"
  have admit: "capacity_admit info agent bytes ?b s = Inr s'"
    using assms(2) by (auto simp: reserve_for_def split: sum.splits)
  note e = exact.reach_inv [OF assms(1)]
  note c = admitted_counters [OF e admit]
  have le: "unat (ou_logical_bytes (qs_revocations s)) \<le> unat (ou_logical_bytes (qs_total s))"
    "unat (ou_objects (qs_revocations s)) \<le> unat (ou_objects (qs_total s))"
    "unat (ou_logical_bytes (agent_reserved s agent)) \<le> unat (ou_logical_bytes (agent_used s agent))"
    "unat (ou_objects (agent_reserved s agent)) \<le> unat (ou_objects (agent_used s agent))"
    using revocations_le_total [OF e] exact_fits [OF e, of agent] by (simp_all add: revocation_fits_def)
  have lim: "agent_limit s' agent = agent_limit s agent" unfolding agent_limit_def c(10) ..
  have others: "\<forall>a. a \<noteq> agent \<longrightarrow> agent_used s' a = agent_used s a \<and> agent_reserved s' a = agent_reserved s a"
    using c(9) by blast
  show ?thesis
  proof (cases ?b)
    case True
    then have "fits_in (qs_revocations s) bytes (cf_revocation_max_bytes (qs_limits s)) (cf_revocation_max_objects (qs_limits s))"
      "fits_in (agent_reserved s agent) bytes (cf_revocation_agent_max_bytes (qs_limits s)) (cf_revocation_agent_max_objects (qs_limits s))"
      using admitted_fits [OF admit] by simp_all
    then show ?thesis using True others le c(1-8) unfolding c(10)
      by (simp add: fits_in_def word_le_nat_alt word_unat_eq_iff)
  next
    case False
    then have "fits_in (normal_use s) bytes (cf_global_max_bytes (qs_limits s)) (cf_global_max_objects (qs_limits s))"
      "fits_in (agent_normal s agent) bytes (al_max_bytes (agent_limit s agent)) (al_max_objects (agent_limit s agent))"
      using admitted_fits [OF admit] by (simp_all only: if_False)
    moreover have "(if ?b then x else y) = y" for x y :: nat using False by (simp only: if_False)
    ultimately show ?thesis using False others le c(1-8) unfolding c(10) lim
      by (simp only: fits_in_def word_le_nat_alt word_unat_eq_iff normal_nat if_False) auto
  qed
qed

section \<open>Failures block new uploads\<close>

lemma inconsistent_sticky:
  assumes "capacity_step s s'" "\<not> qs_storage_consistent s"
  shows "\<not> qs_storage_consistent s'"
  using assms
  by (cases rule: capacity_step.cases)
    (auto simp: reserve_for_def capacity_admit_def mark_receipted_def mark_revocation_receipted_def note_control_def
      write_failed_def Let_def split: option.splits)

text \<open>
  After a failed publication every admission is refused, of normal objects and of
  revocations, and the usage report shows new uploads as blocked, whatever the server does in
  between: only a restart with a new scan lifts it.
\<close>

theorem failed_write_blocks_admission:
  assumes "capacity_step\<^sup>*\<^sup>* (write_failed s) s'"
  shows "snd (reserve_for info agent bytes r s') = Inl ''storage_accounting_incomplete''
     \<and> us_new_uploads_blocked (usage info s')"
proof -
  have "\<not> qs_storage_consistent s'"
    using assms by (induction rule: rtranclp_induct) (auto simp: write_failed_def dest: inconsistent_sticky)
  then show ?thesis by (simp add: reserve_for_def capacity_admit_def usage_def Let_def)
qed

text \<open>
  When the usage report says that new uploads are blocked, no normal upload of any agent and
  any size is admitted while the free space stays as reported.
\<close>

theorem blocked_report_is_true:
  assumes "us_new_uploads_blocked (usage info s)"
  shows "snd (reserve info agent bytes s) \<noteq> Inr ()"
proof -
  let ?mf = "cf_min_free_bytes (qs_limits s)" and ?ex = "reserved_free False s"
  have "\<not> free_enough info ?mf ?ex bytes" if "floor_blocked (free_space info) ?mf ?ex"
  proof -
    have "unat free < unat ?mf + unat ?ex + unat METADATA_MARGIN" if "fc_available_bytes (free_space info) = Some free" for free
      using that \<open>floor_blocked _ _ _\<close> unat_lt64 [of free]
      by (auto simp: floor_blocked_def checked_sum word_less_nat_alt unat_word_ariths split: if_splits)
    then show ?thesis using \<open>floor_blocked _ _ _\<close> by (fastforce simp: free_enough_def floor_blocked_def margin word_gt_0)
  qed
  moreover have "\<not> fits_in (normal_use s) bytes (cf_global_max_bytes (qs_limits s)) (cf_global_max_objects (qs_limits s))"
    if "cf_global_max_bytes (qs_limits s) \<le> ou_logical_bytes (normal_use s) \<or> cf_global_max_objects (qs_limits s) \<le> ou_objects (normal_use s)"
    using that by (auto simp: fits_in_def word_le_nat_alt)
  ultimately show ?thesis using assms
    by (auto simp: reserve_def reserve_for_def capacity_admit_def admission_budget_def over_limit_fits free_floor_enough usage_def
        Let_def normal_use_def [symmetric] split: option.splits sum.splits if_splits)
qed

section \<open>Witnesses\<close>

lemma demo_capacity_reach: "capacity_reach demo_vault_lib demo_capacity"
proof (rule reach_open)
  show "capacity_open demo_vault_lib demo_dir (Inr \<lparr>wl_dev = Some 1\<rparr>) capacity_config_default [''a1''] demo_key ''k1'' = Inr demo_capacity"
    by (simp add: capacity_open_def capacity_limits_ok_def demo_dir_def demo_capacity_def scan_def hm_put_def
        capacity_config_default_def capacity_state_new_def)
qed

lemma demo_capacity2_reach: "capacity_reach demo_vault_lib demo_capacity2"
  unfolding demo_capacity2_def by (intro reach_step [OF _ step_reserve] demo_capacity_reach)

lemmas capacity_eval = reserve_for_def capacity_admit_def admission_budget_def over_limit_def reserved_free_def revocation_enabled_def
  free_floor_blocks_def free_space_def subtract_usage_def agent_limit_def add_usage_def add_revocation_def agent_reserved_def
  checked_add_def checked_mul_def sat_sub_def METADATA_MARGIN_def MAX_RECEIPT_BYTES_def hm_put_def Let_def
  capacity_config_default_def capacity_state_new_def object_usage_default_def

lemma demo_capacity2_eq: "demo_capacity2 = demo_capacity
  \<lparr>qs_total := \<lparr>ou_logical_bytes = 5100, ou_objects = 2, ou_receipted_objects = 0\<rparr>,
   qs_agents := [(''a1'', \<lparr>ou_logical_bytes = 5100, ou_objects = 2, ou_receipted_objects = 0\<rparr>)],
   qs_revocations := \<lparr>ou_logical_bytes = 100, ou_objects = 1, ou_receipted_objects = 0\<rparr>,
   qs_agent_revocations := [(''a1'', \<lparr>ou_logical_bytes = 100, ou_objects = 1, ou_receipted_objects = 0\<rparr>)]\<rparr>"
  by (simp add: demo_capacity2_def demo_capacity_def demo_free_def capacity_eval)
lemmas demo_eval = demo_capacity2_eq demo_capacity_def demo_free_def capacity_eval

theorem capacity_accounting_exact_witness:
  "bytes_of (qs_agents demo_capacity2) = 5100 \<and> bytes_of (qs_agent_revocations demo_capacity2) = 100"
proof -
  have "unat (ou_logical_bytes (qs_total demo_capacity2)) = 5100" "unat (ou_logical_bytes (qs_revocations demo_capacity2)) = 100"
    by (simp_all add: demo_eval)
  with capacity_accounting_exact [OF demo_capacity2_reach] show ?thesis by simp
qed

theorem inconsistency_is_explained_witness:
  "qs_reasons (write_failed demo_capacity2) = [''publish_failed_restart_required'']
   \<and> \<not> qs_storage_consistent (write_failed demo_capacity2)"
proof -
  have "qs_reasons (write_failed demo_capacity2) = [''publish_failed_restart_required'']"
    by (simp add: write_failed_def inconsistent_def MAX_REASONS_def demo_eval)
  with inconsistency_is_explained [OF reach_step [OF demo_capacity2_reach step_write_failed]] show ?thesis by simp
qed

theorem admission_decision_witness:
  "snd (reserve_for demo_free ''a1'' 7 False demo_capacity2) = Inr ()
   \<and> fits_in (normal_use demo_capacity2) 7 (cf_global_max_bytes (qs_limits demo_capacity2)) (cf_global_max_objects (qs_limits demo_capacity2))"
proof -
  have "snd (reserve_for demo_free ''a1'' 7 False demo_capacity2) = Inr ()"
    by (simp add: demo_eval)
  with admission_decision [OF demo_capacity2_reach, of demo_free "''a1''" 7 False] show ?thesis by simp
qed

theorem admission_stays_in_budget_witness:
  "\<exists>s'. reserve_for demo_free ''a1'' 7 True demo_capacity2 = (s', Inr ())
     \<and> ou_logical_bytes (normal_use s') = ou_logical_bytes (normal_use demo_capacity2)"
proof -
  have ok: "snd (reserve_for demo_free ''a1'' 7 True demo_capacity2) = Inr ()" "revocation_enabled demo_capacity2"
    by (simp_all add: demo_eval)
  then obtain s' where s': "reserve_for demo_free ''a1'' 7 True demo_capacity2 = (s', Inr ())"
    by (metis prod.collapse)
  with admission_stays_in_budget [OF demo_capacity2_reach s'] ok(2) show ?thesis by auto
qed

theorem failed_write_blocks_admission_witness:
  "snd (reserve_for demo_free ''a1'' 1 True (mark_receipted ''a1'' (write_failed demo_capacity2)))
     = Inl ''storage_accounting_incomplete''"
proof -
  have "capacity_step\<^sup>*\<^sup>* (write_failed demo_capacity2) (mark_receipted ''a1'' (write_failed demo_capacity2))"
    by (intro r_into_rtranclp step_receipted)
  from failed_write_blocks_admission [OF this] show ?thesis by blast
qed

theorem blocked_report_is_true_witness:
  "snd (reserve (Some (10, 4096)) ''a1'' 1 demo_capacity2) \<noteq> Inr ()"
proof -
  have "us_new_uploads_blocked (usage (Some (10, 4096)) demo_capacity2)"
    by (simp add: usage_def floor_blocked_def demo_eval)
  from blocked_report_is_true [OF this] show ?thesis .
qed

end
