(* ===== verification/Vault_Server.thy ===== *)
theory Vault_Server
  imports Vault_Quota
begin

text \<open>
  Crate \<^verbatim>\<open>argos-vault\<close>, \<^verbatim>\<open>server.rs\<close>, with the publication of files of \<^verbatim>\<open>lib.rs\<close>
  (\<^verbatim>\<open>write_new\<close>): the configuration check of the server, authentication by token, the four object
  routes, and the storage that publishes objects with signed receipts.  The storage directory is an
  explicit store of files per agent; which step of the operating system fails is an argument of
  every call.  What a request shows (header values, body) is an argument too.
\<close>

section \<open>The store\<close>

record stored_file =
  st_stat :: fstat
  st_bytes :: string
  st_dangling :: bool

text \<open>
  \<open>vf_stat\<close> shows the directories, \<open>vf_files\<close> the files of an agent's directory by name.  The
  counter of temporary names belongs to the process.
\<close>

record vault_fs =
  vf_euid :: u32
  vf_dev :: u64
  vf_pid :: u32
  vf_temp_sequence :: u64
  vf_next_ino :: u64
  vf_stat :: "path_component list \<Rightarrow> fstat option"
  vf_files :: "string \<Rightarrow> string \<Rightarrow> stored_file option"

datatype write_step = OpenTemp | WriteAll | SyncFile | HardLink | RemoveTemp | SyncParent

text \<open>The step at which the operating system fails, if any, and whether the clean-up succeeds.\<close>

record write_faults =
  wf_fails :: "write_step option"
  wf_cleanup :: bool

definition fresh_stat :: "vault_fs \<Rightarrow> nat \<Rightarrow> u64 \<Rightarrow> fstat" where
  "fresh_stat fs len links =
     \<lparr>fs_is_file = True, fs_is_dir = False, fs_symlink = False, fs_len = of_nat len, fs_modified = 0,
      fs_ctime = (0, 0), fs_dev = vf_dev fs, fs_ino = vf_next_ino fs, fs_uid = vf_euid fs, fs_mode = 384,
      fs_nlink = links\<rparr>"

definition temp_name :: "vault_fs \<Rightarrow> string" where
  "temp_name fs =
     ''.argos-vault-'' @ show_nat (unat (vf_pid fs)) @ ''-'' @ show_nat (unat (vf_temp_sequence fs)) @ ''.tmp''"

definition set_file :: "string \<Rightarrow> string \<Rightarrow> stored_file option \<Rightarrow> vault_fs \<Rightarrow> vault_fs" where
  "set_file agent name f fs = fs\<lparr>vf_files := (vf_files fs)(agent := (vf_files fs agent)(name := f))\<rparr>"

text \<open>
  \<^verbatim>\<open>write_new\<close>: a temporary file is written and synced, linked under its final name, removed, and the
  directory is synced.  The link fails when the name exists.  After a failure the temporary file
  is removed if the operating system lets it.
\<close>

definition write_new ::
  "write_faults \<Rightarrow> string \<Rightarrow> string \<Rightarrow> string \<Rightarrow> vault_fs \<Rightarrow> vault_fs \<times> (vault_error + unit)" where
  "write_new faults agent name bytes fs =
     (let temp = temp_name fs;
          file = (\<lambda>links. \<lparr>st_stat = fresh_stat fs (length bytes) links, st_bytes = bytes, st_dangling = False\<rparr>);
          partial_file = \<lparr>st_stat = fresh_stat fs 0 1, st_bytes = [], st_dangling = False\<rparr>;
          fs' = fs\<lparr>vf_temp_sequence := vf_temp_sequence fs + 1, vf_next_ino := vf_next_ino fs + 1\<rparr>;
          give_up = (\<lambda>f fs. (if wf_cleanup faults then fs else set_file agent temp (Some f) fs, Inl IoError))
      in if wf_fails faults = Some OpenTemp \<or> vf_files fs agent temp \<noteq> None
         then (fs\<lparr>vf_temp_sequence := vf_temp_sequence fs + 1\<rparr>, Inl IoError)
         else if wf_fails faults = Some WriteAll then give_up partial_file fs'
         else if wf_fails faults = Some SyncFile \<or> wf_fails faults = Some HardLink
              \<or> vf_files fs agent name \<noteq> None then give_up (file 1) fs'
         else if wf_fails faults = Some RemoveTemp
         then give_up (file 2) (set_file agent name (Some (file (if wf_cleanup faults then 1 else 2))) fs')
         else if wf_fails faults = Some SyncParent then (set_file agent name (Some (file 1)) fs', Inl IoError)
         else (set_file agent name (Some (file 1)) fs', Inr ()))"

definition observe :: "stored_file option \<Rightarrow> observed_file option" where
  "observe f =
     (case f of
        None \<Rightarrow> None
      | Some f \<Rightarrow>
          if fs_symlink (st_stat f) then None
          else Some \<lparr>ob_before = Some (st_stat f), ob_data = Some (st_bytes f), ob_after = Some (st_stat f),
                     ob_path_after = Some (st_stat f)\<rparr>)"

definition file_stat :: "stored_file option \<Rightarrow> fstat option" where
  "file_stat f = map_option st_stat f"

definition path_exists :: "stored_file option \<Rightarrow> bool" where
  "path_exists f = (case f of None \<Rightarrow> False | Some f \<Rightarrow> \<not> st_dangling f)"

section \<open>Configuration\<close>

record server_config =
  sv_bind :: string
  sv_bind_loopback :: bool
  sv_dir :: path
  sv_signing_key_file :: path
  sv_key_id :: string
  sv_retention_secs :: u64
  sv_max_object_bytes :: usize
  sv_admin_token :: string
  sv_agent_tokens :: "(string, string) hmap"
  sv_allow_plain_http :: bool
  sv_capacity :: capacity_config

definition server_config_default :: server_config where
  "server_config_default =
     \<lparr>sv_bind = ''127.0.0.1:9080'', sv_bind_loopback = True, sv_dir = ''/var/lib/argos-vault'',
      sv_signing_key_file = ''/etc/argos-vault/signing.key'', sv_key_id = ''vault-1'',
      sv_retention_secs = 30 * 86400, sv_max_object_bytes = of_nat MAX_OBJECT_BYTES, sv_admin_token = [],
      sv_agent_tokens = [], sv_allow_plain_http = False, sv_capacity = capacity_config_default\<rparr>"

definition server_config_debug :: "server_config \<Rightarrow> (string \<times> string) list" where
  "server_config_debug c =
     [(''bind'', sv_bind c), (''dir'', sv_dir c), (''key_id'', sv_key_id c), (''tokens'', ''[REDACTED]'')]"

definition load_server_config ::
  "(path_component list \<Rightarrow> fstat option) \<Rightarrow> u32 \<Rightarrow> path option \<Rightarrow> fstat option \<Rightarrow> observed_file option \<Rightarrow>
     (string \<Rightarrow> server_config option) \<Rightarrow> vault_error + server_config" where
  "load_server_config stat euid parent path_stat file toml =
     (case parent of None \<Rightarrow> Inl NotCleanAbsolute | Some dir \<Rightarrow>
      case validate_private_directory stat euid dir of Inl e \<Rightarrow> Inl e | Inr _ \<Rightarrow>
      case read_storage_file euid path_stat file (1024 * 1024) of Inl e \<Rightarrow> Inl e | Inr bytes \<Rightarrow>
      case from_utf8 bytes of None \<Rightarrow> Inl BadUtf8 | Some text \<Rightarrow>
      case toml text of None \<Rightarrow> Inl BadJson | Some config \<Rightarrow> Inr config)"

definition token_ok :: "string \<Rightarrow> bool" where
  "token_ok token =
     (trim token = token \<and> 16 \<le> length token \<and> length token \<le> 4096
      \<and> list_all (\<lambda>c. 32 < byte c \<and> byte c < 127) token)"

datatype router_error =
    PlainHttpRefused | BadServerConfig | BadToken | BadAgentId
  | RouterVault vault_error | RouterCapacity capacity_error

definition server_config_ok :: "server_config \<Rightarrow> bool" where
  "server_config_ok c =
     (valid_vault_id (sv_key_id c) \<and> sv_agent_tokens c \<noteq> []
      \<and> 1 \<le> sv_max_object_bytes c \<and> unat (sv_max_object_bytes c) \<le> MAX_OBJECT_BYTES
      \<and> sv_retention_secs c \<noteq> 0 \<and> sv_retention_secs c \<le> 10 * 366 * 86400)"

fun check_tokens :: "string list \<Rightarrow> string list \<Rightarrow> bool" where
  "check_tokens seen [] = True"
| "check_tokens seen (t # ts) = (token_ok t \<and> t \<notin> set seen \<and> check_tokens (t # seen) ts)"

definition check_server_config :: "server_config \<Rightarrow> router_error + unit" where
  "check_server_config c =
     (if \<not> sv_bind_loopback c \<and> \<not> sv_allow_plain_http c then Inl PlainHttpRefused
      else if \<not> server_config_ok c then Inl BadServerConfig
      else if \<not> check_tokens [] (sv_admin_token c # map snd (sv_agent_tokens c)) then Inl BadToken
      else if \<not> list_all (\<lambda>(id, _). valid_vault_id id) (sv_agent_tokens c) then Inl BadAgentId
      else Inr ())"

record storage =
  so_config :: server_config
  so_key :: string
  so_capacity :: capacity_state

text \<open>What \<^verbatim>\<open>router\<close> reads of the machine: the signing key's result, the lock's and the scanned directory.\<close>

definition router ::
  "vault_lib \<Rightarrow> server_config \<Rightarrow> vault_dir \<Rightarrow> (vault_error + string) \<Rightarrow> (vault_error + writer_lock) \<Rightarrow>
     router_error + storage" where
  "router lib c d key lock =
     (case check_server_config c of Inl e \<Rightarrow> Inl e | Inr _ \<Rightarrow>
      case validate_private_directory (vd_stat d) (vd_euid d) (sv_dir c) of
        Inl e \<Rightarrow> Inl (RouterVault e)
      | Inr _ \<Rightarrow>
          (case key of Inl e \<Rightarrow> Inl (RouterVault e) | Inr k \<Rightarrow>
           case capacity_open lib d lock (sv_capacity c) (map fst (sv_agent_tokens c)) k (sv_key_id c) of
             Inl e \<Rightarrow> Inl (RouterCapacity e)
           | Inr capacity \<Rightarrow> Inr \<lparr>so_config = c, so_key = k, so_capacity = capacity\<rparr>))"

section \<open>Authentication\<close>

text \<open>
  The headers of a request: the values of \<^verbatim>\<open>authorization\<close> (\<open>None\<close> where a value is not a visible
  string), whether \<^verbatim>\<open>x-argos-agent-id\<close> is present, and the value of \<^verbatim>\<open>x-argos-kind\<close>.
\<close>

record headers =
  hd_authorization :: "string option list"
  hd_agent_id :: bool
  hd_kind :: "string option"

definition bearer :: "headers \<Rightarrow> string option" where
  "bearer h =
     (case hd_authorization h of
        [Some v] \<Rightarrow> strip_prefix ''Bearer '' v
      | _ \<Rightarrow> None)"

definition upload_agent :: "server_config \<Rightarrow> headers \<Rightarrow> string option" where
  "upload_agent c h =
     (case bearer h of
        None \<Rightarrow> None
      | Some token \<Rightarrow> map_option fst (find (\<lambda>(_, expected). token = expected) (sv_agent_tokens c)))"

definition admin :: "server_config \<Rightarrow> headers \<Rightarrow> bool" where
  "admin c h = (case bearer h of None \<Rightarrow> False | Some token \<Rightarrow> token = sv_admin_token c)"

section \<open>Storage\<close>

definition blob_name :: "string \<Rightarrow> string" where
  "blob_name hash = hash @ ''.blob''"

definition receipt_name :: "string \<Rightarrow> string" where
  "receipt_name hash = hash @ ''.receipt.json''"

definition agent_path :: "server_config \<Rightarrow> string \<Rightarrow> path" where
  "agent_path c agent = sv_dir c @ ''/'' @ agent"

definition storage_public :: "vault_lib \<Rightarrow> storage \<Rightarrow> string" where
  "storage_public lib st = vl_hex_encode lib (vl_public_of lib (so_key st))"

record storage_reader =
  rd_dir :: path
  rd_key_id :: string
  rd_public_key :: string
  rd_max_object_bytes :: usize

definition reader :: "vault_lib \<Rightarrow> storage \<Rightarrow> storage_reader" where
  "reader lib st =
     \<lparr>rd_dir = sv_dir (so_config st), rd_key_id = sv_key_id (so_config st),
      rd_public_key = storage_public lib st, rd_max_object_bytes = sv_max_object_bytes (so_config st)\<rparr>"

definition reader_get ::
  "vault_lib \<Rightarrow> storage_reader \<Rightarrow> vault_fs \<Rightarrow> string \<Rightarrow> string \<Rightarrow> vault_error + (signed_receipt \<times> string)" where
  "reader_get lib rd fs agent hash =
     (let receipt_file = vf_files fs agent (receipt_name hash); blob = vf_files fs agent (blob_name hash)
      in case validate_private_directory (vf_stat fs) (vf_euid fs) (rd_dir rd @ ''/'' @ agent) of Inl e \<Rightarrow> Inl e | Inr _ \<Rightarrow>
         case read_storage_file (vf_euid fs) (file_stat receipt_file) (observe receipt_file) MAX_RECEIPT_BYTES of Inl e \<Rightarrow> Inl e | Inr json \<Rightarrow>
         case vl_parse_receipt lib json of None \<Rightarrow> Inl BadJson | Some sr \<Rightarrow>
         case verify_receipt lib sr (rd_public_key rd) of Inl e \<Rightarrow> Inl e | Inr _ \<Rightarrow>
         if rt_agent_id (sr_receipt sr) \<noteq> agent \<or> rt_sha256 (sr_receipt sr) \<noteq> hash
            \<or> rt_key_id (sr_receipt sr) \<noteq> rd_key_id rd
         then Inl BadReceiptFields
         else case read_storage_file (vf_euid fs) (file_stat blob) (observe blob) (unat (rd_max_object_bytes rd)) of Inl e \<Rightarrow> Inl e | Inr bytes \<Rightarrow>
         case verify_body lib bytes sr of Inl e \<Rightarrow> Inl e | Inr _ \<Rightarrow> Inr (sr, bytes))"

definition storage_get ::
  "vault_lib \<Rightarrow> storage \<Rightarrow> vault_fs \<Rightarrow> string \<Rightarrow> string \<Rightarrow> vault_error + (signed_receipt \<times> string)" where
  "storage_get lib st fs agent hash = reader_get lib (reader lib st) fs agent hash"

datatype put_error =
    PutVault vault_error | PutCapacity string | NotARevocation | ObjectTooBig | ReceiptConflict
  | RetentionOverflow | ControlTracking

text \<open>The operating system during one publication: free space, clock, failing steps.\<close>

record put_env =
  en_free :: "(u64 \<times> u64) option"
  en_now :: u64
  en_create_dir :: bool
  en_sync_root :: bool
  en_object :: write_faults
  en_receipt :: write_faults
  en_sync_dir :: bool

text \<open>The directory of an agent is created on first use and then checked.\<close>

definition storage_directory ::
  "storage \<Rightarrow> put_env \<Rightarrow> string \<Rightarrow> vault_fs \<Rightarrow> vault_fs \<times> (vault_error + unit)" where
  "storage_directory st env agent fs =
     (let p = agent_path (so_config st) agent;
          check = (\<lambda>fs. (fs,
            (case validate_private_directory (vf_stat fs) (vf_euid fs) p of Inl e \<Rightarrow> Inl e | Inr _ \<Rightarrow>
             case vf_stat fs (components p) of None \<Rightarrow> Inl IoError | Some m \<Rightarrow>
             if same_filesystem (qs_writer (so_capacity st)) m then Inr () else Inl BadStorageFile)));
          made = (fresh_stat fs 0 2)\<lparr>fs_is_file := False, fs_is_dir := True, fs_mode := 448\<rparr>;
          fs' = fs\<lparr>vf_stat := (vf_stat fs)(components p \<mapsto> made), vf_next_ino := vf_next_ino fs + 1\<rparr>
      in if vf_stat fs (components p) \<noteq> None then check fs
         else if \<not> en_create_dir env then (fs, Inl IoError)
         else if \<not> en_sync_root env then (fs', Inl IoError)
         else check fs')"

definition new_receipt :: "storage \<Rightarrow> u64 \<Rightarrow> string \<Rightarrow> string \<Rightarrow> string \<Rightarrow> string \<Rightarrow> receipt option" where
  "new_receipt st now agent hash kind bytes =
     (case checked_add now (sv_retention_secs (so_config st) * 1000) of
        None \<Rightarrow> None
      | Some until \<Rightarrow>
          Some \<lparr>rt_format = RECEIPT_FORMAT, rt_key_id = sv_key_id (so_config st), rt_agent_id = agent,
                rt_kind = kind, rt_sha256 = hash, rt_size_bytes = of_nat (length bytes),
                rt_received_at_ms = now, rt_retention_until_ms = until\<rparr>)"

text \<open>Publishing: the directory, the object, then its signed receipt, then the directory again.\<close>

definition publish ::
  "vault_lib \<Rightarrow> storage \<Rightarrow> put_env \<Rightarrow> string \<Rightarrow> string \<Rightarrow> string \<Rightarrow> string \<Rightarrow> vault_fs \<Rightarrow>
     vault_fs \<times> (put_error + signed_receipt)" where
  "publish lib st env agent hash kind bytes fs =
     (case storage_directory st env agent fs of
        (fs, Inl e) \<Rightarrow> (fs, Inl (PutVault e))
      | (fs, Inr _) \<Rightarrow>
     case write_new (en_object env) agent (blob_name hash) bytes fs of
        (fs, Inl e) \<Rightarrow> (fs, Inl (PutVault e))
      | (fs, Inr _) \<Rightarrow>
     case new_receipt st (en_now env) agent hash kind bytes of
        None \<Rightarrow> (fs, Inl RetentionOverflow)
      | Some r \<Rightarrow>
     case sign_receipt lib r (so_key st) of
        Inl e \<Rightarrow> (fs, Inl (PutVault e))
      | Inr sr \<Rightarrow>
     case vl_signed_receipt_json lib sr of
        None \<Rightarrow> (fs, Inl (PutVault BadJson))
      | Some json \<Rightarrow>
     case write_new (en_receipt env) agent (receipt_name hash) json fs of
        (fs, Inl e) \<Rightarrow> (fs, Inl (PutVault e))
      | (fs, Inr _) \<Rightarrow> if en_sync_dir env then (fs, Inr sr) else (fs, Inl (PutVault IoError)))"

definition control_of ::
  "vault_lib \<Rightarrow> storage \<Rightarrow> string \<Rightarrow> string \<Rightarrow> string \<Rightarrow> vault_error + (string \<times> bool) option" where
  "control_of lib st agent kind bytes =
     (if prefix ''bundle-'' kind
      then (case control_identity lib kind bytes agent (sv_key_id (so_config st)) (storage_public lib st) of
              Inl e \<Rightarrow> Inl e | Inr c \<Rightarrow> Inr (Some c))
      else Inr None)"

definition fail_capacity :: "storage \<Rightarrow> storage" where
  "fail_capacity st = st\<lparr>so_capacity := write_failed (so_capacity st)\<rparr>"

definition put_existing ::
  "vault_lib \<Rightarrow> put_env \<Rightarrow> string \<Rightarrow> string \<Rightarrow> string \<Rightarrow> string \<Rightarrow> storage \<Rightarrow> vault_fs \<Rightarrow>
     storage \<times> (put_error + signed_receipt)" where
  "put_existing lib env agent hash kind bytes st fs =
     (case storage_get lib st fs agent hash of
        Inl e \<Rightarrow> (fail_capacity st, Inl (PutVault e))
      | Inr (existing, _) \<Rightarrow>
          if rt_kind (sr_receipt existing) \<noteq> kind
             \<or> unat (rt_size_bytes (sr_receipt existing)) \<noteq> length bytes
          then (st, Inl ReceiptConflict)
          else if \<not> en_sync_dir env then (fail_capacity st, Inl (PutVault IoError))
          else (st, Inr existing))"

definition put_published ::
  "string \<Rightarrow> bool \<Rightarrow> (string \<times> bool) option \<Rightarrow> signed_receipt \<Rightarrow> storage \<Rightarrow> storage \<times> (put_error + signed_receipt)" where
  "put_published agent revocation control sr st =
     (let cap = mark_receipted agent (so_capacity st);
          cap = (if revocation then mark_revocation_receipted agent cap else cap)
      in case control of
           None \<Rightarrow> (st\<lparr>so_capacity := cap\<rparr>, Inr sr)
         | Some (bundle, _) \<Rightarrow>
             (case note_control agent bundle cap of (cap, ok) \<Rightarrow>
                (st\<lparr>so_capacity := cap\<rparr>, if ok then Inr sr else Inl ControlTracking)))"

definition put_inner ::
  "vault_lib \<Rightarrow> put_env \<Rightarrow> string \<Rightarrow> string \<Rightarrow> string \<Rightarrow> string \<Rightarrow> bool \<Rightarrow> storage \<Rightarrow> vault_fs \<Rightarrow>
     storage \<times> vault_fs \<times> (put_error + signed_receipt)" where
  "put_inner lib env agent hash kind bytes revocation st fs =
     (case control_of lib st agent kind bytes of
        Inl e \<Rightarrow> (st, fs, Inl (PutVault e))
      | Inr control \<Rightarrow>
          if revocation \<and> \<not> (case control of None \<Rightarrow> False | Some (_, revoked) \<Rightarrow> revoked)
          then (st, fs, Inl NotARevocation)
          else if unat (sv_max_object_bytes (so_config st)) < length bytes then (st, fs, Inl ObjectTooBig)
          else if path_exists (vf_files fs agent (receipt_name hash))
          then (case put_existing lib env agent hash kind bytes st fs of (st, out) \<Rightarrow> (st, fs, out))
          else if vf_files fs agent (blob_name hash) \<noteq> None \<or> vf_files fs agent (receipt_name hash) \<noteq> None
          then (fail_capacity st, fs, Inl (PutCapacity ''incomplete_existing_object''))
          else (case (if revocation then reserve_revocation else reserve)
                       (en_free env) agent (of_nat (length bytes)) (so_capacity st) of
                  (cap, Inl code) \<Rightarrow> (st\<lparr>so_capacity := cap\<rparr>, fs, Inl (PutCapacity code))
                | (cap, Inr _) \<Rightarrow>
                    (case publish lib st env agent hash kind bytes fs of
                       (fs, Inl e) \<Rightarrow> (fail_capacity (st\<lparr>so_capacity := cap\<rparr>), fs, Inl e)
                     | (fs, Inr sr) \<Rightarrow>
                         (case put_published agent revocation control sr (st\<lparr>so_capacity := cap\<rparr>) of
                            (st, out) \<Rightarrow> (st, fs, out)))))"

definition storage_put ::
  "vault_lib \<Rightarrow> put_env \<Rightarrow> string \<Rightarrow> string \<Rightarrow> string \<Rightarrow> string \<Rightarrow> storage \<Rightarrow> vault_fs \<Rightarrow>
     storage \<times> vault_fs \<times> (put_error + signed_receipt)" where
  "storage_put lib env agent hash kind bytes st fs = put_inner lib env agent hash kind bytes False st fs"

definition put_revocation ::
  "vault_lib \<Rightarrow> put_env \<Rightarrow> string \<Rightarrow> string \<Rightarrow> string \<Rightarrow> storage \<Rightarrow> vault_fs \<Rightarrow>
     storage \<times> vault_fs \<times> (put_error + signed_receipt)" where
  "put_revocation lib env agent hash bytes st fs = put_inner lib env agent hash ''bundle-review'' bytes True st fs"

section \<open>The object routes\<close>

datatype body_result = BodyRead string | BodyTooLarge | BodyTimeout

datatype response =
    Unauthorized | BadRequest | ServiceUnavailable | PayloadTooLarge | RequestTimeout
  | UnprocessableEntity | InsufficientStorage | Conflict | NotFound
  | ReceiptResponse signed_receipt | BytesResponse string | UsageResponse capacity_usage

text \<open>
  \<open>permit\<close> is whether a permit of the semaphore is free, \<open>task\<close> whether the blocking task ran and
  got the lock.
\<close>

definition upload ::
  "vault_lib \<Rightarrow> put_env \<Rightarrow> headers \<Rightarrow> string \<Rightarrow> bool \<Rightarrow> body_result \<Rightarrow> bool \<Rightarrow> storage \<Rightarrow> vault_fs \<Rightarrow>
     storage \<times> vault_fs \<times> response" where
  "upload lib env h hash permit body task st fs =
     (case upload_agent (so_config st) h of None \<Rightarrow> (st, fs, Unauthorized) | Some agent \<Rightarrow>
      if hd_agent_id h then (st, fs, BadRequest)
      else case hd_kind h of None \<Rightarrow> (st, fs, BadRequest) | Some kind \<Rightarrow>
      if kind \<notin> set [''evidence'', ''backup'', ''audit''] then (st, fs, BadRequest)
      else if \<not> valid_hash hash then (st, fs, BadRequest)
      else if \<not> permit then (st, fs, ServiceUnavailable)
      else case body of
        BodyTooLarge \<Rightarrow> (st, fs, PayloadTooLarge)
      | BodyTimeout \<Rightarrow> (st, fs, RequestTimeout)
      | BodyRead bytes \<Rightarrow>
          if sha256 lib bytes \<noteq> hash then (st, fs, UnprocessableEntity)
          else if \<not> task then (st, fs, Conflict)
          else (case storage_put lib env agent hash kind bytes st fs of
                  (st, fs, Inr sr) \<Rightarrow> (st, fs, ReceiptResponse sr)
                | (st, fs, Inl (PutCapacity _)) \<Rightarrow> (st, fs, InsufficientStorage)
                | (st, fs, Inl _) \<Rightarrow> (st, fs, Conflict)))"

definition admin_request :: "storage \<Rightarrow> headers \<Rightarrow> string \<Rightarrow> string \<Rightarrow> bool \<Rightarrow> response option" where
  "admin_request st h agent hash permit =
     (if \<not> admin (so_config st) h then Some Unauthorized
      else if \<not> valid_vault_id agent \<or> \<not> valid_hash hash then Some BadRequest
      else if \<not> permit then Some ServiceUnavailable else None)"

definition download ::
  "vault_lib \<Rightarrow> headers \<Rightarrow> string \<Rightarrow> string \<Rightarrow> bool \<Rightarrow> bool \<Rightarrow> storage \<Rightarrow> vault_fs \<Rightarrow> response" where
  "download lib h agent hash permit task st fs =
     (case admin_request st h agent hash permit of Some r \<Rightarrow> r | None \<Rightarrow>
      if \<not> task then NotFound
      else case storage_get lib st fs agent hash of
        Inl _ \<Rightarrow> NotFound
      | Inr (sr, bytes) \<Rightarrow> (case verify_body lib bytes sr of Inl _ \<Rightarrow> NotFound | Inr _ \<Rightarrow> BytesResponse bytes))"

definition receipt_route ::
  "vault_lib \<Rightarrow> headers \<Rightarrow> string \<Rightarrow> string \<Rightarrow> bool \<Rightarrow> bool \<Rightarrow> storage \<Rightarrow> vault_fs \<Rightarrow> response" where
  "receipt_route lib h agent hash permit task st fs =
     (case admin_request st h agent hash permit of Some r \<Rightarrow> r | None \<Rightarrow>
      if \<not> task then NotFound
      else case storage_get lib st fs agent hash of Inl _ \<Rightarrow> NotFound | Inr (sr, _) \<Rightarrow> ReceiptResponse sr)"

definition usage_route :: "headers \<Rightarrow> bool \<Rightarrow> bool \<Rightarrow> (u64 \<times> u64) option \<Rightarrow> storage \<Rightarrow> response" where
  "usage_route h permit task info st =
     (if \<not> admin (so_config st) h then Unauthorized
      else if \<not> permit \<or> \<not> task then ServiceUnavailable
      else UsageResponse (usage info (so_capacity st)))"

section \<open>Specification notions\<close>

text \<open>A server with one agent on an empty directory, and an upload of three bytes.\<close>

definition demo_server_config :: server_config where
  "demo_server_config = server_config_default\<lparr>sv_dir := ''/v'', sv_key_id := ''k1'',
     sv_admin_token := ''admin-token-0000'', sv_agent_tokens := [(''a1'', ''agent-token-1111'')]\<rparr>"

definition demo_storage :: storage where
  "demo_storage = \<lparr>so_config = demo_server_config, so_key = demo_key, so_capacity = demo_capacity\<rparr>"

definition demo_dir_stat :: fstat where
  "demo_dir_stat = (demo_fstat 0)\<lparr>fs_is_file := False, fs_is_dir := True, fs_mode := 448\<rparr>"

definition demo_vault_fs :: vault_fs where
  "demo_vault_fs = \<lparr>vf_euid = 0, vf_dev = 1, vf_pid = 7, vf_temp_sequence = 0, vf_next_ino = 10,
     vf_stat = (\<lambda>p. if p = [RootDir] \<or> p = [RootDir, Normal ''v''] then Some demo_dir_stat else None),
     vf_files = (\<lambda>_ _. None)\<rparr>"

definition demo_env :: "bool \<Rightarrow> put_env" where
  "demo_env synced = \<lparr>en_free = demo_free, en_now = 5, en_create_dir = True, en_sync_root = True,
     en_object = \<lparr>wf_fails = None, wf_cleanup = True\<rparr>, en_receipt = \<lparr>wf_fails = None, wf_cleanup = True\<rparr>, en_sync_dir = synced\<rparr>"

definition demo_headers :: "string \<Rightarrow> headers" where
  "demo_headers token = \<lparr>hd_authorization = [Some (''Bearer '' @ token)], hd_agent_id = False, hd_kind = Some ''backup''\<rparr>"

definition demo_hash :: string where
  "demo_hash = sha256 demo_vault_lib ''abc''"

definition demo_upload_receipt :: signed_receipt where
  "demo_upload_receipt =
     \<lparr>sr_receipt = \<lparr>rt_format = RECEIPT_FORMAT, rt_key_id = ''k1'', rt_agent_id = ''a1'', rt_kind = ''backup'',
        rt_sha256 = demo_hash, rt_size_bytes = 3, rt_received_at_ms = 5, rt_retention_until_ms = 2592000005\<rparr>,
      sr_signature_hex = demo_signature (''a1'' @ ''backup'' @ demo_hash)\<rparr>"

definition demo_server_lib :: vault_lib where
  "demo_server_lib = demo_vault_lib\<lparr>vl_parse_receipt := (\<lambda>_. Some demo_upload_receipt)\<rparr>"

section \<open>Publishing a file\<close>

lemma set_file_frame [simp]:
  "vf_stat (set_file a n f fs) = vf_stat fs" "vf_euid (set_file a n f fs) = vf_euid fs" "vf_dev (set_file a n f fs) = vf_dev fs"
  "vf_files (set_file a n f fs) = (vf_files fs)(a := (vf_files fs a)(n := f))"
  by (simp_all add: set_file_def)

lemma write_new_frame:
  assumes "write_new faults agent name bytes fs = (fs', out)"
  shows "vf_stat fs' = vf_stat fs \<and> vf_euid fs' = vf_euid fs \<and> vf_dev fs' = vf_dev fs"
  using assms by (auto simp: write_new_def Let_def split: if_splits)

lemma write_new_keeps:
  assumes "write_new faults agent name bytes fs = (fs', out)" "vf_files fs a n = Some f"
  shows "vf_files fs' a n = Some f"
  using assms by (auto simp: write_new_def Let_def split: if_splits)

lemma write_new_other:
  assumes "write_new faults agent name bytes fs = (fs', out)" "a \<noteq> agent"
  shows "vf_files fs' a = vf_files fs a"
  using assms by (auto simp: write_new_def Let_def split: if_splits)

lemma write_new_Inr:
  assumes "write_new faults agent name bytes fs = (fs', Inr ())"
  shows "vf_files fs agent name = None
     \<and> vf_files fs' agent name = Some \<lparr>st_stat = fresh_stat fs (length bytes) 1, st_bytes = bytes, st_dangling = False\<rparr>"
  using assms by (auto simp: write_new_def Let_def split: if_splits)

lemma read_fresh:
  assumes "length bytes \<le> limit" "limit < 2 ^ 64" "vf_euid fs = vf_euid fs0"
  defines "f \<equiv> \<lparr>st_stat = fresh_stat fs0 (length bytes) 1, st_bytes = bytes, st_dangling = False\<rparr>"
  shows "read_storage_file (vf_euid fs) (file_stat (Some f)) (observe (Some f)) limit = Inr bytes"
proof -
  have "unat (of_nat (length bytes) :: u64) = length bytes"
    using assms(1,2) by (simp add: unsigned_of_nat take_bit_nat_eq_self)
  then show ?thesis using assms(1,3)
    by (simp add: read_storage_file_def file_stat_def observe_def f_def fresh_stat_def private_file_def mode_bits_def
        read_bounded_file_def stable_read_def Let_def)
qed

lemma storage_directory_frame:
  assumes "storage_directory st env agent fs = (fs', out)"
  shows "vf_files fs' = vf_files fs \<and> vf_euid fs' = vf_euid fs \<and> vf_dev fs' = vf_dev fs"
  using assms by (auto simp: storage_directory_def Let_def split: if_splits)

lemma storage_directory_Inr:
  assumes "storage_directory st env agent fs = (fs', Inr ())"
  shows "validate_private_directory (vf_stat fs') (vf_euid fs') (agent_path (so_config st) agent) = Inr ()"
  using assms by (auto simp: storage_directory_def Let_def split: if_splits sum.splits option.splits)

lemma names_differ: "receipt_name hash \<noteq> blob_name hash"
  by (simp add: blob_name_def receipt_name_def)

text \<open>What a publication leaves, whether or not it succeeds.\<close>

lemma publish_keeps:
  assumes "publish lib st env agent hash kind bytes fs = (fs', out)"
  shows "vf_files fs a n = Some f \<Longrightarrow> vf_files fs' a n = Some f" "a \<noteq> agent \<Longrightarrow> vf_files fs' a = vf_files fs a"
  using assms
  by (auto simp: publish_def split: prod.splits sum.splits option.splits if_splits
      dest!: storage_directory_frame dest: write_new_keeps write_new_other) (metis write_new_other)+

lemma publish_Inr:
  assumes "publish lib st env agent hash kind bytes fs = (fs', Inr sr)"
  obtains r json fs1 fs2 where "new_receipt st (en_now env) agent hash kind bytes = Some r"
    "sign_receipt lib r (so_key st) = Inr sr" "vl_signed_receipt_json lib sr = Some json"
    "validate_private_directory (vf_stat fs') (vf_euid fs') (agent_path (so_config st) agent) = Inr ()"
    "vf_files fs' agent (blob_name hash) = Some \<lparr>st_stat = fresh_stat fs1 (length bytes) 1, st_bytes = bytes, st_dangling = False\<rparr>"
    "vf_files fs' agent (receipt_name hash) = Some \<lparr>st_stat = fresh_stat fs2 (length json) 1, st_bytes = json, st_dangling = False\<rparr>"
    "vf_euid fs1 = vf_euid fs'" "vf_euid fs2 = vf_euid fs'"
proof -
  obtain fs1 fs2 r json where d: "storage_directory st env agent fs = (fs1, Inr ())"
    and b: "write_new (en_object env) agent (blob_name hash) bytes fs1 = (fs2, Inr ())"
    and r: "new_receipt st (en_now env) agent hash kind bytes = Some r" "sign_receipt lib r (so_key st) = Inr sr"
      "vl_signed_receipt_json lib sr = Some json"
    and w: "write_new (en_receipt env) agent (receipt_name hash) json fs2 = (fs', Inr ())"
    using assms by (auto simp: publish_def split: prod.splits sum.splits option.splits if_splits)
  have frames: "vf_stat fs' = vf_stat fs1" "vf_euid fs' = vf_euid fs1" "vf_euid fs2 = vf_euid fs1"
    using write_new_frame [OF b] write_new_frame [OF w] by auto
  from that [OF r] show ?thesis
    using storage_directory_Inr [OF d] frames write_new_Inr [OF b] write_new_Inr [OF w] write_new_keeps [OF w]
    by auto
qed

section \<open>Nothing is overwritten\<close>

lemma reserve_for_consistent:
  "reserve_for info agent bytes r cap = (cap', Inr u) \<Longrightarrow> qs_storage_consistent cap"
  by (auto simp: reserve_for_def capacity_admit_def split: sum.splits if_splits)

text \<open>The five ways in which a put ends.\<close>

lemma put_inner_cases:
  assumes "put_inner lib env agent hash kind bytes revocation st fs = (st', fs', out)"
  obtains (refused) e where "fs' = fs" "so_config st' = so_config st" "so_key st' = so_key st" "out = Inl e"
      "\<not> path_exists (vf_files fs agent (receipt_name hash)) \<or> st' = st"
      "qs_storage_consistent (so_capacity st') \<Longrightarrow> qs_storage_consistent (so_capacity st)"
  | (existing) "fs' = fs" "path_exists (vf_files fs agent (receipt_name hash))"
      "put_existing lib env agent hash kind bytes st fs = (st', out)"
  | (failed) cap e where "publish lib st env agent hash kind bytes fs = (fs', Inl e)" "out = Inl e"
      "st' = fail_capacity (st\<lparr>so_capacity := cap\<rparr>)" "qs_storage_consistent (so_capacity st)"
  | (published) cap sr control where "publish lib st env agent hash kind bytes fs = (fs', Inr sr)"
      "put_published agent revocation control sr (st\<lparr>so_capacity := cap\<rparr>) = (st', out)"
      "\<not> path_exists (vf_files fs agent (receipt_name hash))" "qs_storage_consistent (so_capacity st)"
      "control_of lib st agent kind bytes = Inr control" "length bytes \<le> unat (sv_max_object_bytes (so_config st))"
      "revocation \<longrightarrow> (\<exists>b. control = Some (b, True))"
proof (cases "control_of lib st agent kind bytes")
  case (Inl e)
  then show ?thesis using assms by (intro refused [of "PutVault e"]) (auto simp: put_inner_def)
next
  case (Inr control)
  let ?rev = "revocation \<and> \<not> (case control of None \<Rightarrow> False | Some (_, revoked) \<Rightarrow> revoked)"
  let ?ex = "path_exists (vf_files fs agent (receipt_name hash))"
  let ?old = "vf_files fs agent (blob_name hash) \<noteq> None \<or> vf_files fs agent (receipt_name hash) \<noteq> None"
  consider "?rev" | "\<not> ?rev" "unat (sv_max_object_bytes (so_config st)) < length bytes"
    | "\<not> ?rev" "length bytes \<le> unat (sv_max_object_bytes (so_config st))" "?ex"
    | "\<not> ?rev" "length bytes \<le> unat (sv_max_object_bytes (so_config st))" "\<not> ?ex" "?old"
    | "\<not> ?rev" "length bytes \<le> unat (sv_max_object_bytes (so_config st))" "\<not> ?ex" "\<not> ?old"
    by force
  then show ?thesis
  proof cases
    case 1
    then show ?thesis using assms Inr by (intro refused [of NotARevocation]) (auto simp: put_inner_def)
  next
    case 2
    then show ?thesis using assms Inr by (intro refused [of ObjectTooBig]) (auto simp: put_inner_def split: if_splits)
  next
    case 3
    then show ?thesis using assms Inr by (intro existing) (auto simp: put_inner_def split: prod.splits)
  next
    case 4
    then show ?thesis using assms Inr
      by (intro refused [of "PutCapacity ''incomplete_existing_object''"])
        (auto simp: put_inner_def fail_capacity_def write_failed_def)
  next
    case 5
    let ?res = "(if revocation then reserve_revocation else reserve) (en_free env) agent (of_nat (length bytes)) (so_capacity st)"
    have r: "?res = reserve_for (en_free env) agent (of_nat (length bytes)) revocation (so_capacity st)"
      by (simp add: reserve_def reserve_revocation_def)
    obtain cap res where res: "?res = (cap, res)" by fastforce
    show ?thesis
    proof (cases res)
      case (Inl code)
      then have "put_inner lib env agent hash kind bytes revocation st fs = (st\<lparr>so_capacity := cap\<rparr>, fs, Inl (PutCapacity code))"
        using 5 Inr res by (simp add: put_inner_def)
      moreover have "cap = (so_capacity st)\<lparr>qs_admission_rejections := sat_add (qs_admission_rejections (so_capacity st)) 1\<rparr>"
        using res Inl unfolding r by (auto simp: reserve_for_def split: sum.splits)
      ultimately show ?thesis using assms 5(3) by (intro refused [of "PutCapacity code"]) auto
    next
      case (Inr u)
      then have c: "qs_storage_consistent (so_capacity st)" using res reserve_for_consistent unfolding r by blast
      obtain fs2 out2 where p: "publish lib st env agent hash kind bytes fs = (fs2, out2)" by fastforce
      show ?thesis
      proof (cases out2)
        case (Inl e)
        then show ?thesis using assms 5 \<open>control_of _ _ _ _ _ = _\<close> res \<open>res = _\<close> p c
          by (intro failed [of e cap]) (auto simp: put_inner_def)
      next
        case (Inr sr)
        then show ?thesis using assms 5 \<open>control_of _ _ _ _ _ = _\<close> res \<open>res = _\<close> p c
          by (intro published [of sr control cap]) (auto simp: put_inner_def split: prod.splits option.splits)
      qed
    qed
  qed
qed

text \<open>
  C17: the vault is append-only: whatever a put does, with any failure of the operating system at
  any step, every file that was there is still there, unchanged, and the directories of other
  agents are not touched.
\<close>

theorem vault_is_append_only:
  assumes "put_inner lib env agent hash kind bytes revocation st fs = (st', fs', out)"
  shows "(\<forall>a n f. vf_files fs a n = Some f \<longrightarrow> vf_files fs' a n = Some f)
     \<and> (\<forall>a. a \<noteq> agent \<longrightarrow> vf_files fs' a = vf_files fs a)"
  using assms
proof (cases rule: put_inner_cases)
  case (failed cap e)
  then show ?thesis using publish_keeps [OF failed(1)] by blast
next
  case (published cap sr control)
  then show ?thesis using publish_keeps [OF published(1)] by blast
qed auto

section \<open>Acknowledged objects can be read\<close>

lemma put_published_frame:
  assumes "put_published agent revocation control sr st = (st', out)"
  shows "so_config st' = so_config st \<and> so_key st' = so_key st \<and> (out = Inr sr \<or> out = Inl ControlTracking)
     \<and> (out = Inl ControlTracking \<longrightarrow> \<not> qs_storage_consistent (so_capacity st'))"
  using assms by (auto simp: put_published_def Let_def note_control_def split: option.splits if_splits)

lemma put_existing_frame:
  assumes "put_existing lib env agent hash kind bytes st fs = (st', out)"
  shows "so_config st' = so_config st \<and> so_key st' = so_key st
     \<and> (\<forall>sr. out = Inr sr \<longrightarrow> st' = st \<and> (\<exists>b. storage_get lib st fs agent hash = Inr (sr, b))
          \<and> rt_kind (sr_receipt sr) = kind \<and> unat (rt_size_bytes (sr_receipt sr)) = length bytes)
     \<and> (qs_storage_consistent (so_capacity st') \<longrightarrow> qs_storage_consistent (so_capacity st))"
  using assms by (auto simp: put_existing_def fail_capacity_def write_failed_def split: sum.splits if_splits)

lemma storage_get_Inr:
  assumes "storage_get lib st fs agent hash = Inr (sr, b)"
  shows "verify_receipt lib sr (storage_public lib st) = Inr () \<and> rt_agent_id (sr_receipt sr) = agent
     \<and> rt_sha256 (sr_receipt sr) = hash \<and> sha256 lib b = hash
     \<and> unat (rt_size_bytes (sr_receipt sr)) = length b \<and> verify_body lib b sr = Inr ()"
  using assms
  by (auto simp: storage_get_def reader_get_def reader_def Let_def verify_body_def split: sum.splits option.splits if_splits)

lemma storage_get_config:
  "so_config st' = so_config st \<Longrightarrow> so_key st' = so_key st \<Longrightarrow> storage_get lib st' = storage_get lib st"
  by (simp add: fun_eq_iff storage_get_def reader_def storage_public_def)

lemma max_object_bound: "server_config_ok c \<Longrightarrow> unat (sv_max_object_bytes c) \<le> MAX_OBJECT_BYTES"
  by (simp add: server_config_ok_def)

lemma new_receipt_ok:
  assumes "server_config_ok (so_config st)" "new_receipt st now agent hash kind bytes = Some r"
    "valid_vault_id agent" "valid_kind kind" "valid_hash hash" "length bytes \<le> unat (sv_max_object_bytes (so_config st))"
  shows "receipt_fields_ok r \<and> rt_agent_id r = agent \<and> rt_sha256 r = hash \<and> rt_kind r = kind
     \<and> rt_key_id r = sv_key_id (so_config st) \<and> unat (rt_size_bytes r) = length bytes"
proof -
  let ?s = "sv_retention_secs (so_config st)"
  have s: "0 < unat ?s" "unat ?s \<le> 316224000"
    using assms(1) by (auto simp: server_config_ok_def unat_gt_0 word_le_nat_alt)
  then have ms: "unat (?s * 1000) = unat ?s * 1000" by (simp add: unat_word_ariths)
  obtain until where u: "checked_add now (?s * 1000) = Some until" and r: "r = \<lparr>rt_format = RECEIPT_FORMAT,
      rt_key_id = sv_key_id (so_config st), rt_agent_id = agent, rt_kind = kind, rt_sha256 = hash,
      rt_size_bytes = of_nat (length bytes), rt_received_at_ms = now, rt_retention_until_ms = until\<rparr>"
    using assms(2) by (auto simp: new_receipt_def split: option.splits)
  have "now < until" using unat_checked_add [OF u] ms s by (simp add: word_less_nat_alt)
  moreover have len: "unat (of_nat (length bytes) :: u64) = length bytes"
    using assms(6) unat_lt64 [of "sv_max_object_bytes (so_config st)"] by (simp add: unsigned_of_nat take_bit_nat_eq_self)
  ultimately show ?thesis using assms max_object_bound [OF assms(1)] r
    by (simp add: receipt_fields_ok_def server_config_ok_def)
qed

lemma get_after_publish:
  assumes "publish lib st env agent hash kind bytes fs = (fs', Inr sr)"
    and ok: "server_config_ok (so_config st)" "valid_vault_id agent" "valid_kind kind" "hash = sha256 lib bytes"
      "valid_hash hash" "length bytes \<le> unat (sv_max_object_bytes (so_config st))"
    and honest: "honest_key lib (so_key st)"
    and json: "\<And>json. vl_signed_receipt_json lib sr = Some json \<Longrightarrow>
        vl_parse_receipt lib json = Some sr \<and> length json \<le> MAX_RECEIPT_BYTES"
  shows "storage_get lib st fs' agent hash = Inr (sr, bytes) \<and> rt_kind (sr_receipt sr) = kind"
  using assms(1)
proof (rule publish_Inr)
  fix r js fs1 fs2
  assume r: "new_receipt st (en_now env) agent hash kind bytes = Some r" "sign_receipt lib r (so_key st) = Inr sr"
    and js: "vl_signed_receipt_json lib sr = Some js"
    and dir: "validate_private_directory (vf_stat fs') (vf_euid fs') (agent_path (so_config st) agent) = Inr ()"
    and files: "vf_files fs' agent (blob_name hash) = Some \<lparr>st_stat = fresh_stat fs1 (length bytes) 1, st_bytes = bytes, st_dangling = False\<rparr>"
      "vf_files fs' agent (receipt_name hash) = Some \<lparr>st_stat = fresh_stat fs2 (length js) 1, st_bytes = js, st_dangling = False\<rparr>"
    and uid: "vf_euid fs1 = vf_euid fs'" "vf_euid fs2 = vf_euid fs'"
  note fields = new_receipt_ok [OF ok(1) r(1) ok(2,3,5,6)]
  have sr: "sr_receipt sr = r" "verify_receipt lib sr (pinned_key lib (so_key st)) = Inr ()"
    using signed_receipt_verifies [OF honest _ r(2)] fields by auto
  have reads: "read_storage_file (vf_euid fs') (file_stat (vf_files fs' agent (blob_name hash))) (observe (vf_files fs' agent (blob_name hash)))
       (unat (sv_max_object_bytes (so_config st))) = Inr bytes"
    "read_storage_file (vf_euid fs') (file_stat (vf_files fs' agent (receipt_name hash))) (observe (vf_files fs' agent (receipt_name hash)))
       MAX_RECEIPT_BYTES = Inr js"
    unfolding files using json [OF js] ok(6) unat_lt64 uid
    by (auto intro!: read_fresh simp: MAX_RECEIPT_BYTES_def)
  have "verify_body lib bytes sr = Inr ()" using fields sr(1) ok(4) by (simp add: verify_body_def)
  then show ?thesis using reads dir sr fields json [OF js]
    by (simp add: storage_get_def reader_get_def reader_def Let_def agent_path_def storage_public_def pinned_key_def)
qed

lemma upload_Receipt:
  assumes "upload lib env h hash permit body task st fs = (st', fs', ReceiptResponse sr)"
  obtains agent kind bytes where "upload_agent (so_config st) h = Some agent" "\<not> hd_agent_id h" "hd_kind h = Some kind"
    "kind \<in> set [''evidence'', ''backup'', ''audit'']" "valid_hash hash" "body = BodyRead bytes" "sha256 lib bytes = hash"
    "put_inner lib env agent hash kind bytes False st fs = (st', fs', Inr sr)"
  using assms
  by (auto simp: upload_def storage_put_def split: option.splits if_splits body_result.splits prod.splits sum.splits put_error.splits)

lemma check_tokens_distinct:
  "check_tokens seen ts \<Longrightarrow> distinct ts \<and> set ts \<inter> set seen = {} \<and> list_all token_ok ts"
  by (induction ts arbitrary: seen) fastforce+

lemma checked_config:
  assumes "check_server_config c = Inr ()"
  shows "server_config_ok c \<and> distinct (sv_admin_token c # map snd (sv_agent_tokens c))
     \<and> (\<forall>(id, t)\<in>set (sv_agent_tokens c). valid_vault_id id)"
  using assms check_tokens_distinct
  by (fastforce simp: check_server_config_def list_all_iff split: if_splits)

lemma upload_agent_Some:
  "upload_agent c h = Some agent \<Longrightarrow> \<exists>t. (agent, t) \<in> set (sv_agent_tokens c) \<and> bearer h = Some t"
  by (auto simp: upload_agent_def split: option.splits dest: find_SomeD)

text \<open>
  C16: an upload that the server acknowledged with a receipt can be read back: the receipt verifies
  under the pinned key and names the agent of the token and the digest of the body, an
  administrator downloads content with that digest and length, exactly the uploaded bytes when
  the object was new, and repeating the upload returns the same receipt and changes nothing.
\<close>

theorem acknowledged_upload_is_readable:
  assumes "upload lib env h hash permit body task st fs = (st', fs', ReceiptResponse sr)"
    and "check_server_config (so_config st) = Inr ()" "honest_key lib (so_key st)"
    and "\<And>json. vl_signed_receipt_json lib sr = Some json \<Longrightarrow>
        vl_parse_receipt lib json = Some sr \<and> length json \<le> MAX_RECEIPT_BYTES"
  shows "\<exists>agent bytes b. body = BodyRead bytes \<and> upload_agent (so_config st) h = Some agent
     \<and> verify_receipt lib sr (pinned_key lib (so_key st)) = Inr ()
     \<and> rt_agent_id (sr_receipt sr) = agent \<and> rt_sha256 (sr_receipt sr) = hash
     \<and> sha256 lib b = hash \<and> length b = length bytes
     \<and> (\<not> path_exists (vf_files fs agent (receipt_name hash)) \<longrightarrow> b = bytes)
     \<and> (\<forall>h2. admin (so_config st) h2 \<longrightarrow> download lib h2 agent hash True True st' fs' = BytesResponse b)
     \<and> (\<forall>env2. en_sync_dir env2 \<longrightarrow> upload lib env2 h hash True body True st' fs' = (st', fs', ReceiptResponse sr))"
  using assms(1)
proof (rule upload_Receipt)
  fix agent kind bytes
  assume a: "upload_agent (so_config st) h = Some agent" "\<not> hd_agent_id h" "hd_kind h = Some kind"
    "kind \<in> set [''evidence'', ''backup'', ''audit'']" "valid_hash hash" "body = BodyRead bytes" "sha256 lib bytes = hash"
    and put: "put_inner lib env agent hash kind bytes False st fs = (st', fs', Inr sr)"
  note c = checked_config [OF assms(2)]
  have id: "valid_vault_id agent" using upload_agent_Some [OF a(1)] c by blast
  have kind: "valid_kind kind" "\<not> prefix ''bundle-'' kind" using a(4) by (auto simp: valid_kind_def)
  have len: "length bytes \<le> unat (sv_max_object_bytes (so_config st))"
    using put by (auto simp: put_inner_def split: sum.splits if_splits)
  have "\<exists>b. storage_get lib st fs' agent hash = Inr (sr, b) \<and> rt_kind (sr_receipt sr) = kind \<and> length b = length bytes
      \<and> (\<not> path_exists (vf_files fs agent (receipt_name hash)) \<longrightarrow> b = bytes)
      \<and> path_exists (vf_files fs' agent (receipt_name hash)) \<and> so_config st' = so_config st \<and> so_key st' = so_key st"
    using put
  proof (cases rule: put_inner_cases)
    case existing
    then show ?thesis using put_existing_frame [OF existing(3)] storage_get_Inr by fastforce
  next
    case (published cap sr' control)
    then have sr: "sr' = sr" "so_config st' = so_config st" "so_key st' = so_key st"
      using put_published_frame [OF published(2)] by auto
    have "path_exists (vf_files fs' agent (receipt_name hash))"
      using published(1) by (rule publish_Inr) (simp add: path_exists_def)
    with get_after_publish [OF published(1) _ id kind(1) a(7) [symmetric] a(5) len assms(3)] assms(4) c sr
    show ?thesis by auto
  qed auto
  then obtain b where b: "storage_get lib st fs' agent hash = Inr (sr, b)" "rt_kind (sr_receipt sr) = kind"
      "length b = length bytes" "path_exists (vf_files fs' agent (receipt_name hash))"
      "\<not> path_exists (vf_files fs agent (receipt_name hash)) \<longrightarrow> b = bytes"
    and st': "so_config st' = so_config st" "so_key st' = so_key st" by auto
  note g = storage_get_Inr [OF b(1)]
  have "download lib h2 agent hash True True st' fs' = BytesResponse b" if "admin (so_config st) h2" for h2
    using that b(1) g id a(5) st' by (simp add: download_def admin_request_def storage_get_config [OF st'])
  moreover have "upload lib env2 h hash True body True st' fs' = (st', fs', ReceiptResponse sr)" if "en_sync_dir env2" for env2
  proof -
    have "put_existing lib env2 agent hash kind bytes st' fs' = (st', Inr sr)"
      using that b g by (simp add: put_existing_def storage_get_config [OF st'])
    then have "put_inner lib env2 agent hash kind bytes False st' fs' = (st', fs', Inr sr)"
      using b(4) kind len st' by (simp add: put_inner_def control_of_def)
    then show ?thesis using a st' by (simp add: upload_def storage_put_def)
  qed
  ultimately show ?thesis using a b g by (auto simp: storage_public_def pinned_key_def)
qed

text \<open>
  C18: when a put changed the store but returned an error, so that an object may lie there without
  an acknowledged receipt, the vault is closed: no later put of any agent changes the store
  again, until the server is restarted and has scanned it.
\<close>

theorem unacknowledged_write_closes_vault:
  assumes "put_inner lib env agent hash kind bytes r st fs = (st', fs', Inl e)" "fs' \<noteq> fs"
    and "put_inner lib env2 agent2 hash2 kind2 bytes2 r2 st' fs2 = (st2, fs3, out)"
  shows "fs3 = fs2 \<and> \<not> qs_storage_consistent (so_capacity st2)"
proof -
  have closed: "\<not> qs_storage_consistent (so_capacity st')"
    using assms(1)
  proof (cases rule: put_inner_cases)
    case (failed cap e')
    then show ?thesis by (simp add: fail_capacity_def write_failed_def)
  next
    case (published cap sr control)
    then show ?thesis using put_published_frame [OF published(2)] by auto
  qed (use assms(2) in auto)
  show ?thesis using assms(3)
  proof (cases rule: put_inner_cases)
    case existing
    then show ?thesis using put_existing_frame [OF existing(3)] closed by blast
  qed (use closed in auto)
qed

text \<open>
  C19: the token alone decides the agent: with an accepted configuration, an upload writes only to
  the directory of the agent that owns its bearer token, a request without an agent's token, the
  administrator's included, is unauthorised and changes nothing.
\<close>

theorem uploads_are_isolated:
  assumes "check_server_config (so_config st) = Inr ()"
    and "upload lib env h hash permit body task st fs = (st', fs', resp)"
  shows "(\<forall>agent t. (agent, t) \<in> set (sv_agent_tokens (so_config st)) \<and> bearer h = Some t
            \<longrightarrow> upload_agent (so_config st) h = Some agent)
     \<and> (\<forall>agent. upload_agent (so_config st) h \<noteq> Some agent \<longrightarrow> vf_files fs' agent = vf_files fs agent)
     \<and> (admin (so_config st) h \<or> upload_agent (so_config st) h = None \<longrightarrow> resp = Unauthorized \<and> st' = st \<and> fs' = fs)"
proof -
  let ?ts = "sv_agent_tokens (so_config st)"
  have d: "distinct (sv_admin_token (so_config st) # map snd ?ts)" using checked_config [OF assms(1)] by blast
  have own: "upload_agent (so_config st) h = Some agent" if t: "(agent, t) \<in> set ?ts" "bearer h = Some t" for agent t
  proof -
    obtain x where x: "find (\<lambda>(_, expected). t = expected) ?ts = Some x" using t(1)
      by (metis (mono_tags, lifting) case_prod_conv find_None_iff not_None_eq)
    then have "x \<in> set ?ts" "snd x = t" using find_SomeD [OF x] by auto
    then have "x = (agent, t)" using d t(1) by (auto simp: distinct_map inj_on_def)
    then show ?thesis using t(2) x by (simp add: upload_agent_def)
  qed
  have other: "vf_files fs' a = vf_files fs a" if "upload_agent (so_config st) h \<noteq> Some a" for a
  proof -
    have "vf_files fs2 a = vf_files fs a" if "put_inner lib env agent hash kind bytes False st fs = (st2, fs2, out)" "a \<noteq> agent"
      for agent kind bytes st2 fs2 out
      using that(1)
    proof (cases rule: put_inner_cases)
      case (failed cap e)
      then show ?thesis using publish_keeps(2) [OF failed(1)] that(2) by blast
    next
      case (published cap sr control)
      then show ?thesis using publish_keeps(2) [OF published(1)] that(2) by blast
    qed auto
    then show ?thesis using assms(2) that
      by (auto simp: upload_def storage_put_def split: option.splits if_splits body_result.splits prod.splits sum.splits put_error.splits)
  qed
  have none: "upload_agent (so_config st) h = None" if "admin (so_config st) h"
  proof (rule ccontr)
    assume "upload_agent (so_config st) h \<noteq> None"
    then obtain agent t where "(agent, t) \<in> set ?ts" "bearer h = Some t" using upload_agent_Some by blast
    then show False using that d by (force simp: admin_def)
  qed
  have un: "resp = Unauthorized \<and> st' = st \<and> fs' = fs" if "admin (so_config st) h \<or> upload_agent (so_config st) h = None"
    using assms(2) that none by (auto simp: upload_def)
  have "\<forall>agent t. (agent, t) \<in> set ?ts \<and> bearer h = Some t \<longrightarrow> upload_agent (so_config st) h = Some agent"
    using own by blast
  then show ?thesis using other un by simp
qed

section \<open>Witnesses\<close>

lemma demo_config_ok: "check_server_config demo_server_config = Inr ()"
  by code_simp

lemma demo_hash_valid: "valid_hash demo_hash"
  by code_simp

lemma demo_reserve: "\<exists>cap. reserve demo_free ''a1'' 3 demo_capacity = (cap, Inr ())"
  by (simp add: reserve_def demo_eval)

lemma demo_components: "components ''/v/a1'' = [RootDir, Normal ''v'', Normal ''a1'']" "is_absolute ''/v/a1''"
  by code_simp+

lemma demo_directory:
  "\<exists>fs'. storage_directory demo_storage (demo_env b) ''a1'' demo_vault_fs = (fs', Inr ()) \<and> vf_files fs' = (\<lambda>_ _. None)"
  by (simp add: storage_directory_def Let_def agent_path_def demo_storage_def demo_server_config_def demo_vault_fs_def demo_env_def
      demo_components validate_private_directory_def check_directory_def mode_bits_def demo_dir_stat_def demo_fstat_def
      fresh_stat_def same_filesystem_def demo_capacity_def capacity_state_new_def)

lemma write_new_fresh:
  assumes "vf_files fs agent = m" "m name = None" "m (temp_name fs) = None" "wf_fails faults = None"
  shows "\<exists>fs' f. write_new faults agent name bytes fs = (fs', Inr ()) \<and> vf_files fs' agent = m(name := Some f)"
  using assms by (auto simp: write_new_def Let_def)

lemma temp_name_dot: "temp_name fs \<noteq> demo_hash @ x"
proof
  assume "temp_name fs = demo_hash @ x"
  then have "hd (temp_name fs) = hd (demo_hash @ x)" by simp
  moreover have "hd (demo_hash @ x) = CHR ''6''" by (simp add: demo_hash_def sha256_def demo_vault_lib_def hex_encode_def hex_byte_def byte_def)
  ultimately show False by (simp add: temp_name_def)
qed

lemma demo_publish:
  "\<exists>fs'. publish demo_server_lib demo_storage (demo_env b) ''a1'' demo_hash ''backup'' ''abc'' demo_vault_fs 
     = (fs', if b then Inr demo_upload_receipt else Inl (PutVault IoError)) \<and> fs' \<noteq> demo_vault_fs"
proof -
  obtain fs1 where d: "storage_directory demo_storage (demo_env b) ''a1'' demo_vault_fs = (fs1, Inr ())" "vf_files fs1 = (\<lambda>_ _. None)"
    using demo_directory by blast
  obtain fs2 f where ob: "write_new (en_object (demo_env b)) ''a1'' (blob_name demo_hash) ''abc'' fs1 = (fs2, Inr ())"
    "vf_files fs2 ''a1'' = (\<lambda>_. None)(blob_name demo_hash := Some f)"
    using write_new_fresh [of fs1 "''a1''" "\<lambda>_. None" "blob_name demo_hash" "en_object (demo_env b)" "''abc''"] d(2) by (auto simp: demo_env_def)
  let ?js = "sr_signature_hex demo_upload_receipt"
  obtain fs3 g where r: "write_new (en_receipt (demo_env b)) ''a1'' (receipt_name demo_hash) ?js fs2 = (fs3, Inr ())"
    "vf_files fs3 ''a1'' = (vf_files fs2 ''a1'')(receipt_name demo_hash := Some g)"
    using write_new_fresh [OF ob(2), of "receipt_name demo_hash" "en_receipt (demo_env b)" ?js] temp_name_dot [of fs2]
    by (auto simp: demo_env_def ob(2) blob_name_def receipt_name_def)
  have n: "new_receipt demo_storage (en_now (demo_env b)) ''a1'' demo_hash ''backup'' ''abc'' = Some (sr_receipt demo_upload_receipt)"
    by (simp add: new_receipt_def demo_storage_def demo_env_def demo_server_config_def server_config_default_def
        demo_upload_receipt_def checked_add_def)
  have s: "sign_receipt demo_server_lib (sr_receipt demo_upload_receipt) (so_key demo_storage) = Inr demo_upload_receipt"
    by (simp add: sign_receipt_def demo_server_lib_def demo_vault_lib_def demo_upload_receipt_def demo_storage_def demo_signature_def)
  have j: "vl_signed_receipt_json demo_server_lib demo_upload_receipt = Some ?js"
    by (simp add: demo_server_lib_def demo_vault_lib_def)
  have "fs3 \<noteq> demo_vault_fs"
  proof
    assume "fs3 = demo_vault_fs"
    then have "vf_files fs3 ''a1'' (receipt_name demo_hash) = None" by (simp add: demo_vault_fs_def)
    then show False using r(2) by simp
  qed
  with d ob(1) r(1) n s j show ?thesis by (simp add: publish_def demo_env_def)
qed

lemma demo_put:
  obtains st' fs' where "put_inner demo_server_lib (demo_env b) ''a1'' demo_hash ''backup'' ''abc'' False demo_storage demo_vault_fs
     = (st', fs', if b then Inr demo_upload_receipt else Inl (PutVault IoError))" "fs' \<noteq> demo_vault_fs"
proof -
  obtain cap where cap: "reserve demo_free ''a1'' 3 demo_capacity = (cap, Inr ())" using demo_reserve by blast
  obtain fs' where p: "publish demo_server_lib demo_storage (demo_env b) ''a1'' demo_hash ''backup'' ''abc'' demo_vault_fs
      = (fs', if b then Inr demo_upload_receipt else Inl (PutVault IoError))" "fs' \<noteq> demo_vault_fs"
    using demo_publish by blast
  have pre: "control_of demo_server_lib demo_storage ''a1'' ''backup'' ''abc'' = Inr None"
    "unat (sv_max_object_bytes (so_config demo_storage)) = MAX_OBJECT_BYTES"
    "vf_files demo_vault_fs = (\<lambda>_ _. None)" "en_free (demo_env b) = demo_free" "so_capacity demo_storage = demo_capacity"
    by (simp_all add: control_of_def demo_storage_def demo_server_config_def server_config_default_def demo_vault_fs_def demo_env_def
        MAX_OBJECT_BYTES_def)
  have "\<exists>st'. put_inner demo_server_lib (demo_env b) ''a1'' demo_hash ''backup'' ''abc'' False demo_storage demo_vault_fs
      = (st', fs', if b then Inr demo_upload_receipt else Inl (PutVault IoError))"
    using p(1) cap pre by (simp add: put_inner_def path_exists_def put_published_def MAX_OBJECT_BYTES_def split: if_splits)
  with p(2) that show ?thesis by blast
qed

lemma demo_upload:
  obtains st' fs' where "upload demo_server_lib (demo_env True) (demo_headers ''agent-token-1111'') demo_hash True (BodyRead ''abc'') True
      demo_storage demo_vault_fs = (st', fs', ReceiptResponse demo_upload_receipt)"
proof -
  obtain st' fs' where p: "put_inner demo_server_lib (demo_env True) ''a1'' demo_hash ''backup'' ''abc'' False demo_storage demo_vault_fs
     = (st', fs', if True then Inr demo_upload_receipt else Inl (PutVault IoError))" by (rule demo_put)
  have "sha256 demo_server_lib ''abc'' = demo_hash" by (simp add: demo_hash_def sha256_def demo_server_lib_def)
  with p that show ?thesis
    by (simp add: upload_def storage_put_def upload_agent_def bearer_def strip_prefix_def demo_headers_def demo_storage_def
        demo_server_config_def demo_hash_valid)
qed

theorem vault_is_append_only_witness:
  "\<exists>st' fs' out. put_inner demo_server_lib (demo_env False) ''a1'' demo_hash ''backup'' ''abc'' False demo_storage demo_vault_fs = (st', fs', out)
     \<and> fs' \<noteq> demo_vault_fs \<and> vf_files fs' ''a2'' = vf_files demo_vault_fs ''a2''"
proof -
  obtain st' fs' where p: "put_inner demo_server_lib (demo_env False) ''a1'' demo_hash ''backup'' ''abc'' False demo_storage demo_vault_fs
     = (st', fs', if False then Inr demo_upload_receipt else Inl (PutVault IoError))" "fs' \<noteq> demo_vault_fs" by (rule demo_put)
  note p = p [unfolded if_False]
  from vault_is_append_only [OF p(1)] p show ?thesis by auto
qed

theorem acknowledged_upload_is_readable_witness:
  "\<exists>st' fs'. upload demo_server_lib (demo_env True) (demo_headers ''agent-token-1111'') demo_hash True (BodyRead ''abc'') True
       demo_storage demo_vault_fs = (st', fs', ReceiptResponse demo_upload_receipt)
     \<and> download demo_server_lib (demo_headers ''admin-token-0000'') ''a1'' demo_hash True True st' fs' = BytesResponse ''abc''"
proof -
  obtain st' fs' where u: "upload demo_server_lib (demo_env True) (demo_headers ''agent-token-1111'') demo_hash True (BodyRead ''abc'') True
      demo_storage demo_vault_fs = (st', fs', ReceiptResponse demo_upload_receipt)" by (rule demo_upload)
  have c: "check_server_config (so_config demo_storage) = Inr ()" using demo_config_ok by (simp add: demo_storage_def)
  have k: "honest_key demo_server_lib (so_key demo_storage)"
    using demo_honest by (simp add: honest_key_def demo_server_lib_def demo_storage_def)
  have j: "vl_parse_receipt demo_server_lib json = Some demo_upload_receipt \<and> length json \<le> MAX_RECEIPT_BYTES"
    if "vl_signed_receipt_json demo_server_lib demo_upload_receipt = Some json" for json
    using that by (auto simp: demo_server_lib_def demo_vault_lib_def demo_upload_receipt_def demo_signature_def demo_sign_def
        demo_key_def lower_hex.encode_length MAX_RECEIPT_BYTES_def)
  have a: "upload_agent (so_config demo_storage) (demo_headers ''agent-token-1111'') = Some ''a1''"
    "admin (so_config demo_storage) (demo_headers ''admin-token-0000'')" "\<not> path_exists (vf_files demo_vault_fs ''a1'' n)" for n
    by (simp_all add: upload_agent_def admin_def bearer_def strip_prefix_def demo_headers_def demo_storage_def
        demo_server_config_def demo_vault_fs_def path_exists_def)
  from acknowledged_upload_is_readable [OF u c k j] a u show ?thesis by auto
qed

theorem unacknowledged_write_closes_vault_witness:
  "\<exists>st' fs' st2 fs3 out. put_inner demo_server_lib (demo_env False) ''a1'' demo_hash ''backup'' ''abc'' False demo_storage demo_vault_fs
       = (st', fs', Inl (PutVault IoError)) \<and> fs' \<noteq> demo_vault_fs
     \<and> put_inner demo_server_lib (demo_env True) ''a1'' demo_hash ''backup'' ''abc'' False st' demo_vault_fs = (st2, fs3, out) \<and> fs3 = demo_vault_fs"
proof -
  obtain st' fs' where p: "put_inner demo_server_lib (demo_env False) ''a1'' demo_hash ''backup'' ''abc'' False demo_storage demo_vault_fs
     = (st', fs', if False then Inr demo_upload_receipt else Inl (PutVault IoError))" "fs' \<noteq> demo_vault_fs" by (rule demo_put)
  note p = p [unfolded if_False]
  obtain st2 fs3 out where q: "put_inner demo_server_lib (demo_env True) ''a1'' demo_hash ''backup'' ''abc'' False st' demo_vault_fs = (st2, fs3, out)"
    by (metis surj_pair)
  from unacknowledged_write_closes_vault [OF p q] p q show ?thesis by blast
qed

theorem uploads_are_isolated_witness:
  "\<exists>st' fs' resp. upload demo_server_lib (demo_env True) (demo_headers ''admin-token-0000'') demo_hash True (BodyRead ''abc'') True
       demo_storage demo_vault_fs = (st', fs', resp) \<and> resp = Unauthorized \<and> fs' = demo_vault_fs"
proof -
  obtain st' fs' resp where u: "upload demo_server_lib (demo_env True) (demo_headers ''admin-token-0000'') demo_hash True (BodyRead ''abc'') True
      demo_storage demo_vault_fs = (st', fs', resp)" by (metis surj_pair)
  have c: "check_server_config (so_config demo_storage) = Inr ()" using demo_config_ok by (simp add: demo_storage_def)
  have "admin (so_config demo_storage) (demo_headers ''admin-token-0000'')"
    by (simp add: admin_def bearer_def strip_prefix_def demo_headers_def demo_storage_def demo_server_config_def)
  with uploads_are_isolated [OF c u] u show ?thesis by blast
qed

end
