(* ===== verification/Vault_Queue.thy ===== *)
theory Vault_Queue
  imports Vault_Server
begin

text \<open>
  Crate \<^verbatim>\<open>argos-vault\<close>, \<^verbatim>\<open>queue.rs\<close>: the local upload queue.  Its state is the SQLite database
  (one row of settings, the active items and the archive of receipts) and the directory of
  snapshots, a store as in \<open>Vault_Server\<close>.  A transaction changes the database only when it
  commits; a commit may report an error although it took effect.  The clock, random ids, the
  listing of the directory and the failures of the operating system are arguments.
\<close>

section \<open>Data\<close>

definition OBJECTS :: string where
  "OBJECTS = ''objects''"

definition MAX_ITEMS :: nat where
  "MAX_ITEMS = 10000"

definition MAX_BYTES :: u64 where
  "MAX_BYTES = 8 * 1024 * 1024 * 1024"

definition STATUS_ITEMS :: nat where
  "STATUS_ITEMS = 100"

definition SCHEMA_VERSION :: nat where
  "SCHEMA_VERSION = 3"

definition MAX_ARCHIVE_ITEMS :: nat where
  "MAX_ARCHIVE_ITEMS = 100000"

definition LEASE_GRACE_MS :: u64 where
  "LEASE_GRACE_MS = 30000"

record queue_limits =
  ql_max_items :: u64
  ql_max_bytes :: u64

definition queue_limits_default :: queue_limits where
  "queue_limits_default = \<lparr>ql_max_items = 1000, ql_max_bytes = 256 * 1024 * 1024\<rparr>"

definition limits_valid :: "queue_limits \<Rightarrow> bool" where
  "limits_valid l =
     (1 \<le> ql_max_items l \<and> unat (ql_max_items l) \<le> MAX_ITEMS \<and> 1 \<le> ql_max_bytes l \<and> ql_max_bytes l \<le> MAX_BYTES)"

record queue_target =
  qt_endpoint :: string
  qt_agent_id :: string
  qt_key_id :: string
  qt_pinned_pubkey :: string
  qt_allow_http_loopback :: bool
  qt_tls_ca_sha256 :: "string option"

record queue_item =
  it_id :: string
  it_kind :: string
  it_sha256 :: string
  it_size_bytes :: u64
  it_state :: string
  it_created_at_ms :: u64
  it_attempts :: u32
  it_next_retry_ms :: u64
  it_last_error :: "string option"
  it_sent_at_ms :: "u64 option"
  it_receipt :: "signed_receipt option"

text \<open>A row of \<^verbatim>\<open>queue_items\<close> and of \<^verbatim>\<open>receipt_archive\<close>, whose receipt is JSON text.\<close>

record queue_row =
  rw_id :: string
  rw_kind :: string
  rw_sha256 :: string
  rw_size_bytes :: u64
  rw_state :: string
  rw_created_at_ms :: u64
  rw_attempts :: u32
  rw_next_retry_ms :: u64
  rw_last_error :: "string option"
  rw_sent_at_ms :: "u64 option"
  rw_receipt_json :: "string option"
  rw_lease_token :: "string option"
  rw_lease_expires_ms :: "u64 option"

record queue_db =
  db_version :: nat
  db_meta :: "(queue_target \<times> queue_limits) option"
  db_items :: "queue_row list"
  db_archive :: "queue_row list"

text \<open>An interrupted initialisation leaves files behind and is never repaired.\<close>

datatype db_file = DbAbsent | DbBroken | DbReady queue_db

record queue_state =
  qu_db :: db_file
  qu_fs :: vault_fs

datatype queue_error =
    QIo | QVault vault_error | QBadLimits | QBadKind | QNotInitialised | QBadDatabase | QBadTarget
  | QTargetMismatch | QBadItem | QNotVerified | QSnapshotMismatch | QArchiveFull | QQueueFull | QDecode
  | QBadSnapshotDir | QConstraint | QBatch | QNotFound

text \<open>What the operating system does during one opening of the queue.\<close>

record queue_io =
  io_open :: bool
  io_quick_check :: bool
  io_init_commit :: commit_outcome
  io_migrate_commit :: commit_outcome
  io_listing :: "string option list option"
  io_remove :: "string \<Rightarrow> bool"
  io_sync :: bool

section \<open>Items\<close>

definition id_ok :: "string \<Rightarrow> bool" where
  "id_ok i = (length i = 32 \<and> list_all lower_hex_digit i)"

definition decode_row :: "vault_lib \<Rightarrow> queue_row \<Rightarrow> queue_item option" where
  "decode_row lib r =
     (let item = (\<lambda>receipt. \<lparr>it_id = rw_id r, it_kind = rw_kind r, it_sha256 = rw_sha256 r,
            it_size_bytes = rw_size_bytes r, it_state = rw_state r, it_created_at_ms = rw_created_at_ms r,
            it_attempts = rw_attempts r, it_next_retry_ms = rw_next_retry_ms r, it_last_error = rw_last_error r,
            it_sent_at_ms = rw_sent_at_ms r, it_receipt = receipt\<rparr>)
      in case rw_receipt_json r of
           None \<Rightarrow> Some (item None)
         | Some text \<Rightarrow> map_option (\<lambda>sr. item (Some sr)) (vl_parse_receipt lib text))"

definition verified_item :: "vault_lib \<Rightarrow> queue_item \<Rightarrow> queue_target \<Rightarrow> queue_error + unit" where
  "verified_item lib item target =
     (case it_receipt item of None \<Rightarrow> Inl QNotVerified | Some ack \<Rightarrow>
      case verify_receipt lib ack (qt_pinned_pubkey target) of Inl e \<Rightarrow> Inl (QVault e) | Inr _ \<Rightarrow>
      if \<not> id_ok (it_id item) \<or> it_state item \<noteq> ''sent'' \<or> it_sent_at_ms item = None
         \<or> rt_agent_id (sr_receipt ack) \<noteq> qt_agent_id target \<or> rt_key_id (sr_receipt ack) \<noteq> qt_key_id target
         \<or> rt_kind (sr_receipt ack) \<noteq> it_kind item \<or> rt_sha256 (sr_receipt ack) \<noteq> it_sha256 item
         \<or> rt_size_bytes (sr_receipt ack) \<noteq> it_size_bytes item
      then Inl QNotVerified else Inr ())"

definition snapshot_name :: "string \<Rightarrow> string" where
  "snapshot_name i = i @ ''.bin''"

text \<open>The URL of \<^verbatim>\<open>validated_endpoint\<close> and the digest of the TLS root are results of the HTTP client.\<close>

definition target_from_config ::
  "vault_lib \<Rightarrow> (vault_error + string) \<Rightarrow> string \<Rightarrow> string \<Rightarrow> string \<Rightarrow> bool \<Rightarrow> (vault_error + string option) \<Rightarrow>
     queue_error + queue_target" where
  "target_from_config lib endpoint agent_id key_id pinned allow_http tls =
     (case endpoint of Inl e \<Rightarrow> Inl (QVault e) | Inr url \<Rightarrow>
      if \<not> valid_vault_id agent_id then Inl QBadTarget
      else case public_key lib pinned of Inl e \<Rightarrow> Inl (QVault e) | Inr key \<Rightarrow>
      case tls of Inl e \<Rightarrow> Inl (QVault e) | Inr ca \<Rightarrow>
      Inr \<lparr>qt_endpoint = url, qt_agent_id = agent_id, qt_key_id = key_id, qt_pinned_pubkey = vl_hex_encode lib key,
           qt_allow_http_loopback = allow_http, qt_tls_ca_sha256 = ca\<rparr>)"

section \<open>Opening the database\<close>

definition row_bad :: "queue_row \<Rightarrow> bool" where
  "row_bad r =
     (rw_state r \<noteq> ''pending'' \<or> rw_receipt_json r \<noteq> None \<or> rw_sent_at_ms r \<noteq> None
      \<or> (rw_lease_token r = None) \<noteq> (rw_lease_expires_ms r = None))"

definition archive_bad :: "queue_row \<Rightarrow> bool" where
  "archive_bad r =
     (rw_state r \<noteq> ''sent'' \<or> rw_receipt_json r = None \<or> rw_sent_at_ms r = None
      \<or> rw_lease_token r \<noteq> None \<or> rw_lease_expires_ms r \<noteq> None)"

definition rows_clash :: "queue_row \<Rightarrow> queue_row \<Rightarrow> bool" where
  "rows_clash q a = (rw_id q = rw_id a \<or> (rw_kind q = rw_kind a \<and> rw_sha256 q = rw_sha256 a))"

definition validate_database :: "vault_lib \<Rightarrow> bool \<Rightarrow> queue_db \<Rightarrow> queue_error + unit" where
  "validate_database lib quick_check db =
     (if db_version db \<notin> {1, 2, SCHEMA_VERSION} \<or> \<not> quick_check then Inl QBadDatabase
      else case db_meta db of None \<Rightarrow> Inl QBadDatabase | Some (target, limits) \<Rightarrow>
      if \<not> valid_vault_id (qt_agent_id target) \<or> \<not> valid_vault_id (qt_key_id target) then Inl QBadTarget
      else case public_key lib (qt_pinned_pubkey target) of Inl e \<Rightarrow> Inl (QVault e) | Inr _ \<Rightarrow>
      if \<not> limits_valid limits then Inl QBadLimits
      else if MAX_ITEMS < length (db_items db) then Inl QBadDatabase
      else if 2 \<le> db_version db
           \<and> (MAX_ARCHIVE_ITEMS < length (db_archive db) + length (db_items db)
              \<or> list_ex row_bad (db_items db)
              \<or> list_ex (\<lambda>q. list_ex (rows_clash q) (db_archive db)) (db_items db)
              \<or> list_ex archive_bad (db_archive db))
      then Inl QBadDatabase else Inr ())"

definition sent_rows :: "queue_db \<Rightarrow> queue_row list" where
  "sent_rows db = filter (\<lambda>r. rw_state r = ''sent'') (db_items db)"

fun verify_rows :: "vault_lib \<Rightarrow> queue_target \<Rightarrow> queue_row list \<Rightarrow> queue_error + unit" where
  "verify_rows lib target [] = Inr ()"
| "verify_rows lib target (r # rs) =
     (case decode_row lib r of None \<Rightarrow> Inl QDecode | Some item \<Rightarrow>
      case verified_item lib item target of Inl e \<Rightarrow> Inl e | Inr _ \<Rightarrow> verify_rows lib target rs)"

definition old_row_bad :: "queue_row \<Rightarrow> bool" where
  "old_row_bad r =
     (rw_state r \<notin> {''pending'', ''sent''}
      \<or> (rw_state r = ''pending'' \<and> (rw_receipt_json r \<noteq> None \<or> rw_sent_at_ms r \<noteq> None)))"

definition migrate :: "vault_lib \<Rightarrow> commit_outcome \<Rightarrow> queue_db \<Rightarrow> queue_db \<times> (queue_error + unit)" where
  "migrate lib outcome db =
     (if db_version db = SCHEMA_VERSION then (db, Inr ())
      else if db_version db = 1 then
        (case db_meta db of None \<Rightarrow> (db, Inl QBadDatabase) | Some (target, _) \<Rightarrow>
         case verify_rows lib target (sent_rows db) of Inl e \<Rightarrow> (db, Inl e) | Inr _ \<Rightarrow>
         if list_ex old_row_bad (db_items db) then (db, Inl QBadDatabase)
         else commit QIo outcome db
           (db\<lparr>db_version := SCHEMA_VERSION,
               db_archive := map (\<lambda>r. r\<lparr>rw_lease_token := None, rw_lease_expires_ms := None\<rparr>) (sent_rows db),
               db_items := map (\<lambda>r. r\<lparr>rw_lease_token := None, rw_lease_expires_ms := None\<rparr>)
                 (filter (\<lambda>r. rw_state r \<noteq> ''sent'') (db_items db))\<rparr>) ())
      else commit QIo outcome db (db\<lparr>db_version := SCHEMA_VERSION\<rparr>) ())"

definition assert_target :: "queue_db \<Rightarrow> queue_target \<Rightarrow> queue_error + unit" where
  "assert_target db target =
     (case db_meta db of None \<Rightarrow> Inl QTargetMismatch | Some (stored, _) \<Rightarrow>
      if stored \<noteq> target then Inl QTargetMismatch else Inr ())"

section \<open>Cleaning the snapshot directory\<close>

definition pending_ids :: "queue_db \<Rightarrow> string list" where
  "pending_ids db = map rw_id (filter (\<lambda>r. rw_state r = ''pending'') (db_items db))"

definition archived_ok :: "vault_lib \<Rightarrow> queue_db \<Rightarrow> string \<Rightarrow> queue_error + unit" where
  "archived_ok lib db i =
     (case find (\<lambda>r. rw_id r = i) (db_archive db) of None \<Rightarrow> Inr () | Some r \<Rightarrow>
      case decode_row lib r of None \<Rightarrow> Inl QDecode | Some item \<Rightarrow>
      case db_meta db of None \<Rightarrow> Inl QBadDatabase | Some (target, _) \<Rightarrow> verified_item lib item target)"

definition snapshot_id :: "string \<Rightarrow> string option" where
  "snapshot_id name =
     (case strip_suffix ''.bin'' name of None \<Rightarrow> None | Some i \<Rightarrow> if id_ok i then Some i else None)"

definition clean_entry ::
  "vault_lib \<Rightarrow> queue_io \<Rightarrow> queue_db \<Rightarrow> string \<Rightarrow> vault_fs \<Rightarrow> vault_fs \<times> (queue_error + bool)" where
  "clean_entry lib io db name fs =
     (case file_stat (vf_files fs OBJECTS name) of None \<Rightarrow> (fs, Inl QIo) | Some m \<Rightarrow>
      if \<not> fs_is_file m \<or> fs_symlink m then (fs, Inl QBadSnapshotDir)
      else
        let temporary = (prefix ''.argos-vault-'' name \<and> suffix ''.tmp'' name); sid = snapshot_id name
        in if temporary \<or> (case sid of None \<Rightarrow> False | Some i \<Rightarrow> i \<notin> set (pending_ids db))
           then (case (case sid of None \<Rightarrow> Inr () | Some i \<Rightarrow> archived_ok lib db i) of
                   Inl e \<Rightarrow> (fs, Inl e)
                 | Inr _ \<Rightarrow>
                     if \<not> io_remove io name then (fs, Inl QIo)
                     else (set_file OBJECTS name None fs, Inr True))
           else if sid = None then (fs, Inl QBadSnapshotDir) else (fs, Inr False))"

fun clean_entries ::
  "vault_lib \<Rightarrow> queue_io \<Rightarrow> queue_db \<Rightarrow> string option list \<Rightarrow> nat \<Rightarrow> bool \<Rightarrow> vault_fs \<Rightarrow>
     vault_fs \<times> (queue_error + bool)" where
  "clean_entries lib io db [] n removed fs = (fs, Inr removed)"
| "clean_entries lib io db (x # xs) n removed fs =
     (if MAX_ITEMS * 2 + 100 \<le> n then (fs, Inl QBadSnapshotDir)
      else case x of None \<Rightarrow> (fs, Inl QIo) | Some name \<Rightarrow>
        (case clean_entry lib io db name fs of
           (fs, Inl e) \<Rightarrow> (fs, Inl e)
         | (fs, Inr r) \<Rightarrow> clean_entries lib io db xs (Suc n) (removed \<or> r) fs))"

definition cleanup :: "vault_lib \<Rightarrow> queue_io \<Rightarrow> queue_db \<Rightarrow> vault_fs \<Rightarrow> vault_fs \<times> (queue_error + unit)" where
  "cleanup lib io db fs =
     (if MAX_ITEMS < length (db_items db)
         \<or> list_ex (\<lambda>r. \<not> id_ok (rw_id r) \<or> rw_state r \<notin> {''pending'', ''sent''}) (db_items db)
      then (fs, Inl QBadDatabase)
      else case io_listing io of None \<Rightarrow> (fs, Inl QIo) | Some names \<Rightarrow>
        (case clean_entries lib io db names 0 False fs of
           (fs, Inl e) \<Rightarrow> (fs, Inl e)
         | (fs, Inr removed) \<Rightarrow> (fs, if removed \<and> \<not> io_sync io then Inl QIo else Inr ())))"

definition new_db :: "queue_target \<Rightarrow> queue_limits \<Rightarrow> queue_db" where
  "new_db target limits =
     \<lparr>db_version = SCHEMA_VERSION, db_meta = Some (target, limits), db_items = [], db_archive = []\<rparr>"

definition open_existing ::
  "vault_lib \<Rightarrow> queue_io \<Rightarrow> queue_db \<Rightarrow> queue_state \<Rightarrow> queue_state \<times> (queue_error + queue_db)" where
  "open_existing lib io db st =
     (case validate_database lib (io_quick_check io) db of Inl e \<Rightarrow> (st, Inl e) | Inr _ \<Rightarrow>
      case migrate lib (io_migrate_commit io) db of
        (db, Inl e) \<Rightarrow> (st\<lparr>qu_db := DbReady db\<rparr>, Inl e)
      | (db, Inr _) \<Rightarrow>
          (case cleanup lib io db (qu_fs st) of
             (fs, Inl e) \<Rightarrow> (\<lparr>qu_db = DbReady db, qu_fs = fs\<rparr>, Inl e)
           | (fs, Inr _) \<Rightarrow> (\<lparr>qu_db = DbReady db, qu_fs = fs\<rparr>, Inr db)))"

definition open_mutating ::
  "vault_lib \<Rightarrow> queue_io \<Rightarrow> (queue_target \<times> queue_limits) option \<Rightarrow> queue_state \<Rightarrow>
     queue_state \<times> (queue_error + queue_db)" where
  "open_mutating lib io initialize st =
     (if \<not> io_open io then (st, Inl QIo)
      else case qu_db st of
        DbBroken \<Rightarrow> (st, Inl QIo)
      | DbReady db \<Rightarrow> open_existing lib io db st
      | DbAbsent \<Rightarrow>
          (case initialize of
             None \<Rightarrow> (st, Inl QNotInitialised)
           | Some (target, limits) \<Rightarrow>
               (case commit QIo (io_init_commit io) DbBroken (DbReady (new_db target limits)) () of
                  (file, Inl e) \<Rightarrow> (st\<lparr>qu_db := file\<rparr>, Inl e)
                | (file, Inr _) \<Rightarrow> open_existing lib io (new_db target limits) (st\<lparr>qu_db := file\<rparr>))))"

section \<open>Enqueue\<close>

definition find_object :: "queue_db \<Rightarrow> string \<Rightarrow> string \<Rightarrow> queue_row option" where
  "find_object db kind hash =
     find (\<lambda>r. rw_kind r = kind \<and> rw_sha256 r = hash) (db_items db @ db_archive db)"

definition pending_bytes :: "queue_db \<Rightarrow> nat" where
  "pending_bytes db =
     sum_list (map (\<lambda>r. if rw_state r = ''pending'' then unat (rw_size_bytes r) else 0) (db_items db))"

text \<open>
  Reading a snapshot: the checks of \<^verbatim>\<open>private_file\<close> before and after a bounded read.
\<close>

definition private_regular :: "vault_fs \<Rightarrow> stored_file option \<Rightarrow> queue_error + unit" where
  "private_regular fs f =
     (case file_stat f of None \<Rightarrow> Inl QIo | Some m \<Rightarrow>
      if \<not> fs_is_file m \<or> fs_symlink m \<or> \<not> private_file (vf_euid fs) m then Inl (QVault BadStorageFile) else Inr ())"

definition read_snapshot :: "vault_fs \<Rightarrow> string \<Rightarrow> nat \<Rightarrow> queue_error + string" where
  "read_snapshot fs i limit =
     (if \<not> id_ok i then Inl QBadItem
      else
        let f = vf_files fs OBJECTS (snapshot_name i)
        in case private_regular fs f of Inl e \<Rightarrow> Inl e | Inr _ \<Rightarrow>
           case read_bounded_file (observe f) limit of Inl e \<Rightarrow> Inl (QVault e) | Inr bytes \<Rightarrow> Inr bytes)"

definition item_content_ok :: "vault_lib \<Rightarrow> queue_item \<Rightarrow> string \<Rightarrow> bool" where
  "item_content_ok lib item bytes =
     (length bytes = unat (it_size_bytes item) \<and> sha256 lib bytes = it_sha256 item)"

text \<open>What one call of \<^verbatim>\<open>enqueue\<close> meets: the opening, the clock, the random id, the write and the commit.\<close>

record enqueue_env =
  eq_io :: queue_io
  eq_now :: u64
  eq_random :: "string option"
  eq_write :: write_faults
  eq_commit :: commit_outcome

definition enqueue_existing ::
  "vault_lib \<Rightarrow> enqueue_env \<Rightarrow> queue_target \<Rightarrow> nat \<Rightarrow> queue_row \<Rightarrow> queue_state \<Rightarrow> queue_error + queue_item" where
  "enqueue_existing lib env target max_object r st =
     (case decode_row lib r of None \<Rightarrow> Inl QDecode | Some item \<Rightarrow>
      case (if it_state item = ''sent'' then verified_item lib item target
            else case read_snapshot (qu_fs st) (it_id item) max_object of Inl e \<Rightarrow> Inl e | Inr stored \<Rightarrow>
              if item_content_ok lib item stored then Inr () else Inl QSnapshotMismatch) of
        Inl e \<Rightarrow> Inl e
      | Inr _ \<Rightarrow> if eq_commit env = Committed then Inr item else Inl QIo)"

definition new_row :: "string \<Rightarrow> string \<Rightarrow> string \<Rightarrow> nat \<Rightarrow> u64 \<Rightarrow> queue_row" where
  "new_row i kind hash len now =
     \<lparr>rw_id = i, rw_kind = kind, rw_sha256 = hash, rw_size_bytes = of_nat len, rw_state = ''pending'',
      rw_created_at_ms = now, rw_attempts = 0, rw_next_retry_ms = now, rw_last_error = None, rw_sent_at_ms = None,
      rw_receipt_json = None, rw_lease_token = None, rw_lease_expires_ms = None\<rparr>"

definition insert_new ::
  "vault_lib \<Rightarrow> enqueue_env \<Rightarrow> queue_limits \<Rightarrow> string \<Rightarrow> string \<Rightarrow> string \<Rightarrow> queue_db \<Rightarrow> queue_state \<Rightarrow>
     queue_state \<times> (queue_error + queue_item)" where
  "insert_new lib env limits kind hash bytes db st =
     (case eq_random env of None \<Rightarrow> (st, Inl QIo) | Some i \<Rightarrow>
      if \<not> id_ok i then (st, Inl QBadItem)
      else case write_new (eq_write env) OBJECTS (snapshot_name i) bytes (qu_fs st) of
        (fs, Inl e) \<Rightarrow> (st\<lparr>qu_fs := fs\<rparr>, Inl (QVault e))
      | (fs, Inr _) \<Rightarrow>
          let st = st\<lparr>qu_fs := fs\<rparr>; row = new_row i kind hash (length bytes) (min (eq_now env) i64_max);
              meta = map_option (\<lambda>(target, _). (target, limits)) (db_meta db)
          in if i \<in> rw_id ` set (db_items db)
                \<or> list_ex (\<lambda>r. rw_kind r = kind \<and> rw_sha256 r = hash) (db_items db)
             then (st, Inl QConstraint)
             else (case decode_row lib row of None \<Rightarrow> (st, Inl QDecode) | Some item \<Rightarrow>
               (case commit QIo (eq_commit env) db (db\<lparr>db_meta := meta, db_items := db_items db @ [row]\<rparr>) item of
                  (db, out) \<Rightarrow> (st\<lparr>qu_db := DbReady db\<rparr>, out))))"

definition enqueue ::
  "vault_lib \<Rightarrow> enqueue_env \<Rightarrow> (queue_error + queue_target) \<Rightarrow> nat \<Rightarrow> (vault_error + string) \<Rightarrow> string \<Rightarrow>
     queue_limits \<Rightarrow> queue_state \<Rightarrow> queue_state \<times> (queue_error + queue_item)" where
  "enqueue lib env config_target max_object source kind limits st =
     (if \<not> limits_valid limits then (st, Inl QBadLimits)
      else if \<not> valid_kind kind then (st, Inl QBadKind)
      else case config_target of Inl e \<Rightarrow> (st, Inl e) | Inr target \<Rightarrow>
      case source of Inl e \<Rightarrow> (st, Inl (QVault e)) | Inr bytes \<Rightarrow>
      case open_mutating lib (eq_io env) (Some (target, limits)) st of
        (st, Inl e) \<Rightarrow> (st, Inl e)
      | (st, Inr db) \<Rightarrow>
          (case assert_target db target of Inl e \<Rightarrow> (st, Inl e) | Inr _ \<Rightarrow>
           case find_object db kind (sha256 lib bytes) of
             Some r \<Rightarrow> (st, enqueue_existing lib env target max_object r st)
           | None \<Rightarrow>
               if MAX_ARCHIVE_ITEMS \<le> length (db_items db) + length (db_archive db) then (st, Inl QArchiveFull)
               else if unat (ql_max_items limits) \<le> length (db_items db)
                    \<or> unat (ql_max_bytes limits) < pending_bytes db + length bytes then (st, Inl QQueueFull)
               else insert_new lib env limits kind (sha256 lib bytes) bytes db st))"

section \<open>Leases\<close>

definition retry_delay :: "u32 \<Rightarrow> u64" where
  "retry_delay attempts =
     min (sat_mul 5000 (push_bit (unat (min (sat_sub attempts 1) 10)) 1)) 3600000"

record queue_lease =
  le_item :: queue_item
  le_token :: string

definition due_row :: "u64 \<Rightarrow> queue_row \<Rightarrow> bool" where
  "due_row now r =
     (rw_next_retry_ms r \<le> now \<and> (case rw_lease_expires_ms r of None \<Rightarrow> True | Some t \<Rightarrow> t \<le> now))"

definition next_due :: "u64 \<Rightarrow> queue_db \<Rightarrow> queue_row option" where
  "next_due now db = min_by (\<lambda>r. (rw_created_at_ms r, rw_id r)) (filter (due_row now) (db_items db))"

definition update_row :: "string \<Rightarrow> (queue_row \<Rightarrow> queue_row) \<Rightarrow> queue_db \<Rightarrow> queue_db" where
  "update_row i f db = db\<lparr>db_items := map (\<lambda>r. if rw_id r = i then f r else r) (db_items db)\<rparr>"

record claim_env =
  ce_io :: queue_io
  ce_now :: u64
  ce_random :: "string option"
  ce_commit :: commit_outcome

definition lease_row :: "string \<Rightarrow> u64 \<Rightarrow> u32 \<Rightarrow> u64 \<Rightarrow> queue_row \<Rightarrow> queue_row" where
  "lease_row token expires attempts next r =
     r\<lparr>rw_lease_token := Some token, rw_lease_expires_ms := Some expires, rw_attempts := attempts,
       rw_next_retry_ms := next, rw_last_error := Some ''interrupted_or_unconfirmed''\<rparr>"

definition claim ::
  "vault_lib \<Rightarrow> claim_env \<Rightarrow> queue_target \<Rightarrow> u64 \<Rightarrow> queue_state \<Rightarrow> queue_state \<times> (queue_error + queue_lease option)" where
  "claim lib env target timeout_secs st =
     (case open_mutating lib (ce_io env) None st of
        (st, Inl e) \<Rightarrow> (st, Inl e)
      | (st, Inr db) \<Rightarrow>
          (case assert_target db target of Inl e \<Rightarrow> (st, Inl e) | Inr _ \<Rightarrow>
           let now = min (ce_now env) i64_max
           in case next_due now db of
                None \<Rightarrow> (st, if ce_commit env = Committed then Inr None else Inl QIo)
              | Some r \<Rightarrow>
                  (case decode_row lib r of None \<Rightarrow> (st, Inl QDecode) | Some item \<Rightarrow>
                   if \<not> valid_kind (it_kind item) \<or> \<not> valid_hash (it_sha256 item)
                      \<or> MAX_OBJECT_BYTES < unat (it_size_bytes item)
                   then (st, Inl QBadItem)
                   else case ce_random env of None \<Rightarrow> (st, Inl QIo) | Some token \<Rightarrow>
                     let expires = min (sat_add (sat_add now (sat_mul timeout_secs 1000)) LEASE_GRACE_MS) i64_max;
                         attempts = sat_add (it_attempts item) 1;
                         next = min (sat_add now (retry_delay attempts)) i64_max;
                         item = item\<lparr>it_attempts := attempts\<rparr>
                     in case commit QIo (ce_commit env) db (update_row (it_id item) (lease_row token expires attempts next) db)
                               (Some \<lparr>le_item = item, le_token = token\<rparr>) of
                          (db, out) \<Rightarrow> (st\<lparr>qu_db := DbReady db\<rparr>, out))))"

definition owns :: "queue_lease \<Rightarrow> u64 \<Rightarrow> queue_row \<Rightarrow> bool" where
  "owns lease now r =
     (rw_id r = it_id (le_item lease) \<and> rw_lease_token r = Some (le_token lease)
      \<and> (case rw_lease_expires_ms r of None \<Rightarrow> False | Some t \<Rightarrow> now < t))"

record finish_env =
  fe_io :: queue_io
  fe_now :: u64
  fe_commit :: commit_outcome
  fe_remove :: bool
  fe_sync :: bool

definition completed_item :: "queue_item \<Rightarrow> signed_receipt \<Rightarrow> u64 \<Rightarrow> queue_item" where
  "completed_item item receipt now =
     item\<lparr>it_state := ''sent'', it_receipt := Some receipt, it_sent_at_ms := Some now\<rparr>"

definition archived_row :: "string \<Rightarrow> u64 \<Rightarrow> queue_row \<Rightarrow> queue_row" where
  "archived_row json now r =
     r\<lparr>rw_state := ''sent'', rw_next_retry_ms := 0, rw_last_error := None, rw_sent_at_ms := Some now,
       rw_receipt_json := Some json, rw_lease_token := None, rw_lease_expires_ms := None\<rparr>"

definition lease_matches :: "queue_lease \<Rightarrow> queue_row \<Rightarrow> bool" where
  "lease_matches lease r = (rw_id r = it_id (le_item lease) \<and> rw_lease_token r = Some (le_token lease))"

definition finish_sent ::
  "vault_lib \<Rightarrow> finish_env \<Rightarrow> queue_target \<Rightarrow> queue_lease \<Rightarrow> signed_receipt \<Rightarrow> u64 \<Rightarrow> queue_db \<Rightarrow> queue_state \<Rightarrow>
     queue_state \<times> (queue_error + bool)" where
  "finish_sent lib env target lease receipt now db st =
     (case verified_item lib (completed_item (le_item lease) receipt now) target of Inl e \<Rightarrow> (st, Inl e) | Inr _ \<Rightarrow>
      case vl_signed_receipt_json lib receipt of None \<Rightarrow> (st, Inl QDecode) | Some json \<Rightarrow>
      let moved = map (archived_row json now) (filter (lease_matches lease) (db_items db))
      in if list_ex (\<lambda>r. list_ex (rows_clash r) (db_archive db)) moved then (st, Inl QConstraint)
         else (case commit QIo (fe_commit env) db
                 (db\<lparr>db_archive := db_archive db @ moved,
                     db_items := filter (\<lambda>r. \<not> lease_matches lease r) (db_items db)\<rparr>) () of
            (db, Inl e) \<Rightarrow> (st\<lparr>qu_db := DbReady db\<rparr>, Inl e)
          | (db, Inr _) \<Rightarrow>
              let st = st\<lparr>qu_db := DbReady db\<rparr>; name = snapshot_name (it_id (le_item lease))
              in if \<not> id_ok (it_id (le_item lease)) then (st, Inl QBadItem)
                 else if \<not> fe_remove env \<or> vf_files (qu_fs st) OBJECTS name = None then (st, Inl QIo)
                 else (st\<lparr>qu_fs := set_file OBJECTS name None (qu_fs st)\<rparr>,
                       if fe_sync env then Inr True else Inl QIo)))"

definition finish_failed ::
  "finish_env \<Rightarrow> queue_lease \<Rightarrow> string \<Rightarrow> u64 \<Rightarrow> queue_db \<Rightarrow> queue_state \<Rightarrow> queue_state \<times> (queue_error + bool)" where
  "finish_failed env lease code now db st =
     (let retry = min (sat_add now (retry_delay (it_attempts (le_item lease)))) i64_max;
          back = (\<lambda>r. r\<lparr>rw_lease_token := None, rw_lease_expires_ms := None, rw_next_retry_ms := retry,
                         rw_last_error := Some code\<rparr>)
      in case commit QIo (fe_commit env) db
                (db\<lparr>db_items := map (\<lambda>r. if lease_matches lease r then back r else r) (db_items db)\<rparr>) True of
           (db, out) \<Rightarrow> (st\<lparr>qu_db := DbReady db\<rparr>, out))"

definition finish ::
  "vault_lib \<Rightarrow> finish_env \<Rightarrow> queue_target \<Rightarrow> queue_lease \<Rightarrow> (string + signed_receipt) \<Rightarrow> queue_state \<Rightarrow>
     queue_state \<times> (queue_error + bool)" where
  "finish lib env target lease result st =
     (case open_mutating lib (fe_io env) None st of
        (st, Inl e) \<Rightarrow> (st, Inl e)
      | (st, Inr db) \<Rightarrow>
          (case assert_target db target of Inl e \<Rightarrow> (st, Inl e) | Inr _ \<Rightarrow>
           let now = min (fe_now env) i64_max
           in if \<not> list_ex (owns lease now) (db_items db)
              then (st, if fe_commit env = Committed then Inr False else Inl QIo)
              else case result of
                Inr receipt \<Rightarrow> finish_sent lib env target lease receipt now db st
              | Inl code \<Rightarrow> finish_failed env lease code now db st))"

section \<open>Sending\<close>

text \<open>\<open>answer\<close> is the outcome of the HTTP client: an error code or a receipt.\<close>

definition send_item ::
  "vault_lib \<Rightarrow> queue_target \<Rightarrow> nat \<Rightarrow> (string \<Rightarrow> string \<Rightarrow> string + signed_receipt) \<Rightarrow> u64 \<Rightarrow> vault_fs \<Rightarrow> queue_lease \<Rightarrow>
     string + signed_receipt" where
  "send_item lib target max_object answer now fs lease =
     (case read_snapshot fs (it_id (le_item lease)) max_object of Inl _ \<Rightarrow> Inl ''queue_local'' | Inr bytes \<Rightarrow>
      if \<not> item_content_ok lib (le_item lease) bytes then Inl ''queue_local''
      else case answer bytes (it_kind (le_item lease)) of Inl code \<Rightarrow> Inl code | Inr receipt \<Rightarrow>
      case verified_item lib (completed_item (le_item lease) receipt now) target of
        Inl _ \<Rightarrow> Inl ''response_integrity'' | Inr _ \<Rightarrow> Inr receipt)"

section \<open>Status\<close>

definition item_source :: "queue_db \<Rightarrow> queue_row list" where
  "item_source db = (if db_version db = 1 then db_items db else db_items db @ db_archive db)"

definition lookup_item ::
  "vault_lib \<Rightarrow> queue_io \<Rightarrow> string \<Rightarrow> queue_state \<Rightarrow> queue_error + queue_item" where
  "lookup_item lib io i st =
     (if \<not> id_ok i then Inl QBadItem
      else case qu_db st of
        DbReady db \<Rightarrow>
          if \<not> io_open io then Inl QIo
          else (case validate_database lib (io_quick_check io) db of Inl e \<Rightarrow> Inl e | Inr _ \<Rightarrow>
                case find (\<lambda>r. rw_id r = i) (item_source db) of None \<Rightarrow> Inl QNotFound | Some r \<Rightarrow>
                case decode_row lib r of None \<Rightarrow> Inl QDecode | Some item \<Rightarrow>
                if it_state item \<noteq> ''sent'' then Inr item
                else case db_meta db of None \<Rightarrow> Inl QBadDatabase | Some (target, _) \<Rightarrow>
                  (case verified_item lib item target of Inl e \<Rightarrow> Inl e | Inr _ \<Rightarrow> Inr item))
      | _ \<Rightarrow> Inl QIo)"

section \<open>Specification notions\<close>

text \<open>
  The invariant of a queue.  Ids and objects are unique over both tables, an active row is pending
  and its snapshot is on disk with the recorded size and digest, an archived row carries a
  receipt that verifies for it.
\<close>

definition row_stored :: "vault_lib \<Rightarrow> vault_fs \<Rightarrow> queue_row \<Rightarrow> bool" where
  "row_stored lib fs r =
     (\<exists>bytes. read_snapshot fs (rw_id r) (unat (rw_size_bytes r)) = Inr bytes
        \<and> length bytes = unat (rw_size_bytes r) \<and> sha256 lib bytes = rw_sha256 r)"

definition row_archived :: "vault_lib \<Rightarrow> queue_db \<Rightarrow> queue_row \<Rightarrow> bool" where
  "row_archived lib db r =
     (\<exists>item target limits. decode_row lib r = Some item \<and> db_meta db = Some (target, limits)
        \<and> verified_item lib item target = Inr ())"

definition row_key :: "queue_row \<Rightarrow> string \<times> string" where
  "row_key r = (rw_kind r, rw_sha256 r)"

definition db_inv :: "vault_lib \<Rightarrow> queue_db \<Rightarrow> bool" where
  "db_inv lib db =
     (db_version db = SCHEMA_VERSION
      \<and> distinct (map rw_id (db_items db @ db_archive db))
      \<and> distinct (map row_key (db_items db @ db_archive db))
      \<and> list_all (\<lambda>r. \<not> row_bad r \<and> id_ok (rw_id r)) (db_items db)
      \<and> list_all (row_archived lib db) (db_archive db)
      \<and> length (db_items db) \<le> MAX_ITEMS
      \<and> length (db_items db) + length (db_archive db) \<le> MAX_ARCHIVE_ITEMS)"

definition same_object :: "queue_item \<Rightarrow> queue_row \<Rightarrow> bool" where
  "same_object item r =
     (rw_id r = it_id item \<and> rw_kind r = it_kind item \<and> rw_sha256 r = it_sha256 item
      \<and> rw_size_bytes r = it_size_bytes item)"

definition queue_inv :: "vault_lib \<Rightarrow> queue_item set \<Rightarrow> queue_state \<Rightarrow> bool" where
  "queue_inv lib acked st =
     (case qu_db st of
        DbReady db \<Rightarrow> db_inv lib db \<and> list_all (row_stored lib (qu_fs st)) (db_items db)
          \<and> (\<forall>item\<in>acked. list_ex (same_object item) (db_items db @ db_archive db))
      | _ \<Rightarrow> acked = {})"

text \<open>
  What a host does with a queue from its first use: enqueue, claim and finish, in any order and
  by any number of workers, each with any failure.  The acknowledged items are those that
  enqueue returned or a claim handed out.  A random id is new to the archive.
\<close>

definition archived_ids :: "queue_state \<Rightarrow> string set" where
  "archived_ids st = (case qu_db st of DbReady db \<Rightarrow> rw_id ` set (db_archive db) | _ \<Rightarrow> {})"

inductive queue_reach :: "vault_lib \<Rightarrow> queue_item set \<Rightarrow> queue_state \<Rightarrow> bool" for lib where
  queue_start: "queue_reach lib {} \<lparr>qu_db = DbAbsent, qu_fs = fs\<rparr>"
| queue_enqueue:
    "queue_reach lib acked st \<Longrightarrow> (\<And>i. eq_random env = Some i \<Longrightarrow> i \<notin> archived_ids st) \<Longrightarrow>
       enqueue lib env target max_object source kind limits st = (st', out) \<Longrightarrow>
       queue_reach lib (case out of Inr item \<Rightarrow> insert item acked | Inl _ \<Rightarrow> acked) st'"
| queue_claim:
    "queue_reach lib acked st \<Longrightarrow> claim lib env target timeout st = (st', out) \<Longrightarrow>
       queue_reach lib (case out of Inr (Some lease) \<Rightarrow> insert (le_item lease) acked | _ \<Rightarrow> acked) st'"
| queue_finish:
    "queue_reach lib acked st \<Longrightarrow> le_item lease \<in> acked \<Longrightarrow>
       finish lib env target lease result st = (st', out) \<Longrightarrow> queue_reach lib acked st'"

text \<open>A queue with one object, claimed by a worker.\<close>

definition demo_io :: queue_io where
  "demo_io = \<lparr>io_open = True, io_quick_check = True, io_init_commit = Committed, io_migrate_commit = Committed,
     io_listing = Some [], io_remove = (\<lambda>_. True), io_sync = True\<rparr>"

definition demo_target :: queue_target where
  "demo_target = \<lparr>qt_endpoint = ''https://v'', qt_agent_id = ''a1'', qt_key_id = ''k1'',
     qt_pinned_pubkey = pinned_key demo_vault_lib demo_key, qt_allow_http_loopback = False, qt_tls_ca_sha256 = None\<rparr>"

definition demo_id :: string where
  "demo_id = replicate 32 (CHR ''a'')"

definition demo_enqueue_env :: enqueue_env where
  "demo_enqueue_env = \<lparr>eq_io = demo_io, eq_now = 5, eq_random = Some demo_id,
     eq_write = \<lparr>wf_fails = None, wf_cleanup = True\<rparr>, eq_commit = Committed\<rparr>"

definition demo_row :: queue_row where
  "demo_row = new_row demo_id ''backup'' demo_hash 3 5"

definition demo_queue_lib :: vault_lib where
  "demo_queue_lib = demo_vault_lib\<lparr>vl_signed_receipt_json := (\<lambda>sr. if sr = demo_upload_receipt then Some ''x'' else None),
     vl_parse_receipt := (\<lambda>_. Some demo_upload_receipt)\<rparr>"

definition demo_queue_db :: queue_db where
  "demo_queue_db = (new_db demo_target queue_limits_default)\<lparr>db_items := [demo_row]\<rparr>"

section \<open>Snapshots\<close>

lemma read_snapshot_frame:
  assumes "vf_files fs' OBJECTS (snapshot_name i) = vf_files fs OBJECTS (snapshot_name i)" "vf_euid fs' = vf_euid fs"
  shows "read_snapshot fs' i limit = read_snapshot fs i limit"
  unfolding read_snapshot_def private_regular_def Let_def assms ..

lemma row_stored_present: "row_stored lib fs r \<Longrightarrow> \<exists>f. vf_files fs OBJECTS (snapshot_name (rw_id r)) = Some f"
  by (auto simp: row_stored_def read_snapshot_def private_regular_def file_stat_def Let_def split: if_splits sum.splits option.splits)

lemma row_stored_frame:
  assumes "row_stored lib fs r" "\<And>f. vf_files fs OBJECTS (snapshot_name (rw_id r)) = Some f \<Longrightarrow>
      vf_files fs' OBJECTS (snapshot_name (rw_id r)) = Some f" "vf_euid fs' = vf_euid fs"
  shows "row_stored lib fs' r"
proof -
  obtain f where "vf_files fs OBJECTS (snapshot_name (rw_id r)) = Some f" using row_stored_present [OF assms(1)] by blast
  then have "vf_files fs' OBJECTS (snapshot_name (rw_id r)) = vf_files fs OBJECTS (snapshot_name (rw_id r))"
    using assms(2) by simp
  then show ?thesis using assms(1) read_snapshot_frame [OF _ assms(3)] by (simp add: row_stored_def)
qed

lemma snapshot_id_name: "snapshot_id name = Some i \<Longrightarrow> name = snapshot_name i"
  by (auto simp: snapshot_id_def strip_suffix_def snapshot_name_def suffix_def split: option.splits if_splits)

lemma temp_not_snapshot: "id_ok i \<Longrightarrow> \<not> prefix ''.argos-vault-'' (snapshot_name i)"
proof
  assume "id_ok i" "prefix ''.argos-vault-'' (snapshot_name i)"
  then obtain c cs where "i = c # cs" "lower_hex_digit c" "c = CHR ''.''"
    by (cases i) (auto simp: id_ok_def snapshot_name_def)
  then show False by (simp add: lower_hex_digit_def ascii_digit_def byte_def)
qed

text \<open>Cleaning removes no snapshot of a pending row and changes nothing else.\<close>

lemma clean_entry_keeps:
  assumes "clean_entry lib io db name fs = (fs', out)" "i \<in> set (pending_ids db)" "id_ok i"
  shows "vf_files fs' OBJECTS (snapshot_name i) = vf_files fs OBJECTS (snapshot_name i) \<and> vf_euid fs' = vf_euid fs"
proof (cases "name = snapshot_name i")
  case True
  have "snapshot_id name = Some i"
    using True assms(3) by (simp add: snapshot_id_def strip_suffix_def snapshot_name_def suffix_def)
  then show ?thesis using assms True temp_not_snapshot [OF assms(3)]
    by (auto simp: clean_entry_def Let_def split: option.splits if_splits sum.splits)
next
  case False
  then show ?thesis using assms(1)
    by (auto simp: clean_entry_def Let_def split: option.splits if_splits sum.splits)
qed

lemma clean_entries_keeps:
  assumes "i \<in> set (pending_ids db)" "id_ok i"
  shows "clean_entries lib io db xs n removed fs = (fs', out) \<Longrightarrow>
     vf_files fs' OBJECTS (snapshot_name i) = vf_files fs OBJECTS (snapshot_name i) \<and> vf_euid fs' = vf_euid fs"
proof (induction xs arbitrary: n removed fs)
  case (Cons x xs)
  show ?case
  proof (cases "MAX_ITEMS * 2 + 100 \<le> n \<or> x = None")
    case True
    then show ?thesis using Cons.prems by (auto split: if_splits)
  next
    case False
    then obtain name where x: "x = Some name" by auto
    obtain fs1 res where c: "clean_entry lib io db name fs = (fs1, res)" by fastforce
    note k = clean_entry_keeps [OF c assms]
    show ?thesis using Cons.prems Cons.IH [of "Suc n" _ fs1] k False x c by (cases res) auto
  qed
qed simp

lemma cleanup_keeps:
  assumes "cleanup lib io db fs = (fs', out)" "i \<in> set (pending_ids db)" "id_ok i"
  shows "vf_files fs' OBJECTS (snapshot_name i) = vf_files fs OBJECTS (snapshot_name i) \<and> vf_euid fs' = vf_euid fs"
  using assms(1) clean_entries_keeps [OF assms(2,3)]
  by (auto simp: cleanup_def split: if_splits option.splits prod.splits sum.splits)

section \<open>Every operation keeps the invariant\<close>

lemma inv_ready: "queue_inv lib acked \<lparr>qu_db = DbReady db, qu_fs = fs\<rparr> \<longleftrightarrow>
    db_inv lib db \<and> list_all (row_stored lib fs) (db_items db)
    \<and> (\<forall>item\<in>acked. list_ex (same_object item) (db_items db @ db_archive db))"
  by (simp add: queue_inv_def)

lemma state_eta: "qu_db st = DbReady db \<Longrightarrow> st = \<lparr>qu_db = DbReady db, qu_fs = qu_fs st\<rparr>"
  by simp

lemma state_upd:
  "st\<lparr>qu_db := d\<rparr> = \<lparr>qu_db = d, qu_fs = qu_fs st\<rparr>" "st\<lparr>qu_fs := fs, qu_db := d\<rparr> = \<lparr>qu_db = d, qu_fs = fs\<rparr>" for st :: queue_state
  by (cases st; simp)+

lemma pending_of_inv: "db_inv lib db \<Longrightarrow> r \<in> set (db_items db) \<Longrightarrow> rw_id r \<in> set (pending_ids db) \<and> id_ok (rw_id r)"
  by (auto simp: db_inv_def list_all_iff pending_ids_def row_bad_def)

lemma open_existing_keeps:
  assumes "queue_inv lib acked \<lparr>qu_db = DbReady db, qu_fs = fs\<rparr>"
    "open_existing lib io db \<lparr>qu_db = DbReady db, qu_fs = fs\<rparr> = (st', out)"
  shows "queue_inv lib acked st' \<and> qu_db st' = DbReady db \<and> (\<forall>db'. out = Inr db' \<longrightarrow> db' = db)"
proof -
  have v: "db_inv lib db" "list_all (row_stored lib fs) (db_items db)" using assms(1) by (simp_all add: inv_ready)
  have m: "migrate lib oc db = (db, Inr ())" for oc using v(1) by (simp add: migrate_def db_inv_def)
  have st: "list_all (row_stored lib fs') (db_items db)" if "cleanup lib io db fs = (fs', res)" for fs' res
    unfolding list_all_iff
  proof
    fix r assume r: "r \<in> set (db_items db)"
    note p = pending_of_inv [OF v(1) r]
    have k: "vf_files fs' OBJECTS (snapshot_name (rw_id r)) = vf_files fs OBJECTS (snapshot_name (rw_id r))" "vf_euid fs' = vf_euid fs"
      using cleanup_keeps [OF that, of "rw_id r"] p by auto
    have "row_stored lib fs r" using v(2) r by (simp add: list_all_iff)
    then show "row_stored lib fs' r" by (rule row_stored_frame) (use k in auto)
  qed
  show ?thesis using assms st
    by (auto simp: open_existing_def m inv_ready split: sum.splits prod.splits)
qed

lemma new_db_inv: "queue_inv lib {} \<lparr>qu_db = DbReady (new_db target limits), qu_fs = fs\<rparr>"
  by (simp add: inv_ready db_inv_def new_db_def)

lemma open_keeps:
  assumes "queue_inv lib acked st" "open_mutating lib io init st = (st', out)"
  shows "queue_inv lib acked st' \<and> (\<forall>db. out = Inr db \<longrightarrow> qu_db st' = DbReady db)
     \<and> (\<forall>db. qu_db st = DbReady db \<longrightarrow> qu_db st' = DbReady db)
     \<and> archived_ids st' = archived_ids st"
proof (cases "qu_db st")
  case (DbReady db)
  then have st: "st = \<lparr>qu_db = DbReady db, qu_fs = qu_fs st\<rparr>" by (rule state_eta)
  show ?thesis
  proof (cases "io_open io")
    case True
    then have "open_existing lib io db st = (st', out)"
      using assms(2) DbReady by (simp add: open_mutating_def)
    then have o: "open_existing lib io db \<lparr>qu_db = DbReady db, qu_fs = qu_fs st\<rparr> = (st', out)"
      by (simp only: st [symmetric])
    have i: "queue_inv lib acked \<lparr>qu_db = DbReady db, qu_fs = qu_fs st\<rparr>" using assms(1) by (simp only: st [symmetric])
    from open_existing_keeps [OF i o] DbReady show ?thesis by (auto simp: archived_ids_def)
  qed (use assms DbReady in \<open>auto simp: open_mutating_def\<close>)
next
  case DbAbsent
  then have a: "acked = {}" using assms(1) by (simp add: queue_inv_def)
  have keep: "queue_inv lib {} st'' \<and> qu_db st'' = DbReady (new_db t l) \<and> (\<forall>db'. out' = Inr db' \<longrightarrow> db' = new_db t l)"
    if "open_existing lib io (new_db t l) (st\<lparr>qu_db := DbReady (new_db t l)\<rparr>) = (st'', out')" for t l st'' out'
    by (rule open_existing_keeps [OF new_db_inv, where fs = "qu_fs st" and io = io]) (use that in \<open>simp add: state_upd\<close>)
  have broken: "queue_inv lib {} (st\<lparr>qu_db := DbBroken\<rparr>)" "archived_ids (st\<lparr>qu_db := DbBroken\<rparr>) = {}"
    "queue_inv lib {} (st\<lparr>qu_db := DbReady (new_db t l)\<rparr>)" "archived_ids (st\<lparr>qu_db := DbReady (new_db t l)\<rparr>) = {}" for t l
    using new_db_inv [of lib t l "qu_fs st"] by (simp_all add: queue_inv_def archived_ids_def new_db_def)
  have ids: "archived_ids st'' = {}" if "qu_db st'' = DbReady (new_db t l)" for st'' t l
    using that by (simp add: archived_ids_def new_db_def)
  have ab: "archived_ids st = {}" using DbAbsent by (simp add: archived_ids_def)
  show ?thesis
  proof (cases "io_open io \<and> init \<noteq> None")
    case False
    then show ?thesis using assms DbAbsent by (cases "io_open io"; cases init) (auto simp: open_mutating_def)
  next
    case True
    then obtain t l where init: "init = Some (t, l)" by auto
    show ?thesis
    proof (cases "io_init_commit io")
      case Committed
      then have "open_existing lib io (new_db t l) (st\<lparr>qu_db := DbReady (new_db t l)\<rparr>) = (st', out)"
        using assms(2) DbAbsent True init by (simp add: open_mutating_def commit_def)
      from keep [OF this] a ab DbAbsent ids show ?thesis by auto
    qed (use assms(2) DbAbsent True init a ab broken in \<open>auto simp: open_mutating_def commit_def\<close>)
  qed
qed (use assms in \<open>auto simp: open_mutating_def split: if_splits\<close>)

lemma find_object_None:
  "find_object db kind hash = None \<longleftrightarrow> (\<forall>r\<in>set (db_items db @ db_archive db). row_key r \<noteq> (kind, hash))"
  by (auto simp: find_object_def find_None_iff row_key_def)

lemma row_archived_meta: "db_meta db' = db_meta db \<Longrightarrow> row_archived lib db' = row_archived lib db"
  by (simp add: row_archived_def fun_eq_iff)

lemma row_archived_limits:
  "db_meta db' = map_option (\<lambda>(t, _). (t, l)) (db_meta db) \<Longrightarrow> row_archived lib db r \<Longrightarrow> row_archived lib db' r"
  by (auto simp: row_archived_def)

lemma decode_same: "decode_row lib r = Some item \<Longrightarrow> same_object item r"
  by (auto simp: decode_row_def same_object_def Let_def split: option.splits)

lemma insert_new_keeps:
  assumes inv: "queue_inv lib acked st" and db: "qu_db st = DbReady db"
    and new: "find_object db kind (sha256 lib bytes) = None" and lim: "limits_valid limits"
    and room: "length (db_items db) < unat (ql_max_items limits)" "length (db_items db) + length (db_archive db) < MAX_ARCHIVE_ITEMS"
      "length bytes \<le> unat (ql_max_bytes limits)"
    and fresh: "\<And>i. eq_random env = Some i \<Longrightarrow> i \<notin> rw_id ` set (db_archive db)"
    and ins: "insert_new lib env limits kind (sha256 lib bytes) bytes db st = (st', out)"
  shows "queue_inv lib (case out of Inr item \<Rightarrow> insert item acked | Inl _ \<Rightarrow> acked) st'"
proof -
  have v: "db_inv lib db" "list_all (row_stored lib (qu_fs st)) (db_items db)"
    "\<forall>item\<in>acked. list_ex (same_object item) (db_items db @ db_archive db)"
    using inv db by (simp_all add: queue_inv_def)
  have kept: "queue_inv lib acked \<lparr>qu_db = DbReady db, qu_fs = fs\<rparr>"
    if "write_new fl OBJECTS n bytes (qu_fs st) = (fs, o')" for fl n fs o'
  proof -
    have "list_all (row_stored lib fs) (db_items db)"
      using v(2) row_stored_frame [of lib "qu_fs st" _ fs] write_new_keeps [OF that] write_new_frame [OF that]
      by (auto simp: list_all_iff)
    then show ?thesis using v by (simp add: inv_ready)
  qed
  have upd: "st\<lparr>qu_fs := fs\<rparr> = \<lparr>qu_db = DbReady db, qu_fs = fs\<rparr>" for fs using db by simp
  show ?thesis
  proof (cases "eq_random env")
    case None
    then show ?thesis using ins inv by (auto simp: insert_new_def)
  next
    case (Some i)
    obtain fs wout where w: "write_new (eq_write env) OBJECTS (snapshot_name i) bytes (qu_fs st) = (fs, wout)" by fastforce
    define row where "row = new_row i kind (sha256 lib bytes) (length bytes) (min (eq_now env) i64_max)"
    let ?db = "db\<lparr>db_meta := map_option (\<lambda>(target, _). (target, limits)) (db_meta db), db_items := db_items db @ [row]\<rparr>"
    obtain item where item: "decode_row lib row = Some item" "same_object item row"
      using decode_same [of lib row] by (cases "decode_row lib row") (auto simp: row_def new_row_def decode_row_def)
    show ?thesis
    proof (cases "id_ok i \<and> wout = Inr () \<and> i \<notin> rw_id ` set (db_items db) \<and> \<not> list_ex (\<lambda>r. rw_kind r = kind \<and> rw_sha256 r = sha256 lib bytes) (db_items db)")
      case False
      then show ?thesis using ins Some w inv kept [OF w, folded upd]
        by (auto simp: insert_new_def Let_def split: sum.splits if_splits)
    next
      case True
      have len: "unat (of_nat (length bytes) :: u64) = length bytes"
        using room(3) unat_lt64 [of "ql_max_bytes limits"] by (simp add: unsigned_of_nat take_bit_nat_eq_self)
      have "vf_files fs OBJECTS (snapshot_name i) = Some \<lparr>st_stat = fresh_stat (qu_fs st) (length bytes) 1, st_bytes = bytes, st_dangling = False\<rparr>"
        using write_new_Inr [of "eq_write env" OBJECTS "snapshot_name i" bytes "qu_fs st" fs] w True by simp
      then have stored: "row_stored lib fs row" using True len write_new_frame [OF w]
        by (simp add: row_stored_def row_def new_row_def read_snapshot_def private_regular_def file_stat_def observe_def Let_def
            fresh_stat_def private_file_def mode_bits_def read_bounded_file_def stable_read_def)
      have ids: "i \<notin> rw_id ` set (db_items db @ db_archive db)" using True fresh [OF Some] by auto
      have keys: "(kind, sha256 lib bytes) \<notin> row_key ` set (db_items db @ db_archive db)" using new by (auto simp: find_object_None)
      have "db_inv lib ?db" unfolding db_inv_def
      proof (intro conjI)
        show "list_all (row_archived lib ?db) (db_archive ?db)"
          using v(1) row_archived_limits [of ?db limits db lib] by (auto simp: db_inv_def list_all_iff)
        show "distinct (map rw_id (db_items ?db @ db_archive ?db))" using v(1) ids by (auto simp: db_inv_def row_def new_row_def)
        show "distinct (map row_key (db_items ?db @ db_archive ?db))" using v(1) keys
          by (auto simp: db_inv_def row_def new_row_def row_key_def)
        show "length (db_items ?db) \<le> MAX_ITEMS" using room(1) lim by (simp add: limits_valid_def)
      qed (use v(1) room(2) True in \<open>simp_all add: db_inv_def row_def new_row_def row_bad_def\<close>)
      moreover have "list_all (row_stored lib fs) (db_items ?db)" using kept [OF w] stored by (simp add: inv_ready)
      moreover have "\<forall>it\<in>insert item acked. list_ex (same_object it) (db_items ?db @ db_archive ?db)" using v(3) item(2) by auto
      ultimately have ok: "queue_inv lib (insert item acked) \<lparr>qu_db = DbReady ?db, qu_fs = fs\<rparr>"
        "queue_inv lib acked \<lparr>qu_db = DbReady ?db, qu_fs = fs\<rparr>" by (simp_all add: inv_ready)
      have cm: "(st', out) = (case commit QIo (eq_commit env) db ?db item of (d, o') \<Rightarrow> (\<lparr>qu_db = DbReady d, qu_fs = fs\<rparr>, o'))"
        using ins Some w True item(1) by (simp add: insert_new_def Let_def row_def [symmetric] state_upd split: prod.splits)
      show ?thesis using cm ok kept [OF w] by (cases "eq_commit env") (simp_all add: commit_def)
    qed
  qed
qed

lemma enqueue_keeps:
  assumes inv: "queue_inv lib acked st" and fresh: "\<And>i. eq_random env = Some i \<Longrightarrow> i \<notin> archived_ids st"
    and e: "enqueue lib env ctarget max_object source kind limits st = (st', out)"
  shows "queue_inv lib (case out of Inr item \<Rightarrow> insert item acked | Inl _ \<Rightarrow> acked) st'"
proof (cases "limits_valid limits \<and> valid_kind kind \<and> (\<exists>t b. ctarget = Inr t \<and> source = Inr b)")
  case False
  then show ?thesis using e inv by (auto simp: enqueue_def split: if_splits sum.splits)
next
  case True
  then obtain target bytes where tb: "ctarget = Inr target" "source = Inr bytes" and lim: "limits_valid limits" "valid_kind kind" by auto
  obtain st1 res where o: "open_mutating lib (eq_io env) (Some (target, limits)) st = (st1, res)" by fastforce
  note k = open_keeps [OF inv o]
  show ?thesis
  proof (cases res)
    case (Inl x)
    then show ?thesis using e tb lim o k by (auto simp: enqueue_def)
  next
    case (Inr db)
    then have db: "qu_db st1 = DbReady db" using k by blast
    have step: "(st', out) = (case assert_target db target of Inl e \<Rightarrow> (st1, Inl e) | Inr _ \<Rightarrow>
           case find_object db kind (sha256 lib bytes) of
             Some r \<Rightarrow> (st1, enqueue_existing lib env target max_object r st1)
           | None \<Rightarrow>
               if MAX_ARCHIVE_ITEMS \<le> length (db_items db) + length (db_archive db) then (st1, Inl QArchiveFull)
               else if unat (ql_max_items limits) \<le> length (db_items db)
                    \<or> unat (ql_max_bytes limits) < pending_bytes db + length bytes then (st1, Inl QQueueFull)
               else insert_new lib env limits kind (sha256 lib bytes) bytes db st1)"
      using e tb lim o Inr by (simp add: enqueue_def)
    show ?thesis
    proof (cases "find_object db kind (sha256 lib bytes)")
      case (Some r)
      have "list_ex (same_object item) (db_items db @ db_archive db)" if "enqueue_existing lib env target max_object r st1 = Inr item" for item
      proof -
        have "r \<in> set (db_items db @ db_archive db)" using Some find_SomeD by (fastforce simp: find_object_def)
        moreover have "same_object item r" using that
          by (intro decode_same [of lib]) (auto simp: enqueue_existing_def split: option.splits sum.splits if_splits)
        ultimately show ?thesis by (auto simp: list_ex_iff)
      qed
      then show ?thesis using step Some k db by (auto simp: queue_inv_def split: sum.splits)
    next
      case None
      have ins: "queue_inv lib (case o' of Inr item \<Rightarrow> insert item acked | Inl _ \<Rightarrow> acked) s'"
        if "insert_new lib env limits kind (sha256 lib bytes) bytes db st1 = (s', o')"
          "length (db_items db) < unat (ql_max_items limits)" "length (db_items db) + length (db_archive db) < MAX_ARCHIVE_ITEMS"
          "length bytes \<le> unat (ql_max_bytes limits)" for s' o'
      proof (rule insert_new_keeps [OF _ db None lim(1) that(2-4) _ that(1)])
        show "i \<notin> rw_id ` set (db_archive db)" if "eq_random env = Some i" for i
          using fresh [OF that] k db by (simp add: archived_ids_def)
      qed (use k in blast)
      show ?thesis using step None k ins [of st' out]
        by (auto simp: not_le not_less split: sum.splits if_splits)
    qed
  qed
qed

lemma next_due_mem: "next_due now db = Some r \<Longrightarrow> r \<in> set (db_items db) \<and> due_row now r"
  by (auto simp: next_due_def dest!: min_by_Some)

text \<open>Changing the leases, attempts and retry times of active rows keeps the invariant.\<close>

lemma relabel_keeps:
  assumes inv: "queue_inv lib acked \<lparr>qu_db = DbReady db, qu_fs = fs\<rparr>"
    and f: "\<And>q. rw_id (f q) = rw_id q \<and> rw_kind (f q) = rw_kind q \<and> rw_sha256 (f q) = rw_sha256 q
        \<and> rw_size_bytes (f q) = rw_size_bytes q \<and> (\<not> row_bad q \<longrightarrow> \<not> row_bad (f q))"
  shows "queue_inv lib acked \<lparr>qu_db = DbReady (db\<lparr>db_items := map f (db_items db)\<rparr>), qu_fs = fs\<rparr>"
proof -
  have maps: "map rw_id (map f xs) = map rw_id xs" "map row_key (map f xs) = map row_key xs" for xs
    using f by (simp_all add: row_key_def)
  have g: "row_stored lib fs (f q) = row_stored lib fs q" "same_object i (f q) = same_object i q" for q i
    using f [of q] by (simp_all add: row_stored_def same_object_def)
  let ?db = "db\<lparr>db_items := map f (db_items db)\<rparr>"
  have v: "db_inv lib db" "list_all (row_stored lib fs) (db_items db)"
    "\<forall>item\<in>acked. list_ex (same_object item) (db_items db @ db_archive db)" using inv by (simp_all add: inv_ready)
  have "list_all (\<lambda>r. \<not> row_bad r \<and> id_ok (rw_id r)) (db_items ?db)"
    using v(1) f by (auto simp: db_inv_def list_all_iff)
  then have "db_inv lib ?db"
    using v(1) row_archived_meta [of ?db db lib] unfolding db_inv_def map_append by (simp only: maps) (simp add: maps [unfolded map_map])
  moreover have "list_ex (same_object i) (map f xs @ ys) = list_ex (same_object i) (xs @ ys)" for i xs ys
    by (simp add: list_ex_iff bex_Un g)
  ultimately show ?thesis using v(2,3) by (simp add: inv_ready g list_all_iff)
qed

lemma acked_insert:
  "queue_inv lib acked \<lparr>qu_db = DbReady db, qu_fs = fs\<rparr> \<Longrightarrow> list_ex (same_object item) (db_items db @ db_archive db) \<Longrightarrow>
     queue_inv lib (insert item acked) \<lparr>qu_db = DbReady db, qu_fs = fs\<rparr>"
  by (simp add: inv_ready)

lemma claim_keeps:
  assumes inv: "queue_inv lib acked st" and c: "claim lib env target timeout st = (st', out)"
  shows "queue_inv lib (case out of Inr (Some lease) \<Rightarrow> insert (le_item lease) acked | _ \<Rightarrow> acked) st'"
proof -
  obtain st1 res where o: "open_mutating lib (ce_io env) None st = (st1, res)" by fastforce
  note k = open_keeps [OF inv o]
  show ?thesis
  proof (cases res)
    case (Inl x)
    then show ?thesis using c o k by (auto simp: claim_def)
  next
    case (Inr db)
    then have db: "qu_db st1 = DbReady db" using k by blast
    have same: "queue_inv lib acked st1" "queue_inv lib acked \<lparr>qu_db = DbReady db, qu_fs = qu_fs st1\<rparr>"
      using k state_eta [OF db] by auto
    let ?up = "\<lambda>i t x a n. update_row i (lease_row t x a n) db"
    have upd: "queue_inv lib acked \<lparr>qu_db = DbReady (?up i t x a n), qu_fs = qu_fs st1\<rparr>" for i t x a n
      unfolding update_row_def by (rule relabel_keeps [OF same(2)]) (simp add: lease_row_def row_bad_def)
    have add: "queue_inv lib (insert (item\<lparr>it_attempts := a\<rparr>) acked) \<lparr>qu_db = DbReady (?up i t x a n), qu_fs = qu_fs st1\<rparr>"
      if r: "next_due now db = Some r" "decode_row lib r = Some item" for now r item i t x a n
    proof (rule acked_insert [OF upd])
      have "same_object (item\<lparr>it_attempts := a\<rparr>) (if rw_id r = i then lease_row t x a n r else r)"
        using decode_same [OF r(2)] by (simp add: same_object_def lease_row_def)
      then show "list_ex (same_object (item\<lparr>it_attempts := a\<rparr>)) (db_items (?up i t x a n) @ db_archive (?up i t x a n))"
        using next_due_mem [OF r(1)] by (auto simp: update_row_def list_ex_iff split: if_splits)
    qed
    show ?thesis using c o Inr same upd add
      by (auto simp: claim_def Let_def state_upd commit_def split: sum.splits option.splits if_splits commit_outcome.splits)
  qed
qed

lemma same_id_same_row:
  assumes "db_inv lib db" "q \<in> set (db_items db @ db_archive db)" "r \<in> set (db_items db @ db_archive db)" "rw_id q = rw_id r"
  shows "q = r"
proof -
  have "distinct (map rw_id (db_items db @ db_archive db))" using assms(1) by (simp add: db_inv_def)
  then have "inj_on rw_id (set (db_items db @ db_archive db))" by (simp only: distinct_map)
  then show ?thesis using assms(2-4) by (metis inj_onD)
qed

lemma archived_row_verified:
  assumes "same_object item r" "verified_item lib (completed_item item receipt now) target = Inr ()" "vl_parse_receipt lib json = Some receipt"
  shows "\<exists>item'. decode_row lib (archived_row json now r) = Some item' \<and> verified_item lib item' target = Inr ()"
  using assms by (simp add: decode_row_def archived_row_def verified_item_def completed_item_def same_object_def Let_def split: sum.splits if_splits)

lemma finish_sent_keeps:
  assumes inv: "queue_inv lib acked st" and db: "qu_db st = DbReady db" and lease: "le_item lease \<in> acked"
    and own: "list_ex (owns lease now) (db_items db)" and tgt: "assert_target db target = Inr ()"
    and codec: "\<And>sr json. vl_signed_receipt_json lib sr = Some json \<Longrightarrow> vl_parse_receipt lib json = Some sr"
    and f: "finish_sent lib env target lease receipt now db st = (st', out)"
  shows "queue_inv lib acked st'"
proof -
  have v: "db_inv lib db" "list_all (row_stored lib (qu_fs st)) (db_items db)"
    "\<forall>item\<in>acked. list_ex (same_object item) (db_items db @ db_archive db)" using inv db by (simp_all add: queue_inv_def)
  obtain r where r: "r \<in> set (db_items db)" "lease_matches lease r" using own by (auto simp: list_ex_iff owns_def lease_matches_def)
  obtain r' where r': "r' \<in> set (db_items db @ db_archive db)" "same_object (le_item lease) r'" using v(3) lease by (auto simp: list_ex_iff)
  have "r' = r" using same_id_same_row [OF v(1) r'(1), of r] r r'(2) by (auto simp: lease_matches_def same_object_def)
  then have so: "same_object (le_item lease) r" using r'(2) by simp
  have only: "q = r" if "q \<in> set (db_items db)" "rw_id q = it_id (le_item lease)" for q
    using same_id_same_row [OF v(1), of q r] that r so by (auto simp: same_object_def)
  obtain limits where meta: "db_meta db = Some (target, limits)" using tgt by (auto simp: assert_target_def split: option.splits if_splits)
  obtain xs ys where split: "db_items db = xs @ r # ys" using r(1) by (meson split_list)
  have nin: "r \<notin> set xs" "r \<notin> set ys" using v(1) split by (auto simp: db_inv_def)
  have others: "\<not> lease_matches lease q" if "q \<in> set xs \<union> set ys" for q
    using only [of q] that nin split by (auto simp: lease_matches_def)
  have f1: "filter (lease_matches lease) (db_items db) = [r]" "filter (\<lambda>q. \<not> lease_matches lease q) (db_items db) = xs @ ys"
    using others r(2) by (auto simp: split filter_empty_conv filter_id_conv)
  define row where "row json = archived_row json now r" for json
  have rowf: "rw_id (row j) = rw_id r" "row_key (row j) = row_key r" "same_object i (row j) = same_object i r" for j i
    by (simp_all add: row_def archived_row_def row_key_def same_object_def)
  let ?db = "\<lambda>json. db\<lparr>db_archive := db_archive db @ [row json], db_items := xs @ ys\<rparr>"
  have ok: "queue_inv lib acked \<lparr>qu_db = DbReady (?db json), qu_fs = fs\<rparr>"
    if "verified_item lib (completed_item (le_item lease) receipt now) target = Inr ()" "vl_signed_receipt_json lib receipt = Some json"
      "fs = qu_fs st \<or> fs = set_file OBJECTS (snapshot_name (it_id (le_item lease))) None (qu_fs st)" for json fs
  proof -
    have "row_archived lib (?db json) (row json)"
      using archived_row_verified [OF so that(1) codec [OF that(2)]] meta by (auto simp: row_archived_def row_def)
    then have "db_inv lib (?db json)"
      using v(1) row_archived_meta [of "?db json" db lib] unfolding db_inv_def split by (auto simp: rowf)
    moreover have "list_all (row_stored lib fs) (xs @ ys)"
      unfolding list_all_iff
    proof
      fix q assume q: "q \<in> set (xs @ ys)"
      then have "row_stored lib (qu_fs st) q" using v(2) split by (auto simp: list_all_iff)
      moreover have "rw_id q \<noteq> it_id (le_item lease)" using only [of q] q nin split by auto
      ultimately show "row_stored lib fs q" using that(3)
        by (auto intro!: row_stored_frame [of lib "qu_fs st" q] simp: snapshot_name_def)
    qed
    moreover have "\<forall>item\<in>acked. list_ex (same_object item) ((xs @ ys) @ db_archive db @ [row json])"
      using v(3) by (auto simp: split rowf)
    ultimately show ?thesis by (simp add: inv_ready)
  qed
  have same: "queue_inv lib acked \<lparr>qu_db = DbReady db, qu_fs = qu_fs st\<rparr>" using inv state_eta [OF db] by simp
  show ?thesis using f inv same ok
    by (auto simp: finish_sent_def Let_def f1 state_upd commit_def row_def [symmetric]
        split: sum.splits option.splits if_splits commit_outcome.splits)
qed

lemma finish_failed_keeps:
  assumes inv: "queue_inv lib acked st" and db: "qu_db st = DbReady db" and f: "finish_failed env lease code now db st = (st', out)"
  shows "queue_inv lib acked st'"
proof -
  have same: "queue_inv lib acked \<lparr>qu_db = DbReady db, qu_fs = qu_fs st\<rparr>" using inv state_eta [OF db] by simp
  define retry where "retry = min (sat_add now (retry_delay (it_attempts (le_item lease)))) i64_max"
  let ?f = "\<lambda>r. if lease_matches lease r then r\<lparr>rw_lease_token := None, rw_lease_expires_ms := None,
       rw_next_retry_ms := retry, rw_last_error := Some code\<rparr> else r"
  have new: "queue_inv lib acked \<lparr>qu_db = DbReady (db\<lparr>db_items := map ?f (db_items db)\<rparr>), qu_fs = qu_fs st\<rparr>"
    by (rule relabel_keeps [OF same]) (auto simp: row_bad_def)
  have "(st', out) = (case commit QIo (fe_commit env) db (db\<lparr>db_items := map ?f (db_items db)\<rparr>) True of
      (d, res) \<Rightarrow> (\<lparr>qu_db = DbReady d, qu_fs = qu_fs st\<rparr>, res))"
    using f by (simp add: finish_failed_def Let_def retry_def [symmetric] state_upd split: prod.splits)
  then show ?thesis using same new by (cases "fe_commit env") (simp_all add: commit_def)
qed

lemma finish_keeps:
  assumes inv: "queue_inv lib acked st" and lease: "le_item lease \<in> acked"
    and codec: "\<And>sr json. vl_signed_receipt_json lib sr = Some json \<Longrightarrow> vl_parse_receipt lib json = Some sr"
    and f: "finish lib env target lease result st = (st', out)"
  shows "queue_inv lib acked st'"
proof -
  obtain st1 res where o: "open_mutating lib (fe_io env) None st = (st1, res)" by fastforce
  note k = open_keeps [OF inv o]
  show ?thesis
  proof (cases res)
    case (Inr db)
    then have db: "qu_db st1 = DbReady db" using k by blast
    have s: "queue_inv lib acked s'" if "finish_sent lib env target lease receipt now db st1 = (s', x)"
      "list_ex (owns lease now) (db_items db)" "assert_target db target = Inr ()" for receipt now s' x
      using finish_sent_keeps [OF _ db lease that(2,3) codec that(1)] k by blast
    have e: "queue_inv lib acked s'" if "finish_failed env lease code now db st1 = (s', x)" for code now s' x
      using finish_failed_keeps [OF _ db that] k by blast
    show ?thesis using f o Inr k s e
      by (auto simp: finish_def Let_def split: sum.splits if_splits)
  qed (use f o k in \<open>auto simp: finish_def\<close>)
qed

lemma queue_reach_inv:
  assumes codec: "\<And>sr json. vl_signed_receipt_json lib sr = Some json \<Longrightarrow> vl_parse_receipt lib json = Some sr"
  shows "queue_reach lib acked st \<Longrightarrow> queue_inv lib acked st"
proof (induction rule: queue_reach.induct)
  case (queue_start fs)
  show ?case by (simp add: queue_inv_def)
next
  case (queue_enqueue acked st env target max_object source kind limits st' out)
  show ?case by (rule enqueue_keeps [OF queue_enqueue(4) queue_enqueue(2,3)])
next
  case (queue_claim acked st env target timeout st' out)
  show ?case by (rule claim_keeps [OF queue_claim(3,2)])
next
  case (queue_finish acked st lease env target result st' out)
  show ?case by (rule finish_keeps [OF queue_finish(4,2) codec queue_finish(3)])
qed

text \<open>
  C21: an object that the queue accepted is never lost: after any sequence of enqueues, claims and
  finishes, by any number of workers and with any failure of a write, a commit or a deletion, it
  is still an active item whose snapshot can be read with the recorded size and digest, or it is
  archived with a receipt that verifies for it under the queue's pinned key.
\<close>

theorem accepted_object_is_never_lost:
  assumes "queue_reach lib acked st" "item \<in> acked"
    and "\<And>sr json. vl_signed_receipt_json lib sr = Some json \<Longrightarrow> vl_parse_receipt lib json = Some sr"
  shows "\<exists>db. qu_db st = DbReady db
     \<and> ((\<exists>r\<in>set (db_items db). same_object item r \<and> row_stored lib (qu_fs st) r)
        \<or> (\<exists>r\<in>set (db_archive db). same_object item r \<and> row_archived lib db r))"
proof -
  note inv = queue_reach_inv [OF assms(3,1)]
  then obtain db where db: "qu_db st = DbReady db" using assms(2) by (cases "qu_db st") (auto simp: queue_inv_def)
  then have v: "db_inv lib db" "list_all (row_stored lib (qu_fs st)) (db_items db)"
    "list_ex (same_object item) (db_items db @ db_archive db)" using inv assms(2) by (auto simp: queue_inv_def)
  have a: "list_all (row_archived lib db) (db_archive db)" using v(1) by (simp add: db_inv_def)
  from v(3) obtain r where r: "r \<in> set (db_items db) \<union> set (db_archive db)" "same_object item r" by (auto simp: list_ex_iff)
  then show ?thesis using db v(2) a by (auto simp: list_all_iff)
qed

text \<open>
  No object is queued twice and the queue stays within its limits: over the active items and
  the archive together the ids are distinct and so are the pairs of kind and digest, there are at
  most 10000 active items and at most 100000 rows, and the database always passes its own check.
\<close>

theorem queue_stays_consistent:
  assumes "queue_reach lib acked st" "qu_db st = DbReady db"
    and "\<And>sr json. vl_signed_receipt_json lib sr = Some json \<Longrightarrow> vl_parse_receipt lib json = Some sr"
  shows "distinct (map rw_id (db_items db @ db_archive db))
     \<and> distinct (map (\<lambda>r. (rw_kind r, rw_sha256 r)) (db_items db @ db_archive db))
     \<and> length (db_items db) \<le> 10000 \<and> length (db_items db) + length (db_archive db) \<le> 100000
     \<and> (\<forall>r\<in>set (db_items db). rw_state r = ''pending'' \<and> rw_receipt_json r = None
            \<and> (rw_lease_token r = None) = (rw_lease_expires_ms r = None))"
proof -
  have "db_inv lib db" using queue_reach_inv [OF assms(3,1)] assms(2) by (simp add: queue_inv_def)
  moreover have "row_key = (\<lambda>r. (rw_kind r, rw_sha256 r))" by (rule ext) (simp add: row_key_def)
  ultimately show ?thesis by (auto simp: db_inv_def MAX_ITEMS_def MAX_ARCHIVE_ITEMS_def list_all_iff row_bad_def)
qed

section \<open>Leases\<close>

lemma finish_not_owner:
  assumes "queue_inv lib acked st" "qu_db st = DbReady db" "\<not> list_ex (owns lease (min (fe_now env) i64_max)) (db_items db)"
    "finish lib env target lease result st = (st', out)"
  shows "qu_db st' = DbReady db \<and> out \<noteq> Inr True"
proof -
  obtain st1 res where o: "open_mutating lib (fe_io env) None st = (st1, res)" by fastforce
  note k = open_keeps [OF assms(1) o]
  then have "qu_db st1 = DbReady db" "\<And>d. res = Inr d \<Longrightarrow> d = db" using assms(2) by auto
  then show ?thesis using assms(3,4) o by (auto simp: finish_def Let_def split: sum.splits if_splits)
qed


text \<open>
  The delay before a retry starts at five seconds, doubles with every attempt and stops at one
  hour, without overflow for any number of attempts.
\<close>

theorem retry_delay_backoff:
  "unat (retry_delay attempts) = min (5000 * 2 ^ min (unat attempts - 1) 10) 3600000"
proof -
  let ?k = "min (unat attempts - 1) 10"
  have k: "unat (min (sat_sub attempts 1) 10) = ?k"
    by (simp add: min_def word_le_nat_alt unat_sat_sub)
  have p: "unat (push_bit ?k 1 :: u64) = 2 ^ ?k"
  proof -
    have "(2::nat) ^ ?k \<le> 2 ^ 10" by (rule power_increasing) auto
    then have "(2::nat) ^ ?k < 2 ^ LENGTH(64)" by simp
    from take_bit_nat_eq_self [OF this] have "unat (of_nat (2 ^ ?k) :: u64) = 2 ^ ?k" unfolding unsigned_of_nat by simp
    moreover have "(push_bit ?k 1 :: u64) = of_nat (2 ^ ?k)" by (simp add: push_bit_eq_mult)
    ultimately show ?thesis by simp
  qed
  have "(2::nat) ^ ?k \<le> 1024" using power_increasing [of ?k 10 "2::nat"] by simp
  moreover have "unat (sat_mul (5000 :: u64) (push_bit ?k 1)) = min (unat (5000 :: u64) * 2 ^ ?k) (2 ^ 64 - 1)"
    unfolding unat_sat_mul p by simp
  ultimately have "unat (sat_mul (5000 :: u64) (push_bit ?k 1)) = 5000 * 2 ^ ?k" by simp
  then show ?thesis unfolding retry_delay_def k by (simp add: min_def word_le_nat_alt)
qed

section \<open>Witnesses\<close>

lemma demo_codec:
  "vl_signed_receipt_json demo_queue_lib sr = Some json \<Longrightarrow> vl_parse_receipt demo_queue_lib json = Some sr"
  by (auto simp: demo_queue_lib_def split: if_splits)

lemma demo_ids: "id_ok demo_id" "sha256 demo_queue_lib ''abc'' = demo_hash" "valid_kind ''backup''" "limits_valid queue_limits_default"
  "valid_vault_id ''a1''" "valid_vault_id ''k1''" "\<exists>k. public_key demo_queue_lib (pinned_key demo_vault_lib demo_key) = Inr k"
proof -
  show "id_ok demo_id" "valid_kind ''backup''" "valid_vault_id ''a1''" "valid_vault_id ''k1''" by code_simp+
  show "sha256 demo_queue_lib ''abc'' = demo_hash" by (simp add: demo_hash_def sha256_def demo_queue_lib_def)
  show "limits_valid queue_limits_default" by (simp add: limits_valid_def queue_limits_default_def MAX_ITEMS_def MAX_BYTES_def)
  show "\<exists>k. public_key demo_queue_lib (pinned_key demo_vault_lib demo_key) = Inr k"
    using demo_honest by (simp add: public_key_def demo_queue_lib_def pinned_key_def honest_key_def hex_codec.decode_encode)
qed

lemma demo_validate:
  "validate_database demo_queue_lib True (new_db demo_target queue_limits_default) = Inr ()"
  "validate_database demo_queue_lib True demo_queue_db = Inr ()"
  using demo_ids
  by (auto simp: validate_database_def new_db_def demo_queue_db_def demo_target_def MAX_ITEMS_def MAX_ARCHIVE_ITEMS_def SCHEMA_VERSION_def
      row_bad_def demo_row_def new_row_def)

lemma demo_open:
  "open_mutating demo_queue_lib demo_io (Some (demo_target, queue_limits_default)) \<lparr>qu_db = DbAbsent, qu_fs = demo_vault_fs\<rparr>
     = (\<lparr>qu_db = DbReady (new_db demo_target queue_limits_default), qu_fs = demo_vault_fs\<rparr>, Inr (new_db demo_target queue_limits_default))"
  "open_mutating demo_queue_lib demo_io None \<lparr>qu_db = DbReady demo_queue_db, qu_fs = fs\<rparr>
     = (\<lparr>qu_db = DbReady demo_queue_db, qu_fs = fs\<rparr>, Inr demo_queue_db)"
  using demo_validate demo_ids(1)
  by (simp_all add: open_mutating_def open_existing_def demo_io_def commit_def migrate_def cleanup_def new_db_def demo_queue_db_def
      SCHEMA_VERSION_def MAX_ITEMS_def demo_row_def new_row_def)

lemma demo_enqueue:
  obtains fs item where "enqueue demo_queue_lib demo_enqueue_env (Inr demo_target) 100 (Inr ''abc'') ''backup'' queue_limits_default
     \<lparr>qu_db = DbAbsent, qu_fs = demo_vault_fs\<rparr> = (\<lparr>qu_db = DbReady demo_queue_db, qu_fs = fs\<rparr>, Inr item)" "it_id item = demo_id"
proof -
  obtain fs f where w: "write_new (eq_write demo_enqueue_env) OBJECTS (snapshot_name demo_id) ''abc'' demo_vault_fs = (fs, Inr ())"
    using write_new_fresh [of demo_vault_fs OBJECTS "\<lambda>_. None" "snapshot_name demo_id" "eq_write demo_enqueue_env" "''abc''"]
    by (auto simp: demo_vault_fs_def demo_enqueue_env_def)
  obtain item where i: "decode_row demo_queue_lib demo_row = Some item" "it_id item = demo_id"
    by (simp add: decode_row_def demo_row_def new_row_def)
  have row: "new_row demo_id ''backup'' demo_hash (Suc (Suc (Suc 0))) (min 5 i64_max) = demo_row"
    by (simp add: demo_row_def i64_max_def numeral_3_eq_3)
  have "enqueue demo_queue_lib demo_enqueue_env (Inr demo_target) 100 (Inr ''abc'') ''backup'' queue_limits_default
     \<lparr>qu_db = DbAbsent, qu_fs = demo_vault_fs\<rparr> = (\<lparr>qu_db = DbReady demo_queue_db, qu_fs = fs\<rparr>, Inr item)"
    using demo_ids demo_open(1) w i row
    by (simp add: enqueue_def insert_new_def demo_enqueue_env_def assert_target_def new_db_def find_object_def MAX_ARCHIVE_ITEMS_def
        queue_limits_default_def pending_bytes_def commit_def demo_queue_db_def Let_def)
  with that i(2) show ?thesis by blast
qed

lemma demo_queue_reach:
  obtains fs item where "queue_reach demo_queue_lib {item} \<lparr>qu_db = DbReady demo_queue_db, qu_fs = fs\<rparr>" "it_id item = demo_id"
proof -
  obtain fs item where e: "enqueue demo_queue_lib demo_enqueue_env (Inr demo_target) 100 (Inr ''abc'') ''backup'' queue_limits_default
     \<lparr>qu_db = DbAbsent, qu_fs = demo_vault_fs\<rparr> = (\<lparr>qu_db = DbReady demo_queue_db, qu_fs = fs\<rparr>, Inr item)" "it_id item = demo_id"
    by (rule demo_enqueue)
  from queue_enqueue [OF queue_start _ e(1)] that e(2) show ?thesis by (simp add: archived_ids_def)
qed

theorem accepted_object_is_never_lost_witness:
  "\<exists>fs item. queue_reach demo_queue_lib {item} \<lparr>qu_db = DbReady demo_queue_db, qu_fs = fs\<rparr>
     \<and> same_object item demo_row \<and> row_stored demo_queue_lib fs demo_row"
proof -
  obtain fs item where r: "queue_reach demo_queue_lib {item} \<lparr>qu_db = DbReady demo_queue_db, qu_fs = fs\<rparr>"
    by (rule demo_queue_reach)
  have "db_items demo_queue_db = [demo_row]" "db_archive demo_queue_db = []" by (simp_all add: demo_queue_db_def new_db_def)
  with accepted_object_is_never_lost [OF r singletonI demo_codec] r show ?thesis by auto
qed

theorem queue_stays_consistent_witness:
  "distinct (map rw_id (db_items demo_queue_db @ db_archive demo_queue_db)) \<and> length (db_items demo_queue_db) = 1"
proof -
  obtain fs item where r: "queue_reach demo_queue_lib {item} \<lparr>qu_db = DbReady demo_queue_db, qu_fs = fs\<rparr>"
    by (rule demo_queue_reach)
  have "length (db_items demo_queue_db) = 1" by (simp add: demo_queue_db_def)
  with queue_stays_consistent [OF r _ demo_codec, of demo_queue_db] show ?thesis by simp
qed


end
