(* ===== verification/Detect_Entropy.thy ===== *)
theory Detect_Entropy
  imports Argos_Common
begin

text \<open>
  \<^verbatim>\<open>argos-detect/src/entropy.rs\<close>: the Shannon entropy of a byte sequence, the bounded
  content sampler with its history of previous observations, the file type classifier and the
  decision whether an event is a sign of encryption.  A file is read through a parameter that
  returns its bytes; \<^verbatim>\<open>f64::log2\<close>, whose precision Rust leaves open, is a parameter too.
\<close>

definition MAX_SAMPLE_BYTES :: usize where
  "MAX_SAMPLE_BYTES = 1024 * 1024"

section \<open>Entropy\<close>

definition byte_count :: "string \<Rightarrow> nat \<Rightarrow> nat" where
  "byte_count data b = length (filter (\<lambda>c. byte c = b) data)"

definition entropy_term :: "(f64 \<Rightarrow> f64) \<Rightarrow> nat \<Rightarrow> nat \<Rightarrow> f64" where
  "entropy_term log2 len c =
     (let p = f_div (f64_of_nat c) (f64_of_nat len) in f_mul (f_neg p) (log2 p))"

definition shannon_entropy :: "(f64 \<Rightarrow> f64) \<Rightarrow> string \<Rightarrow> f64" where
  "shannon_entropy log2 data =
     (if data = [] then Fin 0
      else foldl f_add (Fin 0)
        (map (entropy_term log2 (length data))
          (filter (\<lambda>c. 0 < c) (map (byte_count data) [0..<256]))))"

section \<open>Classifying and sampling a file\<close>

definition bytes_of :: "nat list \<Rightarrow> string" where
  "bytes_of bs = map char_of bs"

definition slice_is :: "string \<Rightarrow> nat \<Rightarrow> nat \<Rightarrow> string \<Rightarrow> bool" where
  "slice_is bytes i j s = (j \<le> length bytes \<and> take (j - i) (drop i bytes) = s)"

definition ascii_graphic :: "char \<Rightarrow> bool" where
  "ascii_graphic c = (33 \<le> byte c \<and> byte c \<le> 126)"

definition ascii_whitespace :: "char \<Rightarrow> bool" where
  "ascii_whitespace c = (byte c \<in> {9, 10, 12, 13, 32})"

definition classify :: "string \<Rightarrow> string" where
  "classify b =
     (if prefix (bytes_of [80, 75, 3, 4]) b \<or> prefix (bytes_of [80, 75, 5, 6]) b then ''zip''
      else if prefix (bytes_of [31, 139]) b then ''gzip''
      else if prefix (bytes_of [253, 55, 122, 88, 90, 0]) b then ''xz''
      else if prefix (bytes_of [40, 181, 47, 253]) b then ''zstd''
      else if prefix ''BZh'' b then ''bzip2''
      else if prefix (bytes_of [55, 122, 188, 175, 39, 28]) b then ''7z''
      else if prefix (''Rar!'' @ bytes_of [26, 7]) b then ''rar''
      else if prefix (bytes_of [137, 80, 78, 71, 13, 10, 26, 10]) b then ''png''
      else if prefix (bytes_of [255, 216, 255]) b then ''jpeg''
      else if prefix ''RIFF'' b \<and> slice_is b 8 12 ''WEBP'' then ''webp''
      else if slice_is b 4 8 ''ftyp'' then ''mp4''
      else if prefix ''%PDF-'' b then ''pdf''
      else if prefix (bytes_of [127] @ ''ELF'') b \<or> prefix ''MZ'' b then ''executable''
      else if b \<noteq> [] \<and> list_all (\<lambda>c. ascii_graphic c \<or> ascii_whitespace c) b then ''text''
      else ''unknown'')"

text \<open>The positions to read: the whole file, or its head, middle and tail within the budget.\<close>

definition sample_positions :: "nat \<Rightarrow> nat \<Rightarrow> (nat \<times> nat) list" where
  "sample_positions file_size budget =
     (let total = min file_size budget in
      if file_size \<le> budget then [(0, total)]
      else let l0 = (total + 2) div 3; l1 = (total + 1) div 3; l2 = total div 3
        in [(0, l0), ((file_size - l1) div 2, l1), (file_size - l2, l2)])"

datatype io_error = NotFound | InvalidInput | WouldBlock | UnexpectedEof | OtherIo string

text \<open>
  \<^verbatim>\<open>read_at offset length\<close> is \<^verbatim>\<open>seek\<close> followed by \<^verbatim>\<open>read_exact\<close>.
\<close>

fun read_samples ::
  "(f64 \<Rightarrow> f64) \<Rightarrow> (nat \<Rightarrow> nat \<Rightarrow> io_error + string) \<Rightarrow> (nat \<times> nat) list \<Rightarrow> string \<Rightarrow>
     content_sample list \<Rightarrow> nat \<Rightarrow> io_error + (string \<times> content_sample list \<times> nat)" where
  "read_samples log2 read_at [] ty acc n = Inr (ty, acc, n)"
| "read_samples log2 read_at ((off, len) # ps) ty acc n =
     (case read_at off len of
        Inl e \<Rightarrow> Inl e
      | Inr bytes \<Rightarrow>
          read_samples log2 read_at ps (if off = 0 then classify bytes else ty)
            (acc @ [\<lparr>cs_offset = of_nat off, cs_length = of_nat len,
                     cs_entropy = shannon_entropy log2 bytes\<rparr>])
            (n + len))"

definition sample_reader ::
  "(f64 \<Rightarrow> f64) \<Rightarrow> (nat \<Rightarrow> nat \<Rightarrow> io_error + string) \<Rightarrow> u64 \<Rightarrow> usize \<Rightarrow> u64 \<Rightarrow>
     io_error + content_evidence" where
  "sample_reader log2 read_at file_size requested observed_at_ms =
     (let budget = min requested MAX_SAMPLE_BYTES in
      case read_samples log2 read_at
             (filter (\<lambda>(_, len). 0 < len) (sample_positions (unat file_size) (unat budget))) ''unknown'' [] 0 of
        Inl e \<Rightarrow> Inl e
      | Inr (ty, samples, n) \<Rightarrow>
          Inr \<lparr>ce_observed_at_ms = observed_at_ms, ce_file_size = file_size,
               ce_sampled_bytes = of_nat n, ce_budget_bytes = budget, ce_file_type = ty,
               ce_samples = samples, ce_complete = (n = unat file_size),
               ce_previous_observed_at_ms = None, ce_max_entropy_increase = None\<rparr>)"

section \<open>The sampler\<close>

record content_sampler =
  sm_budget :: usize
  sm_max_files :: usize
  sm_history_ms :: u64
  sm_previous :: "(path_component list, content_evidence) hmap"

definition content_sampler_new :: "usize \<Rightarrow> usize \<Rightarrow> u64 \<Rightarrow> content_sampler" where
  "content_sampler_new total_bytes max_files history_secs =
     \<lparr>sm_budget = min total_bytes MAX_SAMPLE_BYTES, sm_max_files = min max_files 65536,
      sm_history_ms = sat_mul history_secs 1000, sm_previous = []\<rparr>"

text \<open>
  An opened file: its metadata before and after the read (type, length and, where the platform
  has it, modification time) and the reads between them.
\<close>

record file_meta =
  fm_is_file :: bool
  fm_len :: u64
  fm_modified :: "nat option"

record opened_file =
  of_before :: "io_error + file_meta"
  of_read_at :: "nat \<Rightarrow> nat \<Rightarrow> io_error + string"
  of_after :: "io_error + file_meta"

definition entropy_increases :: "content_evidence \<Rightarrow> content_evidence \<Rightarrow> f64 list" where
  "entropy_increases previous evidence =
     List.map_filter
       (\<lambda>sample. map_option (\<lambda>old. f_sub (cs_entropy sample) (cs_entropy old))
          (find (\<lambda>old. cs_offset old = cs_offset sample \<and> cs_length old = cs_length sample)
             (ce_samples previous)))
       (ce_samples evidence)"

definition compare_previous :: "content_evidence option \<Rightarrow> content_evidence \<Rightarrow> content_evidence" where
  "compare_previous prev evidence =
     (case prev of
        None \<Rightarrow> evidence
      | Some p \<Rightarrow>
          if ce_observed_at_ms p < ce_observed_at_ms evidence \<and> ce_file_size p = ce_file_size evidence
          then (case entropy_increases p evidence of
                  [] \<Rightarrow> evidence
                | d # ds \<Rightarrow>
                    if length (d # ds) = length (ce_samples evidence)
                    then evidence\<lparr>ce_previous_observed_at_ms := Some (ce_observed_at_ms p),
                                  ce_max_entropy_increase := Some (foldl f_max d ds)\<rparr>
                    else evidence)
          else evidence)"

definition evidence_rank :: "path_component list \<times> content_evidence \<Rightarrow> u64 \<times> path_component list" where
  "evidence_rank = (\<lambda>(key, value). (ce_observed_at_ms value, key))"

definition remember ::
  "content_sampler \<Rightarrow> path \<Rightarrow> content_evidence \<Rightarrow> content_sampler" where
  "remember sm p evidence =
     (if 0 < sm_max_files sm \<and> length p \<le> 4096
      then sm\<lparr>sm_previous :=
             hm_put (components p) evidence
               (evict_for (unat (sm_max_files sm)) evidence_rank (components p) (sm_previous sm))\<rparr>
      else sm)"

definition observe_content ::
  "(f64 \<Rightarrow> f64) \<Rightarrow> content_sampler \<Rightarrow> path \<Rightarrow> (io_error + opened_file) \<Rightarrow> u64 \<Rightarrow>
     content_sampler \<times> (io_error + content_evidence)" where
  "observe_content log2 sm p opened observed_at_ms =
     (case opened of Inl e \<Rightarrow> (sm, Inl e) | Inr f \<Rightarrow>
      case of_before f of Inl e \<Rightarrow> (sm, Inl e) | Inr before \<Rightarrow>
      if \<not> fm_is_file before then (sm, Inl InvalidInput) else
      case sample_reader log2 (of_read_at f) (fm_len before) (sm_budget sm) observed_at_ms of
        Inl e \<Rightarrow> (sm, Inl e) | Inr evidence \<Rightarrow>
      case of_after f of Inl e \<Rightarrow> (sm, Inl e) | Inr after \<Rightarrow>
      if fm_len before \<noteq> fm_len after \<or> fm_modified before \<noteq> fm_modified after
      then (sm, Inl WouldBlock) else
      let horizon = sat_sub observed_at_ms (sm_history_ms sm);
          sm = sm\<lparr>sm_previous := hm_retain (\<lambda>_ value. horizon \<le> ce_observed_at_ms value
                  \<and> ce_observed_at_ms value \<le> observed_at_ms) (sm_previous sm)\<rparr>;
          evidence = compare_previous (map_of (sm_previous sm) (components p)) evidence
      in (remember sm p evidence, Inr evidence))"

text \<open>
  \<^verbatim>\<open>file_entropy\<close>: the buffer is filled by reads that may be short; an empty read is the end
  of the file.  The reads of the opened file are a list of results.
\<close>

fun fill_buffer :: "nat \<Rightarrow> string \<Rightarrow> (io_error + string) list \<Rightarrow> io_error + string" where
  "fill_buffer cap acc [] = Inr acc"
| "fill_buffer cap acc (Inl e # rs) = Inl e"
| "fill_buffer cap acc (Inr chunk # rs) =
     (let got = take (cap - length acc) chunk in
      if got = [] then Inr acc
      else if length (acc @ got) = cap then Inr (acc @ got)
      else fill_buffer cap (acc @ got) rs)"

definition file_entropy ::
  "(f64 \<Rightarrow> f64) \<Rightarrow> io_error + (io_error + string) list \<Rightarrow> usize \<Rightarrow> io_error + f64" where
  "file_entropy log2 opened max_bytes =
     (case opened of Inl e \<Rightarrow> Inl e
      | Inr reads \<Rightarrow>
          (case fill_buffer (unat (min max_bytes MAX_SAMPLE_BYTES)) [] reads of
             Inl e \<Rightarrow> Inl e
           | Inr data \<Rightarrow> Inr (shannon_entropy log2 data)))"

section \<open>The sign of encryption\<close>

definition sample_ok :: "content_evidence \<Rightarrow> content_sample \<Rightarrow> bool" where
  "sample_ok c s =
     (cs_length s \<noteq> 0
      \<and> (case checked_add (cs_offset s) (ucast (cs_length s)) of
           None \<Rightarrow> False | Some end_of \<Rightarrow> end_of \<le> ce_file_size c)
      \<and> is_finite (cs_entropy s) \<and> f_in 0 8 (cs_entropy s))"

definition evidence_ok :: "content_evidence \<Rightarrow> bool" where
  "evidence_ok c =
     (ce_samples c \<noteq> [] \<and> length (ce_samples c) \<le> 3
      \<and> ce_budget_bytes c \<le> MAX_SAMPLE_BYTES \<and> ce_sampled_bytes c \<le> ce_budget_bytes c
      \<and> list_all (\<lambda>s. ucast (cs_length s) \<le> ce_budget_bytes c) (ce_samples c)
      \<and> sum_list (map (\<lambda>s. unat (cs_length s)) (ce_samples c)) = unat (ce_sampled_bytes c)
      \<and> list_all (sample_ok c) (ce_samples c))"

definition naturally_dense :: "string \<Rightarrow> bool" where
  "naturally_dense ty =
     (ty \<in> set [''zip'', ''gzip'', ''xz'', ''zstd'', ''bzip2'', ''7z'', ''rar'', ''png'', ''jpeg'',
              ''webp'', ''mp4'', ''pdf'', ''executable''])"

definition comparable :: "detection_config \<Rightarrow> content_evidence \<Rightarrow> bool" where
  "comparable config c =
     ((case ce_previous_observed_at_ms c of None \<Rightarrow> False | Some before \<Rightarrow> before < ce_observed_at_ms c)
      \<and> (case ce_max_entropy_increase c of None \<Rightarrow> False
          | Some delta \<Rightarrow> is_finite delta \<and> f_lt (Fin 0) delta \<and> f_le delta (Fin 8)
              \<and> f_le (cc_min_entropy_increase (dc_content_sampling config)) delta))"

definition encryption_signal :: "file_event \<Rightarrow> detection_config \<Rightarrow> bool" where
  "encryption_signal event config =
     (case (if cc_enabled (dc_content_sampling config) then fe_content event else None) of
        Some content \<Rightarrow>
          if \<not> evidence_ok content then False
          else list_ex (\<lambda>s. f_le (dc_entropy_threshold config) (cs_entropy s)) (ce_samples content)
            \<and> (comparable config content
                \<or> (\<not> naturally_dense (ce_file_type content)
                    \<and> ce_previous_observed_at_ms content = None))
      | None \<Rightarrow>
          0 < dc_entropy_sample_bytes config
          \<and> (case fe_entropy event of None \<Rightarrow> False
              | Some value \<Rightarrow> is_finite value \<and> f_le (dc_entropy_threshold config) value
                  \<and> f_le value (Fin 8)))"

section \<open>Specification notions\<close>

definition sample_at :: "(f64 \<Rightarrow> f64) \<Rightarrow> nat \<times> nat \<Rightarrow> string \<Rightarrow> content_sample" where
  "sample_at log2 = (\<lambda>(off, len) bytes. \<lparr>cs_offset = of_nat off, cs_length = of_nat len, cs_entropy = shannon_entropy log2 bytes\<rparr>)"

definition sampler_inv :: "content_sampler \<Rightarrow> bool" where
  "sampler_inv sm = (hm_wf (sm_previous sm) \<and> length (sm_previous sm) \<le> unat (sm_max_files sm)
     \<and> sm_max_files sm \<le> 65536 \<and> sm_budget sm \<le> MAX_SAMPLE_BYTES)"

definition run_sampler ::
  "(f64 \<Rightarrow> f64) \<Rightarrow> (path \<times> (io_error + opened_file) \<times> u64) list \<Rightarrow> content_sampler \<Rightarrow> content_sampler" where
  "run_sampler log2 = fold (\<lambda>(p, f, now) sm. fst (observe_content log2 sm p f now))"

fun read_prefix :: "(io_error + string) list \<Rightarrow> string" where
  "read_prefix (Inr (c # cs) # rs) = c # cs @ read_prefix rs"
| "read_prefix _ = []"

section \<open>The sampling plan\<close>

lemma thirds:
  fixes b n :: nat
  obtains q r where "b = 3 * q + r" "r < 3" "b div 3 = q" "(b + 1) div 3 = (if r = 2 then q + 1 else q)"
    "(b + 2) div 3 = (if r = 0 then q else q + 1)"
proof (rule that [of "b div 3" "b mod 3"])
  show "(b + 1) div 3 = (if b mod 3 = 2 then b div 3 + 1 else b div 3)" by presburger
  show "(b + 2) div 3 = (if b mod 3 = 0 then b div 3 else b div 3 + 1)" by presburger
qed simp_all

lemma sample_positions_facts:
  "(\<forall>(off, len)\<in>set (sample_positions n budget). off + len \<le> n \<and> len \<le> budget)
   \<and> sum_list (map snd (sample_positions n budget)) = min n budget
   \<and> sorted_wrt (\<lambda>(o1, l1) (o2, l2). o1 + l1 \<le> o2) (sample_positions n budget)"
proof (cases "n \<le> budget")
  case True
  then show ?thesis by (simp add: sample_positions_def)
next
  case False
  obtain q r where qr: "budget = 3 * q + r" "r < 3" "budget div 3 = q"
    "(budget + 1) div 3 = (if r = 2 then q + 1 else q)"
    "(budget + 2) div 3 = (if r = 0 then q else q + 1)" by (rule thirds)
  then have pos: "sample_positions n budget =
    [(0, if r = 0 then q else q + 1),
     ((n - (if r = 2 then q + 1 else q)) div 2, if r = 2 then q + 1 else q), (n - q, q)]"
    using False by (simp add: sample_positions_def Let_def)
  consider "r = 0" | "r = 1" | "r = 2" using qr(2) by linarith
  then show ?thesis
    using False unfolding pos by cases (auto simp: qr(1))
qed

lemma sample_positions_bounds:
  assumes "(off, len) \<in> set (sample_positions n budget)"
  shows "off + len \<le> n" "len \<le> budget"
  using sample_positions_facts [of n budget] assms by blast+

lemma sample_positions_sum: "sum_list (map snd (sample_positions n budget)) = min n budget"
  using sample_positions_facts [of n budget] by blast

lemma sample_positions_length: "length (sample_positions n budget) \<le> 3"
  by (simp add: sample_positions_def Let_def)

section \<open>Evidence that the sampler produces is accepted\<close>

lemma read_samples_shape:
  assumes "read_samples log2 read_at ps ty acc n = Inr (ty', samples, n')"
    and "\<And>off len. (off, len) \<in> set ps \<Longrightarrow> \<exists>b. read_at off len = Inr b \<and> length b = len"
  shows "\<exists>bs. length bs = length ps \<and> samples = acc @ map2 (sample_at log2) ps bs
    \<and> map length bs = map snd ps \<and> n' = n + sum_list (map snd ps)"
  using assms
proof (induction ps arbitrary: ty acc n)
  case Nil
  then show ?case by simp
next
  case (Cons p ps)
  obtain off len where p: "p = (off, len)" by fastforce
  obtain b where b: "read_at off len = Inr b" "length b = len" using Cons.prems(2) p by auto
  from Cons.prems(1) b obtain ty1 where
    "read_samples log2 read_at ps ty1 (acc @ [sample_at log2 (off, len) b]) (n + len) = Inr (ty', samples, n')"
    by (auto simp: p sample_at_def)
  from Cons.IH [OF this] Cons.prems(2) obtain bs where
    "length bs = length ps" "samples = (acc @ [sample_at log2 (off, len) b]) @ map2 (sample_at log2) ps bs"
    "map length bs = map snd ps" "n' = n + len + sum_list (map snd ps)" by auto
  then show ?case using b p by (intro exI [of _ "b # bs"]) simp
qed

lemma filter_pos_sum: "sum_list (map snd (filter (\<lambda>(_, len). 0 < len) ps)) = sum_list (map snd ps)" for ps :: "(nat \<times> nat) list"
  by (induction ps) auto

lemma budget_le: "unat (min requested MAX_SAMPLE_BYTES) \<le> 1048576"
  by (simp add: MAX_SAMPLE_BYTES_def min_def word_le_nat_alt)

text \<open>
  The evidence that the sampler takes of a non-empty file, with a non-zero budget, passes
  every plausibility check of the encryption decision; only entropies outside 0 to 8 bits, which
  the logarithm would have to produce, could make it fail.
\<close>

theorem sampler_evidence_accepted:
  assumes "sample_reader log2 read_at file_size requested now = Inr evidence"
    and "\<And>off len. off + len \<le> unat file_size \<Longrightarrow> \<exists>b. read_at off len = Inr b \<and> length b = len"
    and "\<And>b. b \<noteq> [] \<Longrightarrow> length b \<le> 1048576 \<Longrightarrow> f_in 0 8 (shannon_entropy log2 b)"
    and "0 < file_size" "0 < requested"
  shows "evidence_ok evidence"
proof -
  let ?budget = "min requested MAX_SAMPLE_BYTES"
  let ?all = "sample_positions (unat file_size) (unat ?budget)"
  let ?ps = "filter (\<lambda>(_, len). 0 < len) ?all"
  obtain ty samples n where r: "read_samples log2 read_at ?ps ''unknown'' [] 0 = Inr (ty, samples, n)"
    and ev: "evidence = \<lparr>ce_observed_at_ms = now, ce_file_size = file_size, ce_sampled_bytes = of_nat n,
       ce_budget_bytes = ?budget, ce_file_type = ty, ce_samples = samples, ce_complete = (n = unat file_size),
       ce_previous_observed_at_ms = None, ce_max_entropy_increase = None\<rparr>"
    using assms(1) by (auto simp: sample_reader_def Let_def split: sum.splits)
  have pos: "off + len \<le> unat file_size" "0 < len" "len \<le> unat ?budget"
    if "(off, len) \<in> set ?ps" for off len
    using that sample_positions_bounds [of off len "unat file_size" "unat ?budget"] by auto
  obtain bs where bs: "length bs = length ?ps" "samples = map2 (sample_at log2) ?ps bs"
    "map length bs = map snd ?ps" "n = sum_list (map snd ?ps)"
    using read_samples_shape [OF r] assms(2) pos(1) by auto
  have n: "n = min (unat file_size) (unat ?budget)" using bs(4) by (simp add: filter_pos_sum sample_positions_sum)
  have bpos: "0 < unat ?budget" using assms(5) by (auto simp: MAX_SAMPLE_BYTES_def min_def unat_gt_0)
  have "0 < unat file_size" using assms(4) by (simp add: unat_gt_0)
  with n bpos have npos: "0 < n" by simp
  have nlt: "n < 2 ^ 64" using n budget_le [of requested] by simp
  have un: "unat (of_nat n :: u64) = n" using nlt by (simp add: unat_of_nat)
  have nonempty: "samples \<noteq> []" using bs npos by (cases ?ps) auto
  have short: "length samples \<le> 3"
    using bs(1,2) sample_positions_length [of "unat file_size" "unat ?budget"]
    by simp (meson le_trans length_filter_le)
  have each: "sample_ok evidence s \<and> ucast (cs_length s) \<le> ?budget
      \<and> (\<exists>off len. (off, len) \<in> set ?ps \<and> unat (cs_length s) = len)" if "s \<in> set samples" for s
  proof -
    from that bs(1,2) obtain i where i: "i < length ?ps" "s = sample_at log2 (?ps ! i) (bs ! i)"
      by (auto simp: in_set_conv_nth)
    obtain off len where ol: "?ps ! i = (off, len)" by fastforce
    have mem: "(off, len) \<in> set ?ps" using i ol by (metis nth_mem)
    note b = pos [OF mem]
    have lb: "length (bs ! i) = len" using bs(1,3) i(1) ol by (metis nth_map snd_conv)
    have small: "len \<le> 1048576" using b(3) budget_le [of requested] by linarith
    have ul: "unat (of_nat len :: u32) = len" using small by (simp add: unat_of_nat)
    have uo: "unat (of_nat off :: u64) = off"
      using b(1) unat_lt64 [of file_size] by (simp add: unat_of_nat)
    have uc: "unat (ucast (of_nat len :: u32) :: u64) = len" using ul small by (simp add: unsigned_ucast_eq take_bit_nat_eq_self)
    have "bs ! i \<noteq> []" using lb b(2) by auto
    then have ent: "f_in 0 8 (shannon_entropy log2 (bs ! i))" using assms(3) lb small by simp
    have fits: "unat (of_nat off :: u64) + unat (ucast (of_nat len :: u32) :: u64) < 2 ^ 64"
      using uo uc b(1) unat_lt64 [of file_size] by simp
    then have add: "checked_add (of_nat off :: u64) (ucast (of_nat len :: u32)) = Some (of_nat off + ucast (of_nat len :: u32))"
      by (simp add: checked_add_def)
    have "unat ((of_nat off :: u64) + ucast (of_nat len :: u32)) = off + len"
      using unat_checked_add [OF add] uo uc by simp
    then have "(of_nat off :: u64) + ucast (of_nat len :: u32) \<le> file_size"
      using b(1) by (simp add: word_le_nat_alt)
    moreover have "(of_nat len :: u32) \<noteq> 0" using ul b(2) by (metis less_irrefl unsigned_0)
    ultimately show ?thesis
      using i(2) ol ent add f_in_finite [OF ent] mem uc b(3) ul
      by (auto simp: sample_at_def sample_ok_def ev word_le_nat_alt)
  qed
  have "map (\<lambda>s. unat (cs_length s)) samples = map snd ?ps"
  proof (rule nth_equalityI)
    show "length (map (\<lambda>s. unat (cs_length s)) samples) = length (map snd ?ps)" using bs(1,2) by simp
    fix i assume "i < length (map (\<lambda>s. unat (cs_length s)) samples)"
    then have i: "i < length ?ps" using bs(1,2) by simp
    obtain off len where ol: "?ps ! i = (off, len)" by fastforce
    have "(off, len) \<in> set ?ps" using i ol by (metis nth_mem)
    then have "len \<le> 1048576" using pos(3) budget_le [of requested] by fastforce
    then show "map (\<lambda>s. unat (cs_length s)) samples ! i = map snd ?ps ! i"
      using bs(1,2) i ol by (simp add: sample_at_def unat_of_nat)
  qed
  then have "sum_list (map (\<lambda>s. unat (cs_length s)) samples) = n" using bs(4) by simp
  then show ?thesis
    using nonempty short each un n
    by (auto simp: evidence_ok_def ev list_all_iff word_le_nat_alt MAX_SAMPLE_BYTES_def min_def)
qed

lemma entropy_zero_log:
  assumes "length b < 2 ^ 64"
  shows "shannon_entropy (\<lambda>_. Fin 0) b = Fin 0"
proof -
  have "entropy_term (\<lambda>_. Fin 0) (length b) c = Fin 0" if "b \<noteq> []" "c \<le> length b" for c
    using f_div_nat_ratio [of c "length b"] that assms
    by (auto simp: entropy_term_def Let_def f_in_iff)
  then have terms: "map (entropy_term (\<lambda>_. Fin 0) (length b)) (filter ((<) 0) (map (byte_count b) [0..<256]))
    = map (\<lambda>_. Fin 0) (filter ((<) 0) (map (byte_count b) [0..<256]))" if "b \<noteq> []"
    using that by (intro map_cong) (auto simp: byte_count_def)
  have "foldl f_add (Fin 0) (map (\<lambda>_. Fin 0) xs) = Fin 0" for xs :: "nat list"
    by (induction xs) auto
  then show ?thesis unfolding shannon_entropy_def using terms by presburger
qed

lemma classify_abcd: "classify ''abcd'' = ''text''"
  by code_simp

theorem sampler_evidence_accepted_witness:
  "evidence_ok \<lparr>ce_observed_at_ms = 9, ce_file_size = 4, ce_sampled_bytes = 4, ce_budget_bytes = 100,
     ce_file_type = ''text'', ce_samples = [\<lparr>cs_offset = 0, cs_length = 4, cs_entropy = Fin 0\<rparr>],
     ce_complete = True, ce_previous_observed_at_ms = None, ce_max_entropy_increase = None\<rparr>"
proof (rule sampler_evidence_accepted [of "\<lambda>_. Fin 0" "\<lambda>off len. Inr (take len (drop off ''abcd''))" 4 100 9])
  show "sample_reader (\<lambda>_. Fin 0) (\<lambda>off len. Inr (take len (drop off ''abcd''))) 4 100 9 = Inr \<lparr>ce_observed_at_ms = 9, ce_file_size = 4, ce_sampled_bytes = 4, ce_budget_bytes = 100,
     ce_file_type = ''text'', ce_samples = [\<lparr>cs_offset = 0, cs_length = 4, cs_entropy = Fin 0\<rparr>],
     ce_complete = True, ce_previous_observed_at_ms = None, ce_max_entropy_increase = None\<rparr>"
    by (simp add: sample_reader_def sample_positions_def MAX_SAMPLE_BYTES_def min_def entropy_zero_log
        classify_abcd)
qed (simp_all add: entropy_zero_log)

section \<open>The history of observations\<close>

lemma sampler_inv_new: "sampler_inv (content_sampler_new b f h)"
  by (simp add: sampler_inv_def content_sampler_new_def)

lemma sampler_inv_remember: "sampler_inv sm \<Longrightarrow> sampler_inv (remember sm p e)"
  using bounded_cache.insert_bounded [OF bounded_cache_evict_for [of "unat (sm_max_files sm)" evidence_rank],
      of "sm_previous sm" "components p" e]
    bounded_cache.admit_wf [OF bounded_cache_evict_for [of "unat (sm_max_files sm)" evidence_rank],
      of "sm_previous sm" "components p"]
  by (simp add: sampler_inv_def remember_def hm_wf_put unat_gt_0 word_gt_0)

lemma sampler_inv_retain:
  "sampler_inv sm \<Longrightarrow> sampler_inv (sm\<lparr>sm_previous := hm_retain P (sm_previous sm)\<rparr>)"
  using hm_len_retain [of P "sm_previous sm"] by (simp add: sampler_inv_def hm_wf_retain)

lemma sampler_inv_observe: "sampler_inv sm \<Longrightarrow> sampler_inv (fst (observe_content log2 sm p f now))"
  by (simp add: observe_content_def Let_def sampler_inv_remember sampler_inv_retain split: sum.split)

interpretation sampler_run: invariant_system "content_sampler_new b f h"
  "\<lambda>(p, opened, now) sm. fst (observe_content log2 sm p opened now)" sampler_inv
  by unfold_locales (auto simp: sampler_inv_new sampler_inv_observe)

lemma sampler_config_kept:
  "sm_max_files (fst (observe_content log2 sm p f now)) = sm_max_files sm"
  by (simp add: observe_content_def remember_def Let_def split: sum.split)

lemma run_sampler_max_files: "sm_max_files (run_sampler log2 es sm) = sm_max_files sm"
  by (induction es arbitrary: sm) (auto simp: run_sampler_def sampler_config_kept)

text \<open>
  However many files the sampler observes, its history holds at most the configured number of
  files, never more than 65536, one entry per file.
\<close>

theorem sampler_history_bounded:
  "let sm = run_sampler log2 es (content_sampler_new b f h) in
     hm_wf (sm_previous sm) \<and> length (sm_previous sm) \<le> min (unat f) 65536"
proof -
  have inv: "sampler_inv (run_sampler log2 es (content_sampler_new b f h))"
    unfolding run_sampler_def by (rule sampler_run.invar_run)
  have "sm_max_files (run_sampler log2 es (content_sampler_new b f h)) = min f 65536"
    by (simp add: run_sampler_max_files content_sampler_new_def)
  with inv show ?thesis by (auto simp: sampler_inv_def Let_def min_def word_le_nat_alt split: if_splits)
qed

section \<open>The buffer of a whole-file read\<close>

lemma fill_buffer_prefix:
  assumes "length acc < cap" "fill_buffer cap acc rs = Inr data"
  shows "data = take cap (acc @ read_prefix rs)"
  using assms
proof (induction cap acc rs rule: fill_buffer.induct)
  case (3 cap acc chunk rs)
  show ?case
  proof (cases chunk)
    case Nil
    then show ?thesis using 3 by (simp)
  next
    case (Cons c cs)
    let ?got = "take (cap - length acc) chunk"
    have ne: "?got \<noteq> []" using Cons 3(2) by simp
    show ?thesis
    proof (cases "length (acc @ ?got) = cap")
      case True
      then have "cap - length acc \<le> length chunk" by (simp add: min_def split: if_splits)
      moreover have "data = acc @ ?got" using 3(3) ne True by (simp add: Let_def)
      ultimately show ?thesis using Cons 3(2) by (cases "cap - length acc") simp_all
    next
      case False
      then have l: "length (acc @ ?got) < cap" using 3(2) by simp
      then have all: "?got = chunk" using 3(2) by auto
      have "data = take cap ((acc @ ?got) @ read_prefix rs)"
        using 3(1) [OF refl ne False l] 3(3) ne False by (simp add: Let_def)
      moreover have "read_prefix (Inr chunk # rs) = chunk @ read_prefix rs" using Cons by simp
      ultimately show ?thesis using all by (simp only: append_assoc)
    qed
  qed
qed simp_all

text \<open>
  The legacy whole-file entropy is the entropy of the first bytes of the file, up to the
  capped budget, however the reads split them; one read error is the error of the operation.
\<close>

theorem file_entropy_reads_prefix:
  assumes "file_entropy log2 (Inr reads) max_bytes = Inr h" "0 < max_bytes"
  shows "h = shannon_entropy log2 (take (unat (min max_bytes MAX_SAMPLE_BYTES)) (read_prefix reads))"
proof -
  have "0 < unat (min max_bytes MAX_SAMPLE_BYTES)"
    using assms(2) by (simp add: MAX_SAMPLE_BYTES_def min_def unat_gt_0 word_gt_0)
  then show ?thesis using assms(1) fill_buffer_prefix [of "[]" _ reads]
    by (auto simp: file_entropy_def split: sum.splits)
qed

theorem file_entropy_reads_prefix_witness:
  "shannon_entropy (\<lambda>_. Fin 0) ''ab'' = shannon_entropy (\<lambda>_. Fin 0) (take (unat (min 2 MAX_SAMPLE_BYTES)) (read_prefix [Inr ''a'', Inr ''bc'']))"
  by (rule file_entropy_reads_prefix [of _ _ 2]) (simp_all add: file_entropy_def MAX_SAMPLE_BYTES_def min_def)

end
