(* ===== verification/Detect_Scorer.thy ===== *)
theory Detect_Scorer
  imports Detect_Entropy
begin

text \<open>
  \<^verbatim>\<open>argos-detect/src/scorer.rs\<close>: one sliding window of file events per process, the score of a
  window, the suppression of repeated alerts, and the limits on the number of windows and of
  entries, which mark the evidence as incomplete when they drop something.
\<close>

section \<open>State and results\<close>

record evaluation =
  ev_score :: f64
  ev_pid :: pid
  ev_eligible :: bool
  ev_alert :: "detection option"
  ev_approved_change_id :: "string option"
  ev_additional_alerts :: "detection list"
  ev_evidence_truncated :: bool

definition block_candidate :: "evaluation \<Rightarrow> response_config \<Rightarrow> bool" where
  "block_candidate ev response =
     (ev_eligible ev \<and> ev_pid ev \<noteq> 0 \<and> f_le (rc_block_score response) (ev_score ev))"

definition should_block :: "evaluation \<Rightarrow> response_config \<Rightarrow> bool" where
  "should_block ev response = (rc_auto_block response \<and> block_candidate ev response)"

record window_entry =
  we_timestamp_ms :: u64
  we_path :: string
  we_action :: file_action
  we_encryption_signal :: bool

type_synonym identity = "(u64 \<times> string) option"

record behavior_scorer =
  bs_config :: detection_config
  bs_sensor :: sensor_kind
  bs_windows :: "(pid, window_entry list) hmap"
  bs_last_emit :: "(pid, u64 \<times> f64) hmap"
  bs_process_identities :: "(pid, identity) hmap"
  bs_incomplete_until :: "u64 option"

definition scorer_with_sensor :: "detection_config \<Rightarrow> sensor_kind \<Rightarrow> behavior_scorer" where
  "scorer_with_sensor config sensor =
     \<lparr>bs_config = config, bs_sensor = sensor, bs_windows = [], bs_last_emit = [],
      bs_process_identities = [], bs_incomplete_until = None\<rparr>"

definition scorer_new :: "detection_config \<Rightarrow> behavior_scorer" where
  "scorer_new config = scorer_with_sensor config Notify"

section \<open>The score\<close>

definition distinct_paths :: "window_entry list \<Rightarrow> string list" where
  "distinct_paths w = remdups (map we_path w)"

definition high_entropy_paths :: "window_entry list \<Rightarrow> string list" where
  "high_entropy_paths w =
     remdups (map we_path (filter (\<lambda>e. we_action e = Modify \<and> we_encryption_signal e) w))"

definition entropy_weight :: "sensor_kind \<Rightarrow> f64" where
  "entropy_weight sensor = (case sensor of Notify \<Rightarrow> Fin 35 | Fanotify \<Rightarrow> Fin 60)"

definition mass_score :: "nat \<Rightarrow> usize \<Rightarrow> f64" where
  "mass_score n threshold =
     f_mul (f_min (f_div (f64_of_nat n) (f64_of_nat (unat (max threshold 1)))) (Fin 1)) (Fin 40)"

definition enc_score :: "window_entry list \<Rightarrow> sensor_kind \<Rightarrow> f64" where
  "enc_score w sensor =
     (if distinct_paths w = [] then Fin 0
      else f_mul (f_div (f64_of_nat (length (high_entropy_paths w)))
                        (f64_of_nat (length (distinct_paths w))))
                 (entropy_weight sensor))"

definition churn_score :: "window_entry list \<Rightarrow> sensor_kind \<Rightarrow> f64" where
  "churn_score w sensor =
     (let renames = length (filter (\<lambda>e. we_action e = Rename) w);
          deletes = length (filter (\<lambda>e. we_action e = Delete) w)
      in if w = [] \<or> sensor = Fanotify then Fin 0
         else f_mul (f_min (f_div (f64_of_nat (renames + deletes)) (f64_of_nat (length w))) (Fin 1))
                    (Fin 25))"

definition score :: "window_entry list \<Rightarrow> detection_config \<Rightarrow> sensor_kind \<Rightarrow> f64" where
  "score w config sensor =
     f_min (f_add (f_add (mass_score (length (distinct_paths w)) (dc_mass_change_threshold config))
                         (enc_score w sensor))
                  (churn_score w sensor))
           (Fin 100)"

definition severity_of :: "f64 \<Rightarrow> severity" where
  "severity_of s =
     (if f_le (Fin 85) s then Critical else if f_le (Fin 65) s then High
      else if f_le (Fin 40) s then Medium else Low)"

section \<open>Evaluating an event\<close>

definition ESCALATION_DELTA :: f64 where
  "ESCALATION_DELTA = Fin 15"

definition window_ms :: "detection_config \<Rightarrow> u64" where
  "window_ms config = sat_mul (dc_window_secs config) 1000"

definition max_groups :: "detection_config \<Rightarrow> nat" where
  "max_groups config = unat (clamp 1 16384 (mw_max_groups (dc_multi_window config)))"

definition max_events :: "detection_config \<Rightarrow> nat" where
  "max_events config = unat (clamp 1 100000 (mw_max_events (dc_multi_window config)))"

definition mark_incomplete :: "file_event \<Rightarrow> behavior_scorer \<Rightarrow> behavior_scorer" where
  "mark_incomplete event s =
     s\<lparr>bs_incomplete_until := Some (sat_add (fe_timestamp_ms event) (window_ms (bs_config s)))\<rparr>"

definition retain_entries :: "u64 \<Rightarrow> (pid, window_entry list) hmap \<Rightarrow> (pid, window_entry list) hmap" where
  "retain_entries horizon ws =
     filter (\<lambda>(_, w). w \<noteq> []) (map (\<lambda>(k, w). (k, filter (\<lambda>e. horizon \<le> we_timestamp_ms e) w)) ws)"

definition expire :: "file_event \<Rightarrow> behavior_scorer \<Rightarrow> behavior_scorer" where
  "expire event s =
     (let horizon = sat_sub (fe_timestamp_ms event) (window_ms (bs_config s));
          ws = retain_entries horizon (bs_windows s)
      in s\<lparr>bs_windows := ws,
           bs_last_emit := hm_retain (\<lambda>k _. map_of ws k \<noteq> None) (bs_last_emit s),
           bs_process_identities := hm_retain (\<lambda>k _. map_of ws k \<noteq> None) (bs_process_identities s)\<rparr>)"

definition window_rank :: "pid \<times> window_entry list \<Rightarrow> u64 \<times> pid" where
  "window_rank = (\<lambda>(k, w). ((if w = [] then 0 else we_timestamp_ms (last w)), k))"

definition drop_group :: "pid \<Rightarrow> behavior_scorer \<Rightarrow> behavior_scorer" where
  "drop_group k s =
     s\<lparr>bs_windows := hm_del k (bs_windows s), bs_last_emit := hm_del k (bs_last_emit s),
       bs_process_identities := hm_del k (bs_process_identities s)\<rparr>"

definition make_room :: "file_event \<Rightarrow> behavior_scorer \<Rightarrow> behavior_scorer" where
  "make_room event s =
     (if map_of (bs_windows s) (fe_pid event) = None
         \<and> max_groups (bs_config s) \<le> length (bs_windows s)
      then mark_incomplete event
             (case oldest window_rank (bs_windows s) of None \<Rightarrow> s | Some k \<Rightarrow> drop_group k s)
      else s)"

definition front_rank :: "pid \<times> window_entry list \<Rightarrow> u64 \<times> pid" where
  "front_rank = (\<lambda>(k, w). (we_timestamp_ms (hd w), k))"

definition pop_oldest :: "behavior_scorer \<Rightarrow> behavior_scorer" where
  "pop_oldest s =
     (case min_by front_rank (filter (\<lambda>(_, w). w \<noteq> []) (bs_windows s)) of
        None \<Rightarrow> s
      | Some (k, w) \<Rightarrow> s\<lparr>bs_windows := hm_put k (tl w) (bs_windows s)\<rparr>)"

fun trim_entries :: "file_event \<Rightarrow> nat \<Rightarrow> nat \<Rightarrow> behavior_scorer \<Rightarrow> behavior_scorer" where
  "trim_entries event 0 limit s = s"
| "trim_entries event (Suc count) limit s =
     (if limit \<le> Suc count
      then trim_entries event count limit (mark_incomplete event (pop_oldest s))
      else s)"

definition entry_count :: "(pid, window_entry list) hmap \<Rightarrow> nat" where
  "entry_count ws = sum_list (map (\<lambda>(_, w). length w) ws)"

definition housekeeping :: "file_event \<Rightarrow> behavior_scorer \<Rightarrow> behavior_scorer" where
  "housekeeping event s =
     (let s = make_room event (expire event s)
      in trim_entries event (entry_count (bs_windows s)) (max_events (bs_config s)) s)"

definition oversized :: "file_event \<Rightarrow> detection_config \<Rightarrow> bool" where
  "oversized event config =
     (unat (mw_max_path_bytes (dc_multi_window config)) < length (fe_path event)
      \<or> (case fe_process event of None \<Rightarrow> False | Some p \<Rightarrow> 128 < length (fp_boot_id p)))"

definition identity_of :: "file_event \<Rightarrow> identity" where
  "identity_of event = map_option (\<lambda>p. (fp_start_time_ticks p, fp_boot_id p)) (fe_process event)"

definition entry_of :: "detection_config \<Rightarrow> file_event \<Rightarrow> window_entry" where
  "entry_of config event =
     \<lparr>we_timestamp_ms = fe_timestamp_ms event, we_path = fe_path event, we_action = fe_action event,
      we_encryption_signal = encryption_signal event config\<rparr>"

definition forget_other_identity :: "file_event \<Rightarrow> behavior_scorer \<Rightarrow> behavior_scorer" where
  "forget_other_identity event s =
     (let s' = (case map_of (bs_process_identities s) (fe_pid event) of
                  None \<Rightarrow> s
                | Some old \<Rightarrow>
                    if old \<noteq> identity_of event
                    then s\<lparr>bs_windows := hm_del (fe_pid event) (bs_windows s),
                           bs_last_emit := hm_del (fe_pid event) (bs_last_emit s)\<rparr>
                    else s)
      in s'\<lparr>bs_process_identities :=
              hm_put (fe_pid event) (identity_of event) (bs_process_identities s')\<rparr>)"

definition window_of :: "behavior_scorer \<Rightarrow> pid \<Rightarrow> window_entry list" where
  "window_of s k = (case map_of (bs_windows s) k of None \<Rightarrow> [] | Some w \<Rightarrow> w)"

definition push_event :: "file_event \<Rightarrow> string option \<Rightarrow> behavior_scorer \<Rightarrow> behavior_scorer" where
  "push_event event approved s =
     (let w = window_of s (fe_pid event);
          w = (if approved = None then w @ [entry_of (bs_config s) event] else w);
          horizon = sat_sub (fe_timestamp_ms event) (window_ms (bs_config s));
          w = dropWhile (\<lambda>e. we_timestamp_ms e < horizon) w
      in s\<lparr>bs_windows := hm_put (fe_pid event) w (bs_windows s)\<rparr>)"

definition truncated_at :: "u64 option \<Rightarrow> u64 \<Rightarrow> bool" where
  "truncated_at until now = (case until of None \<Rightarrow> False | Some u \<Rightarrow> now \<le> u)"

definition suppressed :: "behavior_scorer \<Rightarrow> file_event \<Rightarrow> f64 \<Rightarrow> bool" where
  "suppressed s event sc =
     (case map_of (bs_last_emit s) (fe_pid event) of
        None \<Rightarrow> False
      | Some (last_ts, last_score) \<Rightarrow>
          sat_sub (fe_timestamp_ms event) last_ts < window_ms (bs_config s)
          \<and> f_lt sc (f_add last_score ESCALATION_DELTA))"

definition behavior_alert :: "detection_config \<Rightarrow> file_event \<Rightarrow> window_entry list \<Rightarrow> f64 \<Rightarrow> detection" where
  "behavior_alert config event w sc =
     \<lparr>d_timestamp_ms = fe_timestamp_ms event, d_rule = ''behavior.ransomware_pattern'',
      d_score = sc, d_severity = severity_of sc,
      d_summary = BehaviorSummary (dc_window_secs config) (length (distinct_paths w)) (length w) sc,
      d_pid = fe_pid event, d_paths = take 20 (sort (distinct_paths w))\<rparr>"

definition assess :: "file_event \<Rightarrow> string option \<Rightarrow> behavior_scorer \<Rightarrow> behavior_scorer \<times> evaluation" where
  "assess event approved s =
     (let w = window_of s (fe_pid event);
          sc = score w (bs_config s) (bs_sensor s);
          incomplete = truncated_at (bs_incomplete_until s) (fe_timestamp_ms event);
          ev = \<lparr>ev_score = sc, ev_pid = fe_pid event,
                ev_eligible = (unat (dc_min_changed_files (bs_config s)) \<le> length (distinct_paths w)
                               \<and> \<not> incomplete),
                ev_alert = None, ev_approved_change_id = approved, ev_additional_alerts = [],
                ev_evidence_truncated = incomplete\<rparr>
      in if \<not> ev_eligible ev \<or> f_lt sc (dc_detect_score (bs_config s)) then (s, ev)
         else if suppressed s event sc then (s, ev)
         else (s\<lparr>bs_last_emit := hm_put (fe_pid event) (fe_timestamp_ms event, sc) (bs_last_emit s)\<rparr>,
               ev\<lparr>ev_alert := Some (behavior_alert (bs_config s) event w sc)\<rparr>))"

definition evaluate_with_approval ::
  "file_event \<Rightarrow> string option \<Rightarrow> behavior_scorer \<Rightarrow> behavior_scorer \<times> evaluation" where
  "evaluate_with_approval event approved s =
     (let s = housekeeping event s in
      if oversized event (bs_config s)
      then (s, \<lparr>ev_score = Fin 0, ev_pid = fe_pid event, ev_eligible = False, ev_alert = None,
                ev_approved_change_id = approved, ev_additional_alerts = [],
                ev_evidence_truncated = True\<rparr>)
      else assess event approved (push_event event approved (forget_other_identity event s)))"

definition scorer_evaluate :: "file_event \<Rightarrow> behavior_scorer \<Rightarrow> behavior_scorer \<times> evaluation" where
  "scorer_evaluate event s = evaluate_with_approval event None s"

definition scorer_observe :: "file_event \<Rightarrow> behavior_scorer \<Rightarrow> behavior_scorer \<times> detection option" where
  "scorer_observe event s = (case scorer_evaluate event s of (s', ev) \<Rightarrow> (s', ev_alert ev))"

section \<open>Specification: what the sensor can contribute, the invariant, a run\<close>

definition signal_weight :: "sensor_kind \<Rightarrow> nat" where
  "signal_weight sensor = (case sensor of Notify \<Rightarrow> 35 | Fanotify \<Rightarrow> 60)"

definition churn_weight :: "sensor_kind \<Rightarrow> nat" where
  "churn_weight sensor = (case sensor of Notify \<Rightarrow> 25 | Fanotify \<Rightarrow> 0)"

definition scorer_inv :: "behavior_scorer \<Rightarrow> bool" where
  "scorer_inv s \<longleftrightarrow>
     hm_wf (bs_windows s) \<and> hm_wf (bs_last_emit s) \<and> hm_wf (bs_process_identities s)
     \<and> length (bs_windows s) \<le> max_groups (bs_config s)
     \<and> entry_count (bs_windows s) \<le> max_events (bs_config s)
     \<and> dom (map_of (bs_last_emit s)) \<subseteq> dom (map_of (bs_windows s))
     \<and> dom (map_of (bs_process_identities s)) \<subseteq> dom (map_of (bs_windows s))"

definition run_scorer :: "(file_event \<times> string option) list \<Rightarrow> behavior_scorer \<Rightarrow> behavior_scorer" where
  "run_scorer es s = fold (\<lambda>(e, a) s. fst (evaluate_with_approval e a s)) es s"

text \<open>
  The evidence that a history of events contains about a process: its own events since its last
  change of identity, without the approved ones, from the horizon on.
\<close>

definition own_events ::
  "(file_event \<times> string option) list \<Rightarrow> pid \<Rightarrow> (file_event \<times> string option) list" where
  "own_events hist k = filter (\<lambda>(e, _). fe_pid e = k) hist"

definition evidence_spec ::
  "detection_config \<Rightarrow> (file_event \<times> string option) list \<Rightarrow> pid \<Rightarrow> u64 \<Rightarrow> window_entry list" where
  "evidence_spec config hist k horizon =
     (let own = own_events hist k;
          same = takeWhile (\<lambda>(e, _). identity_of e = identity_of (fst (last own))) (rev own)
      in filter (\<lambda>w. horizon \<le> we_timestamp_ms w)
           (map (\<lambda>(e, _). entry_of config e) (filter (\<lambda>(_, a). a = None) (rev same))))"

text \<open>
  Every kept entry lies within the horizon; and the relation between a state of the scorer and
  the history it has seen while no limit has dropped anything.
\<close>

definition all_fresh :: "u64 \<Rightarrow> (pid, window_entry list) hmap \<Rightarrow> bool" where
  "all_fresh h ws \<longleftrightarrow> (\<forall>(k, w)\<in>set ws. \<forall>e\<in>set w. h \<le> we_timestamp_ms e)"

definition refines :: "detection_config \<Rightarrow> sensor_kind \<Rightarrow> (file_event \<times> string option) list \<Rightarrow> u64 \<Rightarrow> behavior_scorer \<Rightarrow> bool" where
  "refines config sensor hist h s \<longleftrightarrow>
     scorer_inv s \<and> bs_config s = config \<and> bs_sensor s = sensor \<and> bs_incomplete_until s = None
     \<and> (\<forall>k. window_of s k = evidence_spec config hist k h)
     \<and> (\<forall>k. window_of s k \<noteq> [] \<longrightarrow> own_events hist k \<noteq> []
           \<and> map_of (bs_process_identities s) k = Some (identity_of (fst (last (own_events hist k)))))
     \<and> dom (map_of (bs_windows s)) \<subseteq> fe_pid ` fst ` set hist
     \<and> entry_count (bs_windows s) \<le> length hist"

fun last_horizon :: "detection_config \<Rightarrow> (file_event \<times> string option) list \<Rightarrow> u64" where
  "last_horizon config hist =
     (if hist = [] then 0 else sat_sub (fe_timestamp_ms (fst (last hist))) (window_ms config))"

section \<open>The score stays within its range\<close>

lemma length_distinct_paths: "length (distinct_paths w) \<le> length w"
  by (simp add: distinct_paths_def) (metis length_map length_remdups_leq)

lemma high_entropy_subset: "set (high_entropy_paths w) \<subseteq> set (distinct_paths w)"
  by (auto simp: high_entropy_paths_def distinct_paths_def)

lemma length_high_entropy: "length (high_entropy_paths w) \<le> length (distinct_paths w)"
proof -
  have "card (set (high_entropy_paths w)) \<le> card (set (distinct_paths w))"
    by (rule card_mono) (simp_all add: high_entropy_subset)
  then show ?thesis
    by (simp add: high_entropy_paths_def distinct_paths_def length_remdups_card_conv)
qed

lemma distinct_paths_Nil: "distinct_paths w = [] \<longleftrightarrow> w = []"
  by (simp add: distinct_paths_def)

lemma mass_score_in:
  assumes "n < 2 ^ 64"
  shows "f_in 0 40 (mass_score n threshold)"
proof -
  have "f_le (Fin 0) (f_div (f64_of_nat n) (f64_of_nat (unat (max threshold 1))))"
  proof (rule f_div_nat_nonneg [OF assms])
    show "unat (max threshold 1) < 2 ^ 64"
      using unsigned_less [of "max threshold 1"] by simp
    show "0 < unat (max threshold 1)"
      by (auto simp: max_def word_le_nat_alt unat_gt_0)
  qed
  then have "f_in 0 1 (f_min (f_div (f64_of_nat n) (f64_of_nat (unat (max threshold 1)))) (Fin 1))"
    by (intro f_in_min) simp_all
  then show ?thesis using f_in_scale [where n = 40] by (simp add: mass_score_def)
qed

lemma ratio_in:
  assumes "a \<le> b" "0 < b" "b < 2 ^ 64" "n \<le> 2 ^ 53"
  shows "f_in 0 (of_nat n) (f_mul (f_div (f64_of_nat a) (f64_of_nat b)) (Fin (of_nat n)))"
  using f_in_scale [OF f_div_nat_ratio] assms by simp

lemma entropy_weight_eq: "entropy_weight sensor = Fin (of_nat (signal_weight sensor))"
  by (cases sensor) (simp_all add: entropy_weight_def signal_weight_def)

lemma enc_score_in:
  assumes "length w < 2 ^ 64"
  shows "f_in 0 (of_nat (signal_weight sensor)) (enc_score w sensor)"
proof (cases "distinct_paths w = []")
  case True
  then show ?thesis by (simp add: enc_score_def)
next
  case False
  have "f_in 0 (of_nat (signal_weight sensor))
    (f_mul (f_div (f64_of_nat (length (high_entropy_paths w))) (f64_of_nat (length (distinct_paths w))))
       (Fin (of_nat (signal_weight sensor))))"
  proof (rule ratio_in)
    show "length (high_entropy_paths w) \<le> length (distinct_paths w)" by (rule length_high_entropy)
    show "0 < length (distinct_paths w)" using False by simp
    show "length (distinct_paths w) < 2 ^ 64" using length_distinct_paths [of w] assms by simp
    show "signal_weight sensor \<le> 2 ^ 53" by (cases sensor) (simp_all add: signal_weight_def)
  qed
  with False show ?thesis by (simp add: enc_score_def entropy_weight_eq)
qed

lemma renames_deletes_le:
  "length (filter (\<lambda>e. we_action e = Rename) w) + length (filter (\<lambda>e. we_action e = Delete) w) \<le> length w"
  by (induction w) auto

lemma churn_score_in:
  assumes "length w < 2 ^ 64"
  shows "f_in 0 (of_nat (churn_weight sensor)) (churn_score w sensor)"
proof (cases "w = [] \<or> sensor = Fanotify")
  case True
  then show ?thesis by (auto simp: churn_score_def Let_def)
next
  case False
  let ?n = "length (filter (\<lambda>e. we_action e = Rename) w) + length (filter (\<lambda>e. we_action e = Delete) w)"
  have "f_le (Fin 0) (f_div (f64_of_nat ?n) (f64_of_nat (length w)))"
    using assms False renames_deletes_le [of w] by (intro f_div_nat_nonneg) auto
  then have "f_in 0 1 (f_min (f_div (f64_of_nat ?n) (f64_of_nat (length w))) (Fin 1))"
    by (intro f_in_min) simp_all
  from f_in_scale [OF this, of 25] False show ?thesis
    by (cases sensor) (simp_all add: churn_weight_def churn_score_def Let_def)
qed

lemma f_min_100: "f_in 0 hi x \<Longrightarrow> hi \<le> 100 \<Longrightarrow> f_min x (Fin 100) = x"
  by (auto simp: f_in_iff f_min_def)

lemma weights_sum: "40 + signal_weight sensor + churn_weight sensor = 100"
  by (cases sensor) (simp_all add: signal_weight_def churn_weight_def)

lemma score_in:
  assumes "length w < 2 ^ 64"
  shows "f_in 0 100 (score w config sensor)"
proof -
  let ?m = "mass_score (length (distinct_paths w)) (dc_mass_change_threshold config)"
  have mass: "f_in 0 (of_nat 40) ?m"
    using mass_score_in length_distinct_paths [of w] assms by simp
  have "f_in 0 (of_nat (40 + signal_weight sensor + churn_weight sensor))
      (f_add (f_add ?m (enc_score w sensor)) (churn_score w sensor))"
    using mass enc_score_in [OF assms] churn_score_in [OF assms] weights_sum [of sensor]
    by (intro f_in_add) simp_all
  then show ?thesis by (simp add: score_def weights_sum f_min_100)
qed

text \<open>Without a sign of encryption the score cannot pass what the other terms contribute.\<close>

lemma score_without_signal:
  assumes "length w < 2 ^ 64" "\<forall>e\<in>set w. \<not> we_encryption_signal e"
  shows "f_in 0 (of_nat (40 + churn_weight sensor)) (score w config sensor)"
proof -
  let ?m = "mass_score (length (distinct_paths w)) (dc_mass_change_threshold config)"
  have mass: "f_in 0 (of_nat 40) ?m"
    using mass_score_in length_distinct_paths [of w] assms by simp
  have none: "high_entropy_paths w = []"
    using assms(2) by (auto simp: high_entropy_paths_def filter_empty_conv)
  have enc: "f_in 0 (of_nat 0) (enc_score w sensor)"
  proof (cases "distinct_paths w = []")
    case False
    have "length (distinct_paths w) < 2 ^ 64" using length_distinct_paths [of w] assms by simp
    then have n: "f64_of_nat (length (distinct_paths w)) = Fin (rnd (of_nat (length (distinct_paths w))))"
      by (rule f64_of_nat_usize)
    have "1 \<le> rnd (of_nat (length (distinct_paths w)))"
      using ieee.round_ge_nat [of 1 "of_nat (length (distinct_paths w))"] False
      by (simp add: Suc_le_eq)
    then show ?thesis using False none
      by (cases sensor)
        (auto simp: enc_score_def n f64_of_nat_small [of 0, simplified] entropy_weight_def)
  qed (simp add: enc_score_def)
  have "f_in 0 (of_nat (40 + 0 + churn_weight sensor))
      (f_add (f_add ?m (enc_score w sensor)) (churn_score w sensor))"
    using mass enc churn_score_in [OF assms(1)] weights_sum [of sensor]
    by (intro f_in_add) simp_all
  moreover have "of_nat (40 + churn_weight sensor) \<le> (100::rat)"
    by (cases sensor) (simp_all add: churn_weight_def)
  ultimately show ?thesis by (simp add: score_def f_min_100)
qed

section \<open>The limits on windows and entries\<close>

lemma clamp_word_bounds:
  "lo \<le> hi \<Longrightarrow> unat lo \<le> unat (clamp lo hi x) \<and> unat (clamp lo hi x) \<le> unat hi" for x :: u64
  using clamp_bounds [of lo hi x] by (simp add: word_le_nat_alt)

lemma max_groups_pos: "0 < max_groups config" and max_groups_le: "max_groups config \<le> 16384"
  using clamp_word_bounds [of 1 16384 "mw_max_groups (dc_multi_window config)"]
  by (simp_all add: max_groups_def Suc_le_eq)

lemma max_events_pos: "0 < max_events config" and max_events_le: "max_events config \<le> 100000"
  using clamp_word_bounds [of 1 100000 "mw_max_events (dc_multi_window config)"]
  by (simp_all add: max_events_def Suc_le_eq)

interpretation windows: bounded_cache map_of hm_put hm_del length hm_wf
  "max_groups config" "oldest window_rank" "evict_for (max_groups config) window_rank" for config
  by (rule bounded_cache_evict_for) (rule max_groups_pos)

lemma retain_entries_keys: "set (map fst (retain_entries h ws)) \<subseteq> set (map fst ws)"
  by (force simp: retain_entries_def)

lemma retain_entries_wf: "hm_wf ws \<Longrightarrow> hm_wf (retain_entries h ws)"
  by (auto simp: hm_wf_def retain_entries_def distinct_map_filter comp_def case_prod_unfold)

lemma retain_entries_length: "length (retain_entries h ws) \<le> length ws"
  unfolding retain_entries_def by (metis length_filter_le length_map)

lemma entry_count_Cons [simp]: "entry_count ((k, w) # ws) = length w + entry_count ws"
  by (simp add: entry_count_def)

lemma entry_count_Nil [simp]: "entry_count [] = 0"
  by (simp add: entry_count_def)

lemma retain_entries_count: "entry_count (retain_entries h ws) \<le> entry_count ws"
proof (induction ws)
  case (Cons p ws)
  obtain k w where p: "p = (k, w)" by fastforce
  show ?case using Cons.IH unfolding p retain_entries_def
    by (auto simp: retain_entries_def [symmetric] intro!: add_mono)
qed (simp add: retain_entries_def)

lemma map_of_retain_entries:
  "hm_wf ws \<Longrightarrow> map_of (retain_entries h ws) k =
     (case map_of ws k of None \<Rightarrow> None
      | Some w \<Rightarrow> if filter (\<lambda>e. h \<le> we_timestamp_ms e) w = [] then None
                  else Some (filter (\<lambda>e. h \<le> we_timestamp_ms e) w))"
proof (induction ws)
  case (Cons p ws)
  obtain k' w where p: "p = (k', w)" by fastforce
  have none: "map_of (retain_entries h ws) k' = None"
    using Cons.prems retain_entries_keys [of h ws] by (auto simp: p hm_wf_def map_of_eq_None_iff)
  have "hm_wf ws" using Cons.prems by (simp add: hm_wf_def p)
  with Cons.IH none show ?case
    by (auto simp: p retain_entries_def split: option.splits)
qed (simp add: retain_entries_def)

lemma entry_count_put:
  "map_of ws k = Some w \<Longrightarrow> entry_count (hm_put k w' ws) + length w = entry_count ws + length w'"
  by (induction ws) (auto simp: hm_put_def split: if_splits)

lemma entry_count_put_new: "map_of ws k = None \<Longrightarrow> entry_count (hm_put k w ws) = entry_count ws + length w"
  by (induction ws) (auto simp: hm_put_def split: if_splits)

lemma entry_count_del: "entry_count (hm_del k ws) \<le> entry_count ws"
  by (induction ws) (auto simp: hm_del_def)

lemma map_of_filter_some:
  "hm_wf ws \<Longrightarrow> (k, w) \<in> set (filter P ws) \<Longrightarrow> map_of ws k = Some w"
  by (simp add: hm_mem_get)

lemma entry_count_zero: "entry_count ws = 0 \<longleftrightarrow> filter (\<lambda>(_, w). w \<noteq> []) ws = []"
  by (induction ws) auto

lemma pop_oldest_windows:
  assumes "hm_wf (bs_windows s)" "0 < entry_count (bs_windows s)"
  obtains k w where "map_of (bs_windows s) k = Some w" "w \<noteq> []"
    "bs_windows (pop_oldest s) = hm_put k (tl w) (bs_windows s)"
proof -
  let ?f = "filter (\<lambda>(_, w). w \<noteq> []) (bs_windows s)"
  from assms(2) have "?f \<noteq> []" using entry_count_zero [of "bs_windows s"] by simp
  then obtain k w where kw: "min_by front_rank ?f = Some (k, w)"
    by (cases "min_by front_rank ?f") auto
  then have "(k, w) \<in> set ?f" using min_by_Some [OF kw] by simp
  then have "map_of (bs_windows s) k = Some w" "w \<noteq> []"
    using assms(1) by (auto simp: hm_mem_get)
  then show ?thesis using that kw by (simp add: pop_oldest_def)
qed

lemma pop_oldest_frame [simp]:
  "bs_config (pop_oldest s) = bs_config s" "bs_sensor (pop_oldest s) = bs_sensor s"
  "bs_last_emit (pop_oldest s) = bs_last_emit s"
  "bs_process_identities (pop_oldest s) = bs_process_identities s"
  by (simp_all add: pop_oldest_def split: option.splits)

lemma mark_incomplete_frame [simp]:
  "bs_config (mark_incomplete e s) = bs_config s" "bs_sensor (mark_incomplete e s) = bs_sensor s"
  "bs_windows (mark_incomplete e s) = bs_windows s"
  "bs_last_emit (mark_incomplete e s) = bs_last_emit s"
  "bs_process_identities (mark_incomplete e s) = bs_process_identities s"
  by (simp_all add: mark_incomplete_def)

lemma pop_oldest_keeps:
  assumes "hm_wf (bs_windows s)"
  shows "hm_wf (bs_windows (pop_oldest s))
    \<and> dom (map_of (bs_windows (pop_oldest s))) = dom (map_of (bs_windows s))
    \<and> length (bs_windows (pop_oldest s)) = length (bs_windows s)
    \<and> entry_count (bs_windows (pop_oldest s)) = entry_count (bs_windows s) - 1"
proof (cases "0 < entry_count (bs_windows s)")
  case True
  then obtain k w where kw: "map_of (bs_windows s) k = Some w" "w \<noteq> []"
    "bs_windows (pop_oldest s) = hm_put k (tl w) (bs_windows s)"
    using pop_oldest_windows [OF assms] by blast
  have "entry_count (hm_put k (tl w) (bs_windows s)) + length w = entry_count (bs_windows s) + length (tl w)"
    using kw(1) by (rule entry_count_put)
  moreover have "length w = Suc (length (tl w))" using kw(2) by (cases w) auto
  ultimately have "entry_count (hm_put k (tl w) (bs_windows s)) = entry_count (bs_windows s) - 1"
    by linarith
  moreover have "dom (map_of (hm_put k (tl w) (bs_windows s))) = dom (map_of (bs_windows s))"
    using kw(1) by (simp add: hm_get_put insert_absorb domI)
  ultimately show ?thesis using kw(1) assms unfolding kw(3) by (simp add: hm_wf_put hm_len_put)
next
  case False
  then have "filter (\<lambda>(_, w). w \<noteq> []) (bs_windows s) = []" using entry_count_zero by blast
  then have "pop_oldest s = s" by (simp add: pop_oldest_def)
  then show ?thesis using False assms by simp
qed

lemma trim_entries_keeps:
  assumes "hm_wf (bs_windows s)" "count = entry_count (bs_windows s)" "0 < limit"
  shows "let s' = trim_entries e count limit s in
     hm_wf (bs_windows s') \<and> dom (map_of (bs_windows s')) = dom (map_of (bs_windows s))
     \<and> length (bs_windows s') = length (bs_windows s)
     \<and> entry_count (bs_windows s') < limit \<and> bs_config s' = bs_config s \<and> bs_sensor s' = bs_sensor s
     \<and> bs_last_emit s' = bs_last_emit s \<and> bs_process_identities s' = bs_process_identities s"
  using assms
proof (induction count arbitrary: s)
  case 0
  then show ?case by simp
next
  case (Suc count)
  show ?case
  proof (cases "limit \<le> Suc count")
    case True
    let ?p = "mark_incomplete e (pop_oldest s)"
    have p: "hm_wf (bs_windows ?p)" "dom (map_of (bs_windows ?p)) = dom (map_of (bs_windows s))"
      "length (bs_windows ?p) = length (bs_windows s)" "count = entry_count (bs_windows ?p)"
      using pop_oldest_keeps [OF Suc.prems(1)] Suc.prems(2) by auto
    have "trim_entries e (Suc count) limit s = trim_entries e count limit ?p" using True by simp
    with Suc.IH [OF p(1) p(4) Suc.prems(3)] p(2,3) show ?thesis by (simp add: Let_def)
  next
    case False
    then have "trim_entries e (Suc count) limit s = s" by simp
    moreover have "entry_count (bs_windows s) < limit" using False Suc.prems(2) by simp
    ultimately show ?thesis using Suc.prems(1) by (simp add: Let_def)
  qed
qed


lemma expire_frame [simp]:
  "bs_config (expire e s) = bs_config s" "bs_sensor (expire e s) = bs_sensor s"
  "bs_incomplete_until (expire e s) = bs_incomplete_until s"
  by (simp_all add: expire_def Let_def)

lemma dom_hm_retain:
  "hm_wf m \<Longrightarrow> dom (map_of (hm_retain (\<lambda>k _. map_of ws k \<noteq> None) m)) \<subseteq> dom (map_of ws)"
  by (auto simp: hm_get_retain dom_def split: option.splits if_splits)

lemma expire_inv:
  assumes "scorer_inv s"
  shows "scorer_inv (expire e s)"
proof -
  let ?h = "sat_sub (fe_timestamp_ms e) (window_ms (bs_config s))"
  let ?ws = "retain_entries ?h (bs_windows s)"
  have "length ?ws \<le> max_groups (bs_config s)" "entry_count ?ws \<le> max_events (bs_config s)"
    using assms retain_entries_length [of ?h "bs_windows s"] retain_entries_count [of ?h "bs_windows s"]
    by (simp_all add: scorer_inv_def)
  with assms dom_hm_retain [of "bs_last_emit s" ?ws] dom_hm_retain [of "bs_process_identities s" ?ws]
  show ?thesis
    by (simp add: scorer_inv_def expire_def Let_def hm_wf_retain retain_entries_wf)
qed

lemma expire_dom:
  "hm_wf (bs_windows s) \<Longrightarrow> dom (map_of (bs_windows (expire e s))) \<subseteq> dom (map_of (bs_windows s))"
  by (auto simp: expire_def Let_def map_of_retain_entries dom_def split: option.splits if_splits)

lemma expire_count: "entry_count (bs_windows (expire e s)) \<le> entry_count (bs_windows s)"
  by (simp add: expire_def Let_def retain_entries_count)

lemma drop_group_inv: "scorer_inv s \<Longrightarrow> scorer_inv (drop_group k s)"
  using entry_count_del [of k "bs_windows s"]
  by (auto simp: scorer_inv_def drop_group_def hm_wf_del hm_get_del hm_len_del)

lemma mark_incomplete_inv [simp]: "scorer_inv (mark_incomplete e s) = scorer_inv s"
  by (simp add: scorer_inv_def)

text \<open>Making room is the eviction of the shared cache, followed by the mark.\<close>

lemma make_room_windows:
  "bs_windows (make_room e s) = evict_for (max_groups (bs_config s)) window_rank (fe_pid e) (bs_windows s)"
  by (auto simp: make_room_def evict_for_def oldest_def drop_group_def split: option.splits)

lemma make_room_frame [simp]:
  "bs_config (make_room e s) = bs_config s" "bs_sensor (make_room e s) = bs_sensor s"
  by (simp_all add: make_room_def drop_group_def split: option.splits)

lemma make_room_inv: "scorer_inv s \<Longrightarrow> scorer_inv (make_room e s)"
  by (auto simp: make_room_def drop_group_inv split: option.splits)

lemma housekeeping_frame [simp]:
  "scorer_inv s \<Longrightarrow> bs_config (housekeeping e s) = bs_config s"
  "scorer_inv s \<Longrightarrow> bs_sensor (housekeeping e s) = bs_sensor s"
  using make_room_inv [OF expire_inv [of s e], of e]
    trim_entries_keeps [OF _ refl max_events_pos, of "make_room e (expire e s)" e "bs_config s"]
  by (simp_all add: housekeeping_def Let_def scorer_inv_def)

lemma housekeeping_room:
  assumes "scorer_inv s"
  shows "scorer_inv (housekeeping e s)
    \<and> entry_count (bs_windows (housekeeping e s)) < max_events (bs_config s)
    \<and> (map_of (bs_windows (housekeeping e s)) (fe_pid e) \<noteq> None
        \<or> length (bs_windows (housekeeping e s)) < max_groups (bs_config s))"
proof -
  let ?x = "expire e s" and ?m = "make_room e (expire e s)"
  have x: "scorer_inv ?x" using assms by (rule expire_inv)
  have m: "scorer_inv ?m" using x by (rule make_room_inv)
  have wf: "hm_wf (bs_windows ?x)" "length (bs_windows ?x) \<le> max_groups (bs_config s)"
    using x by (simp_all add: scorer_inv_def)
  have room: "map_of (bs_windows ?m) (fe_pid e) \<noteq> None \<or> length (bs_windows ?m) < max_groups (bs_config s)"
    using windows.insert_bounded [OF wf, of "fe_pid e" "[]"]
    by (auto simp: make_room_windows hm_len_put split: if_splits)
  have t: "hm_wf (bs_windows ?m)" using m by (simp add: scorer_inv_def)
  from trim_entries_keeps [OF t refl max_events_pos, of e "bs_config s"] m room show ?thesis
    by (auto simp: housekeeping_def Let_def scorer_inv_def)
qed

lemma forget_other_identity_frame [simp]:
  "bs_config (forget_other_identity e s) = bs_config s"
  "bs_sensor (forget_other_identity e s) = bs_sensor s"
  "bs_incomplete_until (forget_other_identity e s) = bs_incomplete_until s"
  by (simp_all add: forget_other_identity_def Let_def split: option.splits)

lemma push_event_frame [simp]:
  "bs_config (push_event e a s) = bs_config s" "bs_sensor (push_event e a s) = bs_sensor s"
  "bs_process_identities (push_event e a s) = bs_process_identities s"
  "bs_incomplete_until (push_event e a s) = bs_incomplete_until s"
  "bs_last_emit (push_event e a s) = bs_last_emit s"
  by (simp_all add: push_event_def Let_def)


text \<open>
  Between forgetting another identity and pushing the event, an identity may be recorded for a
  process without a window; pushing restores the inclusion.
\<close>

lemma push_event_windows:
  obtains w where "bs_windows (push_event e a s) = hm_put (fe_pid e) w (bs_windows s)"
    "length w \<le> Suc (length (window_of s (fe_pid e)))"
proof -
  let ?w = "dropWhile (\<lambda>x. we_timestamp_ms x < sat_sub (fe_timestamp_ms e) (window_ms (bs_config s)))
    (if a = None then window_of s (fe_pid e) @ [entry_of (bs_config s) e] else window_of s (fe_pid e))"
  have "length ?w \<le> Suc (length (window_of s (fe_pid e)))"
    by (rule order_trans [OF length_dropWhile_le]) simp
  then show ?thesis using that [of ?w] by (simp add: push_event_def Let_def)
qed

lemma push_event_count: "entry_count (bs_windows (push_event e a s)) \<le> Suc (entry_count (bs_windows s))"
proof -
  obtain w where w: "bs_windows (push_event e a s) = hm_put (fe_pid e) w (bs_windows s)"
    "length w \<le> Suc (length (window_of s (fe_pid e)))" by (rule push_event_windows)
  show ?thesis
  proof (cases "map_of (bs_windows s) (fe_pid e)")
    case None
    then show ?thesis using w entry_count_put_new [OF None, of w] by (simp add: window_of_def)
  next
    case (Some x)
    then show ?thesis using w entry_count_put [OF Some, of w] by (simp add: window_of_def)
  qed
qed

lemma forget_windows:
  "bs_windows (forget_other_identity e s) =
     (case map_of (bs_process_identities s) (fe_pid e) of
        None \<Rightarrow> bs_windows s
      | Some old \<Rightarrow> if old \<noteq> identity_of e then hm_del (fe_pid e) (bs_windows s) else bs_windows s)"
  by (simp add: forget_other_identity_def Let_def split: option.splits)

lemma forget_cases:
  "bs_windows (forget_other_identity e s) = bs_windows s
   \<or> bs_windows (forget_other_identity e s) = hm_del (fe_pid e) (bs_windows s)"
  by (simp add: forget_windows split: option.splits)

lemma forget_count: "entry_count (bs_windows (forget_other_identity e s)) \<le> entry_count (bs_windows s)"
  using forget_cases [of e s] entry_count_del [of "fe_pid e" "bs_windows s"] by auto

lemma push_forget_inv:
  assumes "scorer_inv s" "entry_count (bs_windows s) < max_events (bs_config s)"
    "map_of (bs_windows s) (fe_pid e) \<noteq> None \<or> length (bs_windows s) < max_groups (bs_config s)"
  shows "scorer_inv (push_event e a (forget_other_identity e s))"
proof -
  let ?f = "forget_other_identity e s"
  obtain w where win: "bs_windows (push_event e a ?f) = hm_put (fe_pid e) w (bs_windows ?f)"
    by (rule push_event_windows)
  note wins = forget_cases [of e s]
  have emit: "bs_last_emit ?f = bs_last_emit s \<or> bs_last_emit ?f = hm_del (fe_pid e) (bs_last_emit s)"
    by (auto simp: forget_other_identity_def Let_def split: option.splits)
  have ids: "bs_process_identities ?f = hm_put (fe_pid e) (identity_of e) (bs_process_identities s)"
    by (auto simp: forget_other_identity_def Let_def split: option.splits)
  have wf: "hm_wf (bs_windows ?f)" using assms(1) wins by (auto simp: scorer_inv_def hm_wf_del)
  have c: "entry_count (hm_put (fe_pid e) w (bs_windows ?f)) \<le> max_events (bs_config s)"
    using push_event_count [of e a ?f] forget_count [of e s] assms(2) unfolding win by linarith
  have l: "length (hm_put (fe_pid e) w (bs_windows ?f)) \<le> max_groups (bs_config s)"
    using assms wins max_groups_pos [of "bs_config s"]
    by (auto simp: hm_len_put hm_get_del hm_len_del scorer_inv_def split: if_splits)
  have sub: "dom (map_of (bs_windows s)) \<subseteq> insert (fe_pid e) (dom (map_of (bs_windows ?f)))"
    using wins by (auto simp: hm_get_del)
  have emit_wf: "hm_wf (bs_last_emit ?f)" "dom (map_of (bs_last_emit ?f)) \<subseteq> dom (map_of (bs_last_emit s))"
    using emit assms(1) by (auto simp: scorer_inv_def hm_wf_del hm_get_del split: if_splits)
  have doms: "dom (map_of (bs_last_emit s)) \<subseteq> dom (map_of (bs_windows s))"
    "dom (map_of (bs_process_identities s)) \<subseteq> dom (map_of (bs_windows s))"
    "hm_wf (bs_process_identities s)"
    using assms(1) by (simp_all add: scorer_inv_def)
  have "dom (map_of (bs_last_emit ?f)) \<subseteq> insert (fe_pid e) (dom (map_of (bs_windows ?f)))"
    using emit_wf(2) doms(1) sub by blast
  moreover have "insert (fe_pid e) (dom (map_of (bs_process_identities s)))
      \<subseteq> insert (fe_pid e) (dom (map_of (bs_windows ?f)))"
    using doms(2) sub by blast
  ultimately show ?thesis
    unfolding scorer_inv_def win
    using wf c l emit_wf(1) doms(3) by (simp add: ids hm_wf_put hm_get_put)
qed

lemma assess_inv: "scorer_inv s \<Longrightarrow> map_of (bs_windows s) (fe_pid e) \<noteq> None \<Longrightarrow> scorer_inv (fst (assess e a s))"
  by (auto simp: assess_def Let_def scorer_inv_def hm_wf_put hm_get_put)

lemma push_event_present: "map_of (bs_windows (push_event e a s)) (fe_pid e) \<noteq> None"
  by (simp add: push_event_def Let_def hm_get_put)

lemma evaluate_inv:
  assumes "scorer_inv s"
  shows "scorer_inv (fst (evaluate_with_approval e a s))"
proof -
  note h = housekeeping_room [OF assms, of e]
  show ?thesis
    using h assms push_forget_inv [of "housekeeping e s" e a] push_event_present
    by (auto simp: evaluate_with_approval_def Let_def intro: assess_inv)
qed

lemma scorer_inv_init: "scorer_inv (scorer_with_sensor config sensor)"
  by (simp add: scorer_inv_def scorer_with_sensor_def)

interpretation scorer_run: invariant_system "scorer_with_sensor config sensor"
  "\<lambda>(e, a) s. fst (evaluate_with_approval e a s)" scorer_inv for config sensor
  by unfold_locales (auto simp: scorer_inv_init evaluate_inv)

lemma assess_frame [simp]:
  "bs_config (fst (assess e a s)) = bs_config s" "bs_sensor (fst (assess e a s)) = bs_sensor s"
  "bs_windows (fst (assess e a s)) = bs_windows s"
  "bs_process_identities (fst (assess e a s)) = bs_process_identities s"
  "bs_incomplete_until (fst (assess e a s)) = bs_incomplete_until s"
  by (simp_all add: assess_def Let_def)

lemma evaluate_frame:
  "scorer_inv s \<Longrightarrow> bs_config (fst (evaluate_with_approval e a s)) = bs_config s"
  "scorer_inv s \<Longrightarrow> bs_sensor (fst (evaluate_with_approval e a s)) = bs_sensor s"
  by (simp_all add: evaluate_with_approval_def Let_def)

lemma run_config:
  "scorer_inv s \<Longrightarrow> bs_config (fold (\<lambda>(e, a) s. fst (evaluate_with_approval e a s)) es s) = bs_config s"
  by (induction es arbitrary: s) (auto simp: evaluate_inv evaluate_frame)

text \<open>
  After any sequence of events the scorer holds at most \<open>max_groups\<close> windows and
  \<open>max_events\<close> entries (the configured limits, clamped to 16384 and 100000), and its two other
  maps have no more keys than there are windows.
\<close>

theorem scorer_memory_bounded:
  "let s = run_scorer es (scorer_with_sensor config sensor) in
     length (bs_windows s) \<le> max_groups config \<and> max_groups config \<le> 16384
     \<and> entry_count (bs_windows s) \<le> max_events config \<and> max_events config \<le> 100000
     \<and> length (bs_last_emit s) \<le> length (bs_windows s)
     \<and> length (bs_process_identities s) \<le> length (bs_windows s)"
proof -
  let ?s = "run_scorer es (scorer_with_sensor config sensor)"
  have inv: "scorer_inv ?s" unfolding run_scorer_def by (rule scorer_run.invar_run)
  have cfg: "bs_config ?s = config"
    using run_config [OF scorer_inv_init] by (simp add: run_scorer_def scorer_with_sensor_def)
  have keys: "length m \<le> length (bs_windows ?s)"
    if "hm_wf m" "dom (map_of m) \<subseteq> dom (map_of (bs_windows ?s))" for m :: "(pid, 'x) hmap"
  proof -
    have "card (set (map fst m)) \<le> card (set (map fst (bs_windows ?s)))"
      using that(2) by (intro card_mono) (auto simp: dom_map_of_conv_image_fst)
    moreover have "card (set (map fst (bs_windows ?s))) \<le> length (bs_windows ?s)"
      by (metis card_length length_map)
    ultimately show ?thesis using that(1) by (metis distinct_card hm_wf_def le_trans length_map)
  qed
  show ?thesis
    using inv cfg keys [of "bs_last_emit ?s"] keys [of "bs_process_identities ?s"]
      max_groups_le [of config] max_events_le [of config]
    by (auto simp: Let_def scorer_inv_def)
qed

section \<open>Freshness, identity and suppression\<close>

lemma sat_sub_le: "sat_sub a b \<le> a" for a b :: "'a::len word"
  by (simp add: word_le_nat_alt unat_sat_sub)

lemma all_fresh_Nil [simp]: "all_fresh h []"
  by (simp add: all_fresh_def)

lemma all_fresh_retain: "all_fresh h (retain_entries h ws)"
  by (auto simp: all_fresh_def retain_entries_def)

lemma all_fresh_del: "all_fresh h ws \<Longrightarrow> all_fresh h (hm_del k ws)"
  using hm_set_del by (fastforce simp: all_fresh_def)

lemma all_fresh_put: "all_fresh h ws \<Longrightarrow> (\<forall>e\<in>set w. h \<le> we_timestamp_ms e) \<Longrightarrow> all_fresh h (hm_put k w ws)"
  using hm_set_put by (fastforce simp: all_fresh_def)

lemma all_fresh_pop: "all_fresh h (bs_windows s) \<Longrightarrow> all_fresh h (bs_windows (pop_oldest s))"
proof (cases "min_by front_rank (filter (\<lambda>(_, w). w \<noteq> []) (bs_windows s))")
  case (Some p)
  assume f: "all_fresh h (bs_windows s)"
  obtain k w where p: "p = (k, w)" by fastforce
  have "(k, w) \<in> set (bs_windows s)" using min_by_Some [OF Some] p by auto
  then have "\<forall>e\<in>set (tl w). h \<le> we_timestamp_ms e"
    using f by (cases w) (fastforce simp: all_fresh_def)+
  with f Some p show ?thesis by (simp add: pop_oldest_def all_fresh_put)
qed (simp add: pop_oldest_def)

lemma all_fresh_trim:
  "all_fresh h (bs_windows s) \<Longrightarrow> all_fresh h (bs_windows (trim_entries e n limit s))"
  by (induction n arbitrary: s) (auto simp: all_fresh_pop)

lemma window_of_fresh: "all_fresh h (bs_windows s) \<Longrightarrow> x \<in> set (window_of s k) \<Longrightarrow> h \<le> we_timestamp_ms x"
  by (cases "map_of (bs_windows s) k") (fastforce simp: all_fresh_def window_of_def dest: map_of_SomeD)+

lemma housekeeping_fresh:
  "all_fresh (sat_sub (fe_timestamp_ms e) (window_ms (bs_config s))) (bs_windows (housekeeping e s))"
  by (auto simp: housekeeping_def Let_def make_room_windows evict_for_def expire_def
      intro!: all_fresh_trim all_fresh_del all_fresh_retain split: option.splits)

lemma forget_fresh: "all_fresh h (bs_windows s) \<Longrightarrow> all_fresh h (bs_windows (forget_other_identity e s))"
  by (simp add: forget_windows all_fresh_del split: option.splits)

lemma push_window_fresh:
  assumes "all_fresh (sat_sub (fe_timestamp_ms e) (window_ms (bs_config s))) (bs_windows s)"
  shows "bs_windows (push_event e a s) =
    hm_put (fe_pid e) (window_of s (fe_pid e) @ (if a = None then [entry_of (bs_config s) e] else []))
      (bs_windows s)"
proof -
  let ?h = "sat_sub (fe_timestamp_ms e) (window_ms (bs_config s))"
  let ?w = "window_of s (fe_pid e) @ (if a = None then [entry_of (bs_config s) e] else [])"
  have "\<forall>x\<in>set ?w. \<not> we_timestamp_ms x < ?h"
    using window_of_fresh [OF assms] by (auto simp: entry_of_def sat_sub_le not_less)
  then have "dropWhile (\<lambda>x. we_timestamp_ms x < ?h) ?w = ?w"
    by (cases ?w) auto
  then show ?thesis by (auto simp: push_event_def Let_def)
qed

lemma evaluate_fresh:
  assumes "scorer_inv s"
  shows "all_fresh (sat_sub (fe_timestamp_ms e) (window_ms (bs_config s)))
    (bs_windows (fst (evaluate_with_approval e a s)))"
proof -
  let ?h = "sat_sub (fe_timestamp_ms e) (window_ms (bs_config s))"
  let ?f = "forget_other_identity e (housekeeping e s)"
  have f: "all_fresh ?h (bs_windows ?f)" by (intro forget_fresh housekeeping_fresh)
  have "\<forall>x\<in>set (window_of ?f (fe_pid e) @ (if a = None then [entry_of (bs_config s) e] else [])).
      ?h \<le> we_timestamp_ms x"
    using window_of_fresh [OF f] by (auto simp: entry_of_def sat_sub_le)
  then have "all_fresh ?h (bs_windows (push_event e a ?f))"
    using f push_window_fresh [of e ?f a] assms by (simp add: all_fresh_put)
  then show ?thesis using housekeeping_fresh [of e s] assms
    by (simp add: evaluate_with_approval_def Let_def)
qed

lemma expire_window_of:
  "hm_wf (bs_windows s) \<Longrightarrow> window_of (expire e s) k =
     filter (\<lambda>x. sat_sub (fe_timestamp_ms e) (window_ms (bs_config s)) \<le> we_timestamp_ms x) (window_of s k)"
  by (auto simp: window_of_def expire_def Let_def map_of_retain_entries split: option.splits)

lemma expire_identity:
  "hm_wf (bs_windows s) \<Longrightarrow> hm_wf (bs_process_identities s) \<Longrightarrow>
   map_of (bs_process_identities (expire e s)) k =
     (if map_of (bs_windows (expire e s)) k = None then None else map_of (bs_process_identities s) k)"
  by (auto simp: expire_def Let_def hm_get_retain split: option.splits)

lemma housekeeping_window_None:
  assumes "scorer_inv s" "map_of (bs_process_identities (housekeeping e s)) (fe_pid e) = None"
    "map_of (bs_process_identities s) (fe_pid e) \<noteq> None"
  shows "map_of (bs_windows (housekeeping e s)) (fe_pid e) = None"
proof -
  let ?x = "expire e s" and ?m = "make_room e (expire e s)"
  have x: "scorer_inv ?x" and m: "scorer_inv ?m"
    using assms(1) by (auto intro: expire_inv make_room_inv)
  have wf: "hm_wf (bs_windows ?m)" "hm_wf (bs_windows ?x)" using x m by (simp_all add: scorer_inv_def)
  note t = trim_entries_keeps [OF wf(1) refl max_events_pos, of e "bs_config s"]
  have ids: "map_of (bs_process_identities ?m) (fe_pid e) = None"
    using assms(2) t by (simp add: housekeeping_def Let_def)
  have same: "map_of (bs_windows ?m) (fe_pid e) = map_of (bs_windows ?x) (fe_pid e)"
    using windows.admit_same [OF wf(2)] by (simp add: make_room_windows)
  have "map_of (bs_windows ?x) (fe_pid e) = None"
  proof (rule ccontr)
    assume p: "map_of (bs_windows ?x) (fe_pid e) \<noteq> None"
    then have "?m = ?x" by (auto simp: make_room_def)
    with ids have "map_of (bs_process_identities ?x) (fe_pid e) = None" by simp
    with p assms(1,3) show False by (auto simp: expire_identity scorer_inv_def)
  qed
  then have "fe_pid e \<notin> dom (map_of (bs_windows ?m))" using same by (simp add: domIff)
  then have "fe_pid e \<notin> dom (map_of (bs_windows (housekeeping e s)))"
    using t by (simp add: housekeeping_def Let_def)
  then show ?thesis by (simp add: domIff)
qed

lemma trim_identities [simp]:
  "bs_process_identities (trim_entries e n l s) = bs_process_identities s"
  "bs_last_emit (trim_entries e n l s) = bs_last_emit s"
  by (induction n arbitrary: s) auto

lemma housekeeping_identity:
  "scorer_inv s \<Longrightarrow> map_of (bs_process_identities (housekeeping e s)) k = None
     \<or> map_of (bs_process_identities (housekeeping e s)) k = map_of (bs_process_identities s) k"
  by (auto simp: housekeeping_def Let_def make_room_def drop_group_def hm_get_del expire_identity
      scorer_inv_def split: option.splits)

text \<open>
  When a process id comes back with another start time or boot id, the window that the event
  is judged by holds nothing of the earlier process: it is the event alone, or empty when the
  event is an approved change.
\<close>

theorem pid_reuse_starts_fresh:
  assumes "scorer_inv s" "map_of (bs_process_identities s) (fe_pid e) = Some old"
    and "old \<noteq> identity_of e" and "\<not> oversized e (bs_config s)"
  shows "window_of (fst (evaluate_with_approval e a s)) (fe_pid e) =
           (if a = None then [entry_of (bs_config s) e] else [])"
proof -
  let ?h = "housekeeping e s"
  let ?f = "forget_other_identity e ?h"
  have "window_of ?f (fe_pid e) = []"
  proof (cases "map_of (bs_process_identities ?h) (fe_pid e)")
    case None
    then have "map_of (bs_windows ?h) (fe_pid e) = None"
      using assms(1,2) by (intro housekeeping_window_None) auto
    then show ?thesis using None by (simp add: window_of_def forget_windows)
  next
    case (Some i)
    then have "i = old" using housekeeping_identity [OF assms(1), of e "fe_pid e"] assms(2) by simp
    then show ?thesis using Some assms(3) by (simp add: window_of_def forget_windows hm_get_del)
  qed
  moreover have "all_fresh (sat_sub (fe_timestamp_ms e) (window_ms (bs_config ?f))) (bs_windows ?f)"
    using forget_fresh [OF housekeeping_fresh, of e s] assms(1) by simp
  ultimately have "window_of (push_event e a ?f) (fe_pid e) = (if a = None then [entry_of (bs_config s) e] else [])"
    using assms(1) by (simp add: window_of_def push_window_fresh hm_get_put)
  then show ?thesis using assms by (simp add: evaluate_with_approval_def Let_def window_of_def)
qed

lemma evaluate_not_oversized:
  assumes "scorer_inv s" "\<not> oversized e (bs_config s)"
  obtains s' where "evaluate_with_approval e a s = assess e a s'"
    "bs_config s' = bs_config s" "bs_sensor s' = bs_sensor s" "scorer_inv s'"
  using assms housekeeping_room [OF assms(1), of e] push_forget_inv [of "housekeeping e s" e a]
  by (auto simp: evaluate_with_approval_def Let_def)

text \<open>
  An evaluation is eligible for a response only if no limit has dropped evidence that could
  still count, enough different files are in the window, and its score is the score of exactly
  that window.
\<close>

theorem eligible_needs_complete_evidence:
  assumes "scorer_inv s" "ev_eligible (snd (evaluate_with_approval e a s))"
  shows "\<not> ev_evidence_truncated (snd (evaluate_with_approval e a s))
    \<and> unat (dc_min_changed_files (bs_config s))
        \<le> length (distinct_paths (window_of (fst (evaluate_with_approval e a s)) (fe_pid e)))
    \<and> ev_score (snd (evaluate_with_approval e a s))
        = score (window_of (fst (evaluate_with_approval e a s)) (fe_pid e)) (bs_config s) (bs_sensor s)"
proof (cases "oversized e (bs_config s)")
  case True
  then show ?thesis using assms by (simp add: evaluate_with_approval_def Let_def)
next
  case False
  then obtain s' where s': "evaluate_with_approval e a s = assess e a s'"
    "bs_config s' = bs_config s" "bs_sensor s' = bs_sensor s" "scorer_inv s'"
    using evaluate_not_oversized [OF assms(1)] by metis
  show ?thesis using assms(2) unfolding s'(1)
    by (auto simp: assess_def Let_def s'(2,3) window_of_def split: if_splits)
qed


text \<open>An alert needs the threshold, and inside the cool-down of an earlier alert an escalation.\<close>

lemma assess_alert:
  "ev_alert (snd (assess e a s)) = Some d \<Longrightarrow>
     ev_eligible (snd (assess e a s))
     \<and> \<not> f_lt (ev_score (snd (assess e a s))) (dc_detect_score (bs_config s))
     \<and> \<not> suppressed s e (ev_score (snd (assess e a s)))
     \<and> d_score d = ev_score (snd (assess e a s)) \<and> d_pid d = fe_pid e
     \<and> map_of (bs_last_emit (fst (assess e a s))) (fe_pid e) = Some (fe_timestamp_ms e, d_score d)"
  by (auto simp: assess_def Let_def behavior_alert_def hm_get_put split: if_splits)

lemma assess_window_of [simp]: "window_of (fst (assess e a s)) k = window_of s k"
  by (simp add: window_of_def)

section \<open>The windows hold what the history says\<close>

lemma own_events_snoc:
  "own_events (hist @ [(e, a)]) k = own_events hist k @ (if fe_pid e = k then [(e, a)] else [])"
  by (simp add: own_events_def)

lemma evidence_spec_other:
  "fe_pid e \<noteq> k \<Longrightarrow> evidence_spec config (hist @ [(e, a)]) k h = evidence_spec config hist k h"
  by (simp add: evidence_spec_def own_events_snoc)

lemma evidence_spec_snoc:
  assumes "fe_pid e = k"
  shows "evidence_spec config (hist @ [(e, a)]) k h =
    (if own_events hist k \<noteq> [] \<and> identity_of (fst (last (own_events hist k))) = identity_of e
     then evidence_spec config hist k h else [])
    @ (if a = None \<and> h \<le> fe_timestamp_ms e then [entry_of config e] else [])"
proof (cases "own_events hist k" rule: rev_cases)
  case Nil
  then show ?thesis using assms
    by (simp add: evidence_spec_def own_events_snoc entry_of_def)
next
  case (snoc l lx)
  then show ?thesis using assms
    by (simp add: evidence_spec_def own_events_snoc entry_of_def case_prod_unfold Let_def)
qed

lemma evidence_spec_filter:
  "h \<le> h' \<Longrightarrow> filter (\<lambda>w. h' \<le> we_timestamp_ms w) (evidence_spec config hist k h) = evidence_spec config hist k h'"
  unfolding evidence_spec_def Let_def filter_filter by (rule filter_cong [OF refl]) auto

lemma card_dom_wf: "hm_wf m \<Longrightarrow> length m = card (dom (map_of m))"
  by (metis dom_map_of_conv_image_fst distinct_card hm_wf_def length_map list.set_map)

lemma housekeeping_is_expire:
  assumes "refines config sensor hist h s"
    and "card (fe_pid ` fst ` set (hist @ [(e, a)])) \<le> max_groups config"
    and "Suc (length hist) \<le> max_events config"
  shows "housekeeping e s = expire e s"
proof -
  let ?x = "expire e s"
  have r: "scorer_inv s" "bs_config s = config" "dom (map_of (bs_windows s)) \<subseteq> fe_pid ` fst ` set hist"
    "entry_count (bs_windows s) \<le> length hist"
    using assms(1) by (auto simp: refines_def)
  have x: "scorer_inv ?x" using r(1) by (rule expire_inv)
  have dx: "dom (map_of (bs_windows ?x)) \<subseteq> dom (map_of (bs_windows s))"
    using r(1) by (intro expire_dom) (simp add: scorer_inv_def)
  note cx = expire_count [of e s]
  have "make_room e ?x = ?x"
  proof (cases "map_of (bs_windows ?x) (fe_pid e)")
    case None
    then have "insert (fe_pid e) (dom (map_of (bs_windows ?x))) \<subseteq> fe_pid ` fst ` set (hist @ [(e, a)])"
      using dx r(3) by auto
    then have "card (insert (fe_pid e) (dom (map_of (bs_windows ?x)))) \<le> max_groups config"
      using assms(2) by (meson card_mono finite_imageI finite_set le_trans)
    moreover have "fe_pid e \<notin> dom (map_of (bs_windows ?x))" using None by auto
    ultimately have "length (bs_windows ?x) < max_groups config"
      using x card_dom_wf [of "bs_windows ?x"] by (simp add: scorer_inv_def finite_dom_map_of)
    then show ?thesis by (simp add: make_room_def r(2))
  next
    case (Some w)
    then show ?thesis by (simp add: make_room_def)
  qed
  moreover have "trim_entries e (entry_count (bs_windows ?x)) (max_events config) ?x = ?x"
    using cx r(4) assms(3) by (cases "entry_count (bs_windows ?x)") auto
  ultimately show ?thesis by (simp add: housekeeping_def Let_def r(2))
qed


lemma refines_step:
  assumes r: "refines config sensor hist h s"
    and mono: "h \<le> sat_sub (fe_timestamp_ms e) (window_ms config)"
    and "\<not> oversized e config"
    and "card (fe_pid ` fst ` set (hist @ [(e, a)])) \<le> max_groups config"
    and "Suc (length hist) \<le> max_events config"
  shows "refines config sensor (hist @ [(e, a)]) (sat_sub (fe_timestamp_ms e) (window_ms config))
           (fst (evaluate_with_approval e a s))
    \<and> evaluate_with_approval e a s = assess e a (push_event e a (forget_other_identity e (expire e s)))"
proof -
  let ?h = "sat_sub (fe_timestamp_ms e) (window_ms config)"
  let ?x = "expire e s" and ?k = "fe_pid e"
  let ?f = "forget_other_identity e ?x"
  let ?p = "push_event e a ?f"
  have inv: "scorer_inv s" and cfg [simp]: "bs_config s = config" "bs_sensor s = sensor"
    "bs_incomplete_until s = None"
    and win: "\<And>k. window_of s k = evidence_spec config hist k h"
    and ids: "\<And>k. window_of s k \<noteq> [] \<Longrightarrow> own_events hist k \<noteq> []
        \<and> map_of (bs_process_identities s) k = Some (identity_of (fst (last (own_events hist k))))"
    using r by (auto simp: refines_def)
  have hk: "housekeeping e s = ?x" using r assms(4,5) by (rule housekeeping_is_expire)
  have eval: "evaluate_with_approval e a s = assess e a ?p"
    using assms(3) hk by (simp add: evaluate_with_approval_def Let_def)
  have wfs: "hm_wf (bs_windows s)" "hm_wf (bs_process_identities s)" using inv by (simp_all add: scorer_inv_def)
  have winx: "window_of ?x k = evidence_spec config hist k ?h" for k
    using expire_window_of [OF wfs(1), of e k] evidence_spec_filter [OF mono] by (simp add: win)
  have idx: "own_events hist k \<noteq> []
      \<and> map_of (bs_process_identities ?x) k = Some (identity_of (fst (last (own_events hist k))))"
    if "window_of ?x k \<noteq> []" for k
  proof -
    have "window_of s k \<noteq> []" using that expire_window_of [OF wfs(1), of e k] by auto
    moreover have "map_of (bs_windows ?x) k \<noteq> None" using that by (auto simp: window_of_def split: option.splits)
    ultimately show ?thesis using ids [of k] wfs by (auto simp: expire_identity)
  qed
  have fresh: "all_fresh ?h (bs_windows ?f)"
    by (intro forget_fresh) (simp add: expire_def Let_def all_fresh_retain)
  have winf: "window_of ?f ?k =
      (if own_events hist ?k \<noteq> [] \<and> identity_of (fst (last (own_events hist ?k))) = identity_of e
       then evidence_spec config hist ?k ?h else [])"
  proof (cases "window_of ?x ?k = []")
    case True
    then have "window_of ?f ?k = []"
      by (auto simp: window_of_def forget_windows hm_get_del split: option.splits)
    then show ?thesis using winx [of ?k] True by simp
  next
    case False
    then show ?thesis using idx [OF False] winx [of ?k]
      by (auto simp: window_of_def forget_windows hm_get_del split: option.splits)
  qed
  have push: "bs_windows ?p = hm_put ?k (window_of ?f ?k @ (if a = None then [entry_of config e] else [])) (bs_windows ?f)"
    using push_window_fresh [of e ?f a] fresh by simp
  have winp: "window_of ?p k = evidence_spec config (hist @ [(e, a)]) k ?h" for k
  proof (cases "k = ?k")
    case True
    then show ?thesis using winf
      by (simp add: evidence_spec_snoc window_of_def [of ?p] push hm_get_put sat_sub_le)
  next
    case False
    then have "window_of ?p k = window_of ?x k"
      by (auto simp: window_of_def push hm_get_put forget_windows hm_get_del split: option.splits)
    with False show ?thesis by (simp add: evidence_spec_other winx)
  qed
  have idp: "own_events (hist @ [(e, a)]) k \<noteq> []
      \<and> map_of (bs_process_identities ?p) k = Some (identity_of (fst (last (own_events (hist @ [(e, a)]) k))))"
    if "window_of ?p k \<noteq> []" for k
  proof (cases "k = ?k")
    case True
    then show ?thesis
      by (auto simp: own_events_snoc forget_other_identity_def Let_def hm_get_put split: option.splits)
  next
    case False
    then have own: "own_events (hist @ [(e, a)]) k = own_events hist k" by (simp add: own_events_snoc)
    have "window_of ?x k \<noteq> []" using that winp winx False by (simp add: evidence_spec_other)
    with idx [of k] False own show ?thesis
      by (auto simp: forget_other_identity_def Let_def hm_get_put split: option.splits)
  qed
  have "dom (map_of (bs_windows ?p)) \<subseteq> insert ?k (dom (map_of (bs_windows ?x)))"
    using forget_cases [of e ?x] by (auto simp: push hm_get_put hm_get_del split: if_splits)
  moreover have "dom (map_of (bs_windows ?x)) \<subseteq> fe_pid ` fst ` set hist"
    using expire_dom [OF wfs(1), of e] r unfolding refines_def by blast
  ultimately have doms: "dom (map_of (bs_windows ?p)) \<subseteq> fe_pid ` fst ` set (hist @ [(e, a)])"
    by force
  have count: "entry_count (bs_windows ?p) \<le> length (hist @ [(e, a)])"
    using push_event_count [of e a ?f] forget_count [of e ?x] expire_count [of e s] r
    by (simp add: refines_def)
  show ?thesis
    using evaluate_inv [OF inv, of e a] winp idp doms count
    unfolding eval refines_def by simp
qed

lemma refines_init: "refines config sensor [] 0 (scorer_with_sensor config sensor)"
  by (simp add: refines_def scorer_inv_init)
    (simp add: scorer_with_sensor_def window_of_def evidence_spec_def own_events_def)

lemma sat_sub_mono: "a \<le> b \<Longrightarrow> sat_sub a c \<le> sat_sub b c" for a b c :: "'a::len word"
  by (simp add: word_le_nat_alt unat_sat_sub)

lemma refines_run:
  assumes "sorted (map (fe_timestamp_ms \<circ> fst) hist)" "\<forall>x\<in>set hist. \<not> oversized (fst x) config"
    and "card (fe_pid ` fst ` set hist) \<le> max_groups config" "length hist \<le> max_events config"
  shows "refines config sensor hist (last_horizon config hist)
    (run_scorer hist (scorer_with_sensor config sensor))"
  using assms
proof (induction hist rule: rev_induct)
  case Nil
  then show ?case by (simp add: run_scorer_def refines_init)
next
  case (snoc x hist)
  obtain e a where x: "x = (e, a)" by fastforce
  have sub: "card (fe_pid ` fst ` set hist) \<le> card (fe_pid ` fst ` set (hist @ [x]))"
    by (rule card_mono) auto
  have ih: "refines config sensor hist (last_horizon config hist)
      (run_scorer hist (scorer_with_sensor config sensor))"
    using snoc.IH snoc.prems sub by (simp add: sorted_append)
  have mono: "last_horizon config hist \<le> sat_sub (fe_timestamp_ms e) (window_ms config)"
    using snoc.prems(1) x by (auto simp: sorted_append intro!: sat_sub_mono)
  have "refines config sensor (hist @ [(e, a)]) (sat_sub (fe_timestamp_ms e) (window_ms config))
      (fst (evaluate_with_approval e a (run_scorer hist (scorer_with_sensor config sensor))))"
    using snoc.prems x by (intro refines_step [OF ih mono, THEN conjunct1]) simp_all
  then show ?case by (simp add: x run_scorer_def)
qed


text \<open>
  Every score lies between 0 and 100, and without a sign of encryption in the window it stays
  within what the sensor can reach otherwise: 65 for notify, 40 for fanotify.
\<close>

theorem score_range:
  assumes "length w < 2 ^ 64"
  shows "f_in 0 100 (score w config sensor)
    \<and> ((\<forall>e\<in>set w. \<not> we_encryption_signal e) \<longrightarrow>
         f_in 0 (case sensor of Notify \<Rightarrow> 65 | Fanotify \<Rightarrow> 40) (score w config sensor))"
  using score_in [OF assms] score_without_signal [OF assms, of sensor config]
  by (cases sensor) (auto simp: churn_weight_def)

section \<open>Witnesses\<close>

definition demo_entry :: "u64 \<Rightarrow> string \<Rightarrow> window_entry" where
  "demo_entry t p = \<lparr>we_timestamp_ms = t, we_path = p, we_action = Modify, we_encryption_signal = False\<rparr>"

definition demo_event :: "u64 \<Rightarrow> u32 \<Rightarrow> u64 \<Rightarrow> string \<Rightarrow> file_event" where
  "demo_event t k start p =
     \<lparr>fe_timestamp_ms = t, fe_pid = k, fe_path = p, fe_action = Modify, fe_size = None,
      fe_entropy = Some (Fin 7),
      fe_process = Some \<lparr>fp_uid = 1000, fp_exe = ''/usr/bin/task'', fp_start_time_ticks = start,
                         fp_boot_id = ''boot-a'', fp_ancestors = []\<rparr>,
      fe_content = None\<rparr>"

definition demo_scorer :: behavior_scorer where
  "demo_scorer =
     (scorer_with_sensor detection_config_default Fanotify)
       \<lparr>bs_windows := [(42, [demo_entry 1000 ''/data/a''])],
        bs_process_identities := [(42, Some (7, ''boot-a''))]\<rparr>"

theorem score_range_witness:
  "length [demo_entry 1 ''/a'', demo_entry 2 ''/b''] < 2 ^ 64
   \<and> f_in 0 40 (score [demo_entry 1 ''/a'', demo_entry 2 ''/b''] detection_config_default Fanotify)"
  using score_range [of "[demo_entry 1 ''/a'', demo_entry 2 ''/b'']" detection_config_default Fanotify]
  by (simp add: demo_entry_def)

lemma default_limits: "max_groups detection_config_default = 2048" "max_events detection_config_default = 10000"
  by (simp_all add: max_groups_def max_events_def clamp_def detection_config_default_def multi_window_config_default_def)

lemma default_oversized:
  "oversized (demo_event t k start p) detection_config_default \<longleftrightarrow> 4096 < length p"
  by (simp add: oversized_def demo_event_def detection_config_default_def multi_window_config_default_def)

lemma demo_scorer_inv: "scorer_inv demo_scorer"
  by (simp add: scorer_inv_def demo_scorer_def scorer_with_sensor_def hm_wf_def default_limits)

lemma demo_scorer_config: "bs_config demo_scorer = detection_config_default"
  by (simp add: demo_scorer_def scorer_with_sensor_def)

theorem pid_reuse_starts_fresh_witness:
  "window_of (fst (evaluate_with_approval (demo_event 2000 42 8 ''/data/b'') None demo_scorer)) 42
     = [entry_of detection_config_default (demo_event 2000 42 8 ''/data/b'')]"
proof -
  have "map_of (bs_process_identities demo_scorer) (fe_pid (demo_event 2000 42 8 ''/data/b'')) = Some (Some (7, ''boot-a''))"
    by (simp add: demo_scorer_def demo_event_def)
  moreover have "Some (7, ''boot-a'') \<noteq> identity_of (demo_event 2000 42 8 ''/data/b'')"
    by (simp add: identity_of_def demo_event_def)
  ultimately show ?thesis
    using pid_reuse_starts_fresh [OF demo_scorer_inv, of "demo_event 2000 42 8 ''/data/b''" _ None]
    by (simp add: demo_scorer_config default_oversized) (simp add: demo_event_def)
qed

definition lenient_config :: detection_config where
  "lenient_config = detection_config_default\<lparr>dc_min_changed_files := 1\<rparr>"

lemma lenient_limits: "max_groups lenient_config = 2048" "max_events lenient_config = 10000"
  "\<not> oversized (demo_event t k start ''/data/a'') lenient_config"
  by (simp_all add: max_groups_def max_events_def clamp_def lenient_config_def detection_config_default_def
      multi_window_config_default_def oversized_def demo_event_def)

lemma lenient_horizon: "sat_sub 1000 (window_ms lenient_config) = 0"
  by (simp add: window_ms_def sat_mul_def sat_sub_def lenient_config_def detection_config_default_def)


theorem eligible_needs_complete_evidence_witness:
  "ev_eligible (snd (evaluate_with_approval (demo_event 1000 42 7 ''/data/a'') None
     (scorer_with_sensor lenient_config Fanotify)))
   \<and> \<not> ev_evidence_truncated (snd (evaluate_with_approval (demo_event 1000 42 7 ''/data/a'') None
     (scorer_with_sensor lenient_config Fanotify)))"
proof -
  let ?e = "demo_event 1000 42 7 ''/data/a''" and ?s = "scorer_with_sensor lenient_config Fanotify"
  have hk: "housekeeping ?e ?s = ?s"
    by (simp add: housekeeping_def Let_def make_room_def expire_def scorer_with_sensor_def retain_entries_def
        hm_retain_def lenient_limits)
  have "ev_eligible (snd (evaluate_with_approval ?e None ?s))"
    unfolding evaluate_with_approval_def Let_def hk
    by (simp add: scorer_with_sensor_def lenient_limits)
      (simp add: assess_def Let_def push_event_def window_of_def
        forget_other_identity_def truncated_at_def distinct_paths_def hm_get_put lenient_config_def
        entry_of_def demo_event_def lenient_horizon [unfolded lenient_config_def])
  with eligible_needs_complete_evidence [OF scorer_inv_init, of ?e None lenient_config Fanotify]
  show ?thesis by simp
qed

end
