(* ===== verification/Detect_Multi_Window.thy ===== *)
theory Detect_Multi_Window
  imports Detect_Scorer
begin

text \<open>
  \<^verbatim>\<open>argos-detect/src/multi_window.rs\<close>: the aggregation of changes over several windows, by
  process instance, by user, by protected path and by ancestor, in bounded memory.  An aggregate
  is never evidence against one process.  \<^verbatim>\<open>Arc<Observation>\<close> is an immutable shared value, so
  the queue and the groups hold copies of it.
\<close>

section \<open>Groups\<close>

definition INSTANCE_RULE :: string where
  "INSTANCE_RULE = ''behavior.multi_window.instance''"

definition USER_RULE :: string where
  "USER_RULE = ''behavior.multi_window.user_path''"

definition PATH_RULE :: string where
  "PATH_RULE = ''behavior.multi_window.protected_path''"

definition ANCESTOR_RULE :: string where
  "ANCESTOR_RULE = ''behavior.multi_window.ancestor''"

definition RULES :: "string list" where
  "RULES = [INSTANCE_RULE, USER_RULE, PATH_RULE, ANCESTOR_RULE]"

type_synonym instance_id = "u32 \<times> u64 \<times> string"

datatype group =
    Instance instance_id
  | User u32 string string
  | ProtectedPath string string
  | Ancestor instance_id string

text \<open>The derived order: the variant first, then its fields from left to right.\<close>

fun group_key :: "group \<Rightarrow> nat \<times> u32 \<times> u64 \<times> string \<times> string" where
  "group_key (Instance (p, start, boot)) = (0, p, start, boot, [])"
| "group_key (User uid boot dir) = (1, uid, 0, boot, dir)"
| "group_key (ProtectedPath boot dir) = (2, 0, 0, boot, dir)"
| "group_key (Ancestor (p, start, boot) dir) = (3, p, start, boot, dir)"

lemma group_key_inject: "group_key a = group_key b \<Longrightarrow> a = b"
  by (cases a rule: group_key.cases; cases b rule: group_key.cases) auto

instantiation group :: linorder
begin

definition less_eq_group :: "group \<Rightarrow> group \<Rightarrow> bool" where
  "less_eq_group a b = (group_key a \<le> group_key b)"

definition less_group :: "group \<Rightarrow> group \<Rightarrow> bool" where
  "less_group a b = (group_key a < group_key b)"

instance
  by standard (auto simp: less_eq_group_def less_group_def intro: group_key_inject)

end

fun rule_of :: "group \<Rightarrow> string" where
  "rule_of (Instance _) = INSTANCE_RULE"
| "rule_of (User _ _ _) = USER_RULE"
| "rule_of (ProtectedPath _ _) = PATH_RULE"
| "rule_of (Ancestor _ _) = ANCESTOR_RULE"

definition show_instance :: "instance_id \<Rightarrow> string" where
  "show_instance = (\<lambda>(p, start, boot). show_nat (unat p) @ ''/'' @ show_nat (unat start) @ ''/'' @ boot)"

fun label_of :: "group \<Rightarrow> string" where
  "label_of (Instance i) = ''process='' @ show_instance i"
| "label_of (User uid boot dir) =
     ''effective_uid='' @ show_nat (unat uid) @ '', boot='' @ boot @ '', path='' @ dir"
| "label_of (ProtectedPath boot dir) = ''boot='' @ boot @ '', protected_path='' @ dir"
| "label_of (Ancestor i dir) = ''ancestor='' @ show_instance i @ '', path='' @ dir"

section \<open>State\<close>

record observation =
  ob_sequence :: u64
  ob_timestamp_ms :: u64
  ob_path :: string
  ob_pid :: u32
  ob_instance :: "instance_id option"
  ob_action :: file_action
  ob_encrypted :: bool
  ob_groups :: "group list"

record group_state =
  gs_events :: "observation list"
  gs_last_emit :: "(u64, u64 \<times> f64) hmap"

definition group_state_default :: group_state where
  "group_state_default = \<lparr>gs_events = [], gs_last_emit = []\<rparr>"

record multi_outcome =
  mo_alerts :: "detection list"
  mo_instance_score :: "f64 option"
  mo_truncated :: bool
  mo_approval_applied :: bool

definition multi_outcome_default :: multi_outcome where
  "multi_outcome_default =
     \<lparr>mo_alerts = [], mo_instance_score = None, mo_truncated = False, mo_approval_applied = False\<rparr>"

record multi_window_scorer =
  mx_config :: detection_config
  mx_sensor :: sensor_kind
  mx_events :: "observation list"
  mx_groups :: "(group, group_state) hmap"
  mx_sequence :: u64
  mx_watermark :: u64
  mx_incomplete_until :: "u64 option"

definition multi_window_new :: "detection_config \<Rightarrow> sensor_kind \<Rightarrow> multi_window_scorer" where
  "multi_window_new config sensor =
     \<lparr>mx_config = config, mx_sensor = sensor, mx_events = [], mx_groups = [], mx_sequence = 0,
      mx_watermark = 0, mx_incomplete_until = None\<rparr>"

section \<open>Housekeeping\<close>

definition horizon_ms :: "detection_config \<Rightarrow> u64" where
  "horizon_ms config =
     fold max (map (\<lambda>w. sat_mul (dw_window_secs w) 1000) (mw_windows (dc_multi_window config))) 0"

definition mw_truncate :: "u64 \<Rightarrow> multi_window_scorer \<Rightarrow> multi_window_scorer" where
  "mw_truncate now s = s\<lparr>mx_incomplete_until := Some (sat_add now (horizon_ms (mx_config s)))\<rparr>"

definition release_group ::
  "observation \<Rightarrow> group \<Rightarrow> (group, group_state) hmap \<Rightarrow> (group, group_state) hmap" where
  "release_group old g groups =
     (case map_of groups g of
        None \<Rightarrow> groups
      | Some state \<Rightarrow>
          let events = (case gs_events state of
                          [] \<Rightarrow> []
                        | e # es \<Rightarrow> if ob_sequence e = ob_sequence old then es else e # es)
          in if events = [] then hm_del g groups
             else hm_put g (state\<lparr>gs_events := events\<rparr>) groups)"

definition expire_front :: "multi_window_scorer \<Rightarrow> multi_window_scorer" where
  "expire_front s =
     (case mx_events s of
        [] \<Rightarrow> s
      | old # rest \<Rightarrow>
          s\<lparr>mx_events := rest, mx_groups := fold (release_group old) (ob_groups old) (mx_groups s)\<rparr>)"

lemma expire_front_shrinks: "mx_events (expire_front s) = tl (mx_events s)"
  by (cases "mx_events s") (simp_all add: expire_front_def)

lemma expire_front_config: "mx_config (expire_front s) = mx_config s"
  by (cases "mx_events s") (simp_all add: expire_front_def)

function expire_before :: "u64 \<Rightarrow> multi_window_scorer \<Rightarrow> multi_window_scorer" where
  "expire_before horizon s =
     (case mx_events s of
        [] \<Rightarrow> s
      | e # _ \<Rightarrow> if ob_timestamp_ms e < horizon then expire_before horizon (expire_front s) else s)"
  by pat_completeness auto
termination
  by (relation "measure (\<lambda>(_, s). length (mx_events s))") (auto simp: expire_front_shrinks)

function make_space :: "u64 \<Rightarrow> multi_window_scorer \<Rightarrow> multi_window_scorer" where
  "make_space now s =
     (if max_events (mx_config s) \<le> length (mx_events s)
      then make_space now (expire_front (mw_truncate now s)) else s)"
  by pat_completeness auto
termination
proof (relation "measure (\<lambda>(_, s). length (mx_events s))")
  fix now :: u64 and s :: multi_window_scorer
  assume "max_events (mx_config s) \<le> length (mx_events s)"
  then have "0 < length (mx_events s)" using max_events_pos [of "mx_config s"] by linarith
  then show "((now, expire_front (mw_truncate now s)), (now, s)) \<in> measure (\<lambda>(_, s). length (mx_events s))"
    by (auto simp: expire_front_shrinks mw_truncate_def)
qed simp

declare expire_before.simps [simp del] make_space.simps [simp del]

section \<open>The groups of an event\<close>

definition absolute_clean_path :: "path \<Rightarrow> bool" where
  "absolute_clean_path p = (is_absolute p \<and> ParentDir \<notin> set (components p))"

definition process_context :: "file_event \<Rightarrow> file_process_context option" where
  "process_context event =
     (case fe_process event of
        None \<Rightarrow> None
      | Some p \<Rightarrow>
          if fe_pid event \<noteq> 0 \<and> 0 < fp_start_time_ticks p \<and> fp_boot_id p \<noteq> []
             \<and> length (fp_boot_id p) \<le> 128
          then Some p else None)"

definition protecting_root :: "detection_config \<Rightarrow> path \<Rightarrow> path option" where
  "protecting_root config p =
     max_by (\<lambda>dir. length (components dir))
       (filter (path_starts_with p) (mw_protected_paths (dc_multi_window config)))"

definition ancestor_groups :: "file_process_context \<Rightarrow> path \<Rightarrow> group list" where
  "ancestor_groups p dir =
     map (\<lambda>a. Ancestor (pi_pid a, pi_start_time_ticks a, pi_boot_id a) dir)
       (filter (\<lambda>a. pi_pid a \<noteq> 1)
         (filter (\<lambda>a. pi_pid a \<noteq> 0 \<and> pi_start_time_ticks a \<noteq> 0 \<and> pi_boot_id a = fp_boot_id p)
           (take 4 (fp_ancestors p))))"

definition root_groups :: "detection_config \<Rightarrow> file_process_context option \<Rightarrow> path \<Rightarrow> group list" where
  "root_groups config context dir =
     (case context of
        None \<Rightarrow> [ProtectedPath ''unidentified'' dir]
      | Some p \<Rightarrow>
          ProtectedPath (fp_boot_id p) dir
          # (if mw_aggregate_by_user (dc_multi_window config)
             then [User (fp_uid p) (fp_boot_id p) dir] else [])
          @ (if mw_aggregate_by_ancestry (dc_multi_window config)
             then ancestor_groups p dir else []))"

definition group_keys :: "detection_config \<Rightarrow> file_event \<Rightarrow> group list" where
  "group_keys config event =
     (let context = process_context event;
          own = (case context of None \<Rightarrow> []
                 | Some p \<Rightarrow> [Instance (fe_pid event, fp_start_time_ticks p, fp_boot_id p)]);
          rooted = (case protecting_root config (fe_path event) of
                      None \<Rightarrow> [] | Some dir \<Rightarrow> root_groups config context dir)
      in remdups (sort (own @ rooted)))"

section \<open>Recording an observation\<close>

definition group_rank :: "group \<times> group_state \<Rightarrow> u64 \<times> group" where
  "group_rank = (\<lambda>(g, state).
     ((if gs_events state = [] then 0 else ob_timestamp_ms (last (gs_events state))), g))"

definition push_group :: "u64 \<Rightarrow> observation \<Rightarrow> group \<Rightarrow> multi_window_scorer \<Rightarrow> multi_window_scorer" where
  "push_group now entry g s =
     (let s = (if map_of (mx_groups s) g = None \<and> max_groups (mx_config s) \<le> length (mx_groups s)
               then (case oldest group_rank (mx_groups s) of
                       None \<Rightarrow> s
                     | Some k \<Rightarrow> mw_truncate now (s\<lparr>mx_groups := hm_del k (mx_groups s)\<rparr>))
               else s);
          state = (case map_of (mx_groups s) g of None \<Rightarrow> group_state_default | Some st \<Rightarrow> st)
      in s\<lparr>mx_groups := hm_put g (state\<lparr>gs_events := gs_events state @ [entry]\<rparr>) (mx_groups s)\<rparr>)"

definition observation_of ::
  "detection_config \<Rightarrow> u64 \<Rightarrow> u64 \<Rightarrow> file_event \<Rightarrow> group list \<Rightarrow> observation" where
  "observation_of config sequence now event included =
     \<lparr>ob_sequence = sequence, ob_timestamp_ms = now, ob_path = fe_path event,
      ob_pid = fe_pid event,
      ob_instance = map_option (\<lambda>p. (fe_pid event, fp_start_time_ticks p, fp_boot_id p))
                      (process_context event),
      ob_action = fe_action event, ob_encrypted = encryption_signal event config,
      ob_groups = included\<rparr>"

definition record_observation ::
  "u64 \<Rightarrow> file_event \<Rightarrow> group list \<Rightarrow> multi_window_scorer \<Rightarrow> multi_window_scorer" where
  "record_observation now event included s =
     (if included \<noteq> [] \<and> fe_action event \<in> {Modify, Create, Delete, Rename}
      then let s = make_space now s;
               s = s\<lparr>mx_sequence := sat_add (mx_sequence s) 1\<rparr>;
               entry = observation_of (mx_config s) (mx_sequence s) now event included;
               s = fold (push_group now entry) included s
           in s\<lparr>mx_events := mx_events s @ [entry]\<rparr>
      else s)"

section \<open>The score of a group in a window\<close>

definition in_window :: "u64 \<Rightarrow> u64 \<Rightarrow> observation list \<Rightarrow> observation list" where
  "in_window now width events = filter (\<lambda>e. sat_sub now width \<le> ob_timestamp_ms e) events"

definition obs_paths :: "observation list \<Rightarrow> string list" where
  "obs_paths es = sort (remdups (map ob_path es))"

definition obs_high :: "observation list \<Rightarrow> string list" where
  "obs_high es = obs_paths (filter (\<lambda>e. ob_action e = Modify \<and> ob_encrypted e) es)"

definition obs_churn :: "observation list \<Rightarrow> nat" where
  "obs_churn es = length (filter (\<lambda>e. ob_action e \<in> {Delete, Rename}) es)"

definition group_score :: "sensor_kind \<Rightarrow> detection_window \<Rightarrow> observation list \<Rightarrow> f64" where
  "group_score sensor window selected =
     (let paths = length (obs_paths selected);
          mass = mass_score paths (dw_mass_change_threshold window);
          entropy = f_mul (f_div (f64_of_nat (length (obs_high selected))) (f64_of_nat paths))
                      (if sensor = Fanotify then Fin 60 else Fin 35);
          churn = (if sensor = Notify
                   then f_mul (f_div (f64_of_nat (obs_churn selected)) (f64_of_nat (length selected))) (Fin 25)
                   else Fin 0)
      in f_min (f_add (f_add mass entropy) churn) (Fin 100))"

definition alert_pid :: "group \<Rightarrow> pid" where
  "alert_pid g = (case g of Instance (p, _, _) \<Rightarrow> p | _ \<Rightarrow> 0)"

definition group_alert ::
  "u64 \<Rightarrow> group \<Rightarrow> detection_window \<Rightarrow> observation list \<Rightarrow> f64 \<Rightarrow> bool \<Rightarrow> detection" where
  "group_alert now g window selected sc truncated =
     (let pids = sort (remdups (map ob_pid selected));
          instances = sort (remdups (List.map_filter ob_instance selected))
      in \<lparr>d_timestamp_ms = now, d_rule = rule_of g, d_score = sc, d_severity = severity_of sc,
          d_summary = GroupSummary (dw_window_secs window) (label_of g) (length (obs_paths selected))
             (take 20 pids) (map show_instance (take 20 instances))
             (truncated \<or> 20 < length pids \<or> 20 < length instances) (alert_pid g = 0),
          d_pid = alert_pid g, d_paths = take 20 (obs_paths selected)\<rparr>)"

definition group_suppressed ::
  "group_state \<Rightarrow> u64 \<Rightarrow> detection_window \<Rightarrow> f64 \<Rightarrow> bool" where
  "group_suppressed state now window sc =
     (case map_of (gs_last_emit state) (dw_window_secs window) of
        None \<Rightarrow> False
      | Some (last_ts, previous) \<Rightarrow>
          sat_sub now last_ts < sat_mul (dw_window_secs window) 1000
          \<and> f_lt sc (f_add previous (Fin 15)))"

definition raise_instance_score :: "group \<Rightarrow> f64 \<Rightarrow> multi_outcome \<Rightarrow> multi_outcome" where
  "raise_instance_score g sc out =
     (case g of
        Instance _ \<Rightarrow>
          if mo_truncated out then out
          else out\<lparr>mo_instance_score :=
                 Some (case mo_instance_score out of None \<Rightarrow> sc | Some old \<Rightarrow> f_max old sc)\<rparr>
      | _ \<Rightarrow> out)"

definition evaluate_window ::
  "sensor_kind \<Rightarrow> u64 \<Rightarrow> group \<Rightarrow> detection_window \<Rightarrow> group_state \<times> multi_outcome \<Rightarrow>
     group_state \<times> multi_outcome" where
  "evaluate_window sensor now g window = (\<lambda>(state, out).
     let selected = in_window now (sat_mul (dw_window_secs window) 1000) (gs_events state)
     in if length (obs_paths selected) < unat (dw_min_changed_files window) then (state, out)
        else let sc = group_score sensor window selected; out = raise_instance_score g sc out
        in if f_lt sc (dw_detect_score window) \<or> group_suppressed state now window sc then (state, out)
           else (state\<lparr>gs_last_emit := hm_put (dw_window_secs window) (now, sc) (gs_last_emit state)\<rparr>,
                 out\<lparr>mo_alerts := mo_alerts out @ [group_alert now g window selected sc (mo_truncated out)]\<rparr>))"

definition evaluate_group ::
  "u64 \<Rightarrow> group \<Rightarrow> multi_window_scorer \<times> multi_outcome \<Rightarrow> multi_window_scorer \<times> multi_outcome" where
  "evaluate_group now g = (\<lambda>(s, out).
     case map_of (mx_groups s) g of
       None \<Rightarrow> (s, out)
     | Some state \<Rightarrow>
         (case fold (evaluate_window (mx_sensor s) now g)
                 (take 8 (mw_windows (dc_multi_window (mx_config s)))) (state, out) of
            (state', out') \<Rightarrow> (s\<lparr>mx_groups := hm_put g state' (mx_groups s)\<rparr>, out')))"

section \<open>Evaluating an event\<close>

definition late_or_unusable :: "u64 \<Rightarrow> file_event \<Rightarrow> detection_config \<Rightarrow> bool" where
  "late_or_unusable now event config =
     (fe_timestamp_ms event < now
      \<or> unat (mw_max_path_bytes (dc_multi_window config)) < length (fe_path event)
      \<or> \<not> absolute_clean_path (fe_path event))"

definition included_keys :: "detection_config \<Rightarrow> file_event \<Rightarrow> string list \<Rightarrow> group list" where
  "included_keys config event adjusted_rules =
     filter (\<lambda>g. rule_of g \<notin> set adjusted_rules) (group_keys config event)"

definition advance :: "file_event \<Rightarrow> multi_window_scorer \<Rightarrow> multi_window_scorer" where
  "advance event s =
     (let now = max (mx_watermark s) (fe_timestamp_ms event)
      in expire_before (sat_sub now (horizon_ms (mx_config s))) (s\<lparr>mx_watermark := now\<rparr>))"

definition mw_evaluate ::
  "file_event \<Rightarrow> string list \<Rightarrow> multi_window_scorer \<Rightarrow> multi_window_scorer \<times> multi_outcome" where
  "mw_evaluate event adjusted_rules s =
     (if \<not> mw_enabled (dc_multi_window (mx_config s)) then (s, multi_outcome_default)
      else let now = max (mx_watermark s) (fe_timestamp_ms event); s = advance event s
      in if late_or_unusable now event (mx_config s)
         then (mw_truncate now s, multi_outcome_default\<lparr>mo_truncated := True\<rparr>)
         else let keys = group_keys (mx_config s) event;
                  included = included_keys (mx_config s) event adjusted_rules;
                  s = record_observation now event included s;
                  out = multi_outcome_default
                          \<lparr>mo_truncated := truncated_at (mx_incomplete_until s) now,
                           mo_approval_applied := length included < length keys\<rparr>
              in fold (evaluate_group now) keys (s, out))"

section \<open>Specification notions\<close>

definition group_history :: "(group, group_state) hmap \<Rightarrow> group \<Rightarrow> observation list" where
  "group_history groups g = (case map_of groups g of None \<Rightarrow> [] | Some st \<Rightarrow> gs_events st)"

definition mw_bounded :: "multi_window_scorer \<Rightarrow> bool" where
  "mw_bounded s \<longleftrightarrow> hm_wf (mx_groups s) \<and> length (mx_groups s) \<le> max_groups (mx_config s)
     \<and> length (mx_events s) \<le> max_events (mx_config s)"

definition of_group :: "group \<Rightarrow> observation list \<Rightarrow> observation list" where
  "of_group g es = filter (\<lambda>e. g \<in> set (ob_groups e)) es"

text \<open>
  The structure of the state: sequence numbers increase strictly, no observation is later than
  the watermark, and the history of a group is a suffix of the global history of that group.
\<close>

definition mw_struct :: "multi_window_scorer \<Rightarrow> bool" where
  "mw_struct s \<longleftrightarrow> hm_wf (mx_groups s)
     \<and> sorted_wrt (\<lambda>a b. ob_sequence a < ob_sequence b) (mx_events s)
     \<and> (\<forall>e\<in>set (mx_events s). ob_sequence e \<le> mx_sequence s \<and> ob_timestamp_ms e \<le> mx_watermark s
           \<and> distinct (ob_groups e))
     \<and> (\<forall>g. suffix (group_history (mx_groups s) g) (of_group g (mx_events s)))"

text \<open>
  The reference: what a history of events says about a group, with no memory limit.  Sequence
  numbers are bookkeeping and are erased.
\<close>

definition unseq :: "observation \<Rightarrow> observation" where
  "unseq e = e\<lparr>ob_sequence := 0\<rparr>"

definition spec_observation :: "detection_config \<Rightarrow> file_event \<times> string list \<Rightarrow> observation" where
  "spec_observation config = (\<lambda>(e, rules). observation_of config 0 (fe_timestamp_ms e) e (included_keys config e rules))"

definition spec_history ::
  "detection_config \<Rightarrow> (file_event \<times> string list) list \<Rightarrow> group \<Rightarrow> observation list" where
  "spec_history config hist g =
     of_group g (map (spec_observation config)
       (filter (\<lambda>(e, _). fe_action e \<in> {Modify, Create, Delete, Rename}) hist))"

definition run_multi :: "(file_event \<times> string list) list \<Rightarrow> multi_window_scorer \<Rightarrow> multi_window_scorer" where
  "run_multi = fold (\<lambda>(e, rules) s. fst (mw_evaluate e rules s))"

definition since :: "u64 \<Rightarrow> observation list \<Rightarrow> observation list" where
  "since h es = filter (\<lambda>e. h \<le> ob_timestamp_ms e) es"

definition exact_for :: "(file_event \<times> string list) list \<Rightarrow> multi_window_scorer \<Rightarrow> bool" where
  "exact_for hist s \<longleftrightarrow>
     (\<forall>T g. mx_watermark s \<le> T \<longrightarrow> \<not> truncated_at (mx_incomplete_until s) T \<longrightarrow>
        map unseq (since (sat_sub T (horizon_ms (mx_config s))) (group_history (mx_groups s) g))
        = since (sat_sub T (horizon_ms (mx_config s))) (spec_history (mx_config s) hist g))"

definition released :: "observation \<Rightarrow> observation list \<Rightarrow> observation list" where
  "released old es = (case es of [] \<Rightarrow> [] | e # es' \<Rightarrow> if ob_sequence e = ob_sequence old then es' else e # es')"

definition same_clock :: "multi_window_scorer \<Rightarrow> multi_window_scorer \<Rightarrow> bool" where
  "same_clock s t \<longleftrightarrow> mx_config t = mx_config s \<and> mx_sensor t = mx_sensor s
     \<and> mx_sequence t = mx_sequence s \<and> mx_watermark t = mx_watermark s"

definition push_ok :: "group set \<Rightarrow> observation \<Rightarrow> multi_window_scorer \<Rightarrow> bool" where
  "push_ok P entry s \<longleftrightarrow>
     (\<forall>g. suffix (group_history (mx_groups s) g) (of_group g (mx_events s) @ (if g \<in> P then [entry] else [])))"

definition same_histories :: "multi_window_scorer \<Rightarrow> multi_window_scorer \<Rightarrow> bool" where
  "same_histories s t \<longleftrightarrow> same_clock s t \<and> mx_events t = mx_events s
     \<and> mx_incomplete_until t = mx_incomplete_until s
     \<and> group_history (mx_groups t) = group_history (mx_groups s)
     \<and> (hm_wf (mx_groups s) \<longrightarrow> hm_wf (mx_groups t)) \<and> length (mx_groups t) = length (mx_groups s)"

definition mw_refines :: "detection_config \<Rightarrow> (file_event \<times> string list) list \<Rightarrow> multi_window_scorer \<Rightarrow> bool" where
  "mw_refines config hist s \<longleftrightarrow> mx_config s = config \<and> mw_bounded s \<and> mw_struct s \<and> exact_for hist s
     \<and> unat (mx_sequence s) \<le> length hist \<and> (\<forall>(e, _)\<in>set hist. fe_timestamp_ms e \<le> mx_watermark s)"

definition alert_ok :: "file_event \<Rightarrow> detection \<Rightarrow> bool" where
  "alert_ok event d = (if d_rule d = INSTANCE_RULE then d_pid d = fe_pid event else d_pid d = 0)"

definition outcome_ok :: "file_event \<Rightarrow> multi_outcome \<Rightarrow> bool" where
  "outcome_ok event out = (list_all (alert_ok event) (mo_alerts out)
     \<and> (mo_truncated out \<longrightarrow> mo_instance_score out = None))"

definition own_key :: "file_event \<Rightarrow> group \<Rightarrow> bool" where
  "own_key event g = (case g of Instance (p, _, _) \<Rightarrow> p = fe_pid event | _ \<Rightarrow> True)"

section \<open>Releasing the oldest observation\<close>

lemma release_history:
  "group_history (release_group old g groups) k =
     (if k = g then released old (group_history groups g) else group_history groups k)"
  by (auto simp: group_history_def release_group_def released_def hm_get_put hm_get_del Let_def
      split: option.splits list.splits)

lemma release_fold_history:
  "distinct gs \<Longrightarrow> group_history (fold (release_group old) gs groups) k =
     (if k \<in> set gs then released old (group_history groups k) else group_history groups k)"
  by (induction gs arbitrary: groups) (auto simp: release_history)

lemma release_wf: "hm_wf groups \<Longrightarrow> hm_wf (release_group old g groups) \<and> length (release_group old g groups) \<le> length groups"
  by (auto simp: release_group_def Let_def hm_wf_put hm_wf_del hm_len_put hm_len_del split: option.splits)

lemma release_fold_wf:
  "hm_wf groups \<Longrightarrow> hm_wf (fold (release_group old) gs groups) \<and> length (fold (release_group old) gs groups) \<le> length groups"
proof (induction gs arbitrary: groups)
  case (Cons g gs)
  then show ?case using release_wf [of groups old g] by (metis fold_simps(2) le_trans)
qed simp

lemma same_clock_refl [simp]: "same_clock s s"
  by (simp add: same_clock_def)

lemma same_clock_trans: "same_clock s t \<Longrightarrow> same_clock t u \<Longrightarrow> same_clock s u"
  by (simp add: same_clock_def)

lemma expire_front_frame:
  "same_clock s (expire_front s) \<and> mx_incomplete_until (expire_front s) = mx_incomplete_until s"
  by (cases "mx_events s") (simp_all add: expire_front_def same_clock_def)

lemma expire_front_bounded: "mw_bounded s \<Longrightarrow> mw_bounded (expire_front s)"
  using release_fold_wf [of "mx_groups s"]
  by (cases "mx_events s") (auto simp: mw_bounded_def expire_front_def intro: le_trans)

lemma released_suffix:
  assumes "suffix es (of_group g (old # rest))" "g \<in> set (ob_groups old)"
    "\<forall>e\<in>set rest. ob_sequence old < ob_sequence e"
  shows "suffix (released old es) (of_group g rest)
    \<and> (released old es = es \<or> es = old # released old es)"
proof (cases "es = old # of_group g rest")
  case True
  then show ?thesis by (simp add: released_def)
next
  case False
  then have suf: "suffix es (of_group g rest)"
    using assms(1,2) by (auto simp: of_group_def suffix_Cons)
  then have "ob_sequence e \<noteq> ob_sequence old" if "e \<in> set es" for e
    using that assms(3) set_mono_suffix [OF suf] by (force simp: of_group_def)
  then have "released old es = es" by (cases es) (auto simp: released_def)
  with suf show ?thesis by simp
qed

lemma expire_front_struct:
  assumes "mw_struct s"
  shows "mw_struct (expire_front s)"
    and "mx_events s = old # rest \<Longrightarrow> ob_timestamp_ms old < h \<Longrightarrow>
      since h (group_history (mx_groups (expire_front s)) g) = since h (group_history (mx_groups s) g)"
proof -
  have step: "suffix (group_history (mx_groups (expire_front s)) g) (of_group g rest)
      \<and> (group_history (mx_groups (expire_front s)) g = group_history (mx_groups s) g
         \<or> group_history (mx_groups s) g = old # group_history (mx_groups (expire_front s)) g)"
    if e: "mx_events s = old # rest" for g old rest
  proof -
    have suf: "suffix (group_history (mx_groups s) g) (of_group g (old # rest))"
      and seq: "\<forall>e\<in>set rest. ob_sequence old < ob_sequence e" and dist: "distinct (ob_groups old)"
      using assms e by (simp_all add: mw_struct_def)
    have h: "group_history (mx_groups (expire_front s)) g = (if g \<in> set (ob_groups old)
        then released old (group_history (mx_groups s) g) else group_history (mx_groups s) g)"
      using e release_fold_history [OF dist] by (simp add: expire_front_def)
    show ?thesis
    proof (cases "g \<in> set (ob_groups old)")
      case True
      then show ?thesis using h released_suffix [OF suf True seq] by simp
    next
      case False
      then show ?thesis using h suf by (simp add: of_group_def)
    qed
  qed
  show "mw_struct (expire_front s)"
  proof (cases "mx_events s")
    case Nil
    then show ?thesis using assms by (simp add: expire_front_def)
  next
    case (Cons old rest)
    have "hm_wf (mx_groups (expire_front s))"
      using assms release_fold_wf [of "mx_groups s"] Cons by (simp add: mw_struct_def expire_front_def)
    then show ?thesis
      using assms step [OF Cons] Cons expire_front_frame [of s]
      by (simp add: mw_struct_def expire_front_shrinks same_clock_def)
  qed
  show "since h (group_history (mx_groups (expire_front s)) g) = since h (group_history (mx_groups s) g)"
    if "mx_events s = old # rest" "ob_timestamp_ms old < h"
    using step [OF that(1), of g] that(2)
    by (metis since_def filter.simps(2) not_le)
qed

section \<open>The loops of the housekeeping\<close>

lemma expire_before_facts:
  assumes "mw_struct s"
  shows "mw_struct (expire_before h s) \<and> same_clock s (expire_before h s)
    \<and> mx_incomplete_until (expire_before h s) = mx_incomplete_until s
    \<and> (\<forall>h' g. h \<le> h' \<longrightarrow> since h' (group_history (mx_groups (expire_before h s)) g) = since h' (group_history (mx_groups s) g))"
  using assms
proof (induction h s rule: expire_before.induct)
  case (1 h s)
  show ?case
  proof (cases "mx_events s")
    case Nil
    then show ?thesis using 1 by (simp add: expire_before.simps [of h s])
  next
    case (Cons e es)
    show ?thesis
    proof (cases "ob_timestamp_ms e < h")
      case True
      have eq: "expire_before h s = expire_before h (expire_front s)"
        using Cons True by (simp add: expire_before.simps [of h s])
      have "since h' (group_history (mx_groups (expire_front s)) g) = since h' (group_history (mx_groups s) g)" if "h \<le> h'" for h' g
        using expire_front_struct(2) [OF 1(2) Cons] True that by simp
      with 1(1) [OF Cons True expire_front_struct(1) [OF 1(2)]] show ?thesis
        using expire_front_frame [of s] unfolding eq by (auto intro: same_clock_trans)
    next
      case False
      then show ?thesis using Cons 1 by (simp add: expire_before.simps [of h s])
    qed
  qed
qed

lemma expire_before_bounded: "mw_bounded s \<Longrightarrow> mw_bounded (expire_before h s)"
proof (induction h s rule: expire_before.induct)
  case (1 h s)
  then show ?case
    by (cases "mx_events s") (simp_all add: expire_before.simps [of h s] expire_front_bounded)
qed

lemma truncate_frame [simp]:
  "mx_events (mw_truncate now s) = mx_events s" "mx_groups (mw_truncate now s) = mx_groups s"
  "mw_bounded (mw_truncate now s) = mw_bounded s" "mw_struct (mw_truncate now s) = mw_struct s"
  "same_clock s (mw_truncate now s)"
  "mx_incomplete_until (mw_truncate now s) = Some (sat_add now (horizon_ms (mx_config s)))"
  by (simp_all add: mw_truncate_def mw_bounded_def mw_struct_def same_clock_def)

lemma make_space_facts:
  "(mw_bounded s \<longrightarrow> mw_bounded (make_space now s)) \<and> (mw_struct s \<longrightarrow> mw_struct (make_space now s))
   \<and> same_clock s (make_space now s)
   \<and> length (mx_events (make_space now s)) < max_events (mx_config s)
   \<and> (make_space now s = s \<or> mx_incomplete_until (make_space now s) = Some (sat_add now (horizon_ms (mx_config s))))"
proof (induction now s rule: make_space.induct)
  case (1 now s)
  let ?t = "expire_front (mw_truncate now s)"
  show ?case
  proof (cases "max_events (mx_config s) \<le> length (mx_events s)")
    case True
    have eq: "make_space now s = make_space now ?t" using True by (simp add: make_space.simps [of now s])
    have t: "same_clock s ?t" "mx_incomplete_until ?t = Some (sat_add now (horizon_ms (mx_config s)))"
      using expire_front_frame [of "mw_truncate now s"] same_clock_trans [OF truncate_frame(5)] by auto
    moreover have "mw_bounded s \<longrightarrow> mw_bounded ?t" "mw_struct s \<longrightarrow> mw_struct ?t"
      by (simp_all add: expire_front_bounded expire_front_struct)
    moreover have "mx_config ?t = mx_config s" using t(1) by (simp add: same_clock_def)
    ultimately show ?thesis unfolding eq using 1 [OF True] by (auto intro: same_clock_trans)
  next
    case False
    then show ?thesis by (simp add: make_space.simps [of now s])
  qed
qed

section \<open>Pushing an observation into its groups\<close>

lemmas group_cache = bounded_cache_evict_for [OF max_groups_pos, of _ group_rank]

lemma push_group_facts:
  assumes wf: "hm_wf (mx_groups s)"
  shows "hm_wf (mx_groups (push_group now entry g s)) \<and> same_clock s (push_group now entry g s)
    \<and> mx_events (push_group now entry g s) = mx_events s
    \<and> (length (mx_groups s) \<le> max_groups (mx_config s) \<longrightarrow>
        length (mx_groups (push_group now entry g s)) \<le> max_groups (mx_config s))
    \<and> group_history (mx_groups (push_group now entry g s)) g = group_history (mx_groups s) g @ [entry]
    \<and> (\<forall>k. k \<noteq> g \<longrightarrow> group_history (mx_groups (push_group now entry g s)) k \<in> {[], group_history (mx_groups s) k})
    \<and> (mx_incomplete_until (push_group now entry g s) = Some (sat_add now (horizon_ms (mx_config s)))
       \<or> mx_incomplete_until (push_group now entry g s) = mx_incomplete_until s
         \<and> (\<forall>k. k \<noteq> g \<longrightarrow> group_history (mx_groups (push_group now entry g s)) k = group_history (mx_groups s) k))"
proof -
  let ?cap = "max_groups (mx_config s)" and ?m = "mx_groups s"
  let ?ev = "evict_for ?cap group_rank g ?m" and ?t = "push_group now entry g s"
  let ?st = "case map_of ?m g of None \<Rightarrow> group_state_default | Some st \<Rightarrow> st"
  have same: "map_of ?ev g = map_of ?m g" by (rule bounded_cache.admit_same [OF group_cache wf])
  have kept: "map_of ?ev k = None \<or> map_of ?ev k = map_of ?m k" for k
    by (rule bounded_cache.admit_get [OF group_cache wf])
  have evicts: "oldest group_rank ?m \<noteq> None" if "?cap \<le> length ?m"
    using oldest_present [OF wf, of group_rank] that max_groups_pos [of "mx_config s"] by force
  have groups: "mx_groups ?t = hm_put g (?st\<lparr>gs_events := gs_events ?st @ [entry]\<rparr>) ?ev"
    using same evicts by (auto simp: push_group_def evict_for_def oldest_def Let_def mw_truncate_def split: option.splits)
  have until: "mx_incomplete_until ?t = Some (sat_add now (horizon_ms (mx_config s)))
      \<or> mx_incomplete_until ?t = mx_incomplete_until s \<and> ?ev = ?m"
    using evicts by (auto simp: push_group_def evict_for_def oldest_def Let_def mw_truncate_def split: option.splits)
  have own: "group_history (mx_groups ?t) g = group_history ?m g @ [entry]"
    by (simp add: group_history_def groups hm_get_put group_state_default_def split: option.split)
  have other: "group_history (mx_groups ?t) k \<in> {[], group_history ?m k}"
    "?ev = ?m \<Longrightarrow> group_history (mx_groups ?t) k = group_history ?m k" if "k \<noteq> g" for k
    using that kept [of k] by (auto simp: group_history_def groups hm_get_put)
  have frame: "same_clock s ?t" "mx_events ?t = mx_events s"
    by (auto simp: push_group_def Let_def same_clock_def mw_truncate_def split: option.split)
  have "length (mx_groups ?t) \<le> ?cap" if "length ?m \<le> ?cap"
    unfolding groups by (rule bounded_cache.insert_bounded [OF group_cache wf that])
  moreover have "hm_wf (mx_groups ?t)"
    unfolding groups by (rule hm_wf_put) (rule bounded_cache.admit_wf [OF group_cache wf])
  ultimately show ?thesis using own other frame until by blast
qed

lemma push_groups_facts:
  assumes "hm_wf (mx_groups s)" "distinct keys" "set keys \<inter> P = {}" "push_ok P entry s"
    "length (mx_groups s) \<le> max_groups (mx_config s)"
  shows "hm_wf (mx_groups (fold (push_group now entry) keys s))
    \<and> same_clock s (fold (push_group now entry) keys s)
    \<and> mx_events (fold (push_group now entry) keys s) = mx_events s
    \<and> length (mx_groups (fold (push_group now entry) keys s)) \<le> max_groups (mx_config s)
    \<and> push_ok (P \<union> set keys) entry (fold (push_group now entry) keys s)
    \<and> (mx_incomplete_until (fold (push_group now entry) keys s) = Some (sat_add now (horizon_ms (mx_config s)))
       \<or> mx_incomplete_until (fold (push_group now entry) keys s) = mx_incomplete_until s
         \<and> (\<forall>g. group_history (mx_groups (fold (push_group now entry) keys s)) g
               = group_history (mx_groups s) g @ (if g \<in> set keys then [entry] else [])))"
  using assms
proof (induction keys arbitrary: s P)
  case (Cons g keys)
  let ?t = "push_group now entry g s"
  note f = push_group_facts [OF Cons.prems(1), of now entry g]
  have cfg: "mx_config ?t = mx_config s" using f by (simp add: same_clock_def)
  have "push_ok (insert g P) entry ?t"
    unfolding push_ok_def
  proof
    fix k
    have sk: "suffix (group_history (mx_groups s) k) (of_group k (mx_events s) @ (if k \<in> P then [entry] else []))"
      using Cons.prems(4) by (simp add: push_ok_def)
    show "suffix (group_history (mx_groups ?t) k) (of_group k (mx_events ?t) @ (if k \<in> insert g P then [entry] else []))"
    proof (cases "k = g")
      case True
      then show ?thesis using f sk Cons.prems(3) by simp
    next
      case False
      then consider "group_history (mx_groups ?t) k = []"
        | "group_history (mx_groups ?t) k = group_history (mx_groups s) k" using f by blast
      moreover have "mx_events ?t = mx_events s" using f by blast
      ultimately show ?thesis using sk False by cases simp_all
    qed
  qed
  then have "hm_wf (mx_groups ?t)" "set keys \<inter> insert g P = {}" "distinct keys" "push_ok (insert g P) entry ?t"
    "length (mx_groups ?t) \<le> max_groups (mx_config ?t)"
    using f Cons.prems cfg by auto
  note ih = Cons.IH [OF this(1,3,2,4,5)]
  have "insert g P \<union> set keys = P \<union> set (g # keys)" by auto
  moreover have "mx_incomplete_until (fold (push_group now entry) (g # keys) s) = Some (sat_add now (horizon_ms (mx_config s)))
       \<or> mx_incomplete_until (fold (push_group now entry) (g # keys) s) = mx_incomplete_until s
         \<and> (\<forall>k. group_history (mx_groups (fold (push_group now entry) (g # keys) s)) k
               = group_history (mx_groups s) k @ (if k \<in> set (g # keys) then [entry] else []))"
    using ih f cfg Cons.prems(2) by (auto split: if_splits)
  ultimately show ?case using ih f cfg by (auto intro: same_clock_trans)
qed (simp add: push_ok_def)

lemma push_groups_bounded:
  assumes "hm_wf (mx_groups s)" "length (mx_groups s) \<le> max_groups (mx_config s)"
  shows "hm_wf (mx_groups (fold (push_group now entry) keys s))
    \<and> same_clock s (fold (push_group now entry) keys s)
    \<and> mx_events (fold (push_group now entry) keys s) = mx_events s
    \<and> length (mx_groups (fold (push_group now entry) keys s)) \<le> max_groups (mx_config s)"
  using assms
proof (induction keys arbitrary: s)
  case (Cons g keys)
  note f = push_group_facts [OF Cons.prems(1), of now entry g]
  then have "mx_config (push_group now entry g s) = mx_config s" by (simp add: same_clock_def)
  with f Cons.IH [of "push_group now entry g s"] Cons.prems show ?case by (auto intro: same_clock_trans)
qed simp

section \<open>Recording, and scoring the groups\<close>

lemma record_bounded:
  assumes "mw_bounded s"
  shows "mw_bounded (record_observation now event included s)
    \<and> mx_config (record_observation now event included s) = mx_config s
    \<and> mx_sensor (record_observation now event included s) = mx_sensor s"
proof (cases "included \<noteq> [] \<and> fe_action event \<in> {Modify, Create, Delete, Rename}")
  case True
  let ?s1 = "make_space now s"
  let ?s2 = "?s1\<lparr>mx_sequence := sat_add (mx_sequence ?s1) 1\<rparr>"
  let ?entry = "observation_of (mx_config ?s2) (mx_sequence ?s2) now event included"
  note m = make_space_facts [of s now]
  have s2: "hm_wf (mx_groups ?s2)" "length (mx_groups ?s2) \<le> max_groups (mx_config ?s2)"
    using m assms by (simp_all add: mw_bounded_def)
  show ?thesis using True push_groups_bounded [OF s2, of now ?entry included] m
    by (simp add: record_observation_def Let_def mw_bounded_def same_clock_def)
next
  case False
  then show ?thesis using assms by (auto simp: record_observation_def)
qed

lemma evaluate_window_events: "gs_events (fst (evaluate_window sensor now g w p)) = gs_events (fst p)"
  by (cases p) (simp add: evaluate_window_def Let_def)

lemma evaluate_windows_events:
  "gs_events (fst (fold (evaluate_window sensor now g) ws p)) = gs_events (fst p)"
  by (induction ws arbitrary: p) (auto simp: evaluate_window_events)

lemma same_histories_refl [simp]: "same_histories s s"
  by (simp add: same_histories_def)

lemma same_histories_trans: "same_histories s t \<Longrightarrow> same_histories t u \<Longrightarrow> same_histories s u"
  by (auto simp: same_histories_def intro: same_clock_trans)

lemma same_histories_bounded: "same_histories s t \<Longrightarrow> mw_bounded s \<Longrightarrow> mw_bounded t"
  by (simp add: same_histories_def mw_bounded_def same_clock_def)

lemma same_histories_struct: "same_histories s t \<Longrightarrow> mw_struct s \<Longrightarrow> mw_struct t"
  by (simp add: same_histories_def mw_struct_def same_clock_def)

lemma same_histories_exact: "same_histories s t \<Longrightarrow> exact_for hist s \<Longrightarrow> exact_for hist t"
  by (simp add: same_histories_def exact_for_def same_clock_def)

lemma evaluate_group_same: "same_histories (fst p) (fst (evaluate_group now g p))"
proof -
  obtain s out where p: "p = (s, out)" by fastforce
  show ?thesis
  proof (cases "map_of (mx_groups s) g")
    case None
    then show ?thesis by (simp add: p evaluate_group_def)
  next
    case (Some state)
    obtain st' out' where f: "fold (evaluate_window (mx_sensor s) now g)
        (take 8 (mw_windows (dc_multi_window (mx_config s)))) (state, out) = (st', out')" by fastforce
    then have "gs_events st' = gs_events state"
      using evaluate_windows_events [of "mx_sensor s" now g _ "(state, out)"] by (metis fst_conv)
    then have "group_history (hm_put g st' (mx_groups s)) = group_history (mx_groups s)"
      using Some by (auto simp: group_history_def hm_get_put)
    then show ?thesis using Some f
      by (simp add: p evaluate_group_def same_histories_def same_clock_def hm_len_put hm_wf_put)
  qed
qed

lemma evaluate_groups_same: "same_histories (fst p) (fst (fold (evaluate_group now) gs p))"
proof (induction gs arbitrary: p)
  case (Cons g gs)
  show ?case using same_histories_trans [OF evaluate_group_same [of p now g] Cons.IH] by simp
qed simp

section \<open>Bounded memory\<close>

lemma advance_bounded: "mw_bounded s \<Longrightarrow> mw_bounded (advance e s)"
  unfolding advance_def Let_def by (rule expire_before_bounded) (simp add: mw_bounded_def)

lemma mw_evaluate_bounded: "mw_bounded s \<Longrightarrow> mw_bounded (fst (mw_evaluate e rules s))"
  using advance_bounded [of s e] record_bounded [of "advance e s"]
    same_histories_bounded [OF evaluate_groups_same]
  by (simp add: mw_evaluate_def Let_def)

lemma multi_new_bounded: "mw_bounded (multi_window_new config sensor)"
  by (simp add: mw_bounded_def multi_window_new_def)

interpretation multi_run: invariant_system "multi_window_new config sensor"
  "\<lambda>(e, rules) s. fst (mw_evaluate e rules s)" mw_bounded
  by unfold_locales (auto simp: multi_new_bounded mw_evaluate_bounded)

lemma expire_before_frame: "mx_config (expire_before h s) = mx_config s \<and> mx_sensor (expire_before h s) = mx_sensor s"
proof (induction h s rule: expire_before.induct)
  case (1 h s)
  then show ?case using expire_front_frame [of s]
    by (cases "mx_events s") (simp_all add: expire_before.simps [of h s] same_clock_def)
qed

lemma mw_evaluate_config: "mw_bounded s \<Longrightarrow> mx_config (fst (mw_evaluate e rules s)) = mx_config s"
proof -
  assume b: "mw_bounded s"
  have a: "mx_config (advance e s) = mx_config s"
    by (simp add: advance_def Let_def expire_before_frame)
  have "mx_config (fst (fold (evaluate_group now) gs p)) = mx_config (fst p)" for now gs p
    using evaluate_groups_same [of p now gs] by (simp add: same_histories_def same_clock_def)
  then show ?thesis using a record_bounded [OF advance_bounded [OF b]]
    by (simp add: mw_evaluate_def Let_def mw_truncate_def)
qed

lemma run_multi_config:
  "mw_bounded s \<Longrightarrow> mx_config (run_multi es s) = mx_config s"
proof (induction es arbitrary: s)
  case (Cons e es)
  then show ?case
    using mw_evaluate_bounded [of s] mw_evaluate_config [of s] by (cases e) (simp add: run_multi_def)
qed (simp add: run_multi_def)

text \<open>
  Whatever sequence of events is evaluated, the multi-window scorer holds at most the
  configured number of observations (never more than 100000) and of groups (never more than
  16384), one state per group.
\<close>

theorem multi_window_memory_bounded:
  "let s = run_multi es (multi_window_new config sensor) in
     length (mx_events s) \<le> max_events config \<and> length (mx_groups s) \<le> max_groups config
     \<and> hm_wf (mx_groups s) \<and> max_events config \<le> 100000 \<and> max_groups config \<le> 16384"
proof -
  have "mw_bounded (run_multi es (multi_window_new config sensor))"
    unfolding run_multi_def by (rule multi_run.invar_run)
  moreover have "mx_config (run_multi es (multi_window_new config sensor)) = config"
    using run_multi_config [OF multi_new_bounded] by (simp add: multi_window_new_def)
  ultimately show ?thesis by (simp add: mw_bounded_def Let_def max_events_le max_groups_le)
qed

section \<open>Evidence that is not reported as truncated is exact\<close>

lemma group_keys_distinct: "distinct (included_keys config event rules)"
  by (simp add: included_keys_def group_keys_def Let_def)

lemma since_truncated:
  assumes "\<not> truncated_at (Some (sat_add now h)) T" "\<forall>e\<in>set es. ob_timestamp_ms e \<le> now"
  shows "since (sat_sub T h) es = []"
proof -
  have "unat (sat_add now h) < unat T" using assms(1) by (simp add: truncated_at_def word_less_nat_alt not_le)
  then have "unat now + unat h < unat T"
    using unat_lt64 [of T] by (simp add: unat_sat_add min_def split: if_splits)
  then have "now < sat_sub T h" by (simp add: word_less_nat_alt unat_sat_sub)
  then have "\<not> sat_sub T h \<le> ob_timestamp_ms e" if "e \<in> set es" for e
    using assms(2) that by fastforce
  then show ?thesis by (simp add: since_def filter_empty_conv)
qed

lemma since_append: "since h (xs @ ys) = since h xs @ since h ys"
  by (simp add: since_def)

lemma history_in_events:
  "mw_struct s \<Longrightarrow> set (group_history (mx_groups s) g) \<subseteq> set (mx_events s)"
  using set_mono_suffix [of "group_history (mx_groups s) g" "of_group g (mx_events s)"]
  by (auto simp: mw_struct_def of_group_def)

lemma record_facts:
  assumes "mw_bounded s" "mw_struct s" "mx_watermark s = now" "unat (mx_sequence s) < 2 ^ 64 - 1"
    "distinct included" "r = record_observation now event included s"
  shows "mw_struct r \<and> mx_watermark r = now \<and> unat (mx_sequence r) \<le> Suc (unat (mx_sequence s))
    \<and> (mx_incomplete_until r = Some (sat_add now (horizon_ms (mx_config s)))
       \<or> mx_incomplete_until r = mx_incomplete_until s
         \<and> (\<forall>g. map unseq (group_history (mx_groups r) g) = map unseq (group_history (mx_groups s) g)
             @ (if g \<in> set included \<and> fe_action event \<in> {Modify, Create, Delete, Rename}
                then [observation_of (mx_config s) 0 now event included] else [])))"
proof (cases "included \<noteq> [] \<and> fe_action event \<in> {Modify, Create, Delete, Rename}")
  case True
  define s1 where "s1 = make_space now s"
  define s2 where "s2 = s1\<lparr>mx_sequence := sat_add (mx_sequence s1) 1\<rparr>"
  define entry where "entry = observation_of (mx_config s2) (mx_sequence s2) now event included"
  define s3 where "s3 = fold (push_group now entry) included s2"
  have r: "r = s3\<lparr>mx_events := mx_events s3 @ [entry]\<rparr>"
    using True by (simp add: assms(6) record_observation_def Let_def s1_def s2_def s3_def entry_def)
  have m: "mw_bounded s1" "mw_struct s1" "same_clock s s1"
    "s1 = s \<or> mx_incomplete_until s1 = Some (sat_add now (horizon_ms (mx_config s)))"
    using make_space_facts [of s now] assms(1,2) by (auto simp: s1_def)
  have cfg: "mx_config s2 = mx_config s" "mx_watermark s2 = now"
    using m(3) assms(3) by (simp_all add: s2_def same_clock_def)
  have seq: "unat (mx_sequence s2) = Suc (unat (mx_sequence s1))" "mx_sequence s1 = mx_sequence s"
    using assms(4) m(3) by (simp_all add: s2_def unat_sat_add same_clock_def)
  have ok: "push_ok {} entry s2" using m(2) by (simp add: push_ok_def s2_def mw_struct_def)
  have "hm_wf (mx_groups s2)" "length (mx_groups s2) \<le> max_groups (mx_config s2)"
    using m(1) by (simp_all add: s2_def mw_bounded_def)
  note f = push_groups_facts [OF this(1) assms(5) _ ok this(2), of now, folded s3_def, simplified]
  have old: "ob_sequence e < mx_sequence s2 \<and> ob_timestamp_ms e \<le> now \<and> distinct (ob_groups e)" if "e \<in> set (mx_events s2)" for e
    using that m(2) seq cfg(2) assms(3) by (auto simp: s2_def mw_struct_def word_less_nat_alt word_le_nat_alt)
  have ev: "mx_events s3 = mx_events s2" "mx_sequence s3 = mx_sequence s2" "mx_watermark s3 = now"
    using f cfg by (simp_all add: same_clock_def)
  have "suffix (group_history (mx_groups r) g) (of_group g (mx_events r))" for g
    using f ev by (auto simp: r push_ok_def of_group_def entry_def observation_of_def split: if_splits)
  moreover have "sorted_wrt (\<lambda>a b. ob_sequence a < ob_sequence b) (mx_events r)"
    using m(2) old ev by (simp add: r sorted_wrt_append s2_def mw_struct_def entry_def observation_of_def)
  moreover have "ob_sequence e \<le> mx_sequence r \<and> ob_timestamp_ms e \<le> mx_watermark r \<and> distinct (ob_groups e)"
    if "e \<in> set (mx_events r)" for e
    using that old [of e] ev assms(5) by (auto simp: r entry_def observation_of_def)
  ultimately have "mw_struct r" using f by (simp add: mw_struct_def r)
  moreover have "unseq entry = observation_of (mx_config s) 0 now event included"
    by (simp add: unseq_def entry_def observation_of_def cfg)
  moreover have "mx_incomplete_until s2 = mx_incomplete_until s1" "mx_groups s2 = mx_groups s1" by (simp_all add: s2_def)
  ultimately show ?thesis using f m(4) ev seq cfg True by (auto simp: r)
next
  case False
  then show ?thesis using assms by (auto simp: assms(6) record_observation_def)
qed

lemma spec_history_append:
  "spec_history config (hist @ [(e, rules)]) g = spec_history config hist g
     @ (if g \<in> set (included_keys config e rules) \<and> fe_action e \<in> {Modify, Create, Delete, Rename}
        then [observation_of config 0 (fe_timestamp_ms e) e (included_keys config e rules)] else [])"
  by (simp add: spec_history_def of_group_def spec_observation_def observation_of_def)

lemma spec_history_time:
  assumes "\<forall>(e, _)\<in>set hist. fe_timestamp_ms e \<le> now"
  shows "\<forall>ob\<in>set (spec_history config hist g). ob_timestamp_ms ob \<le> now"
  using assms by (auto simp: spec_history_def of_group_def spec_observation_def observation_of_def)

lemma exact_when_truncated:
  assumes "mw_struct s" "mx_incomplete_until s = Some (sat_add (mx_watermark s) (horizon_ms (mx_config s)))"
    "\<forall>(e, _)\<in>set hist. fe_timestamp_ms e \<le> mx_watermark s"
  shows "exact_for hist s"
  unfolding exact_for_def
proof (intro allI impI)
  fix T g assume t: "\<not> truncated_at (mx_incomplete_until s) T"
  have "\<forall>e\<in>set (group_history (mx_groups s) g). ob_timestamp_ms e \<le> mx_watermark s"
    using assms(1) history_in_events [OF assms(1), of g] by (auto simp: mw_struct_def)
  then show "map unseq (since (sat_sub T (horizon_ms (mx_config s))) (group_history (mx_groups s) g))
        = since (sat_sub T (horizon_ms (mx_config s))) (spec_history (mx_config s) hist g)"
    using since_truncated [of "mx_watermark s" "horizon_ms (mx_config s)" T] t assms(2) spec_history_time [OF assms(3)] by simp
qed

lemma advance_facts:
  assumes "mw_struct s"
  shows "mw_struct (advance e s)" "mx_watermark (advance e s) = max (mx_watermark s) (fe_timestamp_ms e)"
    "mx_config (advance e s) = mx_config s" "mx_sequence (advance e s) = mx_sequence s"
    "exact_for hist s \<Longrightarrow> exact_for hist (advance e s)"
proof -
  let ?now = "max (mx_watermark s) (fe_timestamp_ms e)"
  let ?s = "s\<lparr>mx_watermark := ?now\<rparr>" and ?h = "sat_sub ?now (horizon_ms (mx_config s))"
  have st: "mw_struct ?s" using assms by (auto simp: mw_struct_def max.coboundedI1)
  note f = expire_before_facts [OF st, of ?h]
  have adv: "advance e s = expire_before ?h ?s" by (simp add: advance_def Let_def)
  then show "mw_struct (advance e s)" "mx_watermark (advance e s) = ?now"
    "mx_config (advance e s) = mx_config s" "mx_sequence (advance e s) = mx_sequence s"
    using f by (simp_all add: same_clock_def)
  assume ex: "exact_for hist s"
  have "map unseq (since (sat_sub T (horizon_ms (mx_config s))) (group_history (mx_groups (advance e s)) g))
      = since (sat_sub T (horizon_ms (mx_config s))) (spec_history (mx_config s) hist g)"
    if T: "?now \<le> T" "\<not> truncated_at (mx_incomplete_until s) T" for T g
  proof -
    have "?h \<le> sat_sub T (horizon_ms (mx_config s))" using T(1) by (rule sat_sub_mono)
    then have "since (sat_sub T (horizon_ms (mx_config s))) (group_history (mx_groups (advance e s)) g)
      = since (sat_sub T (horizon_ms (mx_config s))) (group_history (mx_groups s) g)" using f adv by simp
    moreover have "mx_watermark s \<le> T" using T(1) by simp
    ultimately show ?thesis using ex T(2) by (simp add: exact_for_def)
  qed
  then show "exact_for hist (advance e s)" using f adv by (simp add: exact_for_def same_clock_def)
qed

lemma mw_evaluate_refines:
  assumes ref: "mw_refines config hist s" and en: "mw_enabled (dc_multi_window config)"
    and len: "length hist < 2 ^ 64 - 1"
  shows "mw_refines config (hist @ [(e, rules)]) (fst (mw_evaluate e rules s))"
proof -
  let ?now = "max (mx_watermark s) (fe_timestamp_ms e)" and ?hist = "hist @ [(e, rules)]"
  define s1 where "s1 = advance e s"
  have inv: "mx_config s = config" "mw_bounded s" "mw_struct s" "exact_for hist s"
    "unat (mx_sequence s) \<le> length hist" "\<forall>(e, _)\<in>set hist. fe_timestamp_ms e \<le> mx_watermark s"
    using ref by (simp_all add: mw_refines_def)
  have s1: "mw_struct s1" "mx_watermark s1 = ?now" "mx_config s1 = config"
    "mx_sequence s1 = mx_sequence s" "exact_for hist s1" "mw_bounded s1"
    using advance_facts [OF inv(3)] inv advance_bounded by (simp_all add: s1_def)
  have time: "\<forall>(e, _)\<in>set ?hist. fe_timestamp_ms e \<le> ?now" using inv(6) by (auto simp: max.coboundedI1)
  show ?thesis
  proof (cases "late_or_unusable ?now e config")
    case True
    then have st: "fst (mw_evaluate e rules s) = mw_truncate ?now s1"
      using en inv(1) s1(3) by (simp add: mw_evaluate_def Let_def s1_def)
    have "exact_for ?hist (mw_truncate ?now s1)"
      by (rule exact_when_truncated) (use s1 time in \<open>simp_all add: mw_truncate_def mw_struct_def\<close>)
    then show ?thesis
      unfolding mw_refines_def st using s1 inv(5) time truncate_frame(3,4) [of ?now s1]
      by (simp add: mw_truncate_def)
  next
    case False
    then have now: "?now = fe_timestamp_ms e" by (auto simp: late_or_unusable_def max_def)
    let ?inc = "included_keys config e rules"
    define r where "r = record_observation ?now e ?inc s1"
    define out where "out = multi_outcome_default \<lparr>mo_truncated := truncated_at (mx_incomplete_until r) ?now,
       mo_approval_applied := length ?inc < length (group_keys config e)\<rparr>"
    have st: "fst (mw_evaluate e rules s) = fst (fold (evaluate_group ?now) (group_keys config e) (r, out))"
      using False en inv(1) s1(3) by (simp add: mw_evaluate_def Let_def s1_def [symmetric] r_def out_def)
    have lt: "unat (mx_sequence s1) < 2 ^ 64 - 1" using s1(4) inv(5) len by simp
    note f = record_facts [OF s1(6,1,2) lt group_keys_distinct r_def]
    have rc: "mx_config r = config" "mw_bounded r"
      using record_bounded [OF s1(6)] s1(3) by (simp_all add: r_def)
    have "exact_for ?hist r"
    proof (cases "mx_incomplete_until r = Some (sat_add ?now (horizon_ms config))")
      case True
      then show ?thesis using f rc time by (intro exact_when_truncated) auto
    next
      case False
      then have "mx_incomplete_until r = mx_incomplete_until s1"
        "\<And>g. map unseq (group_history (mx_groups r) g) = map unseq (group_history (mx_groups s1) g)
             @ (if g \<in> set ?inc \<and> fe_action e \<in> {Modify, Create, Delete, Rename}
                then [observation_of config 0 ?now e ?inc] else [])"
        using f s1(3) by auto
      moreover have "map unseq (since h es) = since h (map unseq es)" for h es
        by (induction es) (simp_all add: since_def unseq_def)
      moreover have "mx_watermark r = fe_timestamp_ms e" using f now by simp
      ultimately show ?thesis
        using s1(5,2,3) rc now by (simp add: exact_for_def since_append spec_history_append) blast
    qed
    then have "mw_refines config ?hist r"
      using f rc s1(4) inv(5) time by (simp add: mw_refines_def)
    then show ?thesis
      using evaluate_groups_same [of "(r, out)" ?now "group_keys config e"]
        same_histories_bounded same_histories_struct same_histories_exact
      unfolding st mw_refines_def by (simp add: same_histories_def same_clock_def) blast
  qed
qed

lemma run_multi_refines:
  assumes "mw_enabled (dc_multi_window config)" "length hist < 2 ^ 64"
  shows "mw_refines config hist (run_multi hist (multi_window_new config sensor))"
  using assms(2)
proof (induction hist rule: rev_induct)
  case Nil
  show ?case
    by (simp add: run_multi_def mw_refines_def multi_window_new_def mw_bounded_def mw_struct_def
        exact_for_def group_history_def spec_history_def of_group_def since_def)
next
  case (snoc x hist)
  obtain e rules where x: "x = (e, rules)" by fastforce
  have "mw_refines config hist (run_multi hist (multi_window_new config sensor))" using snoc by simp
  then show ?case using mw_evaluate_refines [OF _ assms(1), of hist _ e rules] snoc(2) x
    by (simp add: run_multi_def)
qed

lemma window_le_horizon:
  assumes "w \<in> set (mw_windows (dc_multi_window config))"
  shows "sat_mul (dw_window_secs w) 1000 \<le> horizon_ms config"
proof -
  have base: "z \<le> fold max xs z" for z :: u64 and xs
    by (induction xs arbitrary: z) (simp, metis fold_simps(2) max.bounded_iff)
  have "x \<in> set xs \<Longrightarrow> x \<le> fold max xs z" for x z :: u64 and xs
  proof (induction xs arbitrary: z)
    case (Cons y ys)
    then show ?case using base [of "max y z" ys] by auto
  qed simp
  then show ?thesis using assms by (simp add: horizon_ms_def)
qed

lemma in_window_since:
  assumes "width \<le> h"
  shows "in_window now width es = in_window now width (since (sat_sub now h) es)"
proof -
  have "sat_sub now h \<le> sat_sub now width" using assms by (simp add: word_le_nat_alt unat_sat_sub)
  then show ?thesis by (auto simp: in_window_def since_def intro!: filter_cong)
qed

text \<open>
  C4: as long as the scorer does not report truncated evidence, what a group holds in a configured
  window is exactly what the whole history of events says about that group: limits, evictions,
  late events and expiry never distort a score that is presented as complete.
\<close>

theorem multi_window_evidence_exact:
  assumes "mw_enabled (dc_multi_window config)" "length hist < 2 ^ 64"
    and "s = run_multi hist (multi_window_new config sensor)"
    and "\<not> truncated_at (mx_incomplete_until s) (mx_watermark s)"
    and "w \<in> set (mw_windows (dc_multi_window config))" "width = sat_mul (dw_window_secs w) 1000"
  shows "map unseq (in_window (mx_watermark s) width (group_history (mx_groups s) g))
    = in_window (mx_watermark s) width (spec_history config hist g)"
proof -
  have r: "mw_refines config hist s" using run_multi_refines [OF assms(1,2)] assms(3) by simp
  let ?h = "sat_sub (mx_watermark s) (horizon_ms config)"
  have "map unseq (since ?h (group_history (mx_groups s) g)) = since ?h (spec_history config hist g)"
    using r assms(4) by (auto simp: mw_refines_def exact_for_def)
  moreover have "map unseq (in_window n width es) = in_window n width (map unseq es)" for n es
    by (induction es) (simp_all add: in_window_def unseq_def)
  ultimately show ?thesis
    using in_window_since [OF window_le_horizon [OF assms(5)], of "mx_watermark s"] assms(6) by metis
qed

section \<open>What an evaluation may claim\<close>

lemma rules_differ: "USER_RULE \<noteq> INSTANCE_RULE" "PATH_RULE \<noteq> INSTANCE_RULE" "ANCESTOR_RULE \<noteq> INSTANCE_RULE"
  by (simp_all add: INSTANCE_RULE_def USER_RULE_def PATH_RULE_def ANCESTOR_RULE_def)

lemma group_keys_own: "g \<in> set (group_keys config event) \<Longrightarrow> own_key event g"
  by (auto simp: group_keys_def own_key_def root_groups_def ancestor_groups_def Let_def
      split: option.splits if_splits)

lemma group_alert_ok: "own_key event g \<Longrightarrow> alert_ok event (group_alert now g w es sc t)"
  by (cases g) (auto simp: alert_ok_def group_alert_def Let_def rules_differ alert_pid_def own_key_def)

lemma raise_facts [simp]:
  "mo_alerts (raise_instance_score g sc out) = mo_alerts out"
  "mo_truncated (raise_instance_score g sc out) = mo_truncated out"
  "mo_truncated out \<Longrightarrow> raise_instance_score g sc out = out"
  by (cases g; simp add: raise_instance_score_def)+

lemma evaluate_window_ok:
  "own_key event g \<Longrightarrow> outcome_ok event (snd p) \<Longrightarrow> outcome_ok event (snd (evaluate_window sensor now g w p))"
  by (cases p) (auto simp: evaluate_window_def outcome_ok_def Let_def group_alert_ok)

lemma evaluate_windows_ok:
  "own_key event g \<Longrightarrow> outcome_ok event (snd p) \<Longrightarrow> outcome_ok event (snd (fold (evaluate_window sensor now g) ws p))"
  by (induction ws arbitrary: p) (auto simp: evaluate_window_ok)

lemma evaluate_group_ok:
  assumes "own_key event g" "outcome_ok event (snd p)"
  shows "outcome_ok event (snd (evaluate_group now g p))"
proof -
  obtain s out where p: "p = (s, out)" by fastforce
  show ?thesis
  proof (cases "map_of (mx_groups s) g")
    case None
    then show ?thesis using assms by (simp add: p evaluate_group_def)
  next
    case (Some st)
    then show ?thesis
      using evaluate_windows_ok [OF assms(1), of "(st, out)" "mx_sensor s" now] assms(2)
      by (simp add: p evaluate_group_def split: prod.split) (metis snd_conv)
  qed
qed

lemma evaluate_groups_ok:
  "\<forall>g\<in>set gs. own_key event g \<Longrightarrow> outcome_ok event (snd p) \<Longrightarrow> outcome_ok event (snd (fold (evaluate_group now) gs p))"
  by (induction gs arbitrary: p) (auto simp: evaluate_group_ok)

lemma mw_outcome_ok: "outcome_ok event (snd (mw_evaluate event rules s))"
  using evaluate_groups_ok [of _ event] group_keys_own
  by (simp add: mw_evaluate_def Let_def outcome_ok_def multi_outcome_default_def)

text \<open>
  An alert of an aggregate (user, protected path, ancestor) names no process, an alert of a
  process instance names the process of the event; and truncated evidence never yields an
  instance score, so it can not make a process eligible for a response.
\<close>

theorem multi_window_aggregates_accuse_nobody:
  "case mw_evaluate event rules s of (s', out) \<Rightarrow>
     list_all (\<lambda>d. if d_rule d = INSTANCE_RULE then d_pid d = fe_pid event else d_pid d = 0) (mo_alerts out)
     \<and> (mo_instance_score out = None \<or> mo_truncated out = False)"
  using mw_outcome_ok [of event rules s] by (auto simp: outcome_ok_def alert_ok_def list_all_iff split: prod.split)

section \<open>The range of the group score\<close>

lemma obs_high_le: "length (obs_high es) \<le> length (obs_paths es)"
proof -
  have "card (ob_path ` {e \<in> set es. ob_action e = Modify \<and> ob_encrypted e}) \<le> card (ob_path ` set es)"
    by (intro card_mono) auto
  then show ?thesis by (simp add: obs_high_def obs_paths_def length_remdups_card_conv)
qed

lemma obs_churn_le: "obs_churn es \<le> length es"
  by (simp add: obs_churn_def)

lemma obs_paths_le: "length (obs_paths es) \<le> length es"
  by (simp add: obs_paths_def) (metis length_map length_remdups_leq)

lemma obs_paths_Nil: "obs_paths es = [] \<longleftrightarrow> es = []"
  by (simp add: obs_paths_def) (metis length_0_conv length_sort map_is_Nil_conv remdups_eq_nil_iff)

lemma group_score_in:
  assumes "selected \<noteq> []" "length selected < 2 ^ 64"
  shows "f_in 0 100 (group_score sensor window selected)"
proof -
  let ?n = "length (obs_paths selected)"
  let ?w = "if sensor = Fanotify then 60 else 35 :: nat"
  let ?c = "if sensor = Notify then 25 else 0 :: nat"
  have n: "0 < ?n" "?n < 2 ^ 64" using assms obs_paths_Nil [of selected] obs_paths_le [of selected] by auto
  have mass: "f_in 0 (of_nat 40) (mass_score ?n (dw_mass_change_threshold window))"
    using mass_score_in [OF n(2)] by simp
  have "f_in 0 1 (f_div (f64_of_nat (length (obs_high selected))) (f64_of_nat ?n))"
    by (rule f_div_nat_ratio [OF obs_high_le n])
  from f_in_scale [OF this, of ?w]
  have ent: "f_in 0 (of_nat ?w) (f_mul (f_div (f64_of_nat (length (obs_high selected))) (f64_of_nat ?n))
      (if sensor = Fanotify then Fin 60 else Fin 35))" by (auto split: if_splits)
  have "f_in 0 1 (f_div (f64_of_nat (obs_churn selected)) (f64_of_nat (length selected)))"
    by (rule f_div_nat_ratio [OF obs_churn_le]) (use assms in simp_all)
  from f_in_scale [OF this, of 25]
  have churn: "f_in 0 (of_nat ?c) (if sensor = Notify
      then f_mul (f_div (f64_of_nat (obs_churn selected)) (f64_of_nat (length selected))) (Fin 25) else Fin 0)"
    by simp
  have "f_in 0 (of_nat (40 + ?w)) (f_add (mass_score ?n (dw_mass_change_threshold window))
     (f_mul (f_div (f64_of_nat (length (obs_high selected))) (f64_of_nat ?n))
      (if sensor = Fanotify then Fin 60 else Fin 35)))"
    by (rule f_in_add [OF mass ent]) simp
  from f_in_add [OF this churn] have "f_in 0 (of_nat (40 + ?w + ?c)) (f_add (f_add (mass_score ?n (dw_mass_change_threshold window))
     (f_mul (f_div (f64_of_nat (length (obs_high selected))) (f64_of_nat ?n))
      (if sensor = Fanotify then Fin 60 else Fin 35))) (if sensor = Notify
      then f_mul (f_div (f64_of_nat (obs_churn selected)) (f64_of_nat (length selected))) (Fin 25) else Fin 0))"
    by simp
  then show ?thesis unfolding group_score_def Let_def
    by (intro f_in_min) (auto simp: f_in_def)
qed

section \<open>Concrete inputs\<close>

definition multi_config :: detection_config where
  "multi_config =
     \<lparr>dc_window_secs = 10, dc_mass_change_threshold = 30, dc_min_changed_files = 5,
      dc_entropy_threshold = Fin 7, dc_detect_score = Fin 40,
      dc_entropy_sample_bytes = 65536, dc_exclude_paths = [], dc_approved_changes = [],
      dc_canary_paths = [],
      dc_multi_window = multi_window_config_default\<lparr>mw_enabled := True, mw_windows := [detection_window_default]\<rparr>,
      dc_content_sampling = content_sampling_config_default\<rparr>"

definition multi_history :: "(file_event \<times> string list) list" where
  "multi_history = [(demo_event 20 42 7 ''/srv/a'', [])]"

section \<open>Witnesses\<close>

lemma multi_history_state:
  "(\<lambda>s. (mx_incomplete_until s, mx_watermark s)) (run_multi multi_history (multi_window_new multi_config Notify))
   = (None, 20)"
  by code_simp

lemmas multi_history_complete = multi_history_state [simplified, THEN conjunct1]
  multi_history_state [simplified, THEN conjunct2]

theorem multi_window_evidence_exact_witness:
  "map ob_path (in_window 20 10000 (group_history
     (mx_groups (run_multi multi_history (multi_window_new multi_config Notify))) (Instance (42, 7, ''boot-a''))))
   = [''/srv/a'']"
proof -
  let ?s = "run_multi multi_history (multi_window_new multi_config Notify)"
  have "map unseq (in_window (mx_watermark ?s) 10000 (group_history (mx_groups ?s) (Instance (42, 7, ''boot-a''))))
    = in_window (mx_watermark ?s) 10000 (spec_history multi_config multi_history (Instance (42, 7, ''boot-a'')))"
  proof (rule multi_window_evidence_exact [where w = detection_window_default, OF _ _ refl])
    show "\<not> truncated_at (mx_incomplete_until ?s) (mx_watermark ?s)"
      by (simp add: multi_history_complete truncated_at_def)
  qed (simp_all add: multi_history_def multi_config_def multi_window_config_default_def
        detection_config_default_def detection_window_default_def sat_mul_def)
  moreover have "map ob_path (in_window 20 10000 (spec_history multi_config multi_history (Instance (42, 7, ''boot-a'')))) = [''/srv/a'']"
    by code_simp
  moreover have "map ob_path (map unseq es) = map ob_path es" for es by (simp add: unseq_def)
  ultimately show ?thesis using multi_history_complete(2) by metis
qed

end
