(* ===== verification/Detect_Engine.thy ===== *)
theory Detect_Engine
  imports Detect_Multi_Window
begin

text \<open>
  \<^verbatim>\<open>argos-detect/src/lib.rs\<close>: the detection engine, which combines the behaviour scorer, the
  multi-window scorer, the excluded paths, the approved changes and the canary files, and the
  check of a configuration before it is used.  Messages are constructors.
\<close>

section \<open>The engine\<close>

definition BEHAVIOR_RULE :: string where
  "BEHAVIOR_RULE = ''behavior.ransomware_pattern''"

definition CANARY_RULE :: string where
  "CANARY_RULE = ''behavior.canary_tamper''"

type_synonym canary_identity = "pid \<times> (u64 \<times> string) option \<times> string"

record detection_engine =
  de_scorer :: behavior_scorer
  de_config :: detection_config
  de_last_canary_emit :: "(canary_identity, u64) hmap"
  de_multi_window :: multi_window_scorer

definition engine_with_sensor :: "detection_config \<Rightarrow> sensor_kind \<Rightarrow> detection_engine" where
  "engine_with_sensor config sensor =
     \<lparr>de_scorer = scorer_with_sensor config sensor, de_config = config,
      de_last_canary_emit = [], de_multi_window = multi_window_new config sensor\<rparr>"

definition engine_new :: "detection_config \<Rightarrow> detection_engine" where
  "engine_new config = engine_with_sensor config Notify"

definition is_excluded :: "detection_config \<Rightarrow> path \<Rightarrow> bool" where
  "is_excluded config p = list_ex (path_starts_with p) (dc_exclude_paths config)"

definition approved_event :: "approved_change \<Rightarrow> file_event \<Rightarrow> bool" where
  "approved_event change event =
     (case fe_process event of
        None \<Rightarrow> False
      | Some process \<Rightarrow>
          fe_pid event \<noteq> 0
          \<and> fp_start_time_ticks process \<noteq> 0
          \<and> \<not> blank_str (fp_boot_id process)
          \<and> ac_valid_from_ms change \<le> fe_timestamp_ms event
          \<and> fe_timestamp_ms event < ac_valid_until_ms change
          \<and> fp_uid process = ac_uid change
          \<and> path_eq (fp_exe process) (ac_exe change)
          \<and> absolute_clean_path (fe_path event)
          \<and> list_ex (path_starts_with (fe_path event)) (ac_paths change))"

definition approval_for :: "detection_config \<Rightarrow> file_event \<Rightarrow> approved_change option" where
  "approval_for config event = find (\<lambda>change. approved_event change event) (dc_approved_changes config)"

text \<open>An event outside the excluded paths: both scorers see it.\<close>

definition legacy_approval :: "approved_change option \<Rightarrow> string option" where
  "legacy_approval approval =
     (case approval of None \<Rightarrow> None
      | Some change \<Rightarrow> if BEHAVIOR_RULE \<in> set (ac_adjusted_rules change) then Some (ac_id change) else None)"

definition adjusted_by :: "approved_change option \<Rightarrow> string list" where
  "adjusted_by approval = (case approval of None \<Rightarrow> [] | Some change \<Rightarrow> ac_adjusted_rules change)"

definition merge_outcome :: "approved_change option \<Rightarrow> multi_outcome \<Rightarrow> evaluation \<Rightarrow> evaluation" where
  "merge_outcome approval out ev =
     (let ev = (case mo_instance_score out of None \<Rightarrow> ev
                | Some sc \<Rightarrow> ev\<lparr>ev_score := f_max (ev_score ev) sc, ev_eligible := True\<rparr>);
          ev = (if mo_approval_applied out
                then ev\<lparr>ev_approved_change_id := map_option ac_id approval\<rparr> else ev)
      in ev\<lparr>ev_additional_alerts := mo_alerts out,
            ev_evidence_truncated := (ev_evidence_truncated ev \<or> mo_truncated out)\<rparr>)"

definition assess_included ::
  "detection_engine \<Rightarrow> file_event \<Rightarrow> detection_engine \<times> evaluation" where
  "assess_included eng event =
     (let approval = approval_for (de_config eng) event in
      case evaluate_with_approval event (legacy_approval approval) (de_scorer eng) of (scorer', ev) \<Rightarrow>
      case mw_evaluate event (adjusted_by approval) (de_multi_window eng) of (multi', out) \<Rightarrow>
        (eng\<lparr>de_scorer := scorer', de_multi_window := multi'\<rparr>, merge_outcome approval out ev))"

definition no_evidence :: "file_event \<Rightarrow> evaluation" where
  "no_evidence event =
     \<lparr>ev_score = Fin 0, ev_pid = fe_pid event, ev_eligible = False, ev_alert = None,
      ev_approved_change_id = None, ev_additional_alerts = [], ev_evidence_truncated = False\<rparr>"

definition tampers_canary :: "detection_config \<Rightarrow> file_event \<Rightarrow> bool" where
  "tampers_canary config event =
     (fe_action event \<in> {Modify, Delete, Rename}
      \<and> list_ex (\<lambda>p. path_eq p (fe_path event)) (dc_canary_paths config))"

definition canary_identity_of :: "file_event \<Rightarrow> canary_identity" where
  "canary_identity_of event =
     (fe_pid event,
      (case fe_process event of None \<Rightarrow> None
       | Some p \<Rightarrow> if length (fp_boot_id p) \<le> 128 then Some (fp_start_time_ticks p, fp_boot_id p) else None),
      fe_path event)"

definition canary_rank :: "canary_identity \<times> u64 \<Rightarrow> u64 \<times> canary_identity" where
  "canary_rank = (\<lambda>(key, timestamp). (timestamp, key))"

definition canary_cooldown :: "detection_engine \<Rightarrow> file_event \<Rightarrow> bool" where
  "canary_cooldown eng event =
     (case map_of (de_last_canary_emit eng) (canary_identity_of event) of
        None \<Rightarrow> False
      | Some last_ts \<Rightarrow>
          sat_sub (fe_timestamp_ms event) last_ts < window_ms (de_config eng))"

definition canary_alert :: "file_event \<Rightarrow> f64 \<Rightarrow> detection" where
  "canary_alert event sc =
     \<lparr>d_timestamp_ms = fe_timestamp_ms event, d_rule = CANARY_RULE, d_score = sc,
      d_severity = Critical, d_summary = CanarySummary (fe_path event) (fe_action event),
      d_pid = fe_pid event, d_paths = [fe_path event]\<rparr>"

definition canary_full :: "detection_engine \<Rightarrow> file_event \<Rightarrow> bool" where
  "canary_full eng event =
     (map_of (de_last_canary_emit eng) (canary_identity_of event) = None
      \<and> max_groups (de_config eng) \<le> length (de_last_canary_emit eng))"

definition check_canary ::
  "file_event \<Rightarrow> detection_engine \<times> evaluation \<Rightarrow> detection_engine \<times> evaluation" where
  "check_canary event = (\<lambda>(eng, ev).
     if \<not> tampers_canary (de_config eng) event then (eng, ev)
     else let ev = ev\<lparr>ev_score := f_max (ev_score ev) (Fin 95), ev_eligible := True\<rparr>
     in if \<not> canary_cooldown eng event \<and> f_le (dc_detect_score (de_config eng)) (ev_score ev)
        then (eng\<lparr>de_last_canary_emit :=
                hm_put (canary_identity_of event) (fe_timestamp_ms event)
                  (evict_for (max_groups (de_config eng)) canary_rank (canary_identity_of event)
                    (de_last_canary_emit eng))\<rparr>,
              ev\<lparr>ev_evidence_truncated := (ev_evidence_truncated ev \<or> canary_full eng event),
                 ev_alert := Some (canary_alert event (ev_score ev))\<rparr>)
        else (eng, ev))"

definition engine_evaluate :: "detection_engine \<Rightarrow> file_event \<Rightarrow> detection_engine \<times> evaluation" where
  "engine_evaluate eng event =
     check_canary event
       (if is_excluded (de_config eng) (fe_path event) then (eng, no_evidence event)
        else assess_included eng event)"

definition engine_observe :: "detection_engine \<Rightarrow> file_event \<Rightarrow> detection_engine \<times> detection option" where
  "engine_observe eng event = (case engine_evaluate eng event of (eng', ev) \<Rightarrow> (eng', ev_alert ev))"

section \<open>Checking a configuration\<close>

datatype config_problem =
    BadApprovalId | BadApprovalTime | BadApprovalPath | BadApprovalRule | BadMemoryLimits
  | BadWindows | BadProtectedPaths | BadSampling | BadCanaryPath | BadWindowSecs
  | BadChangeThreshold | BadEntropyThreshold | BadDetectScore | BadBlockScore

datatype config_warning =
    WindowUnreachable u64 f64 f64
  | ScoreUnreachable sensor_kind f64 string f64
  | NotifyCannotBlock

fun approval_problems :: "string list \<Rightarrow> approved_change list \<Rightarrow> config_problem list" where
  "approval_problems seen [] = []"
| "approval_problems seen (change # changes) =
     (if blank_str (ac_id change) \<or> ac_id change \<in> set seen then [BadApprovalId] else [])
     @ (if ac_valid_until_ms change \<le> ac_valid_from_ms change then [BadApprovalTime] else [])
     @ (if ac_paths change = [] \<or> list_ex (\<lambda>p. \<not> absolute_clean_path p) (ac_paths change)
           \<or> \<not> absolute_clean_path (ac_exe change) \<or> \<not> has_file_name (ac_exe change)
        then [BadApprovalPath] else [])
     @ (if ac_adjusted_rules change = []
           \<or> list_ex (\<lambda>rule. rule \<noteq> BEHAVIOR_RULE \<and> rule \<notin> set RULES) (ac_adjusted_rules change)
        then [BadApprovalRule] else [])
     @ approval_problems
         (if blank_str (ac_id change) then seen else ac_id change # seen) changes"

fun bad_window :: "u64 list \<Rightarrow> detection_window list \<Rightarrow> bool" where
  "bad_window seen [] = False"
| "bad_window seen (w # ws) =
     (dw_window_secs w = 0 \<or> 86400 < dw_window_secs w \<or> dw_window_secs w \<in> set seen
      \<or> dw_min_changed_files w = 0 \<or> dw_mass_change_threshold w = 0
      \<or> \<not> is_finite (dw_detect_score w) \<or> \<not> f_in 0 100 (dw_detect_score w)
      \<or> bad_window (dw_window_secs w # seen) ws)"

definition multi_problems :: "multi_window_config \<Rightarrow> config_problem list" where
  "multi_problems multi =
     (if mw_max_events multi = 0 \<or> 100000 < mw_max_events multi \<or> mw_max_groups multi = 0
         \<or> 16384 < mw_max_groups multi
         \<or> \<not> (64 \<le> mw_max_path_bytes multi \<and> mw_max_path_bytes multi \<le> 4096)
      then [BadMemoryLimits] else [])
     @ (if mw_enabled multi
        then (if mw_windows multi = [] \<or> 8 < length (mw_windows multi) \<or> bad_window [] (mw_windows multi)
              then [BadWindows] else [])
             @ (if 128 < length (mw_protected_paths multi)
                   \<or> list_ex (\<lambda>p. \<not> absolute_clean_path p \<or> unat (mw_max_path_bytes multi) < length p)
                       (mw_protected_paths multi)
                then [BadProtectedPaths] else [])
        else [])"

definition sampling_problem :: "content_sampling_config \<Rightarrow> bool" where
  "sampling_problem sampling =
     (cc_enabled sampling
      \<and> (\<not> (3 \<le> cc_total_bytes sampling \<and> cc_total_bytes sampling \<le> MAX_SAMPLE_BYTES)
         \<or> cc_max_files sampling = 0 \<or> 65536 < cc_max_files sampling
         \<or> cc_history_secs sampling = 0 \<or> 86400 < cc_history_secs sampling
         \<or> \<not> is_finite (cc_min_entropy_increase sampling)
         \<or> \<not> f_in 0 8 (cc_min_entropy_increase sampling)))"

definition config_problems :: "detection_config \<Rightarrow> response_config \<Rightarrow> config_problem list" where
  "config_problems detection response =
     approval_problems [] (dc_approved_changes detection)
     @ multi_problems (dc_multi_window detection)
     @ (if sampling_problem (dc_content_sampling detection) then [BadSampling] else [])
     @ (if list_ex (\<lambda>p. \<not> absolute_clean_path p \<or> \<not> has_file_name p) (dc_canary_paths detection)
        then [BadCanaryPath] else [])
     @ (if dc_window_secs detection = 0 \<or> checked_mul (dc_window_secs detection) 1000 = None
        then [BadWindowSecs] else [])
     @ (if dc_mass_change_threshold detection = 0 \<or> dc_min_changed_files detection = 0
        then [BadChangeThreshold] else [])
     @ (if \<not> is_finite (dc_entropy_threshold detection) \<or> \<not> f_in 0 8 (dc_entropy_threshold detection)
        then [BadEntropyThreshold] else [])
     @ (if \<not> is_finite (dc_detect_score detection) \<or> f_le (dc_detect_score detection) (Fin 0)
        then [BadDetectScore] else [])
     @ (if \<not> is_finite (rc_block_score response) \<or> f_le (rc_block_score response) (Fin 0)
        then [BadBlockScore] else [])"

definition entropy_possible :: "(f64 \<Rightarrow> f64) \<Rightarrow> detection_config \<Rightarrow> bool" where
  "entropy_possible log2 detection =
     (let bytes = min (if cc_enabled (dc_content_sampling detection)
                       then cc_total_bytes (dc_content_sampling detection)
                       else dc_entropy_sample_bytes detection) MAX_SAMPLE_BYTES
      in 0 < bytes
         \<and> f_le (dc_entropy_threshold detection) (f_min (log2 (f64_of_nat (unat bytes))) (Fin 8)))"

definition base_max_score :: "(f64 \<Rightarrow> f64) \<Rightarrow> detection_config \<Rightarrow> sensor_kind \<Rightarrow> f64" where
  "base_max_score log2 detection sensor =
     (case (sensor, \<not> entropy_possible log2 detection) of
        (Fanotify, True) \<Rightarrow> Fin 40
      | (Notify, True) \<Rightarrow> Fin 65
      | _ \<Rightarrow> Fin 100)"

definition config_warnings ::
  "(f64 \<Rightarrow> f64) \<Rightarrow> detection_config \<Rightarrow> response_config \<Rightarrow> sensor_kind \<Rightarrow> config_warning list" where
  "config_warnings log2 detection response sensor =
     (let base = base_max_score log2 detection sensor;
          max_score = (if dc_canary_paths detection = [] then base else f_max base (Fin 95))
      in (if mw_enabled (dc_multi_window detection)
          then map (\<lambda>w. WindowUnreachable (dw_window_secs w) (dw_detect_score w) base)
                 (filter (\<lambda>w. f_lt base (dw_detect_score w)) (mw_windows (dc_multi_window detection)))
          else [])
         @ map (\<lambda>(name, threshold). ScoreUnreachable sensor max_score name threshold)
             (filter (\<lambda>(_, threshold). f_lt max_score threshold)
               [(''detection.detect_score'', dc_detect_score detection),
                (''response.block_score'', rc_block_score response)])
         @ (if rc_auto_block response \<and> sensor = Notify then [NotifyCannotBlock] else []))"

definition validate_configuration ::
  "(f64 \<Rightarrow> f64) \<Rightarrow> detection_config \<Rightarrow> response_config \<Rightarrow> sensor_kind \<Rightarrow>
     config_problem list + config_warning list" where
  "validate_configuration log2 detection response sensor =
     (if config_problems detection response \<noteq> [] then Inl (config_problems detection response)
      else Inr (config_warnings log2 detection response sensor))"

section \<open>Specification notions\<close>

definition outcome_range :: "multi_outcome \<Rightarrow> bool" where
  "outcome_range out = (list_all (\<lambda>d. f_in 0 100 (d_score d)) (mo_alerts out)
     \<and> (case mo_instance_score out of None \<Rightarrow> True | Some sc \<Rightarrow> f_in 0 100 sc))"

definition engine_inv :: "detection_engine \<Rightarrow> bool" where
  "engine_inv eng \<longleftrightarrow> scorer_inv (de_scorer eng) \<and> mw_bounded (de_multi_window eng)
     \<and> bs_config (de_scorer eng) = de_config eng \<and> mx_config (de_multi_window eng) = de_config eng
     \<and> hm_wf (de_last_canary_emit eng)
     \<and> length (de_last_canary_emit eng) \<le> max_groups (de_config eng)"

definition run_engine :: "file_event list \<Rightarrow> detection_engine \<Rightarrow> detection_engine" where
  "run_engine = fold (\<lambda>e eng. fst (engine_evaluate eng e))"

definition engine_refines :: "detection_config \<Rightarrow> nat \<Rightarrow> detection_engine \<Rightarrow> bool" where
  "engine_refines config n eng \<longleftrightarrow> engine_inv eng \<and> de_config eng = config
     \<and> (mw_enabled (dc_multi_window config) \<longrightarrow>
          (\<exists>hist. length hist \<le> n \<and> mw_refines config hist (de_multi_window eng)))"

definition canary_config :: detection_config where
  "canary_config = multi_config\<lparr>dc_exclude_paths := [''/srv/tmp''], dc_canary_paths := [''/srv/tmp/canary'']\<rparr>"

definition approving_config :: detection_config where
  "approving_config = multi_config\<lparr>dc_approved_changes :=
     [\<lparr>ac_id = ''backup'', ac_valid_from_ms = 10, ac_valid_until_ms = 100, ac_paths = [''/srv''],
       ac_exe = ''/usr/bin/task'', ac_uid = 1000, ac_adjusted_rules = [BEHAVIOR_RULE]\<rparr>]\<rparr>"

section \<open>Parts of an evaluation\<close>

lemma merge_parts:
  "ev_score (merge_outcome approval out ev) = (case mo_instance_score out of None \<Rightarrow> ev_score ev | Some sc \<Rightarrow> f_max (ev_score ev) sc)"
  "ev_eligible (merge_outcome approval out ev) = (ev_eligible ev \<or> mo_instance_score out \<noteq> None)"
  "ev_alert (merge_outcome approval out ev) = ev_alert ev"
  "ev_pid (merge_outcome approval out ev) = ev_pid ev"
  "ev_additional_alerts (merge_outcome approval out ev) = mo_alerts out"
  "ev_approved_change_id (merge_outcome approval out ev) =
     (if mo_approval_applied out then map_option ac_id approval else ev_approved_change_id ev)"
  by (simp_all add: merge_outcome_def Let_def split: option.split)

lemma included_parts:
  "de_scorer (fst (assess_included eng e)) =
     fst (evaluate_with_approval e (legacy_approval (approval_for (de_config eng) e)) (de_scorer eng))"
  "de_multi_window (fst (assess_included eng e)) =
     fst (mw_evaluate e (adjusted_by (approval_for (de_config eng) e)) (de_multi_window eng))"
  "de_config (fst (assess_included eng e)) = de_config eng"
  "de_last_canary_emit (fst (assess_included eng e)) = de_last_canary_emit eng"
  "snd (assess_included eng e) = merge_outcome (approval_for (de_config eng) e)
     (snd (mw_evaluate e (adjusted_by (approval_for (de_config eng) e)) (de_multi_window eng)))
     (snd (evaluate_with_approval e (legacy_approval (approval_for (de_config eng) e)) (de_scorer eng)))"
  by (simp_all add: assess_included_def Let_def split: prod.split)

lemma canary_parts:
  "de_scorer (fst (check_canary e p)) = de_scorer (fst p)"
  "de_multi_window (fst (check_canary e p)) = de_multi_window (fst p)"
  "de_config (fst (check_canary e p)) = de_config (fst p)"
  "ev_pid (snd (check_canary e p)) = ev_pid (snd p)"
  "ev_approved_change_id (snd (check_canary e p)) = ev_approved_change_id (snd p)"
  "ev_additional_alerts (snd (check_canary e p)) = ev_additional_alerts (snd p)"
  "ev_eligible (snd (check_canary e p)) = (ev_eligible (snd p) \<or> tampers_canary (de_config (fst p)) e)"
  "\<not> tampers_canary (de_config (fst p)) e \<Longrightarrow> check_canary e p = p"
  "tampers_canary (de_config (fst p)) e \<Longrightarrow> ev_score (snd (check_canary e p)) = f_max (ev_score (snd p)) (Fin 95)"
  by (auto simp: check_canary_def Let_def split: prod.splits)

lemmas canary_cache = bounded_cache_evict_for [OF max_groups_pos, of _ canary_rank]

lemma canary_memory:
  assumes "hm_wf (de_last_canary_emit (fst p))" "length (de_last_canary_emit (fst p)) \<le> max_groups (de_config (fst p))"
  shows "hm_wf (de_last_canary_emit (fst (check_canary e p)))
    \<and> length (de_last_canary_emit (fst (check_canary e p))) \<le> max_groups (de_config (fst p))"
proof -
  obtain eng ev where p: "p = (eng, ev)" by fastforce
  show ?thesis
    using assms bounded_cache.insert_bounded [OF canary_cache, of "de_last_canary_emit eng" "de_config eng"]
      bounded_cache.admit_wf [OF canary_cache, of "de_last_canary_emit eng" "de_config eng"]
    by (simp add: p check_canary_def Let_def hm_wf_put)
qed

section \<open>Bounded memory\<close>

lemma assess_included_inv: "engine_inv eng \<Longrightarrow> engine_inv (fst (assess_included eng e))"
  by (simp add: engine_inv_def included_parts evaluate_inv evaluate_frame mw_evaluate_bounded mw_evaluate_config)

lemma check_canary_inv: "engine_inv (fst p) \<Longrightarrow> engine_inv (fst (check_canary e p))"
  using canary_memory [of p e] by (simp add: engine_inv_def canary_parts)

lemma engine_evaluate_inv: "engine_inv eng \<Longrightarrow> engine_inv (fst (engine_evaluate eng e))"
  by (simp add: engine_evaluate_def check_canary_inv assess_included_inv)

lemma engine_inv_init: "engine_inv (engine_with_sensor config sensor)"
  using scorer_inv_init multi_new_bounded
  by (simp add: engine_inv_def engine_with_sensor_def scorer_with_sensor_def multi_window_new_def)

interpretation engine_run: invariant_system "engine_with_sensor config sensor"
  "\<lambda>e eng. fst (engine_evaluate eng e)" engine_inv
  by unfold_locales (simp_all add: engine_inv_init engine_evaluate_inv)

lemma engine_evaluate_config: "de_config (fst (engine_evaluate eng e)) = de_config eng"
  by (simp add: engine_evaluate_def canary_parts included_parts)

lemma run_engine_config: "de_config (run_engine es eng) = de_config eng"
  by (induction es arbitrary: eng) (simp_all add: run_engine_def engine_evaluate_config)


section \<open>Canaries, exclusions and approvals\<close>

lemma f_max_95: "f_le (Fin 95) (f_max x (Fin 95))"
  by (cases x) (auto simp: f_max_def)

text \<open>
  C12: a modification, deletion or renaming of a canary file always scores at least 95 and is
  always eligible for a response, whatever is excluded, approved, truncated or in cooldown.
\<close>

theorem canary_tamper_always_counts:
  assumes "tampers_canary (de_config eng) event"
  shows "ev_eligible (snd (engine_evaluate eng event))
    \<and> f_le (Fin 95) (ev_score (snd (engine_evaluate eng event)))"
  using assms by (simp add: engine_evaluate_def canary_parts included_parts f_max_95)

text \<open>
  An event on an excluded path that is not a canary changes no state, scores 0, is not
  eligible, raises no alert and never leads to a block.
\<close>

theorem excluded_path_is_ignored:
  assumes "is_excluded (de_config eng) (fe_path event)" "\<not> tampers_canary (de_config eng) event"
  shows "engine_evaluate eng event = (eng, no_evidence event)
    \<and> \<not> should_block (snd (engine_evaluate eng event)) response"
  using assms by (simp add: engine_evaluate_def canary_parts no_evidence_def should_block_def block_candidate_def)

lemma evaluate_pid: "ev_pid (snd (evaluate_with_approval e a s)) = fe_pid e"
  by (simp add: evaluate_with_approval_def assess_def Let_def)

lemma engine_pid: "ev_pid (snd (engine_evaluate eng event)) = fe_pid event"
  by (simp add: engine_evaluate_def canary_parts no_evidence_def included_parts merge_parts evaluate_pid)


text \<open>
  An evaluation names an approved change only if that change is configured and the event meets
  every one of its conditions: identified process, time interval, user, executable and a path
  without \<^verbatim>\<open>..\<close> below an approved path.
\<close>

theorem approval_is_narrow:
  assumes "ev_approved_change_id (snd (engine_evaluate eng event)) = Some i"
  shows "\<exists>change\<in>set (dc_approved_changes (de_config eng)). ac_id change = i
    \<and> (\<exists>p. fe_process event = Some p \<and> fp_uid p = ac_uid change \<and> fp_start_time_ticks p \<noteq> 0
         \<and> \<not> blank_str (fp_boot_id p) \<and> path_eq (fp_exe p) (ac_exe change))
    \<and> fe_pid event \<noteq> 0 \<and> ac_valid_from_ms change \<le> fe_timestamp_ms event
    \<and> fe_timestamp_ms event < ac_valid_until_ms change
    \<and> (\<exists>dir\<in>set (ac_paths change). path_starts_with (fe_path event) dir)
    \<and> ParentDir \<notin> set (components (fe_path event))"
proof -
  have "\<not> is_excluded (de_config eng) (fe_path event)"
    using assms by (auto simp: engine_evaluate_def canary_parts no_evidence_def)
  then have a: "ev_approved_change_id (snd (assess_included eng event)) = Some i"
    using assms by (simp add: engine_evaluate_def canary_parts)
  have own: "ev_approved_change_id (snd (evaluate_with_approval event x s)) = x" for x s
    by (simp add: evaluate_with_approval_def assess_def Let_def)
  have "\<exists>change. approval_for (de_config eng) event = Some change \<and> ac_id change = i"
    using a by (auto simp: own included_parts merge_parts legacy_approval_def split: if_splits option.splits)
  then obtain change where c: "approval_for (de_config eng) event = Some change" "ac_id change = i" by blast
  then have "change \<in> set (dc_approved_changes (de_config eng))" "approved_event change event"
    by (auto simp: approval_for_def find_Some_iff)
  then show ?thesis using c(2)
    by (auto simp: approved_event_def absolute_clean_path_def list_ex_iff split: option.splits)
qed

section \<open>A configuration that passes the check\<close>

lemma approval_problems_nil:
  "approval_problems seen cs = [] \<longleftrightarrow>
     distinct (map ac_id cs) \<and> set (map ac_id cs) \<inter> set seen = {}
     \<and> list_all (\<lambda>c. \<not> blank_str (ac_id c) \<and> ac_valid_from_ms c < ac_valid_until_ms c
          \<and> ac_paths c \<noteq> [] \<and> list_all absolute_clean_path (ac_paths c)
          \<and> absolute_clean_path (ac_exe c) \<and> has_file_name (ac_exe c) \<and> ac_adjusted_rules c \<noteq> []
          \<and> set (ac_adjusted_rules c) \<subseteq> insert BEHAVIOR_RULE (set RULES)) cs"
proof (induction cs arbitrary: seen)
  case (Cons c cs)
  have "approval_problems seen (c # cs) = [] \<longleftrightarrow>
      (\<not> blank_str (ac_id c) \<and> ac_id c \<notin> set seen \<and> ac_valid_from_ms c < ac_valid_until_ms c
       \<and> ac_paths c \<noteq> [] \<and> list_all absolute_clean_path (ac_paths c)
          \<and> absolute_clean_path (ac_exe c) \<and> has_file_name (ac_exe c) \<and> ac_adjusted_rules c \<noteq> []
          \<and> set (ac_adjusted_rules c) \<subseteq> insert BEHAVIOR_RULE (set RULES))
      \<and> approval_problems (ac_id c # seen) cs = []"
    by (auto simp: list_ex_iff list_all_iff not_le)
  then show ?case using Cons.IH [of "ac_id c # seen"] by auto
qed simp

lemma bad_window_nil:
  "\<not> bad_window seen ws \<longleftrightarrow>
     distinct (map dw_window_secs ws) \<and> set (map dw_window_secs ws) \<inter> set seen = {}
     \<and> list_all (\<lambda>w. 0 < dw_window_secs w \<and> dw_window_secs w \<le> 86400 \<and> 0 < dw_min_changed_files w
          \<and> 0 < dw_mass_change_threshold w \<and> f_in 0 100 (dw_detect_score w)) ws"
proof (induction ws arbitrary: seen)
  case (Cons w ws)
  show ?case using Cons.IH [of "dw_window_secs w # seen"] f_in_finite [of 0 100 "dw_detect_score w"]
    by (auto simp: word_gt_0)
qed simp


section \<open>Every score of a valid configuration is between 0 and 100\<close>

lemma raise_range:
  "outcome_range out \<Longrightarrow> f_in 0 100 sc \<Longrightarrow> outcome_range (raise_instance_score g sc out)"
  by (cases g) (auto simp: outcome_range_def raise_instance_score_def f_in_max split: option.splits)

lemma evaluate_window_range:
  assumes "0 < dw_min_changed_files w" "length (gs_events (fst p)) < 2 ^ 64" "outcome_range (snd p)"
  shows "outcome_range (snd (evaluate_window sensor now g w p))"
proof -
  obtain st out where p: "p = (st, out)" by fastforce
  let ?sel = "in_window now (sat_mul (dw_window_secs w) 1000) (gs_events st)"
  let ?sc = "group_score sensor w ?sel"
  show ?thesis
  proof (cases "length (obs_paths ?sel) < unat (dw_min_changed_files w)")
    case True
    then show ?thesis using assms(3) by (simp add: p evaluate_window_def)
  next
    case False
    have "0 < unat (dw_min_changed_files w)" using assms(1) by (simp add: word_less_nat_alt)
    with False have "?sel \<noteq> []" using obs_paths_Nil [of ?sel] by (metis length_0_conv)
    moreover have "length ?sel < 2 ^ 64"
      using assms(2) by (simp add: p in_window_def) (meson le_less_trans length_filter_le)
    ultimately have sc: "f_in 0 100 ?sc" by (rule group_score_in)
    then have r: "outcome_range (raise_instance_score g ?sc out)" using raise_range assms(3) by (simp add: p)
    then show ?thesis using False sc
      by (auto simp: p evaluate_window_def Let_def outcome_range_def group_alert_def)
  qed
qed

lemma evaluate_windows_range:
  assumes "\<forall>w\<in>set ws. 0 < dw_min_changed_files w" "length (gs_events (fst p)) < 2 ^ 64" "outcome_range (snd p)"
  shows "outcome_range (snd (fold (evaluate_window sensor now g) ws p))"
  using assms by (induction ws arbitrary: p) (simp_all add: evaluate_window_range evaluate_window_events)

lemma evaluate_group_range:
  assumes "\<forall>w\<in>set (mw_windows (dc_multi_window (mx_config (fst p)))). 0 < dw_min_changed_files w"
    "\<forall>g. length (group_history (mx_groups (fst p)) g) < 2 ^ 64" "outcome_range (snd p)"
  shows "outcome_range (snd (evaluate_group now g p))"
proof -
  obtain s out where p: "p = (s, out)" by fastforce
  show ?thesis
  proof (cases "map_of (mx_groups s) g")
    case None
    then show ?thesis using assms by (simp add: p evaluate_group_def)
  next
    case (Some st)
    then have "length (gs_events st) < 2 ^ 64" using assms(2) spec [of _ g] by (force simp: p group_history_def split: option.splits)
    then have "outcome_range (snd (fold (evaluate_window (mx_sensor s) now g)
        (take 8 (mw_windows (dc_multi_window (mx_config s)))) (st, out)))"
      using assms(1,3) by (intro evaluate_windows_range) (auto simp: p dest: in_set_takeD)
    then show ?thesis using Some by (auto simp: p evaluate_group_def split: prod.split)
  qed
qed

lemma evaluate_groups_range:
  assumes "\<forall>w\<in>set (mw_windows (dc_multi_window (mx_config (fst p)))). 0 < dw_min_changed_files w"
    "\<forall>g. length (group_history (mx_groups (fst p)) g) < 2 ^ 64" "outcome_range (snd p)"
  shows "outcome_range (snd (fold (evaluate_group now) gs p))"
  using assms
proof (induction gs arbitrary: p)
  case (Cons g gs)
  have "same_histories (fst p) (fst (evaluate_group now g p))" by (rule evaluate_group_same)
  then show ?case using Cons evaluate_group_range [of p now g]
    by (simp add: same_histories_def same_clock_def)
qed simp

lemma history_short:
  assumes "mw_struct s" "mw_bounded s"
  shows "length (group_history (mx_groups s) g) < 2 ^ 64"
proof -
  have "length (group_history (mx_groups s) g) \<le> length (of_group g (mx_events s))"
    using assms(1) by (auto simp: mw_struct_def intro: suffix_length_le)
  also have "\<dots> \<le> length (mx_events s)" by (simp add: of_group_def)
  also have "\<dots> \<le> 100000" using assms(2) max_events_le [of "mx_config s"] by (simp add: mw_bounded_def)
  finally show ?thesis by simp
qed

lemma mw_evaluate_range:
  assumes ref: "mw_refines config hist s" and len: "length hist < 2 ^ 64 - 1"
    and pos: "\<forall>w\<in>set (mw_windows (dc_multi_window config)). 0 < dw_min_changed_files w"
  shows "outcome_range (snd (mw_evaluate e rules s))"
proof -
  let ?now = "max (mx_watermark s) (fe_timestamp_ms e)" and ?inc = "included_keys config e rules"
  have inv: "mx_config s = config" "mw_bounded s" "mw_struct s" "unat (mx_sequence s) \<le> length hist"
    using ref by (simp_all add: mw_refines_def)
  have a: "mw_struct (advance e s)" "mx_watermark (advance e s) = ?now" "mx_config (advance e s) = config"
    "unat (mx_sequence (advance e s)) < 2 ^ 64 - 1" "mw_bounded (advance e s)"
    using advance_facts [OF inv(3)] inv len advance_bounded by simp_all
  define r where "r = record_observation ?now e ?inc (advance e s)"
  have r: "mw_struct r" "mx_config r = config" "mw_bounded r"
    using record_facts [OF a(5,1,2,4) group_keys_distinct r_def] record_bounded [OF a(5), of ?now e ?inc] a(3)
    by (simp_all add: r_def)
  have zero: "outcome_range (multi_outcome_default\<lparr>mo_truncated := t, mo_approval_applied := b\<rparr>)"
    "outcome_range (multi_outcome_default\<lparr>mo_truncated := t\<rparr>)" "outcome_range multi_outcome_default" for t b
    by (simp_all add: outcome_range_def multi_outcome_default_def)
  show ?thesis
    using evaluate_groups_range [of "(r, out)" ?now for out] r pos zero history_short [OF r(1,3)] inv(1) a(3)
    by (simp add: mw_evaluate_def Let_def r_def [symmetric])
qed

lemma scorer_score_range:
  assumes "scorer_inv s"
  shows "f_in 0 100 (ev_score (snd (evaluate_with_approval e a s)))"
    and "ev_alert (snd (evaluate_with_approval e a s)) = Some d \<Longrightarrow> f_in 0 100 (d_score d)"
proof -
  let ?t = "push_event e a (forget_other_identity e (housekeeping e s))"
  have short: "length (window_of ?t (fe_pid e)) < 2 ^ 64"
  proof -
    have "length (window_of ?t (fe_pid e)) \<le> entry_count (bs_windows ?t)"
      by (auto simp: window_of_def entry_count_def split: option.split
          intro!: member_le_sum_list dest!: map_of_SomeD simp: image_iff) force
    also have "\<dots> \<le> Suc (entry_count (bs_windows (housekeeping e s)))"
      using push_event_count [of e a] forget_count [of e "housekeeping e s"] le_trans by fastforce
    also have "\<dots> \<le> 100001"
      using housekeeping_room [OF assms, of e] max_events_le [of "bs_config (housekeeping e s)"] by (simp add: scorer_inv_def)
    finally show ?thesis by simp
  qed
  then have sc: "f_in 0 100 (ev_score (snd (assess e a ?t)))"
    using score_in [OF short] by (simp add: assess_def Let_def)
  show "f_in 0 100 (ev_score (snd (evaluate_with_approval e a s)))"
    using sc by (simp add: evaluate_with_approval_def Let_def)
  show "f_in 0 100 (d_score d)" if "ev_alert (snd (evaluate_with_approval e a s)) = Some d"
    using that sc assess_alert [of e a ?t d] by (auto simp: evaluate_with_approval_def Let_def split: if_splits)
qed

lemma mw_evaluate_disabled:
  "\<not> mw_enabled (dc_multi_window (mx_config s)) \<Longrightarrow> mw_evaluate e rules s = (s, multi_outcome_default)"
  by (simp add: mw_evaluate_def)

lemma assess_included_refines:
  assumes "engine_refines config n eng" "n < 2 ^ 64 - 1"
  shows "engine_refines config (Suc n) (fst (assess_included eng e))"
proof (cases "mw_enabled (dc_multi_window config)")
  case True
  then obtain hist where h: "length hist \<le> n" "mw_refines config hist (de_multi_window eng)"
    using assms(1) by (auto simp: engine_refines_def)
  have "mw_refines config (hist @ [(e, adjusted_by (approval_for (de_config eng) e))]) (de_multi_window (fst (assess_included eng e)))"
    using mw_evaluate_refines [OF h(2) True, of e] h(1) assms(2) by (simp add: included_parts)
  moreover have "length (hist @ [(e, adjusted_by (approval_for (de_config eng) e))]) \<le> Suc n" using h(1) by simp
  ultimately show ?thesis using assms(1) assess_included_inv [of eng e]
    unfolding engine_refines_def by (simp only: included_parts(3)) blast
next
  case False
  then show ?thesis using assms(1) assess_included_inv [of eng e] by (simp add: engine_refines_def included_parts)
qed

lemma engine_evaluate_refines:
  assumes "engine_refines config n eng" "n < 2 ^ 64 - 1"
  shows "engine_refines config (Suc n) (fst (engine_evaluate eng e))"
proof -
  have canary: "engine_refines config m (fst (check_canary e p))" if "engine_refines config m (fst p)" for m p
    using that check_canary_inv [of p e] by (simp add: engine_refines_def canary_parts)
  have "engine_refines config (Suc n) eng" using assms(1) by (auto simp: engine_refines_def intro: le_SucI)
  then show ?thesis using assess_included_refines [OF assms] by (auto simp: engine_evaluate_def intro: canary)
qed

lemma run_engine_refines:
  "length es < 2 ^ 64 \<Longrightarrow> engine_refines config (length es) (run_engine es (engine_with_sensor config sensor))"
proof (induction es rule: rev_induct)
  case Nil
  have "mw_refines config [] (multi_window_new config sensor)" if "mw_enabled (dc_multi_window config)"
    using run_multi_refines [OF that, of "[]"] by (simp add: run_multi_def)
  then show ?case using engine_inv_init [of config sensor]
    by (auto simp: engine_refines_def run_engine_def engine_with_sensor_def)
next
  case (snoc e es)
  then show ?case using engine_evaluate_refines [of config "length es" _ e] by (simp add: run_engine_def)
qed

lemma assess_included_range:
  assumes "engine_refines config n eng" "n < 2 ^ 64 - 1"
    "mw_enabled (dc_multi_window config) \<longrightarrow> (\<forall>w\<in>set (mw_windows (dc_multi_window config)). 0 < dw_min_changed_files w)"
  shows "f_in 0 100 (ev_score (snd (assess_included eng e)))"
    "list_all (\<lambda>d. f_in 0 100 (d_score d)) (ev_additional_alerts (snd (assess_included eng e)))"
    "ev_alert (snd (assess_included eng e)) = Some d \<Longrightarrow> f_in 0 100 (d_score d)"
proof -
  have inv: "scorer_inv (de_scorer eng)" "mx_config (de_multi_window eng) = config"
    using assms(1) by (simp_all add: engine_refines_def engine_inv_def)
  have rng: "outcome_range (snd (mw_evaluate e rules (de_multi_window eng)))" for rules
  proof (cases "mw_enabled (dc_multi_window config)")
    case True
    then obtain hist where "length hist \<le> n" "mw_refines config hist (de_multi_window eng)"
      using assms(1) by (auto simp: engine_refines_def)
    then show ?thesis using mw_evaluate_range [of config hist "de_multi_window eng" e rules] assms(2,3) True by simp
  next
    case False
    then show ?thesis using inv(2) by (simp add: mw_evaluate_disabled outcome_range_def multi_outcome_default_def)
  qed
  have out: "list_all (\<lambda>d. f_in 0 100 (d_score d)) (mo_alerts (snd (mw_evaluate e rules (de_multi_window eng))))"
    "mo_instance_score (snd (mw_evaluate e rules (de_multi_window eng))) = Some x \<Longrightarrow> f_in 0 100 x" for rules x
    using rng [of rules] by (auto simp: outcome_range_def)
  show "list_all (\<lambda>d. f_in 0 100 (d_score d)) (ev_additional_alerts (snd (assess_included eng e)))"
    using out(1) by (simp add: included_parts merge_parts)
  show "f_in 0 100 (ev_score (snd (assess_included eng e)))"
    using scorer_score_range(1) [OF inv(1)] out(2)
    by (auto simp: included_parts merge_parts intro!: f_in_max split: option.split)
  show "f_in 0 100 (d_score d)" if "ev_alert (snd (assess_included eng e)) = Some d"
    using that scorer_score_range(2) [OF inv(1)] by (simp add: included_parts merge_parts)
qed

lemma check_canary_range:
  assumes "f_in 0 100 (ev_score (snd p))" "\<And>d. ev_alert (snd p) = Some d \<Longrightarrow> f_in 0 100 (d_score d)"
  shows "f_in 0 100 (ev_score (snd (check_canary e p)))
    \<and> (\<forall>d. ev_alert (snd (check_canary e p)) = Some d \<longrightarrow> f_in 0 100 (d_score d))"
proof -
  obtain eng ev where p: "p = (eng, ev)" by fastforce
  have "f_in 0 100 (f_max (ev_score ev) (Fin 95))" using assms(1) f_in_max [of 0 100 "ev_score ev" "Fin 95"] by (simp add: p)
  then show ?thesis using assms by (auto simp: p check_canary_def canary_alert_def Let_def)
qed

lemma engine_range:
  assumes "validate_configuration log2 config response sensor = Inr warnings" "length es < 2 ^ 64 - 1"
    and "ev = snd (engine_evaluate (run_engine es (engine_with_sensor config sensor)) event)"
  shows "f_in 0 100 (ev_score ev)
    \<and> list_all (\<lambda>d. f_in 0 100 (d_score d)) (ev_additional_alerts ev)
    \<and> (case ev_alert ev of None \<Rightarrow> True | Some d \<Rightarrow> f_in 0 100 (d_score d))"
proof -
  let ?eng = "run_engine es (engine_with_sensor config sensor)"
  let ?p = "if is_excluded (de_config ?eng) (fe_path event) then (?eng, no_evidence event) else assess_included ?eng event"
  have "multi_problems (dc_multi_window config) = []"
    using assms(1) by (auto simp: validate_configuration_def config_problems_def split: if_splits)
  then have pos: "mw_enabled (dc_multi_window config) \<longrightarrow>
      (\<forall>w\<in>set (mw_windows (dc_multi_window config)). 0 < dw_min_changed_files w)"
    using bad_window_nil [of "[]" "mw_windows (dc_multi_window config)"]
    by (auto simp: multi_problems_def list_all_iff split: if_splits)
  have ref: "engine_refines config (length es) ?eng" using run_engine_refines assms(2) by simp
  note r = assess_included_range [OF ref assms(2) pos, of event]
  have "f_in 0 100 (ev_score (snd ?p))" "\<And>d. ev_alert (snd ?p) = Some d \<Longrightarrow> f_in 0 100 (d_score d)"
    "list_all (\<lambda>d. f_in 0 100 (d_score d)) (ev_additional_alerts (snd ?p))"
    using r by (auto simp: no_evidence_def split: if_splits)
  then show ?thesis using check_canary_range [of ?p event] assms(3)
    by (simp add: engine_evaluate_def canary_parts split: option.split)
qed

text \<open>
  C1: under an accepted configuration, after any history of events, the score that the engine
  gives to the next event and the score of every alert it raises are finite numbers between 0
  and 100.
\<close>

theorem engine_scores_in_range:
  assumes "validate_configuration log2 config response sensor = Inr warnings" "length es < 2 ^ 64 - 1"
    and "ev = snd (engine_evaluate (run_engine es (engine_with_sensor config sensor)) event)"
  shows "f_in 0 100 (ev_score ev)
    \<and> list_all (\<lambda>d. f_in 0 100 (d_score d)) (ev_additional_alerts ev)
    \<and> (case ev_alert ev of None \<Rightarrow> True | Some d \<Rightarrow> f_in 0 100 (d_score d))"
  using assms by (rule engine_range)

section \<open>Witnesses\<close>

lemma canary_tampered: "tampers_canary canary_config (demo_event 20 42 7 ''/srv/tmp/canary'')"
  "\<not> tampers_canary canary_config (demo_event 20 42 7 ''/srv/tmp/a'')"
  "is_excluded canary_config ''/srv/tmp/a''"
  "de_config (engine_new canary_config) = canary_config"
  by (code_simp, code_simp, code_simp, simp add: engine_new_def engine_with_sensor_def)

theorem canary_tamper_always_counts_witness:
  "ev_eligible (snd (engine_evaluate (engine_new canary_config) (demo_event 20 42 7 ''/srv/tmp/canary'')))"
  using canary_tamper_always_counts [of "engine_new canary_config" "demo_event 20 42 7 ''/srv/tmp/canary''"]
    canary_tampered by simp

theorem excluded_path_is_ignored_witness:
  "engine_evaluate (engine_new canary_config) (demo_event 20 42 7 ''/srv/tmp/a'')
   = (engine_new canary_config, no_evidence (demo_event 20 42 7 ''/srv/tmp/a''))"
  using excluded_path_is_ignored [of "engine_new canary_config" "demo_event 20 42 7 ''/srv/tmp/a''"]
    canary_tampered by (simp add: demo_event_def)


theorem approval_is_narrow_witness:
  "\<exists>change\<in>set (dc_approved_changes approving_config). ac_id change = ''backup''"
proof -
  let ?e = "demo_event 20 42 7 ''/srv/a''" and ?eng = "engine_new approving_config"
  have x: "approval_for approving_config ?e = Some (hd (dc_approved_changes approving_config))"
    "\<not> is_excluded approving_config ''/srv/a''" by code_simp+
  have own: "ev_approved_change_id (snd (evaluate_with_approval event y s)) = y" for event y s
    by (simp add: evaluate_with_approval_def assess_def Let_def)
  have "ev_approved_change_id (snd (engine_evaluate ?eng ?e)) = Some ''backup''"
    using x by (simp add: engine_evaluate_def canary_parts included_parts merge_parts own engine_new_def
        engine_with_sensor_def demo_event_def legacy_approval_def approving_config_def)
  from approval_is_narrow [OF this] show ?thesis
    by (auto simp: engine_new_def engine_with_sensor_def)
qed

theorem engine_scores_in_range_witness:
  "f_in 0 100 (ev_score (snd (engine_evaluate (run_engine [demo_event 10 42 7 ''/srv/b'']
     (engine_with_sensor multi_config Fanotify)) (demo_event 20 42 7 ''/srv/a''))))"
proof -
  have "config_problems multi_config response_config_default = []"
    by (simp add: config_problems_def multi_config_def multi_problems_def multi_window_config_default_def
        sampling_problem_def content_sampling_config_default_def checked_mul_def response_config_default_def
        detection_window_default_def)
  then have "validate_configuration (\<lambda>_. Fin 8) multi_config response_config_default Fanotify
      = Inr (config_warnings (\<lambda>_. Fin 8) multi_config response_config_default Fanotify)"
    by (simp add: validate_configuration_def)
  from engine_scores_in_range [OF this, of "[demo_event 10 42 7 ''/srv/b'']" _ "demo_event 20 42 7 ''/srv/a''"]
  show ?thesis by simp
qed

end
