(* ===== verification/Policy_Trust.thy ===== *)
theory Policy_Trust
  imports Detect_Engine Argos_Hex
begin

text \<open>
  Crate \<^verbatim>\<open>argos-policy\<close>, \<^verbatim>\<open>lib.rs\<close> and \<^verbatim>\<open>trust.rs\<close>: signed policies and the transaction
  that activates one.  The state database is its three tables, with the constraints of their
  schema; a transaction that fails leaves them as they were.  Cryptography, hexadecimal coding and
  the TOML and JSON codecs are the fields of \<open>policy_lib\<close>; a fault of the database is an input.
\<close>

section \<open>Policies\<close>

record rollback_approval =
  ra_source_version :: u64
  ra_source_sha256 :: string
  ra_approval_id :: string
  ra_reason :: string

record policy =
  po_version :: u64
  po_policy_id :: string
  po_key_id :: string
  po_issued_at_ms :: u64
  po_not_before_ms :: u64
  po_expires_at_ms :: u64
  po_target_hosts :: "string list"
  po_target_groups :: "string list"
  po_rollback :: "rollback_approval option"
  po_detection :: detection_config
  po_response :: response_config

definition policy_default :: policy where
  "policy_default =
     \<lparr>po_version = 0, po_policy_id = [], po_key_id = [], po_issued_at_ms = 0, po_not_before_ms = 0,
      po_expires_at_ms = 0, po_target_hosts = [], po_target_groups = [], po_rollback = None,
      po_detection = detection_config_default, po_response = response_config_default\<rparr>"

text \<open>
  What the crate takes from its dependencies.  A verifying key is represented by the bytes that
  \<^verbatim>\<open>to_bytes\<close> gives.
\<close>

record policy_lib =
  pl_hex_decode :: "string \<Rightarrow> string option"
  pl_hex_encode :: "string \<Rightarrow> string"
  pl_verifying_key :: "string \<Rightarrow> string option"
  pl_verify :: "string \<Rightarrow> string \<Rightarrow> string \<Rightarrow> bool"
  pl_sign :: "string \<Rightarrow> string \<Rightarrow> string"
  pl_sha256 :: "string \<Rightarrow> string"
  pl_toml :: "string \<Rightarrow> policy option"
  pl_json :: "detection_config \<times> response_config \<Rightarrow> string option"
  pl_log2 :: "f64 \<Rightarrow> f64"

datatype policy_error = PolicyIo path io_error | KeyFormat | InvalidSignature | PolicyParse | PolicyUtf8

definition decode_exact :: "policy_lib \<Rightarrow> nat \<Rightarrow> string \<Rightarrow> policy_error + string" where
  "decode_exact lib n hex =
     (case pl_hex_decode lib (trim hex) of
        None \<Rightarrow> Inl KeyFormat
      | Some bytes \<Rightarrow> if length bytes = n then Inr bytes else Inl KeyFormat)"

definition parse_signing_key :: "policy_lib \<Rightarrow> string \<Rightarrow> policy_error + string" where
  "parse_signing_key lib secret_hex = decode_exact lib 32 secret_hex"

definition parse_verifying_key :: "policy_lib \<Rightarrow> string \<Rightarrow> policy_error + string" where
  "parse_verifying_key lib pub_hex =
     (case decode_exact lib 32 pub_hex of
        Inl e \<Rightarrow> Inl e
      | Inr bytes \<Rightarrow> (case pl_verifying_key lib bytes of None \<Rightarrow> Inl KeyFormat | Some key \<Rightarrow> Inr key))"

definition sign_bytes :: "policy_lib \<Rightarrow> string \<Rightarrow> string \<Rightarrow> policy_error + string" where
  "sign_bytes lib data secret_hex =
     (case parse_signing_key lib secret_hex of
        Inl e \<Rightarrow> Inl e | Inr key \<Rightarrow> Inr (pl_hex_encode lib (pl_sign lib key data)))"

definition verify_bytes :: "policy_lib \<Rightarrow> string \<Rightarrow> string \<Rightarrow> string \<Rightarrow> policy_error + unit" where
  "verify_bytes lib data sig_hex pub_hex =
     (case parse_verifying_key lib pub_hex of
        Inl e \<Rightarrow> Inl e
      | Inr key \<Rightarrow>
          (case decode_exact lib 64 sig_hex of
             Inl e \<Rightarrow> Inl e
           | Inr sig \<Rightarrow> if pl_verify lib key data sig then Inr () else Inl InvalidSignature))"

definition sig_path_for :: "path \<Rightarrow> path" where
  "sig_path_for p = p @ ''.sig''"

text \<open>\<^verbatim>\<open>load_verified\<close>: the bytes that were verified are the bytes that are parsed.\<close>

definition read_signed ::
  "(path \<Rightarrow> io_error + string) \<Rightarrow> path \<Rightarrow> policy_error + (string \<times> string)" where
  "read_signed files policy_path =
     (case files policy_path of
        Inl e \<Rightarrow> Inl (PolicyIo policy_path e)
      | Inr data \<Rightarrow>
          (case files (sig_path_for policy_path) of
             Inl e \<Rightarrow> Inl (PolicyIo (sig_path_for policy_path) e)
           | Inr sig \<Rightarrow>
               (case from_utf8 sig of
                  None \<Rightarrow> Inl (PolicyIo (sig_path_for policy_path) (OtherIo ''invalid data''))
                | Some sig \<Rightarrow> Inr (data, sig))))"

definition verify_file :: "policy_lib \<Rightarrow> (path \<Rightarrow> io_error + string) \<Rightarrow> path \<Rightarrow> string \<Rightarrow> policy_error + unit" where
  "verify_file lib files policy_path pub_hex =
     (case read_signed files policy_path of
        Inl e \<Rightarrow> Inl e | Inr (data, sig) \<Rightarrow> verify_bytes lib data sig pub_hex)"

definition load_verified :: "policy_lib \<Rightarrow> (path \<Rightarrow> io_error + string) \<Rightarrow> path \<Rightarrow> string \<Rightarrow> policy_error + policy" where
  "load_verified lib files policy_path pub_hex =
     (case read_signed files policy_path of
        Inl e \<Rightarrow> Inl e
      | Inr (data, sig) \<Rightarrow>
          (case verify_bytes lib data sig pub_hex of
             Inl e \<Rightarrow> Inl e
           | Inr _ \<Rightarrow>
               (case from_utf8 data of
                  None \<Rightarrow> Inl PolicyUtf8
                | Some text \<Rightarrow> (case pl_toml lib text of None \<Rightarrow> Inl PolicyParse | Some p \<Rightarrow> Inr p))))"

definition sign_file ::
  "policy_lib \<Rightarrow> (path \<Rightarrow> io_error + string) \<Rightarrow> path \<Rightarrow> string \<Rightarrow>
     policy_error + ((path \<Rightarrow> io_error + string) \<times> path)" where
  "sign_file lib files policy_path secret_hex =
     (case files policy_path of
        Inl e \<Rightarrow> Inl (PolicyIo policy_path e)
      | Inr data \<Rightarrow>
          (case sign_bytes lib data secret_hex of
             Inl e \<Rightarrow> Inl e
           | Inr sig \<Rightarrow> Inr (files(sig_path_for policy_path := Inr sig), sig_path_for policy_path)))"

section \<open>The state database\<close>

definition MAX_POLICY_BYTES :: nat where
  "MAX_POLICY_BYTES = 1024 * 1024"

definition MAX_AUDIT_ROWS :: nat where
  "MAX_AUDIT_ROWS = 10000"

record accepted_policy =
  ap_version :: u64
  ap_policy_id :: string
  ap_sha256 :: string
  ap_key_id :: string
  ap_accepted_at_ms :: u64
  ap_expires_at_ms :: u64
  ap_policy_bytes :: string
  ap_settings_json :: string
  ap_approval_id :: "string option"

record policy_audit =
  pa_id :: nat
  pa_timestamp_ms :: u64
  pa_outcome :: string
  pa_reason :: string
  pa_version :: "u64 option"
  pa_policy_id :: "string option"
  pa_sha256 :: "string option"
  pa_key_id :: "string option"
  pa_approval_id :: "string option"

record policy_state =
  ps_accepted :: "accepted_policy list"
  ps_active :: "u64 option"
  ps_audit :: "policy_audit list"
  ps_audit_seq :: nat

definition policy_state_empty :: policy_state where
  "policy_state_empty = \<lparr>ps_accepted = [], ps_active = None, ps_audit = [], ps_audit_seq = 0\<rparr>"

datatype activation_error = Rejected string | StateError | StateIo io_error | UnsafeStatePath

text \<open>
  The database calls of a transaction that may fail for reasons of its environment.  An integer
  above the range of \<^verbatim>\<open>i64\<close> can not be bound to a statement.
\<close>

record db_faults =
  ft_begin :: bool
  ft_active_query :: bool
  ft_source_query :: bool
  ft_used_query :: bool
  ft_insert :: bool
  ft_audit :: bool
  ft_commit :: bool

definition sql_int :: "u64 \<Rightarrow> bool" where
  "sql_int n = (n \<le> i64_max)"

definition active_row :: "policy_state \<Rightarrow> accepted_policy option" where
  "active_row st =
     (case ps_active st of None \<Rightarrow> None
      | Some v \<Rightarrow> find (\<lambda>p. ap_version p = v) (ps_accepted st))"

definition insert_accepted :: "accepted_policy \<Rightarrow> policy_state \<Rightarrow> policy_state option" where
  "insert_accepted row st =
     (if sql_int (ap_version row) \<and> 0 < ap_version row \<and> sql_int (ap_accepted_at_ms row)
         \<and> sql_int (ap_expires_at_ms row)
         \<and> ap_version row \<notin> ap_version ` set (ps_accepted st)
         \<and> (case ap_approval_id row of None \<Rightarrow> True
             | Some a \<Rightarrow> Some a \<notin> ap_approval_id ` set (ps_accepted st))
      then Some (st\<lparr>ps_accepted := ps_accepted st @ [row]\<rparr>) else None)"

definition prune_audit :: "policy_audit list \<Rightarrow> policy_audit list" where
  "prune_audit rows =
     (let top = Max (insert 0 (set (map pa_id rows)))
      in filter (\<lambda>r. \<not> int (pa_id r) \<le> int top - int MAX_AUDIT_ROWS) rows)"

definition audit_row ::
  "nat \<Rightarrow> u64 \<Rightarrow> string \<Rightarrow> string \<Rightarrow> policy option \<Rightarrow> string option \<Rightarrow> policy_audit" where
  "audit_row row_id now outcome reason policy hash =
     \<lparr>pa_id = row_id, pa_timestamp_ms = now, pa_outcome = outcome,
      pa_reason = reason, pa_version = map_option po_version policy,
      pa_policy_id = map_option po_policy_id policy, pa_sha256 = hash,
      pa_key_id = map_option po_key_id policy,
      pa_approval_id = Option.bind policy (\<lambda>p. map_option ra_approval_id (po_rollback p))\<rparr>"

definition audit ::
  "db_faults \<Rightarrow> u64 \<Rightarrow> string \<Rightarrow> string \<Rightarrow> policy option \<Rightarrow> string option \<Rightarrow> policy_state \<Rightarrow>
     policy_state option" where
  "audit faults now outcome reason policy hash st =
     (if ft_audit faults \<or> \<not> sql_int now
         \<or> (case policy of None \<Rightarrow> False | Some p \<Rightarrow> \<not> sql_int (po_version p))
      then None
      else Some (st\<lparr>ps_audit_seq := Suc (ps_audit_seq st),
                    ps_audit := prune_audit (ps_audit st @
                      [audit_row (Suc (ps_audit_seq st)) now outcome reason policy hash])\<rparr>))"

section \<open>Reading and verifying a candidate\<close>

definition valid_id :: "string \<Rightarrow> bool" where
  "valid_id value =
     (value \<noteq> [] \<and> length value \<le> 128
      \<and> list_all (\<lambda>c. ascii_alphanumeric c \<or> c \<in> set ''-_.:@'') value)"

text \<open>An opened file: whether it is a regular file, and its content.\<close>

definition read_bounded :: "io_error + (io_error + bool) \<times> (io_error + string) \<Rightarrow> nat \<Rightarrow> io_error + string" where
  "read_bounded opened maximum =
     (case opened of Inl e \<Rightarrow> Inl e
      | Inr (meta, content) \<Rightarrow>
          (case meta of Inl e \<Rightarrow> Inl e
           | Inr is_file \<Rightarrow>
               if \<not> is_file then Inl InvalidInput
               else (case content of Inl e \<Rightarrow> Inl e
                     | Inr data \<Rightarrow>
                         let bytes = take (maximum + 1) data
                         in if maximum < length bytes then Inl (OtherIo ''policy size limit'') else Inr bytes)))"

type_synonym policy_files = "path \<Rightarrow> io_error + (io_error + bool) \<times> (io_error + string)"

fun check_trusted_keys :: "policy_lib \<Rightarrow> string list \<Rightarrow> string list \<Rightarrow> string + unit" where
  "check_trusted_keys lib seen [] = Inr ()"
| "check_trusted_keys lib seen (key # keys) =
     (case parse_verifying_key lib key of
        Inl _ \<Rightarrow> Inl ''invalid_local_trusted_keys''
      | Inr parsed \<Rightarrow>
          if parsed \<in> set seen then Inl ''duplicate_local_trusted_key''
          else check_trusted_keys lib (parsed # seen) keys)"

definition signing_key_id :: "policy_lib \<Rightarrow> string \<Rightarrow> string \<Rightarrow> (string \<times> string) list \<Rightarrow> string option" where
  "signing_key_id lib bytes signature keys =
     map_option fst (find (\<lambda>(_, key). verify_bytes lib bytes signature key = Inr ()) keys)"

definition rollback_shape_ok :: "policy \<Rightarrow> bool" where
  "rollback_shape_ok policy =
     (case po_rollback policy of None \<Rightarrow> True
      | Some r \<Rightarrow>
          ra_source_version r \<noteq> 0 \<and> ra_source_version r < po_version policy
          \<and> length (ra_source_sha256 r) = 64 \<and> list_all lower_hex_digit (ra_source_sha256 r)
          \<and> valid_id (ra_approval_id r) \<and> \<not> blank_str (ra_reason r) \<and> length (ra_reason r) \<le> 512
          \<and> \<not> list_ex control_char (utf8_chars (ra_reason r)))"

definition policy_ids_ok :: "policy \<Rightarrow> bool" where
  "policy_ids_ok policy =
     (valid_id (po_policy_id policy) \<and> valid_id (po_key_id policy)
      \<and> length (po_target_hosts policy) \<le> 128 \<and> length (po_target_groups policy) \<le> 128
      \<and> list_all valid_id (po_target_hosts policy @ po_target_groups policy))"

record verified =
  vf_policy :: policy
  vf_bytes :: string
  vf_hash :: string
  vf_settings :: string
  vf_warnings :: "config_warning list"

definition check_policy ::
  "policy_lib \<Rightarrow> sensor_kind \<Rightarrow> string \<Rightarrow> string \<Rightarrow> policy \<Rightarrow> string + verified" where
  "check_policy lib sensor bytes signing_id policy =
     (if \<not> policy_ids_ok policy then Inl ''invalid_policy_metadata''
      else if po_key_id policy \<noteq> signing_id then Inl ''key_id_mismatch''
      else if po_version policy = 0 \<or> i64_max < po_version policy then Inl ''invalid_version''
      else if \<not> rollback_shape_ok policy then Inl ''invalid_rollback_approval''
      else case validate_configuration (pl_log2 lib) (po_detection policy) (po_response policy) sensor of
        Inl _ \<Rightarrow> Inl ''invalid_detection_response_configuration''
      | Inr warnings \<Rightarrow>
          (case pl_json lib (po_detection policy, po_response policy) of
             None \<Rightarrow> Inl ''invalid_detection_response_configuration''
           | Some settings \<Rightarrow>
               Inr \<lparr>vf_policy = policy, vf_bytes = bytes,
                    vf_hash = pl_hex_encode lib (pl_sha256 lib bytes),
                    vf_settings = settings, vf_warnings = warnings\<rparr>))"

definition read_verify ::
  "policy_lib \<Rightarrow> policy_files \<Rightarrow> policy_file_config \<Rightarrow> sensor_kind \<Rightarrow> string + verified" where
  "read_verify lib files config sensor =
     (if \<not> valid_id (pf_policy_id config) \<or> \<not> valid_id (pf_host_id config)
         \<or> 128 < length (pf_groups config) \<or> list_ex (\<lambda>g. \<not> valid_id g) (pf_groups config)
      then Inl ''invalid_local_identity''
      else if pf_trusted_keys config = [] \<or> 64 < length (pf_trusted_keys config)
         \<or> list_ex (\<lambda>(i, _). \<not> valid_id i) (pf_trusted_keys config)
      then Inl ''invalid_local_trusted_keys''
      else case check_trusted_keys lib [] (map snd (pf_trusted_keys config)) of Inl e \<Rightarrow> Inl e | Inr _ \<Rightarrow>
      case read_bounded (files (pf_path config)) MAX_POLICY_BYTES of
        Inl _ \<Rightarrow> Inl ''policy_read_failed''
      | Inr bytes \<Rightarrow>
      case read_bounded (files (sig_path_for (pf_path config))) 256 of
        Inl _ \<Rightarrow> Inl ''signature_read_failed''
      | Inr signature_bytes \<Rightarrow>
      case from_utf8 signature_bytes of None \<Rightarrow> Inl ''invalid_signature'' | Some signature \<Rightarrow>
      case signing_key_id lib bytes signature (pf_trusted_keys config) of
        None \<Rightarrow> Inl ''invalid_signature''
      | Some signing_id \<Rightarrow>
      case Option.bind (from_utf8 bytes) (pl_toml lib) of
        None \<Rightarrow> Inl ''invalid_policy_format''
      | Some policy \<Rightarrow> check_policy lib sensor bytes signing_id policy)"

section \<open>Accepting it\<close>

definition check_metadata :: "policy_file_config \<Rightarrow> policy \<Rightarrow> u64 \<Rightarrow> string + unit" where
  "check_metadata config policy now =
     (if po_policy_id policy \<noteq> pf_policy_id config then Inl ''policy_id_mismatch''
      else if po_issued_at_ms policy = 0 \<or> po_not_before_ms policy < po_issued_at_ms policy
         \<or> po_expires_at_ms policy \<le> po_not_before_ms policy \<or> i64_max < po_expires_at_ms policy
      then Inl ''invalid_validity_interval''
      else if now < po_not_before_ms policy then Inl ''not_yet_valid''
      else if po_expires_at_ms policy \<le> now then Inl ''expired''
      else if po_target_hosts policy = [] \<and> po_target_groups policy = [] then Inl ''missing_target''
      else if po_target_hosts policy \<noteq> [] \<and> pf_host_id config \<notin> set (po_target_hosts policy)
      then Inl ''host_target_mismatch''
      else if po_target_groups policy \<noteq> []
         \<and> \<not> list_ex (\<lambda>g. g \<in> set (pf_groups config)) (po_target_groups policy)
      then Inl ''group_target_mismatch''
      else Inr ())"

definition check_rollback ::
  "db_faults \<Rightarrow> policy_state \<Rightarrow> policy \<Rightarrow> rollback_approval \<Rightarrow> string \<Rightarrow> string + string" where
  "check_rollback faults st policy rollback settings =
     (if (case active_row st of None \<Rightarrow> True | Some row \<Rightarrow> ap_version row \<le> ra_source_version rollback)
      then Inl ''rollback_source_not_older''
      else if ft_source_query faults then Inl ''state_query_failed''
      else case find (\<lambda>p. ap_version p = ra_source_version rollback \<and> ap_policy_id p = po_policy_id policy)
                 (ps_accepted st) of
        None \<Rightarrow> Inl ''rollback_source_unknown''
      | Some source \<Rightarrow>
          if ap_sha256 source \<noteq> ra_source_sha256 rollback then Inl ''rollback_source_hash_mismatch''
          else if ap_settings_json source \<noteq> settings then Inl ''rollback_settings_mismatch''
          else if ft_used_query faults then Inl ''state_query_failed''
          else if list_ex (\<lambda>p. ap_approval_id p = Some (ra_approval_id rollback)) (ps_accepted st)
          then Inl ''rollback_approval_reused''
          else Inr ''rollback_accepted'')"

definition check_acceptance ::
  "db_faults \<Rightarrow> policy_state \<Rightarrow> policy_file_config \<Rightarrow> policy \<Rightarrow> string \<Rightarrow> string \<Rightarrow> u64 \<Rightarrow> string + string" where
  "check_acceptance faults st config policy hash settings now =
     (case check_metadata config policy now of Inl e \<Rightarrow> Inl e | Inr _ \<Rightarrow>
      if ft_active_query faults then Inl ''state_query_failed''
      else let continue = (case po_rollback policy of
                             None \<Rightarrow> Inr ''accepted''
                           | Some rollback \<Rightarrow> check_rollback faults st policy rollback settings)
      in case active_row st of
           None \<Rightarrow> continue
         | Some row \<Rightarrow>
             if ap_policy_id row \<noteq> po_policy_id policy then Inl ''policy_series_change''
             else if po_version policy < ap_version row then Inl ''version_downgrade''
             else if po_version policy = ap_version row
             then (if hash = ap_sha256 row then Inr ''restarted'' else Inl ''version_reuse'')
             else continue)"

record activated_policy =
  at_policy :: policy
  at_sha256 :: string
  at_outcome :: string
  at_warnings :: "config_warning list"

definition commit_rejection ::
  "db_faults \<Rightarrow> u64 \<Rightarrow> string \<Rightarrow> policy option \<Rightarrow> string option \<Rightarrow> policy_state \<Rightarrow>
     policy_state \<times> activation_error" where
  "commit_rejection faults now code policy hash st =
     (case audit faults now ''rejected'' code policy hash st of
        None \<Rightarrow> (st, StateError)
      | Some st' \<Rightarrow> if ft_commit faults then (st, StateError) else (st', Rejected code))"

definition accepted_row :: "verified \<Rightarrow> u64 \<Rightarrow> accepted_policy" where
  "accepted_row v now =
     \<lparr>ap_version = po_version (vf_policy v), ap_policy_id = po_policy_id (vf_policy v),
      ap_sha256 = vf_hash v, ap_key_id = po_key_id (vf_policy v), ap_accepted_at_ms = now,
      ap_expires_at_ms = po_expires_at_ms (vf_policy v), ap_policy_bytes = vf_bytes v,
      ap_settings_json = vf_settings v,
      ap_approval_id = map_option ra_approval_id (po_rollback (vf_policy v))\<rparr>"

definition store_policy :: "db_faults \<Rightarrow> verified \<Rightarrow> u64 \<Rightarrow> string \<Rightarrow> policy_state \<Rightarrow> policy_state option" where
  "store_policy faults v now outcome st =
     (if outcome = ''restarted'' then Some st
      else if ft_insert faults then None
      else map_option (\<lambda>st'. st'\<lparr>ps_active := Some (po_version (vf_policy v))\<rparr>)
             (insert_accepted (accepted_row v now) st))"

text \<open>\<^verbatim>\<open>activate_at\<close>, after the state database was opened.\<close>

definition activate_in ::
  "policy_lib \<Rightarrow> policy_files \<Rightarrow> db_faults \<Rightarrow> policy_file_config \<Rightarrow> sensor_kind \<Rightarrow> u64 \<Rightarrow> policy_state \<Rightarrow>
     policy_state \<times> (activation_error + activated_policy)" where
  "activate_in lib files faults config sensor now st =
     (if ft_begin faults then (st, Inl StateError)
      else case read_verify lib files config sensor of
        Inl code \<Rightarrow> (case commit_rejection faults now code None None st of (st', e) \<Rightarrow> (st', Inl e))
      | Inr v \<Rightarrow>
      case check_acceptance faults st config (vf_policy v) (vf_hash v) (vf_settings v) now of
        Inl code \<Rightarrow>
          (case commit_rejection faults now code (Some (vf_policy v)) (Some (vf_hash v)) st of
             (st', e) \<Rightarrow> (st', Inl e))
      | Inr outcome \<Rightarrow>
      case Option.bind (store_policy faults v now outcome st)
             (audit faults now outcome ''validated'' (Some (vf_policy v)) (Some (vf_hash v))) of
        None \<Rightarrow> (st, Inl StateError)
      | Some st' \<Rightarrow>
          if ft_commit faults then (st, Inl StateError)
          else (st', Inr \<lparr>at_policy = vf_policy v, at_sha256 = vf_hash v, at_outcome = outcome,
                         at_warnings = vf_warnings v\<rparr>))"

section \<open>Opening and reading the state\<close>

definition policy_state_path :: "policy_file_config \<Rightarrow> path \<Rightarrow> path" where
  "policy_state_path config event_db_path =
     (if pf_state_path config \<noteq> [] then pf_state_path config
      else event_db_path @ ''.policy-state/state.sqlite3'')"

text \<open>What the checks of the state path observe of the file system (on Unix).\<close>

record path_meta =
  mt_is_dir :: bool
  mt_is_file :: bool
  mt_uid :: u32
  mt_mode :: u32
  mt_nlink :: u64

record state_fs =
  sf_euid :: u32
  sf_create_dir :: "io_error option"
  sf_parent_meta :: "io_error + path_meta"
  sf_create_file :: "(io_error + unit) option"
  sf_file_meta :: "io_error + path_meta"
  sf_sync_dirs :: "io_error option"
  sf_open_db :: bool

definition private_mode :: "path_meta \<Rightarrow> bool" where
  "private_mode m = (and (mt_mode m) 63 = 0)"

text \<open>\<open>sf_create_file\<close> is \<open>None\<close> when the file exists already.\<close>

definition protect_state_path :: "bool \<Rightarrow> state_fs \<Rightarrow> path \<Rightarrow> activation_error + unit" where
  "protect_state_path unix fs p =
     (if components p = [] \<or> components p = [RootDir]
         \<or> (\<not> is_absolute p \<and> length (components p) \<le> 1) \<or> \<not> unix then Inl UnsafeStatePath
      else case sf_create_dir fs of Some e \<Rightarrow> Inl (StateIo e) | None \<Rightarrow>
      case sf_parent_meta fs of Inl e \<Rightarrow> Inl (StateIo e) | Inr m \<Rightarrow>
      if \<not> mt_is_dir m \<or> mt_uid m \<noteq> sf_euid fs \<or> \<not> private_mode m then Inl UnsafeStatePath
      else case sf_create_file fs of Some (Inl e) \<Rightarrow> Inl (StateIo e) | _ \<Rightarrow>
      case sf_file_meta fs of Inl e \<Rightarrow> Inl (StateIo e) | Inr m \<Rightarrow>
      if \<not> mt_is_file m \<or> mt_uid m \<noteq> sf_euid fs \<or> \<not> private_mode m \<or> mt_nlink m \<noteq> 1
      then Inl UnsafeStatePath
      else case sf_sync_dirs fs of Some e \<Rightarrow> Inl (StateIo e) | None \<Rightarrow> Inr ())"

definition activate_at ::
  "policy_lib \<Rightarrow> policy_files \<Rightarrow> state_fs \<Rightarrow> db_faults \<Rightarrow> policy_file_config \<Rightarrow> path \<Rightarrow> sensor_kind \<Rightarrow>
     u64 \<Rightarrow> policy_state \<Rightarrow> policy_state \<times> (activation_error + activated_policy)" where
  "activate_at lib files fs faults config event_db_path sensor now st =
     (case protect_state_path True fs (policy_state_path config event_db_path) of
        Inl e \<Rightarrow> (st, Inl e)
      | Inr _ \<Rightarrow>
          if \<not> sf_open_db fs then (st, Inl StateError)
          else activate_in lib files faults config sensor now st)"

record policy_status =
  st_policy_id :: string
  st_version :: u64
  st_sha256 :: string
  st_key_id :: string
  st_accepted_at_ms :: u64
  st_expires_at_ms :: u64

record policy_state_snapshot =
  sn_active :: "policy_status option"
  sn_audit :: "policy_audit list"
  sn_audit_limit :: usize
  sn_audit_retention_rows :: nat

definition read_state :: "policy_state \<Rightarrow> usize \<Rightarrow> policy_state_snapshot" where
  "read_state st audit_limit =
     (let limit = min audit_limit 1000
      in \<lparr>sn_active = map_option (\<lambda>p. \<lparr>st_policy_id = ap_policy_id p, st_version = ap_version p,
                         st_sha256 = ap_sha256 p, st_key_id = ap_key_id p,
                         st_accepted_at_ms = ap_accepted_at_ms p,
                         st_expires_at_ms = ap_expires_at_ms p\<rparr>) (active_row st),
          sn_audit = take (unat limit) (rev (sort_key pa_id (ps_audit st))),
          sn_audit_limit = limit, sn_audit_retention_rows = MAX_AUDIT_ROWS\<rparr>)"

definition load_active_policy :: "policy_lib \<Rightarrow> policy_state \<Rightarrow> activation_error + policy" where
  "load_active_policy lib st =
     (case active_row st of
        None \<Rightarrow> Inl StateError
      | Some row \<Rightarrow>
          if pl_hex_encode lib (pl_sha256 lib (ap_policy_bytes row)) \<noteq> ap_sha256 row
          then Inl (Rejected ''state_hash_mismatch'')
          else case Option.bind (from_utf8 (ap_policy_bytes row)) (pl_toml lib) of
            None \<Rightarrow> Inl (Rejected ''invalid_saved_policy'')
          | Some policy \<Rightarrow>
              (case pl_json lib (po_detection policy, po_response policy) of
                 None \<Rightarrow> Inl (Rejected ''invalid_saved_policy'')
               | Some actual \<Rightarrow>
                   if actual \<noteq> ap_settings_json row then Inl (Rejected ''state_settings_mismatch'')
                   else Inr policy))"

definition load_trusted ::
  "policy_lib \<Rightarrow> policy_files \<Rightarrow> policy_file_config \<Rightarrow> sensor_kind \<Rightarrow> u64 \<Rightarrow> activation_error + policy" where
  "load_trusted lib files config sensor now =
     (case read_verify lib files config sensor of
        Inl code \<Rightarrow> Inl (Rejected code)
      | Inr v \<Rightarrow>
          (case check_metadata config (vf_policy v) now of
             Inl code \<Rightarrow> Inl (Rejected code) | Inr _ \<Rightarrow> Inr (vf_policy v)))"

section \<open>Specification notions\<close>

text \<open>A row that was accepted under \<open>lib\<close> can be read back as the policy it was.\<close>

definition row_ok :: "policy_lib \<Rightarrow> accepted_policy \<Rightarrow> bool" where
  "row_ok lib row \<longleftrightarrow> ap_sha256 row = pl_hex_encode lib (pl_sha256 lib (ap_policy_bytes row))
     \<and> (\<exists>p. Option.bind (from_utf8 (ap_policy_bytes row)) (pl_toml lib) = Some p
          \<and> po_version p = ap_version row \<and> po_policy_id p = ap_policy_id row
          \<and> pl_json lib (po_detection p, po_response p) = Some (ap_settings_json row))"

definition approval_ids :: "policy_state \<Rightarrow> string list" where
  "approval_ids st = List.map_filter ap_approval_id (ps_accepted st)"

definition accepted_inv :: "policy_lib \<Rightarrow> policy_state \<Rightarrow> bool" where
  "accepted_inv lib st \<longleftrightarrow>
     sorted_wrt (<) (map ap_version (ps_accepted st))
     \<and> ps_active st = (if ps_accepted st = [] then None else Some (ap_version (last (ps_accepted st))))
     \<and> (\<forall>p\<in>set (ps_accepted st). \<forall>q\<in>set (ps_accepted st). ap_policy_id p = ap_policy_id q)
     \<and> distinct (approval_ids st)
     \<and> (\<forall>p\<in>set (ps_accepted st). row_ok lib p \<and> 0 < ap_version p)"

definition audit_inv :: "policy_state \<Rightarrow> bool" where
  "audit_inv st \<longleftrightarrow> map pa_id (ps_audit st) = [Suc (ps_audit_seq st) - length (ps_audit st) ..< Suc (ps_audit_seq st)]
     \<and> length (ps_audit st) = min (ps_audit_seq st) MAX_AUDIT_ROWS"

text \<open>The states that any sequence of activations can reach.\<close>

inductive policy_reach :: "policy_lib \<Rightarrow> policy_state \<Rightarrow> bool" for lib where
  init: "policy_reach lib policy_state_empty"
| step: "policy_reach lib st \<Longrightarrow>
     policy_reach lib (fst (activate_at lib files fs faults config event_db_path sensor now st))"

definition demo_policy :: "u64 \<Rightarrow> rollback_approval option \<Rightarrow> policy" where
  "demo_policy version rollback =
     \<lparr>po_version = version, po_policy_id = ''fleet'', po_key_id = ''key-1'', po_issued_at_ms = 1,
      po_not_before_ms = 1, po_expires_at_ms = 100, po_target_hosts = [''host-1''],
      po_target_groups = [], po_rollback = rollback, po_detection = multi_config,
      po_response = response_config_default\<rparr>"

definition demo_digest :: "string \<Rightarrow> string" where
  "demo_digest bytes = replicate 63 (CHR ''0'') @ take 1 bytes"

definition demo_rollback :: rollback_approval where
  "demo_rollback = \<lparr>ra_source_version = 1, ra_source_sha256 = demo_digest ''1'',
     ra_approval_id = ''CHG-7'', ra_reason = ''revert''\<rparr>"

definition demo_lib :: policy_lib where
  "demo_lib =
     \<lparr>pl_hex_decode = Some, pl_hex_encode = (\<lambda>b. b), pl_verifying_key = Some,
      pl_verify = (\<lambda>key data sig. sig = replicate 64 (hd key)),
      pl_sign = (\<lambda>key data. replicate 64 (hd key)), pl_sha256 = demo_digest,
      pl_toml = (\<lambda>t. if t = ''1'' then Some (demo_policy 1 None)
                     else if t = ''2'' then Some (demo_policy 2 None)
                     else if t = ''3'' then Some (demo_policy 3 (Some demo_rollback)) else None),
      pl_json = (\<lambda>_. Some ''{}''), pl_log2 = (\<lambda>_. Fin 8)\<rparr>"

definition demo_policy_config :: policy_file_config where
  "demo_policy_config = policy_file_config_default\<lparr>pf_path := ''/p'', pf_policy_id := ''fleet'',
     pf_host_id := ''host-1'', pf_trusted_keys := [(''key-1'', replicate 32 (CHR ''k''))]\<rparr>"

definition demo_files :: "string \<Rightarrow> policy_files" where
  "demo_files body p = Inr (Inr True, Inr (if p = ''/p'' then body else replicate 64 (CHR ''k'')))"

definition demo_fs :: state_fs where
  "demo_fs = \<lparr>sf_euid = 0, sf_create_dir = None,
     sf_parent_meta = Inr \<lparr>mt_is_dir = True, mt_is_file = False, mt_uid = 0, mt_mode = 448, mt_nlink = 2\<rparr>,
     sf_create_file = None,
     sf_file_meta = Inr \<lparr>mt_is_dir = False, mt_is_file = True, mt_uid = 0, mt_mode = 384, mt_nlink = 1\<rparr>,
     sf_sync_dirs = None, sf_open_db = True\<rparr>"

definition no_faults :: db_faults where
  "no_faults = \<lparr>ft_begin = False, ft_active_query = False, ft_source_query = False, ft_used_query = False,
     ft_insert = False, ft_audit = False, ft_commit = False\<rparr>"

definition demo_activate :: "string \<Rightarrow> u64 \<Rightarrow> policy_state \<Rightarrow> policy_state \<times> (activation_error + activated_policy)" where
  "demo_activate body now st =
     activate_at demo_lib (demo_files body) demo_fs no_faults demo_policy_config ''/db'' Fanotify now st"

definition demo_state :: "nat \<Rightarrow> policy_state" where
  "demo_state n = (if n = 0 then policy_state_empty
     else if n = 1 then fst (demo_activate ''1'' 10 policy_state_empty)
     else fst (demo_activate ''2'' 20 (fst (demo_activate ''1'' 10 policy_state_empty))))"

definition hex_lib :: policy_lib where
  "hex_lib = demo_lib\<lparr>pl_hex_encode := (\<lambda>bs. concat (map hex_byte bs)), pl_hex_decode := hex_bytes\<rparr>"

section \<open>One activation\<close>

lemma audit_frame:
  "audit faults now outcome reason policy hash st = Some st' \<Longrightarrow>
     ps_accepted st' = ps_accepted st \<and> ps_active st' = ps_active st"
  by (auto simp: audit_def split: if_splits)

lemma commit_rejection_frame:
  "commit_rejection faults now code policy hash st = (st', e) \<Longrightarrow>
     ps_accepted st' = ps_accepted st \<and> ps_active st' = ps_active st"
  by (auto simp: commit_rejection_def dest: audit_frame split: option.splits if_splits)

lemma activate_in_Inr:
  assumes "activate_in lib files faults config sensor now st = (st', Inr a)"
  obtains v st1 where "read_verify lib files config sensor = Inr v"
    "check_acceptance faults st config (vf_policy v) (vf_hash v) (vf_settings v) now = Inr (at_outcome a)"
    "store_policy faults v now (at_outcome a) st = Some st1"
    "audit faults now (at_outcome a) ''validated'' (Some (vf_policy v)) (Some (vf_hash v)) st1 = Some st'"
    "at_policy a = vf_policy v" "at_sha256 a = vf_hash v"
  using assms
  by (auto simp: activate_in_def bind_eq_Some_conv split: if_splits sum.splits option.splits prod.splits)

lemma activate_in_Inl:
  assumes "activate_in lib files faults config sensor now st = (st', Inl e)"
  shows "ps_accepted st' = ps_accepted st \<and> ps_active st' = ps_active st"
  using assms
  by (auto simp: activate_in_def dest: commit_rejection_frame split: if_splits sum.splits option.splits prod.splits)

lemma activate_at_cases:
  assumes "activate_at lib files fs faults config event_db_path sensor now st = (st', r)"
  obtains "st' = st" "\<exists>e. r = Inl e" | "activate_in lib files faults config sensor now st = (st', r)"
  using assms by (auto simp: activate_at_def split: sum.splits if_splits)


section \<open>Trust\<close>

lemma read_verify_Inr:
  assumes "read_verify lib files config sensor = Inr v"
  obtains sig key warnings where "verify_bytes lib (vf_bytes v) sig key = Inr ()"
    "(po_key_id (vf_policy v), key) \<in> set (pf_trusted_keys config)"
    "Option.bind (from_utf8 (vf_bytes v)) (pl_toml lib) = Some (vf_policy v)"
    "validate_configuration (pl_log2 lib) (po_detection (vf_policy v)) (po_response (vf_policy v)) sensor = Inr warnings"
    "pl_json lib (po_detection (vf_policy v), po_response (vf_policy v)) = Some (vf_settings v)"
    "vf_hash v = pl_hex_encode lib (pl_sha256 lib (vf_bytes v))"
    "0 < po_version (vf_policy v)" "po_version (vf_policy v) \<le> i64_max" "rollback_shape_ok (vf_policy v)"
    "length (vf_bytes v) \<le> MAX_POLICY_BYTES"
proof -
  from assms obtain bytes sigb sig key_id policy where
    r: "read_bounded (files (pf_path config)) MAX_POLICY_BYTES = Inr bytes"
    "signing_key_id lib bytes sig (pf_trusted_keys config) = Some key_id"
    "Option.bind (from_utf8 bytes) (pl_toml lib) = Some policy"
    "check_policy lib sensor bytes key_id policy = Inr v"
    by (auto simp: read_verify_def split: if_splits sum.splits option.splits)
  from r(4) obtain warnings where
    c: "po_key_id policy = key_id" "po_version policy \<noteq> 0" "po_version policy \<le> i64_max" "rollback_shape_ok policy"
    "validate_configuration (pl_log2 lib) (po_detection policy) (po_response policy) sensor = Inr warnings"
    "pl_json lib (po_detection policy, po_response policy) = Some (vf_settings v)"
    "vf_policy v = policy" "vf_bytes v = bytes" "vf_hash v = pl_hex_encode lib (pl_sha256 lib bytes)"
    by (auto simp: check_policy_def not_less split: if_splits sum.splits option.splits)
  from r(2) c(1) obtain key where "(po_key_id policy, key) \<in> set (pf_trusted_keys config)" "verify_bytes lib bytes sig key = Inr ()"
    by (auto simp: signing_key_id_def dest!: find_SomeD)
  moreover have "length bytes \<le> MAX_POLICY_BYTES"
    using r(1) by (auto simp: read_bounded_def Let_def split: sum.splits if_splits)
  ultimately show ?thesis using that [of sig key warnings] c r(3) by (simp add: word_gt_0)
qed

lemma check_acceptance_metadata:
  "check_acceptance faults st config policy hash settings now = Inr outcome \<Longrightarrow> check_metadata config policy now = Inr ()"
  by (auto simp: check_acceptance_def split: sum.splits)

text \<open>
  C3: an activated policy was parsed from bytes that a locally trusted key signed, under the key
  id that the policy itself names, is valid at the time of activation, is meant for this policy
  series and for this host or one of its groups (both when both are named), and its detection and
  response settings pass the configuration check.
\<close>

theorem activated_policy_is_trusted:
  assumes "activate_at lib files fs faults config event_db_path sensor now st = (st', Inr a)"
  shows "(\<exists>bytes sig key warnings. verify_bytes lib bytes sig key = Inr ()
      \<and> (po_key_id (at_policy a), key) \<in> set (pf_trusted_keys config)
      \<and> Option.bind (from_utf8 bytes) (pl_toml lib) = Some (at_policy a)
      \<and> at_sha256 a = pl_hex_encode lib (pl_sha256 lib bytes) \<and> length bytes \<le> MAX_POLICY_BYTES
      \<and> validate_configuration (pl_log2 lib) (po_detection (at_policy a)) (po_response (at_policy a)) sensor = Inr warnings)
    \<and> po_policy_id (at_policy a) = pf_policy_id config
      \<and> po_not_before_ms (at_policy a) \<le> now \<and> now < po_expires_at_ms (at_policy a)
      \<and> (po_target_hosts (at_policy a) = [] \<or> pf_host_id config \<in> set (po_target_hosts (at_policy a)))
      \<and> (po_target_groups (at_policy a) = [] \<or> set (po_target_groups (at_policy a)) \<inter> set (pf_groups config) \<noteq> {})
      \<and> (po_target_hosts (at_policy a) \<noteq> [] \<or> po_target_groups (at_policy a) \<noteq> [])"
proof -
  have "activate_in lib files faults config sensor now st = (st', Inr a)"
    using assms by (cases rule: activate_at_cases) auto
  then obtain v st1 where v: "read_verify lib files config sensor = Inr v"
    "check_acceptance faults st config (vf_policy v) (vf_hash v) (vf_settings v) now = Inr (at_outcome a)"
    "at_policy a = vf_policy v" "at_sha256 a = vf_hash v" by (rule activate_in_Inr)
  have "\<exists>bytes sig key warnings. verify_bytes lib bytes sig key = Inr ()
      \<and> (po_key_id (at_policy a), key) \<in> set (pf_trusted_keys config)
      \<and> Option.bind (from_utf8 bytes) (pl_toml lib) = Some (at_policy a)
      \<and> at_sha256 a = pl_hex_encode lib (pl_sha256 lib bytes) \<and> length bytes \<le> MAX_POLICY_BYTES
      \<and> validate_configuration (pl_log2 lib) (po_detection (at_policy a)) (po_response (at_policy a)) sensor = Inr warnings"
    by (rule read_verify_Inr [OF v(1)]) (use v(3,4) in auto)
  moreover have "po_policy_id (at_policy a) = pf_policy_id config
      \<and> po_not_before_ms (at_policy a) \<le> now \<and> now < po_expires_at_ms (at_policy a)
      \<and> (po_target_hosts (at_policy a) = [] \<or> pf_host_id config \<in> set (po_target_hosts (at_policy a)))
      \<and> (po_target_groups (at_policy a) = [] \<or> set (po_target_groups (at_policy a)) \<inter> set (pf_groups config) \<noteq> {})
      \<and> (po_target_hosts (at_policy a) \<noteq> [] \<or> po_target_groups (at_policy a) \<noteq> [])"
    using check_acceptance_metadata [OF v(2)] v(3)
    by (auto simp: check_metadata_def list_ex_iff not_less not_le split: if_splits)
  ultimately show ?thesis by simp
qed

section \<open>The invariants of the state\<close>

lemma find_last:
  assumes "distinct (map f xs)" "xs \<noteq> []"
  shows "find (\<lambda>x. f x = f (last xs)) xs = Some (last xs)"
proof -
  have "find (\<lambda>x. f x = f (last xs)) xs \<noteq> None" using last_in_set [OF assms(2)] by (auto simp: find_None_iff)
  then obtain y where y: "find (\<lambda>x. f x = f (last xs)) xs = Some y" by blast
  then have "y \<in> set xs" "f y = f (last xs)" by (auto dest: find_SomeD)
  then have "y = last xs" using assms by (metis distinct_map inj_onD last_in_set)
  with y show ?thesis by simp
qed

lemma active_row_last:
  assumes "accepted_inv lib st"
  shows "active_row st = (if ps_accepted st = [] then None else Some (last (ps_accepted st)))"
proof -
  have "distinct (map ap_version (ps_accepted st))"
    using assms by (auto simp: accepted_inv_def strict_sorted_iff)
  then show ?thesis using assms find_last [of ap_version "ps_accepted st"]
    by (simp add: active_row_def accepted_inv_def)
qed

lemma versions_le_last:
  assumes "sorted_wrt (<) (map ap_version ps)" "p \<in> set ps"
  shows "ap_version p \<le> ap_version (last ps)"
proof -
  obtain qs q where "ps = qs @ [q]" using assms(2) by (cases ps rule: rev_cases) auto
  then show ?thesis using assms by (auto simp: sorted_wrt_append)
qed

lemma check_acceptance_outcomes:
  assumes "check_acceptance faults st config policy hash settings now = Inr outcome" "accepted_inv lib st"
  shows "(outcome = ''restarted'' \<and> (\<exists>row. active_row st = Some row \<and> po_version policy = ap_version row \<and> hash = ap_sha256 row))
    \<or> (outcome \<noteq> ''restarted'' \<and> (outcome = ''rollback_accepted'' \<or> outcome = ''accepted'')
        \<and> (\<forall>p\<in>set (ps_accepted st). ap_version p < po_version policy \<and> ap_policy_id p = po_policy_id policy)
        \<and> (case po_rollback policy of None \<Rightarrow> outcome = ''accepted''
            | Some r \<Rightarrow> outcome = ''rollback_accepted'' \<and> check_rollback faults st policy r settings = Inr outcome))"
proof -
  have cont: "(case po_rollback policy of None \<Rightarrow> outcome = ''accepted''
      | Some r \<Rightarrow> outcome = ''rollback_accepted'' \<and> check_rollback faults st policy r settings = Inr outcome)"
    if "(case po_rollback policy of None \<Rightarrow> Inr ''accepted''
         | Some rollback \<Rightarrow> check_rollback faults st policy rollback settings) = Inr outcome"
    using that by (auto simp: check_rollback_def split: option.splits if_splits)
  show ?thesis
  proof (cases "ps_accepted st = []")
    case True
    then have "active_row st = None" using active_row_last [OF assms(2)] by simp
    then show ?thesis using assms(1) cont True
      by (auto simp: check_acceptance_def Let_def split: sum.splits if_splits option.splits)
  next
    case False
    let ?row = "last (ps_accepted st)"
    have row: "active_row st = Some ?row" using active_row_last [OF assms(2)] False by simp
    have same: "\<forall>p\<in>set (ps_accepted st). ap_policy_id p = ap_policy_id ?row \<and> ap_version p \<le> ap_version ?row"
      using assms(2) last_in_set [OF False] versions_le_last [of "ps_accepted st"]
      unfolding accepted_inv_def by blast
    have d: "ap_policy_id ?row = po_policy_id policy" "ap_version ?row \<le> po_version policy"
      "po_version policy = ap_version ?row \<Longrightarrow> outcome = ''restarted'' \<and> hash = ap_sha256 ?row"
      "po_version policy \<noteq> ap_version ?row \<Longrightarrow> (case po_rollback policy of None \<Rightarrow> Inr ''accepted''
         | Some rollback \<Rightarrow> check_rollback faults st policy rollback settings) = Inr outcome"
      using assms(1) row by (simp_all add: check_acceptance_def Let_def not_less split: sum.splits if_splits)
    show ?thesis
    proof (cases "po_version policy = ap_version ?row")
      case True
      then show ?thesis using d(3) row by simp
    next
      case ne: False
      then have "ap_version ?row < po_version policy" using d(2) by simp
      then have "\<forall>p\<in>set (ps_accepted st). ap_version p < po_version policy \<and> ap_policy_id p = po_policy_id policy"
        using same d(1) by (auto intro: le_less_trans)
      moreover have "outcome = ''rollback_accepted'' \<or> outcome = ''accepted''"
        using cont [OF d(4) [OF ne]] by (simp split: option.splits)
      ultimately show ?thesis using cont [OF d(4) [OF ne]] by auto
    qed
  qed
qed

lemma store_policy_accepted_inv:
  assumes inv: "accepted_inv lib st" and v: "read_verify lib files config sensor = Inr v"
    and c: "check_acceptance faults st config (vf_policy v) (vf_hash v) (vf_settings v) now = Inr outcome"
    and s: "store_policy faults v now outcome st = Some st1"
  shows "accepted_inv lib st1"
proof (cases "outcome = ''restarted''")
  case True
  then show ?thesis using s inv by (simp add: store_policy_def)
next
  case False
  let ?row = "accepted_row v now"
  have new: "ps_accepted st1 = ps_accepted st @ [?row]" "ps_active st1 = Some (po_version (vf_policy v))"
    and fresh: "ap_approval_id ?row = None \<or> ap_approval_id ?row \<notin> ap_approval_id ` set (ps_accepted st)"
    using s False by (auto simp: store_policy_def insert_accepted_def split: if_splits option.splits)
  have later: "\<forall>p\<in>set (ps_accepted st). ap_version p < po_version (vf_policy v) \<and> ap_policy_id p = po_policy_id (vf_policy v)"
    using check_acceptance_outcomes [OF c inv] False by auto
  have ok: "row_ok lib ?row \<and> 0 < ap_version ?row"
    by (rule read_verify_Inr [OF v]) (auto simp: row_ok_def accepted_row_def)
  have "distinct (approval_ids st1)"
    using inv fresh unfolding approval_ids_def accepted_inv_def new
    by (auto simp: List.map_filter_def image_iff split: option.splits)
  then show ?thesis using inv new later ok
    by (auto simp: accepted_inv_def sorted_wrt_append accepted_row_def)
qed

lemma accepted_inv_frame:
  "ps_accepted st' = ps_accepted st \<Longrightarrow> ps_active st' = ps_active st \<Longrightarrow> accepted_inv lib st' = accepted_inv lib st"
  by (simp add: accepted_inv_def approval_ids_def)

lemma activate_accepted_inv:
  assumes "accepted_inv lib st"
  shows "accepted_inv lib (fst (activate_at lib files fs faults config event_db_path sensor now st))"
proof -
  obtain st' r where eq: "activate_at lib files fs faults config event_db_path sensor now st = (st', r)" by fastforce
  then show ?thesis
  proof (cases rule: activate_at_cases)
    case 2
    show ?thesis
    proof (cases r)
      case (Inl e)
      then have "activate_in lib files faults config sensor now st = (st', Inl e)" using 2 by simp
      from activate_in_Inl [OF this] show ?thesis using eq assms accepted_inv_frame [of st' st lib] by simp
    next
      case (Inr a)
      then have "activate_in lib files faults config sensor now st = (st', Inr a)" using 2 by simp
      then obtain v st1 where "read_verify lib files config sensor = Inr v"
        "check_acceptance faults st config (vf_policy v) (vf_hash v) (vf_settings v) now = Inr (at_outcome a)"
        "store_policy faults v now (at_outcome a) st = Some st1"
        "audit faults now (at_outcome a) ''validated'' (Some (vf_policy v)) (Some (vf_hash v)) st1 = Some st'"
        by (rule activate_in_Inr)
      note r = this
      have "accepted_inv lib st1" using store_policy_accepted_inv [OF assms r(1,2,3)] .
      then show ?thesis using audit_frame [OF r(4)] accepted_inv_frame [of st' st1 lib] eq by simp
    qed
  qed (use eq assms in simp)
qed

lemma reach_accepted_inv: "policy_reach lib st \<Longrightarrow> accepted_inv lib st"
proof (induction rule: policy_reach.induct)
  case init
  then show ?case by (simp add: accepted_inv_def policy_state_empty_def approval_ids_def List.map_filter_def)
qed (rule activate_accepted_inv)

text \<open>
  C2: the version is a high watermark.  In every state that activations can reach, the accepted
  versions increase strictly and the active policy is the last one; and the next activation that
  succeeds either re-activates the active version, with the same digest and without a new row, or
  adds one row whose version is above every version accepted before.
\<close>

theorem version_is_high_watermark:
  assumes "policy_reach lib st"
    and "activate_at lib files fs faults config event_db_path sensor now st = (st', Inr a)"
  shows "sorted_wrt (<) (map ap_version (ps_accepted st'))
    \<and> ps_active st' = Some (po_version (at_policy a))
    \<and> ap_version (last (ps_accepted st')) = po_version (at_policy a)
    \<and> (if at_outcome a = ''restarted''
       then ps_accepted st' = ps_accepted st \<and> ps_active st' = ps_active st
          \<and> at_sha256 a = ap_sha256 (last (ps_accepted st))
       else (\<exists>row. ps_accepted st' = ps_accepted st @ [row] \<and> ap_sha256 row = at_sha256 a)
          \<and> list_all (\<lambda>p. ap_version p < po_version (at_policy a)) (ps_accepted st))"
proof -
  have inv: "accepted_inv lib st" by (rule reach_accepted_inv [OF assms(1)])
  have inv': "accepted_inv lib st'" using activate_accepted_inv [OF inv, of files fs faults config event_db_path sensor now] assms(2) by simp
  have "activate_in lib files faults config sensor now st = (st', Inr a)"
    using assms(2) by (cases rule: activate_at_cases) auto
  then obtain v st1 where r: "read_verify lib files config sensor = Inr v"
    "check_acceptance faults st config (vf_policy v) (vf_hash v) (vf_settings v) now = Inr (at_outcome a)"
    "store_policy faults v now (at_outcome a) st = Some st1"
    "audit faults now (at_outcome a) ''validated'' (Some (vf_policy v)) (Some (vf_hash v)) st1 = Some st'"
    "at_policy a = vf_policy v" "at_sha256 a = vf_hash v" by (rule activate_in_Inr)
  have same: "ps_accepted st' = ps_accepted st1" "ps_active st' = ps_active st1" using audit_frame [OF r(4)] by simp_all
  note out = check_acceptance_outcomes [OF r(2) inv]
  show ?thesis
  proof (cases "at_outcome a = ''restarted''")
    case True
    then have st1: "st1 = st" using r(3) by (simp add: store_policy_def)
    obtain row where "active_row st = Some row" "po_version (vf_policy v) = ap_version row" "vf_hash v = ap_sha256 row"
      using out True by blast
    then have "ps_accepted st \<noteq> []" "row = last (ps_accepted st)" using active_row_last [OF inv] by (auto split: if_splits)
    then show ?thesis using inv r(5,6) same st1 True \<open>po_version (vf_policy v) = ap_version row\<close> \<open>vf_hash v = ap_sha256 row\<close>
      unfolding accepted_inv_def by simp
  next
    case False
    then have "ps_accepted st1 = ps_accepted st @ [accepted_row v now]" "ps_active st1 = Some (po_version (vf_policy v))"
      using r(3) by (auto simp: store_policy_def insert_accepted_def split: if_splits)
    moreover have "\<forall>p\<in>set (ps_accepted st). ap_version p < po_version (vf_policy v)" using out False by blast
    moreover have "ap_sha256 (accepted_row v now) = vf_hash v" "ap_version (accepted_row v now) = po_version (vf_policy v)"
      by (simp_all add: accepted_row_def)
    ultimately show ?thesis using inv' same r(5,6) False unfolding accepted_inv_def by (auto simp: list_all_iff)
  qed
qed

text \<open>
  C11: a rollback restores settings that were accepted before, under an older version of the same
  series whose digest the approval names, and uses up its approval id; no approval id is ever
  used twice.
\<close>

theorem rollback_needs_fresh_approval:
  assumes "policy_reach lib st"
    and "activate_at lib files fs faults config event_db_path sensor now st = (st', Inr a)"
    and "at_outcome a \<noteq> ''restarted''" "po_rollback (at_policy a) = Some r"
  shows "(\<exists>source\<in>set (ps_accepted st). ap_version source = ra_source_version r
        \<and> ap_policy_id source = po_policy_id (at_policy a) \<and> ap_sha256 source = ra_source_sha256 r
        \<and> ap_settings_json source = ap_settings_json (last (ps_accepted st')))
    \<and> ra_approval_id r \<notin> set (approval_ids st) \<and> ra_approval_id r \<in> set (approval_ids st')
    \<and> distinct (approval_ids st')"
proof -
  have inv: "accepted_inv lib st" by (rule reach_accepted_inv [OF assms(1)])
  have inv': "accepted_inv lib st'" using activate_accepted_inv [OF inv, of files fs faults config event_db_path sensor now] assms(2) by simp
  have "activate_in lib files faults config sensor now st = (st', Inr a)"
    using assms(2) by (cases rule: activate_at_cases) auto
  then obtain v st1 where v: "read_verify lib files config sensor = Inr v"
    "check_acceptance faults st config (vf_policy v) (vf_hash v) (vf_settings v) now = Inr (at_outcome a)"
    "store_policy faults v now (at_outcome a) st = Some st1"
    "audit faults now (at_outcome a) ''validated'' (Some (vf_policy v)) (Some (vf_hash v)) st1 = Some st'"
    "at_policy a = vf_policy v" by (rule activate_in_Inr)
  have row: "ps_accepted st' = ps_accepted st @ [accepted_row v now]"
    using v(3) assms(3) audit_frame [OF v(4)] by (auto simp: store_policy_def insert_accepted_def split: if_splits)
  have "check_rollback faults st (vf_policy v) r (vf_settings v) = Inr (at_outcome a)"
    using check_acceptance_outcomes [OF v(2) inv] assms(3,4) v(5) by auto
  then obtain source where s: "find (\<lambda>p. ap_version p = ra_source_version r \<and> ap_policy_id p = po_policy_id (vf_policy v)) (ps_accepted st) = Some source"
    "ap_sha256 source = ra_source_sha256 r" "ap_settings_json source = vf_settings v"
    "\<not> list_ex (\<lambda>p. ap_approval_id p = Some (ra_approval_id r)) (ps_accepted st)"
    by (auto simp: check_rollback_def split: option.splits if_splits)
  have "ra_approval_id r \<notin> set (approval_ids st)"
    using s(4) by (auto simp: approval_ids_def List.map_filter_def list_ex_iff)
  moreover have "ra_approval_id r \<in> set (approval_ids st')"
    using assms(4) v(5) by (simp add: approval_ids_def row accepted_row_def List.map_filter_def)
  moreover have "distinct (approval_ids st')" using inv' by (simp add: accepted_inv_def)
  ultimately show ?thesis using find_SomeD [OF s(1)] s(2,3) v(5) by (auto simp: row accepted_row_def)
qed

text \<open>
  In every reachable state with an active policy, that policy can be loaded again: its stored
  bytes still have the stored digest, parse, and give the stored settings.
\<close>

theorem active_policy_reloads:
  assumes "policy_reach lib st" "ps_active st = Some version"
  shows "\<exists>policy. load_active_policy lib st = Inr policy \<and> po_version policy = version"
proof -
  have inv: "accepted_inv lib st" by (rule reach_accepted_inv [OF assms(1)])
  then have ne: "ps_accepted st \<noteq> []" "version = ap_version (last (ps_accepted st))"
    using assms(2) by (auto simp: accepted_inv_def split: if_splits)
  then have "row_ok lib (last (ps_accepted st))" using inv by (auto simp: accepted_inv_def)
  then show ?thesis using ne active_row_last [OF inv]
    by (auto simp: load_active_policy_def row_ok_def bind_eq_Some_conv)
qed

section \<open>The audit trail\<close>

lemma prune_audit_eq:
  assumes "map pa_id rows = [Suc n - length rows ..< Suc n]" "length rows \<le> Suc MAX_AUDIT_ROWS" "length rows \<le> n"
    "rows \<noteq> []"
  shows "prune_audit rows = (if MAX_AUDIT_ROWS < length rows then tl rows else rows)"
proof -
  have ids: "set (map pa_id rows) = {Suc n - length rows ..< Suc n}" unfolding assms(1) by (rule set_upt)
  have top: "Max (insert 0 (set (map pa_id rows))) = n"
  proof (rule Max_eqI)
    show "n \<in> insert 0 (set (map pa_id rows))"
      unfolding ids using assms(4) by (cases rows) auto
    show "y \<le> n" if "y \<in> insert 0 (set (map pa_id rows))" for y using that unfolding ids by auto
  qed simp
  obtain r rs where rows: "rows = r # rs" using assms(4) by (cases rows) auto
  have "Suc n - length rows < Suc n" by (simp add: rows)
  then have "pa_id r # map pa_id rs = (Suc n - length rows) # [Suc (Suc n - length rows) ..< Suc n]"
    using assms(1) upt_conv_Cons [of "Suc n - length rows" "Suc n"] by (simp only: rows list.map)
  then have hd: "pa_id r = Suc n - length rows" and tl: "map pa_id rs = [Suc (Suc n - length rows) ..< Suc n]"
    by (simp_all only: list.inject)
  have "\<forall>x\<in>set rs. \<not> int (pa_id x) \<le> int n - int MAX_AUDIT_ROWS"
  proof
    fix x assume "x \<in> set rs"
    then have "pa_id x \<in> set (map pa_id rs)" by simp
    then have "Suc (Suc n - length rows) \<le> pa_id x" unfolding tl by auto
    then show "\<not> int (pa_id x) \<le> int n - int MAX_AUDIT_ROWS" using assms(2,3) by linarith
  qed
  then have "filter (\<lambda>x. \<not> int (pa_id x) \<le> int n - int MAX_AUDIT_ROWS) rs = rs" by simp
  moreover have "int (pa_id r) \<le> int n - int MAX_AUDIT_ROWS \<longleftrightarrow> MAX_AUDIT_ROWS < length rows"
    using hd assms(2,3) by linarith
  moreover have "prune_audit rows = filter (\<lambda>x. \<not> int (pa_id x) \<le> int n - int MAX_AUDIT_ROWS) rows"
    unfolding prune_audit_def top Let_def ..
  ultimately show ?thesis by (simp add: rows)
qed

lemma audit_keeps_audit_inv:
  assumes "audit_inv st" "audit faults now outcome reason policy hash st = Some st'"
  shows "audit_inv st'"
proof -
  define row where "row = audit_row (Suc (ps_audit_seq st)) now outcome reason policy hash"
  have row: "pa_id row = Suc (ps_audit_seq st)" "ps_audit_seq st' = Suc (ps_audit_seq st)"
    "ps_audit st' = prune_audit (ps_audit st @ [row])"
    using assms(2) by (auto simp: audit_def row_def audit_row_def split: if_splits)
  let ?rows = "ps_audit st @ [row]" and ?n = "Suc (ps_audit_seq st)"
  have len: "length (ps_audit st) \<le> ps_audit_seq st" "length (ps_audit st) = min (ps_audit_seq st) MAX_AUDIT_ROWS"
    using assms(1) by (auto simp: audit_inv_def)
  have ids: "map pa_id ?rows = [Suc ?n - length ?rows ..< Suc ?n]"
    using assms(1) row(1) len by (simp add: audit_inv_def)
  have pr: "prune_audit ?rows = (if MAX_AUDIT_ROWS < length ?rows then tl ?rows else ?rows)"
    by (rule prune_audit_eq [OF ids]) (use len in simp_all)
  have tl: "map pa_id (tl ?rows) = [Suc (Suc ?n - length ?rows) ..< Suc ?n]"
    using ids len by (simp only: map_tl) (simp add: tl_upt)
  show ?thesis
  proof (cases "MAX_AUDIT_ROWS < length ?rows")
    case True
    then show ?thesis using row pr tl len by (auto simp: audit_inv_def Suc_diff_le)
  next
    case False
    then show ?thesis using row pr ids len by (auto simp: audit_inv_def)
  qed
qed

lemma activate_audit_inv:
  assumes "audit_inv st"
  shows "audit_inv (fst (activate_at lib files fs faults config event_db_path sensor now st))"
proof -
  have store: "store_policy faults v now outcome st = Some st1 \<Longrightarrow> audit_inv st1" for v outcome st1
    using assms by (auto simp: store_policy_def insert_accepted_def audit_inv_def split: if_splits)
  have rej: "audit_inv (fst (commit_rejection faults now code policy hash st))" for code policy hash
    using assms audit_keeps_audit_inv by (auto simp: commit_rejection_def split: option.split)
  show ?thesis
    using assms store rej audit_keeps_audit_inv
    by (auto simp: activate_at_def activate_in_def bind_eq_Some_conv split: sum.split option.split prod.split) (metis fst_conv)+
qed

text \<open>
  The audit trail is complete up to its retention: its ids are consecutive and end with the
  number of records ever written, and it holds the last 10000 of them.
\<close>

theorem audit_trail_is_gapless:
  assumes "policy_reach lib st"
  shows "map pa_id (ps_audit st) = [Suc (ps_audit_seq st) - length (ps_audit st) ..< Suc (ps_audit_seq st)]
    \<and> length (ps_audit st) = min (ps_audit_seq st) 10000"
proof -
  have "audit_inv st"
    using assms
  proof (induction rule: policy_reach.induct)
    case init
    then show ?case by (simp add: audit_inv_def policy_state_empty_def)
  qed (rule activate_audit_inv)
  then show ?thesis by (simp add: audit_inv_def MAX_AUDIT_ROWS_def)
qed

section \<open>Signing and verifying\<close>

text \<open>
  A file that \<^verbatim>\<open>sign_file\<close> signed with a secret key verifies under the matching public key,
  when the signature scheme accepts its own 64-byte signatures and the hexadecimal coding is
  lower-case and can be read back.
\<close>

theorem signed_file_verifies:
  assumes "sign_file lib files policy_path secret_hex = Inr (files', sig_path)"
    and "\<And>bytes. list_all lower_hex_digit (pl_hex_encode lib bytes)"
    and "\<And>bytes. pl_hex_decode lib (pl_hex_encode lib bytes) = Some bytes"
    and "parse_signing_key lib secret_hex = Inr secret" "parse_verifying_key lib pub_hex = Inr public"
    and "\<And>data. length (pl_sign lib secret data) = 64 \<and> pl_verify lib public data (pl_sign lib secret data)"
  shows "verify_file lib files' policy_path pub_hex = Inr () \<and> sig_path = sig_path_for policy_path"
proof -
  obtain data where d: "files policy_path = Inr data" "sig_path = sig_path_for policy_path"
    "files' = files(sig_path_for policy_path := Inr (pl_hex_encode lib (pl_sign lib secret data)))"
    using assms(1,4) by (auto simp: sign_file_def sign_bytes_def split: sum.splits)
  have "policy_path \<noteq> sig_path_for policy_path" by (simp add: sig_path_for_def)
  then show ?thesis using d assms(2,3,5,6)
    by (simp add: verify_file_def read_signed_def verify_bytes_def decode_exact_def hex_utf8 hex_trim)
qed

section \<open>Witnesses\<close>

lemma demo_reach: "policy_reach demo_lib (demo_state n)"
  by (auto simp: demo_state_def demo_activate_def intro: policy_reach.intros)

lemma demo_rolls_back:
  "(case demo_activate ''3'' 30 (demo_state 2) of
      (st', Inr a) \<Rightarrow> at_outcome a = ''rollback_accepted'' \<and> po_version (at_policy a) = 3
        \<and> map_option ra_approval_id (po_rollback (at_policy a)) = Some ''CHG-7''
        \<and> map ap_version (ps_accepted st') = [1, 2, 3]
    | _ \<Rightarrow> False)"
  by code_simp

lemma demo_last_step:
  obtains st' a where "demo_activate ''3'' 30 (demo_state 2) = (st', Inr a)" "at_outcome a = ''rollback_accepted''"
    "po_version (at_policy a) = 3" "map_option ra_approval_id (po_rollback (at_policy a)) = Some ''CHG-7''"
    "map ap_version (ps_accepted st') = [1, 2, 3]"
  using demo_rolls_back by (auto split: prod.splits sum.splits)

lemma demo_rejects:
  "(case demo_activate ''1'' 30 (demo_state 2) of (st', Inl e) \<Rightarrow> e = Rejected ''version_downgrade'' | _ \<Rightarrow> False)"
  by code_simp


theorem activated_policy_is_trusted_witness:
  "\<exists>st' a. demo_activate ''3'' 30 (demo_state 2) = (st', Inr a)
     \<and> po_not_before_ms (at_policy a) \<le> 30 \<and> 30 < po_expires_at_ms (at_policy a)"
proof -
  obtain st' a where a: "demo_activate ''3'' 30 (demo_state 2) = (st', Inr a)" by (rule demo_last_step)
  from activated_policy_is_trusted [OF a [unfolded demo_activate_def]] a show ?thesis by blast
qed

theorem version_is_high_watermark_witness:
  "\<exists>st' a. demo_activate ''3'' 30 (demo_state 2) = (st', Inr a) \<and> ps_active st' = Some 3
     \<and> list_all (\<lambda>p. ap_version p < 3) (ps_accepted (demo_state 2))"
proof -
  obtain st' a where a: "demo_activate ''3'' 30 (demo_state 2) = (st', Inr a)" "at_outcome a = ''rollback_accepted''"
    "po_version (at_policy a) = 3" by (rule demo_last_step)
  from version_is_high_watermark [OF demo_reach a(1) [unfolded demo_activate_def]] a show ?thesis by simp
qed

theorem rollback_needs_fresh_approval_witness:
  "\<exists>st' a. demo_activate ''3'' 30 (demo_state 2) = (st', Inr a) \<and> ''CHG-7'' \<in> set (approval_ids st')
     \<and> ''CHG-7'' \<notin> set (approval_ids (demo_state 2))"
proof -
  obtain st' a where a: "demo_activate ''3'' 30 (demo_state 2) = (st', Inr a)" "at_outcome a = ''rollback_accepted''"
    "map_option ra_approval_id (po_rollback (at_policy a)) = Some ''CHG-7''" by (rule demo_last_step)
  then obtain r where r: "po_rollback (at_policy a) = Some r" "ra_approval_id r = ''CHG-7''" by auto
  have "at_outcome a \<noteq> ''restarted''" using a(2) by simp
  from rollback_needs_fresh_approval [OF demo_reach a(1) [unfolded demo_activate_def] this r(1)] a(1) r(2) show ?thesis by auto
qed

theorem active_policy_reloads_witness:
  "\<exists>policy. load_active_policy demo_lib (demo_state 2) = Inr policy \<and> po_version policy = 2"
proof -
  have "ps_active (demo_state 2) = Some 2" by code_simp
  from active_policy_reloads [OF demo_reach this] show ?thesis .
qed

theorem audit_trail_is_gapless_witness:
  "map pa_id (ps_audit (demo_state 2)) = [1, 2]"
proof -
  have "ps_audit_seq (demo_state 2) = 2" by code_simp
  with audit_trail_is_gapless [OF demo_reach, of 2] show ?thesis by (simp add: upt_rec numeral_2_eq_2)
qed

theorem signed_file_verifies_witness:
  "verify_file hex_lib ((\<lambda>_. Inr ''1'')(sig_path_for ''/p'' := Inr (concat (map hex_byte (replicate 64 (CHR ''a'')))))) ''/p''
     (concat (replicate 32 ''61'')) = Inr ()"
proof -
  let ?key = "replicate 32 (CHR ''a'')" and ?hex = "concat (replicate 32 ''61'')"
  have p: "parse_signing_key hex_lib ?hex = Inr ?key" "parse_verifying_key hex_lib ?hex = Inr ?key"
    by code_simp+
  then have "sign_file hex_lib (\<lambda>_. Inr ''1'') ''/p'' ?hex = Inr ((\<lambda>_. Inr ''1'')(sig_path_for ''/p'' :=
      Inr (concat (map hex_byte (replicate 64 (CHR ''a''))))), sig_path_for ''/p'')"
    by (simp add: sign_file_def sign_bytes_def hex_lib_def demo_lib_def)
  from signed_file_verifies [OF this _ _ p] show ?thesis
    by (simp add: hex_lib_def demo_lib_def hex_encode_lower hex_roundtrip)
qed

end
