(* ===== verification/Agent_Semantic.thy ===== *)
theory Agent_Semantic
  imports Argos_Common
begin

text \<open>
  Crate \<^verbatim>\<open>argos-agent\<close>, \<^verbatim>\<open>semantic.rs\<close>: the monitor of configuration files (SSH keys, sudo rules, cron,
  systemd units).  A file is read within a budget, parsed into normalised records, and compared
  with the last observation.  What the operating system shows of a file is an argument.
\<close>

section \<open>Kinds of files\<close>

definition file_name :: "path \<Rightarrow> string option" where
  "file_name p = (case rev (components p) of Normal s # _ \<Rightarrow> Some s | _ \<Rightarrow> None)"

definition extension :: "string \<Rightarrow> string option" where
  "extension name =
     (let after = takeWhile (\<lambda>c. c \<noteq> CHR ''.'') (rev name); before = drop (Suc (length after)) (rev name)
      in if CHR ''.'' \<in> set name \<and> before \<noteq> [] then Some (rev after) else None)"

definition some_component :: "(string \<Rightarrow> bool) \<Rightarrow> path \<Rightarrow> bool" where
  "some_component P p = list_ex (\<lambda>c. case c of Normal s \<Rightarrow> P s | _ \<Rightarrow> False) (components p)"

definition kind_of :: "path \<Rightarrow> config_kind option" where
  "kind_of p =
     (case file_name p of
        None \<Rightarrow> None
      | Some name \<Rightarrow>
          if name = ''authorized_keys'' \<or> name = ''authorized_keys2'' then Some Ssh
          else if name = ''sudoers'' \<or> some_component (\<lambda>s. s = ''sudoers.d'') p then Some Sudo
          else if name = ''crontab'' \<or> some_component (\<lambda>s. s \<in> {''cron.d'', ''cron'', ''crontabs''}) p then Some Cron
          else if extension name \<in> {Some ''service'', Some ''timer'', Some ''socket''}
            \<or> suffix ''.conf'' name
              \<and> some_component (\<lambda>s. suffix ''.service.d'' s \<or> suffix ''.timer.d'' s \<or> suffix ''.socket.d'' s) p
          then Some Systemd
          else None)"

fun kind_rule :: "config_kind \<Rightarrow> string" where
  "kind_rule Ssh = ''linux.authorized_keys''"
| "kind_rule Sudo = ''linux.sudoers''"
| "kind_rule Cron = ''linux.cron''"
| "kind_rule Systemd = ''linux.systemd''"

section \<open>Parsing\<close>

datatype semantic_error =
    SemanticIo string | NotRegularOrTooLarge | ChangedWhileReading | NotUtf8 | Unclosed | BadKeyEncoding | NoKey
  | NotAssignment | NoSectionOrKey | TooManyEntries | IncompleteLine | UnsupportedFile

text \<open>
  Characters are taken one by one; \<open>quote\<close> is the open quotation mark, \<open>space\<close> that white space was
  skipped.
\<close>

definition push_spaced :: "string \<Rightarrow> bool \<Rightarrow> string \<Rightarrow> string" where
  "push_spaced result space ch = result @ (if space \<and> result \<noteq> [] then '' '' else []) @ ch"

fun normalize_chars :: "string list \<Rightarrow> string \<Rightarrow> string option \<Rightarrow> bool \<Rightarrow> bool \<Rightarrow> semantic_error + string" where
  "normalize_chars [] result quote escaped space =
     (if quote \<noteq> None \<or> escaped then Inl Unclosed else Inr result)"
| "normalize_chars (ch # cs) result quote escaped space =
     (if escaped then normalize_chars cs (result @ ch) quote False space
      else if ch = [CHR 0x5C] then normalize_chars cs (push_spaced result space ch) quote True False
      else
        let quote' = (if quote = Some ch then None
                      else if quote = None \<and> (ch = [CHR 0x27] \<or> ch = [CHR 0x22]) then Some ch else quote)
        in if blank_str ch \<and> quote' = None then normalize_chars cs result quote' False True
           else normalize_chars cs (push_spaced result space ch) quote' False False)"

definition normalize_line :: "string \<Rightarrow> semantic_error + string" where
  "normalize_line line = normalize_chars (utf8_chars line) [] None False False"

definition key_type :: "string \<Rightarrow> bool" where
  "key_type token =
     (prefix ''ssh-'' token \<or> prefix ''ecdsa-sha2-'' token \<or> prefix ''sk-ssh-'' token \<or> prefix ''sk-ecdsa-'' token)"

definition key_encoding :: "string \<Rightarrow> bool" where
  "key_encoding token = list_all (\<lambda>c. ascii_alphanumeric c \<or> c \<in> set ''+/='') token"

text \<open>\<open>before\<close> is the text up to the current character, \<open>token\<close> the token that has begun.\<close>

fun ssh_scan :: "string list \<Rightarrow> string \<Rightarrow> string option \<Rightarrow> bool \<Rightarrow> bool \<Rightarrow> bool \<Rightarrow> semantic_error + string" where
  "ssh_scan [] before token quoted escaped key_seen = Inl NoKey"
| "ssh_scan (ch # cs) before token quoted escaped key_seen =
     (if token = None \<and> blank_str ch then ssh_scan cs (before @ ch) None quoted escaped key_seen
      else
        let t = (case token of None \<Rightarrow> [] | Some t \<Rightarrow> t)
        in if escaped then ssh_scan cs (before @ ch) (Some (t @ ch)) quoted False key_seen
           else if ch = [CHR 0x5C] then ssh_scan cs (before @ ch) (Some (t @ ch)) quoted True key_seen
           else
             let quoted' = (if ch = [CHR 0x22] then \<not> quoted else quoted)
             in if blank_str ch \<and> \<not> quoted'
                then if key_seen then if key_encoding t then normalize_line before else Inl BadKeyEncoding
                     else ssh_scan cs (before @ ch) None quoted' False (key_type t)
                else ssh_scan cs (before @ ch) (Some (t @ ch)) quoted' False key_seen)"

definition ssh_record :: "string \<Rightarrow> semantic_error + string" where
  "ssh_record line = ssh_scan (utf8_chars line @ ['' '']) [] None False False False"

text \<open>The lines of a text; a carriage return before the line feed is white space that \<^verbatim>\<open>trim\<close> removes.\<close>

fun split_lines :: "string \<Rightarrow> string list" where
  "split_lines [] = []"
| "split_lines (c # cs) =
     (if c = CHR 0x0A then [] # split_lines cs
      else (case split_lines cs of
              [] \<Rightarrow> [[c]]
            | l # ls \<Rightarrow> (c # l) # ls))"

definition split_once :: "char \<Rightarrow> string \<Rightarrow> (string \<times> string) option" where
  "split_once c s =
     (if c \<in> set s then Some (takeWhile (\<lambda>x. x \<noteq> c) s, drop (Suc (length (takeWhile (\<lambda>x. x \<noteq> c) s))) s) else None)"

definition ignored_line :: "config_kind \<Rightarrow> string \<Rightarrow> bool" where
  "ignored_line kind raw =
     (let sudo_directive = kind = Sudo
            \<and> (prefix ''#include'' raw \<or> (case raw of _ # c # _ \<Rightarrow> ascii_digit c | _ \<Rightarrow> False))
      in raw = [] \<or> prefix ''#'' raw \<and> \<not> sudo_directive \<or> kind = Systemd \<and> prefix '';'' raw)"

text \<open>
  The text of an entry; the parser puts its number and a colon before it.  The section header of
  a unit only sets the section.
\<close>

definition entry_text :: "config_kind \<Rightarrow> string \<Rightarrow> string \<Rightarrow> semantic_error + string" where
  "entry_text kind sect line =
     (if kind \<noteq> Systemd then Inr line
      else case split_once (CHR ''='') line of
        None \<Rightarrow> Inl NotAssignment
      | Some (k, v) \<Rightarrow>
          if sect = [] \<or> blank_str k then Inl NoSectionOrKey else Inr (sect @ '':'' @ trim k @ ''='' @ trim v))"

definition section_header :: "config_kind \<Rightarrow> string \<Rightarrow> bool" where
  "section_header kind line = (kind = Systemd \<and> prefix ''['' line \<and> suffix '']'' line)"

definition continued :: "config_kind \<Rightarrow> string \<Rightarrow> bool" where
  "continued kind line = (kind \<in> {Sudo, Systemd} \<and> suffix [CHR 0x5C] line)"

definition logical_line :: "config_kind \<Rightarrow> string \<Rightarrow> semantic_error + string" where
  "logical_line kind line = (if kind = Ssh then ssh_record line else normalize_line line)"

fun parse_lines :: "config_kind \<Rightarrow> string list \<Rightarrow> string set \<Rightarrow> string \<Rightarrow> string \<Rightarrow> semantic_error + string set" where
  "parse_lines kind [] entries sect pending = (if pending \<noteq> [] then Inl IncompleteLine else Inr entries)"
| "parse_lines kind (l # ls) entries sect pending =
     (if ignored_line kind (trim l) then parse_lines kind ls entries sect pending
      else if continued kind (pending @ trim l)
      then parse_lines kind ls entries sect (butlast (pending @ trim l) @ '' '')
      else case logical_line kind (pending @ trim l) of
        Inl e \<Rightarrow> Inl e
      | Inr line \<Rightarrow>
          if section_header kind line then parse_lines kind ls entries line []
          else case entry_text kind sect line of
            Inl e \<Rightarrow> Inl e
          | Inr entry \<Rightarrow>
              let entries = insert (show_nat (card entries) @ CHR '':'' # entry) entries
              in if 10000 < card entries then Inl TooManyEntries else parse_lines kind ls entries sect [])"

definition parse :: "config_kind \<Rightarrow> string \<Rightarrow> semantic_error + string set" where
  "parse kind txt = parse_lines kind (split_lines txt) {} [] []"

section \<open>Observations\<close>

text \<open>
  What opening and reading a file shows: the first metadata (is it a regular file, its length),
  the content, the second metadata (length, owner, group, mode), and the two modification times.
\<close>

record semantic_file =
  sf_before :: "string + bool \<times> u64"
  sf_read :: "string + string"
  sf_after :: "string + u64 \<times> u32 \<times> u32 \<times> u32"
  sf_modified_before :: "string + nat"
  sf_modified_after :: "string + nat"

datatype file_view = Missing | OpenFails string | Opens semantic_file

record snapshot =
  sn_entries :: "string set"
  sn_permissions :: "(u32 \<times> u32 \<times> u32) option"

definition permission_bits :: "u32 \<Rightarrow> u32" where
  "permission_bits m = and m 4095"

definition take_snapshot :: "(path \<Rightarrow> file_view) \<Rightarrow> path \<Rightarrow> usize \<Rightarrow> semantic_error + snapshot" where
  "take_snapshot files p limit =
     (case files p of
        Missing \<Rightarrow> Inr \<lparr>sn_entries = {}, sn_permissions = None\<rparr>
      | OpenFails e \<Rightarrow> Inl (SemanticIo e)
      | Opens f \<Rightarrow>
          (case sf_before f of Inl e \<Rightarrow> Inl (SemanticIo e) | Inr (is_file, len) \<Rightarrow>
           if \<not> is_file \<or> limit < len then Inl NotRegularOrTooLarge
           else case sf_read f of Inl e \<Rightarrow> Inl (SemanticIo e) | Inr content \<Rightarrow>
           let bytes = take (Suc (unat limit)) content
           in case sf_after f of Inl e \<Rightarrow> Inl (SemanticIo e) | Inr (len', uid, gid, mode) \<Rightarrow>
           if unat limit < length bytes \<or> len \<noteq> len' then Inl ChangedWhileReading
           else case (sf_modified_before f, sf_modified_after f) of
             (Inl e, _) \<Rightarrow> Inl (SemanticIo e)
           | (Inr _, Inl e) \<Rightarrow> Inl (SemanticIo e)
           | (Inr t, Inr t') \<Rightarrow>
               if t \<noteq> t' then Inl ChangedWhileReading
               else case from_utf8 bytes of None \<Rightarrow> Inl NotUtf8 | Some txt \<Rightarrow>
               case kind_of p of None \<Rightarrow> Inl UnsupportedFile | Some kind \<Rightarrow>
               case parse kind txt of Inl e \<Rightarrow> Inl e | Inr entries \<Rightarrow>
               Inr \<lparr>sn_entries = entries, sn_permissions = Some (uid, gid, permission_bits mode)\<rparr>))"

section \<open>The monitor\<close>

record semantic_monitor =
  mon_max_file_bytes :: usize
  mon_previous :: "(string, snapshot option) hmap"
  mon_unavailable :: "string set"

datatype monitor_error = BadLimits | BadSemanticPath path | NotWatched path

definition monitored_path :: "path list \<Rightarrow> path \<Rightarrow> monitor_error option" where
  "monitored_path watch p =
     (if \<not> is_absolute p \<or> ParentDir \<in> set (components p) \<or> kind_of p = None then Some (BadSemanticPath p)
      else if \<not> list_ex (path_starts_with p) watch then Some (NotWatched p)
      else None)"

definition watch_file :: "(path \<Rightarrow> file_view) \<Rightarrow> path \<Rightarrow> semantic_monitor \<Rightarrow> semantic_monitor" where
  "watch_file files p m =
     (case take_snapshot files p (mon_max_file_bytes m) of
        Inl _ \<Rightarrow> m\<lparr>mon_unavailable := insert p (mon_unavailable m), mon_previous := hm_put p None (mon_previous m)\<rparr>
      | Inr s \<Rightarrow> m\<lparr>mon_previous := hm_put p (Some s) (mon_previous m)\<rparr>)"

definition monitor_new ::
  "(path \<Rightarrow> file_view) \<Rightarrow> semantic_config \<Rightarrow> path list \<Rightarrow> monitor_error + semantic_monitor" where
  "monitor_new files config watch =
     (if 1024 < length (sem_files config) \<or> sem_max_file_bytes config = 0 \<or> 1024 * 1024 < sem_max_file_bytes config
      then Inl BadLimits
      else case find (\<lambda>p. monitored_path watch p \<noteq> None) (sem_files config) of
        Some p \<Rightarrow> Inl (the (monitored_path watch p))
      | None \<Rightarrow>
          Inr (fold (watch_file files) (sem_files config)
            \<lparr>mon_max_file_bytes = sem_max_file_bytes config, mon_previous = [], mon_unavailable = {}\<rparr>))"

definition unavailable_count :: "semantic_monitor \<Rightarrow> nat" where
  "unavailable_count m = card (mon_unavailable m)"

definition semantic_detection :: "file_event \<Rightarrow> string \<Rightarrow> f64 \<Rightarrow> severity \<Rightarrow> summary \<Rightarrow> detection" where
  "semantic_detection ev rule score sev text =
     \<lparr>d_timestamp_ms = fe_timestamp_ms ev, d_rule = rule, d_score = score, d_severity = sev, d_summary = text,
      d_pid = fe_pid ev, d_paths = [fe_path ev]\<rparr>"

definition semantic_observe ::
  "(path \<Rightarrow> file_view) \<Rightarrow> (semantic_error \<Rightarrow> string) \<Rightarrow> file_event \<Rightarrow> semantic_monitor \<Rightarrow> semantic_monitor \<times> detection option" where
  "semantic_observe files error_text ev m =
     (case map_of (mon_previous m) (fe_path ev) of
        None \<Rightarrow> (m, None)
      | Some old \<Rightarrow>
          (case kind_of (fe_path ev) of
             None \<Rightarrow> (m, None)
           | Some kind \<Rightarrow>
               (case take_snapshot files (fe_path ev) (mon_max_file_bytes m) of
                  Inl e \<Rightarrow>
                    (m\<lparr>mon_unavailable := insert (fe_path ev) (mon_unavailable m)\<rparr>,
                     Some (semantic_detection ev ''health.semantic_unavailable'' (Fin 0) Low
                       (SemanticUnavailableSummary kind (error_text e))))
                | Inr current \<Rightarrow>
                    (m\<lparr>mon_unavailable := mon_unavailable m - {fe_path ev},
                       mon_previous := hm_put (fe_path ev) (Some current) (mon_previous m)\<rparr>,
                     case old of
                       None \<Rightarrow>
                         Some (semantic_detection ev ''health.semantic_baseline'' (Fin 0) Low (SemanticBaselineSummary kind))
                     | Some previous \<Rightarrow>
                         if current = previous then None
                         else Some (semantic_detection ev (kind_rule kind) (Fin 70) High
                           (SemanticChangeSummary kind
                              (card (sn_entries current - sn_entries previous))
                              (card (sn_entries previous - sn_entries current))
                              (sn_permissions current \<noteq> sn_permissions previous)))))))"

section \<open>Specification notions\<close>

text \<open>
  The meaning of a file: its records in order, without their numbers.  The parser stores them
  as a set of numbered texts.
\<close>

fun record_lines :: "config_kind \<Rightarrow> string list \<Rightarrow> string list \<Rightarrow> string \<Rightarrow> string \<Rightarrow> semantic_error + string list" where
  "record_lines kind [] recs sect pending = (if pending \<noteq> [] then Inl IncompleteLine else Inr recs)"
| "record_lines kind (l # ls) recs sect pending =
     (if ignored_line kind (trim l) then record_lines kind ls recs sect pending
      else if continued kind (pending @ trim l)
      then record_lines kind ls recs sect (butlast (pending @ trim l) @ '' '')
      else case logical_line kind (pending @ trim l) of
        Inl e \<Rightarrow> Inl e
      | Inr line \<Rightarrow>
          if section_header kind line then record_lines kind ls recs line []
          else case entry_text kind sect line of
            Inl e \<Rightarrow> Inl e
          | Inr entry \<Rightarrow>
              if 10000 \<le> length recs then Inl TooManyEntries else record_lines kind ls (recs @ [entry]) sect [])"

definition meaning :: "config_kind \<Rightarrow> string \<Rightarrow> semantic_error + string list" where
  "meaning kind txt = record_lines kind (split_lines txt) [] [] []"

definition numbered :: "string list \<Rightarrow> string set" where
  "numbered recs = (\<lambda>i. show_nat i @ CHR '':'' # recs ! i) ` {..<length recs}"

definition unlines :: "string list \<Rightarrow> string" where
  "unlines ls = concat (map (\<lambda>l. l @ [CHR 0x0A]) ls)"

definition sample_key_file :: "string \<Rightarrow> path \<Rightarrow> file_view" where
  "sample_key_file txt p =
     Opens \<lparr>sf_before = Inr (True, of_nat (length txt)), sf_read = Inr txt, sf_after = Inr (of_nat (length txt), 0, 0, 33152),
       sf_modified_before = Inr 1, sf_modified_after = Inr 1\<rparr>"

definition sample_key_event :: file_event where
  "sample_key_event =
     \<lparr>fe_timestamp_ms = 5, fe_pid = 9, fe_path = ''/r/authorized_keys'', fe_action = Modify, fe_size = None,
      fe_entropy = None, fe_process = None, fe_content = None\<rparr>"

definition key_a :: string where "key_a = ''ssh-rsa AA=='' @ [CHR 0x0A]"
definition key_b :: string where "key_b = ''# c'' @ [CHR 0x0A] @ ''ssh-rsa  AA== me'' @ [CHR 0x0A]"

definition sample_monitor :: semantic_monitor where
  "sample_monitor =
     \<lparr>mon_max_file_bytes = 100,
      mon_previous = [(''/r/authorized_keys'',
        Some \<lparr>sn_entries = numbered [''ssh-rsa AA==''], sn_permissions = Some (0, 0, permission_bits 33152)\<rparr>)],
      mon_unavailable = {}\<rparr>"

lemma show_nat_digits: "\<forall>c\<in>set (show_nat n). ascii_digit c"
proof (induction n rule: show_nat.induct)
  case (1 n)
  have digit: "ascii_digit (char_of (48 + d))" if "d < 10" for d :: nat
    using that by (simp add: ascii_digit_def byte_def)
  have "n < 10 \<or> (\<forall>c\<in>set (show_nat (n div 10)). ascii_digit c)" "n < 10 \<Longrightarrow> ascii_digit (char_of (48 + n))"
    "ascii_digit (char_of (48 + n mod 10))"
    using 1 digit [of n] digit [of "n mod 10"] by auto
  then show ?case
    by (subst show_nat.simps) auto
qed

lemma show_nat_value: "foldl (\<lambda>v c. v * 10 + (byte c - 48)) 0 (show_nat n) = n"
proof (induction n rule: show_nat.induct)
  case (1 n)
  have digit: "byte (char_of (48 + d)) - 48 = d" if "d < 10" for d :: nat
    using that by (simp add: byte_def)
  show ?case
  proof (cases "n < 10")
    case True
    then show ?thesis
      by (subst show_nat.simps) (simp add: digit)
  next
    case False
    then show ?thesis
      using 1 by (subst show_nat.simps) (simp add: digit)
  qed
qed

lemma show_nat_inject: "show_nat m = show_nat n \<longleftrightarrow> m = n"
  by (metis show_nat_value)

lemma numbered_text_inject:
  assumes "show_nat m @ CHR '':'' # a = show_nat n @ CHR '':'' # b"
  shows "m = n \<and> a = b"
proof -
  have colon: "takeWhile ascii_digit (show_nat k @ CHR '':'' # c) = show_nat k" for k c
    using show_nat_digits [of k] by (simp add: takeWhile_append2 ascii_digit_def byte_def)
  then have "show_nat m = show_nat n"
    using arg_cong [OF assms, of "takeWhile ascii_digit"] by (simp only: colon)
  then show ?thesis
    using assms show_nat_inject by simp
qed

lemma numbered_card: "card (numbered recs) = length recs"
  unfolding numbered_def by (subst card_image) (auto simp: inj_on_def dest: numbered_text_inject)

lemma numbered_snoc: "numbered (recs @ [r]) = insert (show_nat (length recs) @ CHR '':'' # r) (numbered recs)"
  by (auto simp: numbered_def nth_append lessThan_Suc image_iff)

lemma numbered_inject: "numbered xs = numbered ys \<longleftrightarrow> xs = ys"
proof
  assume eq: "numbered xs = numbered ys"
  then have len: "length xs = length ys"
    by (metis numbered_card)
  have "xs ! i = ys ! i" if "i < length xs" for i
  proof -
    have "show_nat i @ CHR '':'' # xs ! i \<in> numbered ys"
      using that eq by (auto simp: numbered_def)
    then show ?thesis
      using numbered_text_inject unfolding numbered_def by blast
  qed
  then show "xs = ys"
    using len by (simp add: nth_equalityI)
qed simp

lemma parse_lines_refines:
  "parse_lines kind ls (numbered recs) sect pending = map_sum id numbered (record_lines kind ls recs sect pending)"
proof (induction kind ls recs sect pending rule: record_lines.induct)
  case (2 kind l ls recs sect pending)
  show ?case
    using 2
    by (cases "logical_line kind (pending @ trim l)"; cases "entry_text kind sect (projr (logical_line kind (pending @ trim l)))")
      (simp_all add: Let_def numbered_card numbered_snoc [symmetric])
qed simp

lemma record_lines_ignored:
  "ignored_line kind (trim l) \<Longrightarrow> record_lines kind (ls @ l # ls') recs sect pending = record_lines kind (ls @ ls') recs sect pending"
  by (induction kind ls recs sect pending rule: record_lines.induct) (auto split: sum.split)

lemma split_lines_append: "CHR 0x0A \<notin> set l \<Longrightarrow> split_lines (l @ CHR 0x0A # rest) = l # split_lines rest"
  by (induction l) auto

lemma split_unlines: "(\<forall>l\<in>set ls. CHR 0x0A \<notin> set l) \<Longrightarrow> split_lines (unlines ls) = ls"
  by (induction ls) (simp_all add: unlines_def split_lines_append)

lemma parse_refines: "parse kind txt = map_sum id numbered (meaning kind txt)"
  using parse_lines_refines [of kind "split_lines txt" "[]"] by (simp add: parse_def meaning_def numbered_def)

text \<open>A snapshot of a file that exists holds the meaning of its whole content.\<close>

lemma take_snapshot_content:
  assumes "take_snapshot files p limit = Inr s" "files p = Opens f"
  shows "\<exists>content kind recs len uid gid mode. sf_read f = Inr content \<and> length content \<le> unat limit \<and> kind_of p = Some kind
    \<and> meaning kind content = Inr recs \<and> sf_after f = Inr (len, uid, gid, mode)
    \<and> s = \<lparr>sn_entries = numbered recs, sn_permissions = Some (uid, gid, permission_bits mode)\<rparr>"
proof -
  obtain content len uid gid mode where read: "sf_read f = Inr content" "sf_after f = Inr (len, uid, gid, mode)"
      "length content \<le> unat limit"
    and rest: "(case from_utf8 content of None \<Rightarrow> Inl NotUtf8 | Some txt \<Rightarrow>
       case kind_of p of None \<Rightarrow> Inl UnsupportedFile | Some kind \<Rightarrow>
       case parse kind txt of Inl e \<Rightarrow> Inl e | Inr entries \<Rightarrow>
       Inr \<lparr>sn_entries = entries, sn_permissions = Some (uid, gid, permission_bits mode)\<rparr>) = Inr s"
    using assms by (auto simp: take_snapshot_def Let_def not_less min_def split: sum.splits prod.splits if_splits)
  then obtain kind entries where "kind_of p = Some kind" "parse kind content = Inr entries"
    "s = \<lparr>sn_entries = entries, sn_permissions = Some (uid, gid, permission_bits mode)\<rparr>"
    by (auto simp: from_utf8_def split: option.splits sum.splits if_splits)
  then show ?thesis
    using read by (cases "meaning kind content") (auto simp: parse_refines)
qed


text \<open>Every alert of the monitor has score 0 or 70.\<close>

lemma semantic_score: "snd (semantic_observe files error_text ev m) = Some d \<Longrightarrow> d_score d \<in> {Fin 0, Fin 70}"
  by (auto simp: semantic_observe_def semantic_detection_def split: option.splits sum.splits if_splits)

lemma semantic_fields:
  "snd (semantic_observe files error_text ev m) = Some d \<Longrightarrow> d_timestamp_ms d = fe_timestamp_ms ev \<and> d_pid d = fe_pid ev"
  by (auto simp: semantic_observe_def semantic_detection_def split: option.splits sum.splits if_splits)

lemma sample_key_kind: "kind_of ''/r/authorized_keys'' = Some Ssh"
  by code_simp

lemma sample_key_meaning: "meaning Ssh key_a = Inr [''ssh-rsa AA=='']" "meaning Ssh key_b = Inr [''ssh-rsa AA=='']"
  "from_utf8 key_a = Some key_a" "from_utf8 key_b = Some key_b" "length key_a = 13" "length key_b = 21"
  by code_simp+

lemma sample_key_snapshot:
  assumes "meaning Ssh txt = Inr recs" "from_utf8 txt = Some txt" "length txt \<le> 100"
  shows "take_snapshot (sample_key_file txt) ''/r/authorized_keys'' 100
    = Inr \<lparr>sn_entries = numbered recs, sn_permissions = Some (0, 0, permission_bits 33152)\<rparr>"
  using assms
  by (simp add: take_snapshot_def sample_key_file_def sample_key_kind parse_refines word_less_nat_alt unat_of_nat Let_def not_less)


end
