(* ===== verification/Agent_Response.thy ===== *)
theory Agent_Response
  imports Argos_Common
begin

text \<open>
  Crate \<^verbatim>\<open>argos-response\<close>, \<^verbatim>\<open>lib.rs\<close>: signals to a process.  The kernel's answers are arguments: what
  \<^verbatim>\<open>/proc\<close> shows, whether a pidfd can be opened, and what sending and waiting return.  The result
  lists the signals that were sent.
\<close>

section \<open>Actions\<close>

datatype response_action =
    KillProcess pid
  | KillProcessInstance pid u64 string
  | SuspendProcess pid

datatype response_error =
    SignalFailed pid string | UnknownPid | ProtectedPid pid | IdentityChanged pid | Unconfirmed pid

datatype signal = SIGKILL | SIGSTOP

datatype signal_target = ToHandle nat signal | ToPid pid signal

record response_os =
  os_self :: pid
  os_boot_id :: "string option"
  os_stat :: "pid \<Rightarrow> string option"
  os_pidfd_open :: "pid \<Rightarrow> string + nat"
  os_pidfd_send :: "nat \<Rightarrow> signal \<Rightarrow> string + unit"
  os_exited :: "nat \<Rightarrow> bool"
  os_kill :: "pid \<Rightarrow> signal \<Rightarrow> string + unit"

section \<open>The identity of a process\<close>

fun split_blank :: "string list \<Rightarrow> string \<Rightarrow> string list" where
  "split_blank [] word = (if word = [] then [] else [word])"
| "split_blank (ch # cs) word =
     (if blank_str ch then (if word = [] then split_blank cs [] else word # split_blank cs [])
      else split_blank cs (word @ ch))"

definition split_whitespace :: "string \<Rightarrow> string list" where
  "split_whitespace s = split_blank (utf8_chars s) []"

definition digits_value :: "string \<Rightarrow> nat" where
  "digits_value s = foldl (\<lambda>v c. v * 10 + (byte c - 48)) 0 s"

definition parse_u64 :: "string \<Rightarrow> u64 option" where
  "parse_u64 s =
     (let ds = (case s of c # cs \<Rightarrow> if c = CHR ''+'' then cs else s | [] \<Rightarrow> [])
      in if ds \<noteq> [] \<and> list_all ascii_digit ds \<and> digits_value ds < 2 ^ 64 then Some (of_nat (digits_value ds)) else None)"

text \<open>What follows the last closing parenthesis.\<close>

definition after_last_paren :: "string \<Rightarrow> string option" where
  "after_last_paren s =
     (if CHR '')'' \<in> set s then Some (rev (takeWhile (\<lambda>c. c \<noteq> CHR '')'') (rev s))) else None)"

definition start_ticks :: "string \<Rightarrow> u64 option" where
  "start_ticks stat =
     (case after_last_paren stat of
        None \<Rightarrow> None
      | Some rest \<Rightarrow>
          let ws = split_whitespace rest in if 19 < length ws then parse_u64 (ws ! 19) else None)"

definition unwrap_text :: "string option \<Rightarrow> string" where
  "unwrap_text s = (case s of None \<Rightarrow> [] | Some t \<Rightarrow> t)"

definition process_identity_matches :: "response_os \<Rightarrow> pid \<Rightarrow> u64 \<Rightarrow> string \<Rightarrow> bool" where
  "process_identity_matches os p ticks boot =
     (boot \<noteq> [] \<and> ticks \<noteq> 0 \<and> trim (unwrap_text (os_boot_id os)) = boot
      \<and> start_ticks (unwrap_text (os_stat os p)) = Some ticks)"

section \<open>Execution\<close>

fun action_pid :: "response_action \<Rightarrow> pid" where
  "action_pid (KillProcess p) = p"
| "action_pid (KillProcessInstance p _ _) = p"
| "action_pid (SuspendProcess p) = p"

fun action_signal :: "response_action \<Rightarrow> signal" where
  "action_signal (SuspendProcess _) = SIGSTOP"
| "action_signal _ = SIGKILL"

definition linux_execute :: "response_os \<Rightarrow> response_action \<Rightarrow> signal_target list \<times> (response_error + unit)" where
  "linux_execute os action =
     (let p = action_pid action; sig = action_signal action
      in if p = 0 then ([], Inl UnknownPid)
         else if p = 1 \<or> 2147483647 < p \<or> p = os_self os then ([], Inl (ProtectedPid p))
         else case action of
           KillProcessInstance _ ticks boot \<Rightarrow>
             (case os_pidfd_open os p of
                Inl e \<Rightarrow> ([], Inl (SignalFailed p e))
              | Inr h \<Rightarrow>
                  if \<not> process_identity_matches os p ticks boot then ([], Inl (IdentityChanged p))
                  else (case os_pidfd_send os h sig of
                    Inl e \<Rightarrow> ([], Inl (SignalFailed p e))
                  | Inr _ \<Rightarrow> ([ToHandle h sig], if os_exited os h then Inr () else Inl (Unconfirmed p))))
         | _ \<Rightarrow>
             (case os_kill os p sig of
                Inl e \<Rightarrow> ([], Inl (SignalFailed p e))
              | Inr _ \<Rightarrow> ([ToPid p sig], Inr ())))"

datatype responder = LinuxResponder | DryRunResponder

definition make_responder :: "bool \<Rightarrow> bool \<Rightarrow> responder" where
  "make_responder linux auto_block = (if linux \<and> auto_block then LinuxResponder else DryRunResponder)"

definition execute :: "response_os \<Rightarrow> responder \<Rightarrow> response_action \<Rightarrow> signal_target list \<times> (response_error + unit)" where
  "execute os r action =
     (case r of DryRunResponder \<Rightarrow> ([], Inr ()) | LinuxResponder \<Rightarrow> linux_execute os action)"

section \<open>Only the instance that was seen\<close>

text \<open>
  Protected processes never receive a signal, and the kill of an instance goes through a handle
  that was opened before the start time and boot of the pid were found to be those of the event.
\<close>

lemma execute_safe:
  assumes "execute os r action = (sent, result)" "sent \<noteq> []"
  shows "action_pid action \<notin> {0, 1, os_self os} \<and> action_pid action \<le> 2147483647 \<and> r = LinuxResponder"
  using assms by (auto simp: execute_def linux_execute_def Let_def not_less split: responder.splits if_splits)

lemma instance_kill_target:
  assumes "execute os r (KillProcessInstance p ticks boot) = (sent, result)" "target \<in> set sent"
  shows "\<exists>h. target = ToHandle h SIGKILL \<and> os_pidfd_open os p = Inr h
    \<and> start_ticks (unwrap_text (os_stat os p)) = Some ticks \<and> trim (unwrap_text (os_boot_id os)) = boot \<and> boot \<noteq> [] \<and> ticks \<noteq> 0"
  using assms
  by (auto simp: execute_def linux_execute_def Let_def process_identity_matches_def split: responder.splits if_splits sum.splits)

end
