(* ===== verification/Central_Server.thy ===== *)
theory Central_Server
  imports Argos_Common
begin

text \<open>
  Crate \<^verbatim>\<open>argos-central\<close>, \<^verbatim>\<open>main.rs\<close>: the server that collects the detections of all agents.  The
  state is \<^verbatim>\<open>AppState\<close> with its two tables, a handler maps a request to the new state and the
  status.  A poisoned mutex, failing statements and the outcome of a commit are arguments, so
  are the clock and the JSON codec of string lists.  HTTP itself and the dashboard are outside.
\<close>

section \<open>Requests and tables\<close>

record register_request =
  rq_agent_id :: string
  rq_hostname :: string
  rq_tags :: "string list"

record detection_report =
  dr_delivery_id :: "string option"
  dr_agent_id :: string
  dr_timestamp_ms :: u64
  dr_rule :: string
  dr_score :: f64
  dr_severity :: string
  dr_summary :: string
  dr_pid :: u32
  dr_paths :: "string list"

record heartbeat_request =
  hb_agent_id :: string
  hb_sensor_healthy :: bool
  hb_outbox_pending :: u64
  hb_failed_attempts :: u64

record central_agent =
  ca_agent_id :: string
  ca_hostname :: string
  ca_tags_json :: string
  ca_registered_at_ms :: int
  ca_last_seen_ms :: int
  ca_sensor_healthy :: "bool option"
  ca_outbox_pending :: u64
  ca_failed_attempts :: u64
  ca_last_heartbeat_ms :: "int option"

record central_detection =
  cd_id :: nat
  cd_agent_id :: string
  cd_timestamp_ms :: int
  cd_rule :: string
  cd_score :: f64
  cd_severity :: string
  cd_summary :: string
  cd_pid :: u32
  cd_paths_json :: string
  cd_delivery_id :: "string option"

record app_state =
  ap_token :: string
  ap_agent_tokens :: "(string, string) hmap"
  ap_development :: bool
  ap_agents :: "central_agent list"
  ap_detections :: "central_detection list"
  ap_detection_seq :: nat

record agent_info =
  ai_agent_id :: string
  ai_hostname :: string
  ai_tags :: "string list"
  ai_registered_at_ms :: int
  ai_last_seen_ms :: int
  ai_detection_count :: nat
  ai_status :: string
  ai_sensor_healthy :: "bool option"
  ai_outbox_pending :: u64
  ai_failed_attempts :: u64
  ai_last_heartbeat_ms :: "int option"

record detection_info =
  di_agent_id :: string
  di_timestamp_ms :: int
  di_rule :: string
  di_score :: f64
  di_severity :: string
  di_summary :: string

datatype http_status = StatusOk | StatusBadRequest | StatusUnauthorized | StatusNotFound | StatusUnprocessable | StatusInternal

record central_lib =
  cl_strings_json :: "string list \<Rightarrow> string option"
  cl_parse_strings :: "string \<Rightarrow> string list option"

record central_env =
  cv_poisoned :: bool
  cv_fails :: bool
  cv_commit :: commit_outcome
  cv_now :: u64

section \<open>Start and authorisation\<close>

datatype ip_addr = V4 u32 | V6 "128 word"

fun is_loopback :: "ip_addr \<Rightarrow> bool" where
  "is_loopback (V4 a) = (drop_bit 24 a = 127)"
| "is_loopback (V6 a) = (a = 1)"

record central_args =
  ar_listen :: ip_addr
  ar_token :: string
  ar_development :: bool

datatype auth_config_error = NotLoopback | DevelopmentWithAuth | MissingAuth | BadAgentToken

fun agent_tokens_ok :: "string list \<Rightarrow> (string \<times> string) list \<Rightarrow> bool" where
  "agent_tokens_ok seen [] = True"
| "agent_tokens_ok seen ((i, token) # tokens) =
     (\<not> blank_str i \<and> \<not> blank_str token \<and> token \<notin> set seen \<and> agent_tokens_ok (token # seen) tokens)"

definition validate_auth_config :: "central_args \<Rightarrow> (string, string) hmap \<Rightarrow> auth_config_error + unit" where
  "validate_auth_config args tokens =
     (if ar_development args
      then if \<not> is_loopback (ar_listen args) then Inl NotLoopback
           else if ar_token args \<noteq> [] \<or> tokens \<noteq> [] then Inl DevelopmentWithAuth
           else Inr ()
      else if blank_str (ar_token args) \<or> tokens = [] then Inl MissingAuth
      else if agent_tokens_ok [ar_token args] tokens then Inr ()
      else Inl BadAgentToken)"

text \<open>\<^verbatim>\<open>main\<close> on a new database: the checked arguments become the state of the handlers.\<close>

definition central_start :: "central_args \<Rightarrow> (string, string) hmap \<Rightarrow> auth_config_error + app_state" where
  "central_start args tokens =
     (case validate_auth_config args tokens of
        Inl e \<Rightarrow> Inl e
      | Inr _ \<Rightarrow> Inr \<lparr>ap_token = ar_token args, ap_agent_tokens = tokens, ap_development = ar_development args,
                     ap_agents = [], ap_detections = [], ap_detection_seq = 0\<rparr>)"

text \<open>The values of the Authorization header; \<open>None\<close> is one that is no visible ASCII text.\<close>

type_synonym authorization = "string option list"

definition central_bearer :: "authorization \<Rightarrow> string" where
  "central_bearer auth =
     (case auth of
        Some v # _ \<Rightarrow> (case strip_prefix ''Bearer '' v of None \<Rightarrow> [] | Some token \<Rightarrow> token)
      | _ \<Rightarrow> [])"

definition authorize :: "app_state \<Rightarrow> authorization \<Rightarrow> http_status + unit" where
  "authorize st auth =
     (if ap_development st \<or> ap_token st \<noteq> [] \<and> central_bearer auth = ap_token st then Inr ()
      else Inl StatusUnauthorized)"

definition authorize_agent :: "app_state \<Rightarrow> authorization \<Rightarrow> string \<Rightarrow> http_status + unit" where
  "authorize_agent st auth agent =
     (if blank_str agent then Inl StatusBadRequest
      else if ap_development st then Inr ()
      else case map_of (ap_agent_tokens st) agent of
        None \<Rightarrow> Inl StatusUnauthorized
      | Some token \<Rightarrow>
          if token \<noteq> [] \<and> central_bearer auth = token then Inr () else Inl StatusUnauthorized)"

section \<open>Handlers\<close>

text \<open>The \<^verbatim>\<open>as i64\<close> of a clock reading.\<close>

definition now_i64 :: "central_env \<Rightarrow> int" where
  "now_i64 env = sint (cv_now env)"

definition strings_json :: "central_lib \<Rightarrow> string list \<Rightarrow> string" where
  "strings_json lib xs = (case cl_strings_json lib xs of None \<Rightarrow> ''[]'' | Some json \<Rightarrow> json)"

definition upsert_agent :: "register_request \<Rightarrow> string \<Rightarrow> int \<Rightarrow> central_agent list \<Rightarrow> central_agent list" where
  "upsert_agent req tags now agents =
     (if rq_agent_id req \<in> ca_agent_id ` set agents
      then map (\<lambda>a. if ca_agent_id a = rq_agent_id req
                    then a\<lparr>ca_hostname := rq_hostname req, ca_tags_json := tags, ca_last_seen_ms := now\<rparr>
                    else a) agents
      else agents @ [\<lparr>ca_agent_id = rq_agent_id req, ca_hostname = rq_hostname req, ca_tags_json = tags,
                      ca_registered_at_ms = now, ca_last_seen_ms = now, ca_sensor_healthy = None,
                      ca_outbox_pending = 0, ca_failed_attempts = 0, ca_last_heartbeat_ms = None\<rparr>])"

definition register_agent ::
  "central_lib \<Rightarrow> central_env \<Rightarrow> authorization \<Rightarrow> register_request \<Rightarrow> app_state \<Rightarrow> app_state \<times> (http_status + http_status)" where
  "register_agent lib env auth req st =
     (case authorize_agent st auth (rq_agent_id req) of
        Inl e \<Rightarrow> (st, Inl e)
      | Inr _ \<Rightarrow>
          if cv_poisoned env \<or> cv_fails env then (st, Inl StatusInternal)
          else commit StatusInternal (cv_commit env) st
            (st\<lparr>ap_agents := upsert_agent req (strings_json lib (rq_tags req)) (now_i64 env) (ap_agents st)\<rparr>) StatusOk)"

definition report_ok :: "detection_report \<Rightarrow> bool" where
  "report_ok report =
     (dr_timestamp_ms report \<le> i64_max \<and> is_finite (dr_score report) \<and> f_in 0 100 (dr_score report)
      \<and> (case dr_delivery_id report of None \<Rightarrow> True | Some i \<Rightarrow> i \<noteq> [] \<and> length i \<le> 128))"

definition new_detection :: "central_lib \<Rightarrow> nat \<Rightarrow> detection_report \<Rightarrow> central_detection" where
  "new_detection lib i report =
     \<lparr>cd_id = i, cd_agent_id = dr_agent_id report, cd_timestamp_ms = sint (dr_timestamp_ms report),
      cd_rule = dr_rule report, cd_score = dr_score report, cd_severity = dr_severity report,
      cd_summary = dr_summary report, cd_pid = dr_pid report, cd_paths_json = strings_json lib (dr_paths report),
      cd_delivery_id = dr_delivery_id report\<rparr>"

text \<open>The partial unique index: a delivery id is unique per agent, rows without one never conflict.\<close>

definition delivered :: "string \<Rightarrow> string \<Rightarrow> central_detection \<Rightarrow> bool" where
  "delivered agent delivery d = (cd_agent_id d = agent \<and> cd_delivery_id d = Some delivery)"

definition insert_report :: "central_lib \<Rightarrow> detection_report \<Rightarrow> app_state \<Rightarrow> app_state" where
  "insert_report lib report st =
     (if (case dr_delivery_id report of
            None \<Rightarrow> False
          | Some i \<Rightarrow> list_ex (delivered (dr_agent_id report) i) (ap_detections st)) then st
      else st\<lparr>ap_detections := ap_detections st @ [new_detection lib (ap_detection_seq st + 1) report],
              ap_detection_seq := ap_detection_seq st + 1\<rparr>)"

definition update_agent :: "string \<Rightarrow> (central_agent \<Rightarrow> central_agent) \<Rightarrow> app_state \<Rightarrow> app_state" where
  "update_agent agent f st =
     st\<lparr>ap_agents := map (\<lambda>a. if ca_agent_id a = agent then f a else a) (ap_agents st)\<rparr>"

definition ingest_detection ::
  "central_lib \<Rightarrow> central_env \<Rightarrow> authorization \<Rightarrow> detection_report \<Rightarrow> app_state \<Rightarrow> app_state \<times> (http_status + http_status)" where
  "ingest_detection lib env auth report st =
     (case authorize_agent st auth (dr_agent_id report) of
        Inl e \<Rightarrow> (st, Inl e)
      | Inr _ \<Rightarrow>
          if \<not> report_ok report then (st, Inl StatusBadRequest)
          else if cv_poisoned env \<or> cv_fails env then (st, Inl StatusInternal)
          else if dr_agent_id report \<notin> ca_agent_id ` set (ap_agents st) then (st, Inl StatusNotFound)
          else commit StatusInternal (cv_commit env) st
            (update_agent (dr_agent_id report) (\<lambda>a. a\<lparr>ca_last_seen_ms := now_i64 env\<rparr>) (insert_report lib report st))
            StatusOk)"

definition heartbeat ::
  "central_env \<Rightarrow> authorization \<Rightarrow> heartbeat_request \<Rightarrow> app_state \<Rightarrow> app_state \<times> (http_status + http_status)" where
  "heartbeat env auth req st =
     (case authorize_agent st auth (hb_agent_id req) of
        Inl e \<Rightarrow> (st, Inl e)
      | Inr _ \<Rightarrow>
          if i64_max < hb_outbox_pending req \<or> i64_max < hb_failed_attempts req then (st, Inl StatusBadRequest)
          else if cv_poisoned env \<or> cv_fails env then (st, Inl StatusInternal)
          else case commit StatusInternal (cv_commit env) st
            (update_agent (hb_agent_id req)
               (\<lambda>a. a\<lparr>ca_last_seen_ms := now_i64 env, ca_last_heartbeat_ms := Some (now_i64 env),
                      ca_sensor_healthy := Some (hb_sensor_healthy req),
                      ca_outbox_pending := hb_outbox_pending req, ca_failed_attempts := hb_failed_attempts req\<rparr>) st) () of
            (st', Inl e) \<Rightarrow> (st', Inl e)
          | (st', Inr _) \<Rightarrow>
              (st', if hb_agent_id req \<in> ca_agent_id ` set (ap_agents st) then Inr StatusOk else Inl StatusNotFound))"

section \<open>Listings\<close>

definition i64_saturating_sub :: "int \<Rightarrow> int \<Rightarrow> int" where
  "i64_saturating_sub a b = max (- (2 ^ 63)) (min (2 ^ 63 - 1) (a - b))"

definition agent_status :: "int \<Rightarrow> int \<Rightarrow> string" where
  "agent_status last_seen now =
     (let age = max (i64_saturating_sub now last_seen) 0
      in if age \<le> 60000 then ''online'' else if age \<le> 120000 then ''stale'' else ''offline'')"

definition agent_row :: "central_lib \<Rightarrow> int \<Rightarrow> app_state \<Rightarrow> central_agent \<Rightarrow> agent_info" where
  "agent_row lib now st a =
     \<lparr>ai_agent_id = ca_agent_id a, ai_hostname = ca_hostname a,
      ai_tags = (case cl_parse_strings lib (ca_tags_json a) of None \<Rightarrow> [] | Some tags \<Rightarrow> tags),
      ai_registered_at_ms = ca_registered_at_ms a, ai_last_seen_ms = ca_last_seen_ms a,
      ai_detection_count = length (filter (\<lambda>d. cd_agent_id d = ca_agent_id a) (ap_detections st)),
      ai_status = agent_status (ca_last_seen_ms a) now, ai_sensor_healthy = ca_sensor_healthy a,
      ai_outbox_pending = ca_outbox_pending a, ai_failed_attempts = ca_failed_attempts a,
      ai_last_heartbeat_ms = ca_last_heartbeat_ms a\<rparr>"

text \<open>Rows seen at the same time come in the order of the table; SQLite leaves that order open.\<close>

definition list_agents :: "central_lib \<Rightarrow> central_env \<Rightarrow> authorization \<Rightarrow> app_state \<Rightarrow> http_status + agent_info list" where
  "list_agents lib env auth st =
     (case authorize st auth of
        Inl e \<Rightarrow> Inl e
      | Inr _ \<Rightarrow>
          if cv_poisoned env \<or> cv_fails env then Inl StatusInternal
          else Inr (map (agent_row lib (now_i64 env) st) (sort_key (\<lambda>a. - ca_last_seen_ms a) (ap_agents st))))"

definition default_limit :: nat where
  "default_limit = 50"

definition list_detections :: "central_env \<Rightarrow> authorization \<Rightarrow> nat \<Rightarrow> app_state \<Rightarrow> http_status + detection_info list" where
  "list_detections env auth limit st =
     (case authorize st auth of
        Inl e \<Rightarrow> Inl e
      | Inr _ \<Rightarrow>
          if cv_poisoned env \<or> cv_fails env then Inl StatusInternal
          else Inr (map (\<lambda>d. \<lparr>di_agent_id = cd_agent_id d, di_timestamp_ms = cd_timestamp_ms d, di_rule = cd_rule d,
                               di_score = cd_score d, di_severity = cd_severity d, di_summary = cd_summary d\<rparr>)
                      (take (clamp 1 1000 limit) (rev (sort_key cd_id (ap_detections st))))))"

section \<open>Specification notions\<close>

datatype central_request = Register register_request | Heartbeat heartbeat_request | Ingest detection_report

text \<open>The routes that write.\<close>

fun handle ::
  "central_lib \<Rightarrow> central_env \<Rightarrow> authorization \<Rightarrow> central_request \<Rightarrow> app_state \<Rightarrow> app_state \<times> (http_status + http_status)" where
  "handle lib env auth (Register req) st = register_agent lib env auth req st"
| "handle lib env auth (Heartbeat req) st = heartbeat env auth req st"
| "handle lib env auth (Ingest report) st = ingest_detection lib env auth report st"

fun request_agent :: "central_request \<Rightarrow> string" where
  "request_agent (Register req) = rq_agent_id req"
| "request_agent (Heartbeat req) = hb_agent_id req"
| "request_agent (Ingest report) = dr_agent_id report"

definition same_auth :: "app_state \<Rightarrow> app_state \<Rightarrow> bool" where
  "same_auth st t =
     (ap_token t = ap_token st \<and> ap_agent_tokens t = ap_agent_tokens st \<and> ap_development t = ap_development st)"

text \<open>What the tables hold of one agent.\<close>

definition agent_view :: "string \<Rightarrow> app_state \<Rightarrow> central_agent list \<times> central_detection list" where
  "agent_view agent st =
     (filter (\<lambda>a. ca_agent_id a = agent) (ap_agents st), filter (\<lambda>d. cd_agent_id d = agent) (ap_detections st))"

text \<open>
  The tables: agents and deliveries are unique, the ids of the detections increase up to the
  sequence.
\<close>

definition central_inv :: "app_state \<Rightarrow> bool" where
  "central_inv st =
     (distinct (map ca_agent_id (ap_agents st))
      \<and> (\<forall>agent delivery. length (filter (delivered agent delivery) (ap_detections st)) \<le> 1)
      \<and> map cd_id (ap_detections st) = [1..<Suc (ap_detection_seq st)])"

text \<open>A server for two agents, at its start.\<close>

definition sample_args :: central_args where
  "sample_args = \<lparr>ar_listen = V4 0, ar_token = ''adm'', ar_development = False\<rparr>"

definition sample_central :: app_state where
  "sample_central =
     \<lparr>ap_token = ''adm'', ap_agent_tokens = [(''a1'', ''t1''), (''a2'', ''t2'')], ap_development = False,
      ap_agents = [], ap_detections = [], ap_detection_seq = 0\<rparr>"

definition sample_central_lib :: central_lib where
  "sample_central_lib = \<lparr>cl_strings_json = (\<lambda>_. Some ''[]''), cl_parse_strings = (\<lambda>_. Some [])\<rparr>"

definition sample_central_env :: central_env where
  "sample_central_env = \<lparr>cv_poisoned = False, cv_fails = False, cv_commit = Committed, cv_now = 10\<rparr>"

lemma map_update_id: "(\<And>a. ca_agent_id (f a) = ca_agent_id a) \<Longrightarrow>
    map ca_agent_id (map (\<lambda>a. if ca_agent_id a = agent then f a else a) xs) = map ca_agent_id xs"
  by simp

lemma filter_update:
  "(\<And>a. ca_agent_id (f a) = ca_agent_id a) \<Longrightarrow> agent \<noteq> other \<Longrightarrow>
    filter (\<lambda>a. ca_agent_id a = other) (map (\<lambda>a. if ca_agent_id a = agent then f a else a) xs)
      = filter (\<lambda>a. ca_agent_id a = other) xs"
  by (induction xs) auto

lemma upsert_agent_ids:
  "map ca_agent_id (upsert_agent req tags now xs)
     = (if rq_agent_id req \<in> ca_agent_id ` set xs then map ca_agent_id xs else map ca_agent_id xs @ [rq_agent_id req])"
  by (auto simp: upsert_agent_def)

lemma upsert_agent_other:
  "rq_agent_id req \<noteq> other \<Longrightarrow>
     filter (\<lambda>a. ca_agent_id a = other) (upsert_agent req tags now xs) = filter (\<lambda>a. ca_agent_id a = other) xs"
  by (auto simp: upsert_agent_def filter_update)

lemma insert_report_frame [simp]:
  "ap_agents (insert_report lib report st) = ap_agents st" "ap_token (insert_report lib report st) = ap_token st"
  "ap_agent_tokens (insert_report lib report st) = ap_agent_tokens st"
  "ap_development (insert_report lib report st) = ap_development st"
  by (simp_all add: insert_report_def)

lemma insert_report_inv:
  assumes "central_inv st"
  shows "central_inv (insert_report lib report st)"
proof (cases "dr_delivery_id report")
  case None
  then show ?thesis
    using assms by (simp add: insert_report_def central_inv_def new_detection_def delivered_def)
next
  case (Some i)
  have "length (filter (delivered agent delivery) (ap_detections st)) = 0"
    if "\<not> list_ex (delivered (dr_agent_id report) i) (ap_detections st)" "agent = dr_agent_id report" "delivery = i"
    for agent delivery
    using that by (auto simp: list_ex_iff filter_empty_conv)
  then show ?thesis
    using assms Some
    by (auto simp: insert_report_def central_inv_def new_detection_def delivered_def)
qed

text \<open>Every request leaves the state as it was or commits the effect of its handler.\<close>

lemma handle_effect:
  "fst (handle lib env auth req st) = st
   \<or> authorize_agent st auth (request_agent req) = Inr ()
     \<and> (\<exists>r tags now. req = Register r \<and> fst (handle lib env auth req st) = st\<lparr>ap_agents := upsert_agent r tags now (ap_agents st)\<rparr>)
   \<or> authorize_agent st auth (request_agent req) = Inr ()
     \<and> (\<exists>r f. req = Heartbeat r \<and> (\<forall>a. ca_agent_id (f a) = ca_agent_id a)
          \<and> fst (handle lib env auth req st) = update_agent (hb_agent_id r) f st)
   \<or> authorize_agent st auth (request_agent req) = Inr ()
     \<and> (\<exists>report f. req = Ingest report \<and> report_ok report \<and> (\<forall>a. ca_agent_id (f a) = ca_agent_id a)
          \<and> fst (handle lib env auth req st) = update_agent (dr_agent_id report) f (insert_report lib report st))"
proof (cases req)
  case (Register r)
  then show ?thesis
    by (cases "cv_commit env") (auto simp: register_agent_def commit_def split: sum.split)
next
  case (Heartbeat r)
  let ?f = "\<lambda>a. a\<lparr>ca_last_seen_ms := now_i64 env, ca_last_heartbeat_ms := Some (now_i64 env),
                      ca_sensor_healthy := Some (hb_sensor_healthy r),
                      ca_outbox_pending := hb_outbox_pending r, ca_failed_attempts := hb_failed_attempts r\<rparr>"
  have "fst (handle lib env auth req st) = st
    \<or> authorize_agent st auth (hb_agent_id r) = Inr () \<and> fst (handle lib env auth req st) = update_agent (hb_agent_id r) ?f st"
    using Heartbeat by (cases "cv_commit env") (auto simp: heartbeat_def commit_def split: sum.split)
  moreover have "\<forall>a. ca_agent_id (?f a) = ca_agent_id a"
    by simp
  ultimately show ?thesis
    using Heartbeat by (metis request_agent.simps(2))
next
  case (Ingest report)
  let ?f = "\<lambda>a. a\<lparr>ca_last_seen_ms := now_i64 env\<rparr>"
  have "fst (handle lib env auth req st) = st
    \<or> authorize_agent st auth (dr_agent_id report) = Inr () \<and> report_ok report
      \<and> fst (handle lib env auth req st) = update_agent (dr_agent_id report) ?f (insert_report lib report st)"
    using Ingest by (cases "cv_commit env") (auto simp: ingest_detection_def commit_def split: sum.split)
  moreover have "\<forall>a. ca_agent_id (?f a) = ca_agent_id a"
    by simp
  ultimately show ?thesis
    using Ingest by (metis request_agent.simps(3))
qed

lemma handle_auth: "same_auth st (fst (handle lib env auth req st))"
  using handle_effect [of lib env auth req st]
  by (auto simp: same_auth_def update_agent_def)

lemma update_agent_inv:
  "central_inv st \<Longrightarrow> \<forall>a. ca_agent_id (f a) = ca_agent_id a \<Longrightarrow> central_inv (update_agent agent f st)"
  by (simp add: central_inv_def update_agent_def map_update_id comp_def del: map_map)

lemma upsert_agent_inv: "central_inv st \<Longrightarrow> central_inv (st\<lparr>ap_agents := upsert_agent r tags now (ap_agents st)\<rparr>)"
  by (simp add: central_inv_def upsert_agent_ids)

lemma handle_inv: "central_inv st \<Longrightarrow> central_inv (fst (handle lib env auth req st))"
  using handle_effect [of lib env auth req st]
  by (elim disjE conjE exE; simp only: update_agent_inv upsert_agent_inv insert_report_inv simp_thms)

lemma update_agent_view:
  "\<forall>a. ca_agent_id (f a) = ca_agent_id a \<Longrightarrow> agent \<noteq> other \<Longrightarrow> agent_view other (update_agent agent f st) = agent_view other st"
  by (simp add: agent_view_def update_agent_def filter_update)

lemma insert_report_view: "dr_agent_id report \<noteq> other \<Longrightarrow> agent_view other (insert_report lib report st) = agent_view other st"
  by (simp add: agent_view_def insert_report_def new_detection_def)

lemma handle_other:
  assumes "request_agent req \<noteq> agent \<or> authorize_agent st auth agent \<noteq> Inr ()"
  shows "agent_view agent (fst (handle lib env auth req st)) = agent_view agent st"
proof -
  consider "fst (handle lib env auth req st) = st" | "authorize_agent st auth (request_agent req) = Inr ()" "request_agent req \<noteq> agent"
    using handle_effect [of lib env auth req st] assms by metis
  then show ?thesis
  proof cases
    case 2
    then show ?thesis
      using handle_effect [of lib env auth req st]
      by (elim disjE conjE exE)
        (simp_all add: update_agent_view insert_report_view, simp add: agent_view_def upsert_agent_other)
  qed simp
qed

lemma agent_tokens_distinct:
  "agent_tokens_ok seen tokens \<Longrightarrow> distinct (map snd tokens) \<and> set (map snd tokens) \<inter> set seen = {}
     \<and> (\<forall>(i, t)\<in>set tokens. \<not> blank_str i \<and> \<not> blank_str t)"
  by (induction seen tokens rule: agent_tokens_ok.induct) auto

lemma authorize_agent_Inr:
  "\<not> ap_development st \<Longrightarrow> authorize_agent st auth agent = Inr () \<longleftrightarrow>
     \<not> blank_str agent \<and> central_bearer auth \<noteq> [] \<and> map_of (ap_agent_tokens st) agent = Some (central_bearer auth)"
  by (auto simp: authorize_agent_def split: option.splits)

text \<open>
  C25: In production mode the bearer token separates the parties of the central server.  A token
  belongs to one agent; a request that is accepted names the agent of its token; whatever is
  requested, the rows of every other agent stay as they were; the administrator's token writes
  nothing, and an agent's token, or none, lists nothing.
\<close>

theorem central_agents_are_isolated:
  assumes "validate_auth_config args (ap_agent_tokens st) = Inr ()" "ap_token st = ar_token args"
    and "\<not> ar_development args" "\<not> ap_development st"
    and "handle lib env auth req st = (st', result)"
  shows "(\<forall>a b. map_of (ap_agent_tokens st) a = Some (central_bearer auth) \<and> map_of (ap_agent_tokens st) b = Some (central_bearer auth)
            \<longrightarrow> a = b)
     \<and> (\<forall>code. result = Inr code \<longrightarrow> map_of (ap_agent_tokens st) (request_agent req) = Some (central_bearer auth))
     \<and> (\<forall>agent. map_of (ap_agent_tokens st) agent \<noteq> Some (central_bearer auth) \<longrightarrow> agent_view agent st' = agent_view agent st)
     \<and> (central_bearer auth = ap_token st \<longrightarrow> st' = st \<and> (\<exists>code. result = Inl code))
     \<and> (central_bearer auth \<noteq> ap_token st \<longrightarrow> list_agents lib env auth st = Inl StatusUnauthorized
            \<and> list_detections env auth limit st = Inl StatusUnauthorized)"
proof -
  have ok: "agent_tokens_ok [ap_token st] (ap_agent_tokens st)"
    using assms(1-3) by (simp add: validate_auth_config_def split: if_splits)
  note tokens = agent_tokens_distinct [OF ok]
  have result: "authorize_agent st auth (request_agent req) = Inr ()" if "result = Inr code" for code
    using assms(5) that
    by (cases req) (auto simp: register_agent_def heartbeat_def ingest_detection_def split: sum.splits)
  have "a = b" if "map_of (ap_agent_tokens st) a = Some t" "map_of (ap_agent_tokens st) b = Some t" for a b t
    using that [THEN map_of_SomeD] tokens inj_onD [of snd "set (ap_agent_tokens st)" "(a, t)" "(b, t)"]
    by (simp add: distinct_map)
  moreover have "agent_view agent st' = agent_view agent st"
    if "map_of (ap_agent_tokens st) agent \<noteq> Some (central_bearer auth)" for agent
    using handle_other [of req agent st auth lib env] that assms(4,5) by (simp add: authorize_agent_Inr)
  moreover have admin: "authorize_agent st auth a \<noteq> Inr ()" if "central_bearer auth = ap_token st" for a
    using tokens that assms(4) by (auto simp: authorize_agent_Inr image_iff dest!: map_of_SomeD)
  moreover have "st' = st" if "central_bearer auth = ap_token st"
    using handle_effect [of lib env auth req st] admin [OF that] assms(5) by auto
  moreover have "\<exists>code. result = Inl code" if "central_bearer auth = ap_token st"
    using result admin [OF that] by (cases result) auto
  moreover have "map_of (ap_agent_tokens st) (request_agent req) = Some (central_bearer auth)" if "result = Inr code" for code
    using result [OF that] assms(4) by (simp add: authorize_agent_Inr)
  ultimately show ?thesis
    using assms(4) by (simp add: list_agents_def list_detections_def authorize_def)
qed

lemma sample_not_blank:
  "\<not> blank_str ''a1''" "\<not> blank_str ''a2''" "\<not> blank_str ''t1''" "\<not> blank_str ''t2''" "\<not> blank_str ''adm''"
  by code_simp+

lemma sample_start: "central_start sample_args [(''a1'', ''t1''), (''a2'', ''t2'')] = Inr sample_central"
  by (simp add: central_start_def validate_auth_config_def sample_args_def sample_central_def sample_not_blank)

theorem central_agents_are_isolated_witness:
  "let req = Register \<lparr>rq_agent_id = ''a1'', rq_hostname = ''h'', rq_tags = []\<rparr>;
       auth = [Some ''Bearer t1''];
       st' = fst (handle sample_central_lib sample_central_env auth req sample_central)
   in length (ap_agents st') = 1 \<and> agent_view ''a2'' st' = agent_view ''a2'' sample_central
      \<and> list_agents sample_central_lib sample_central_env auth st' = Inl StatusUnauthorized"
proof -
  define req where "req = Register \<lparr>rq_agent_id = ''a1'', rq_hostname = ''h'', rq_tags = []\<rparr>"
  define auth where "auth = [Some ''Bearer t1'']"
  have bearer: "central_bearer auth = ''t1''"
    by (simp add: auth_def central_bearer_def strip_prefix_def)
  have valid: "validate_auth_config sample_args (ap_agent_tokens sample_central) = Inr ()"
    by (simp add: validate_auth_config_def sample_args_def sample_central_def sample_not_blank)
  have production: "ap_token sample_central = ar_token sample_args" "\<not> ar_development sample_args"
    "\<not> ap_development sample_central"
    by (simp_all add: sample_args_def sample_central_def)
  have other: "map_of (ap_agent_tokens sample_central) ''a2'' \<noteq> Some (central_bearer auth)"
    by (simp add: bearer sample_central_def)
  obtain st' result where run: "handle sample_central_lib sample_central_env auth req sample_central = (st', result)"
    by fastforce
  have "length (ap_agents st') = 1"
    using arg_cong [OF run, of fst] bearer
    by (simp add: req_def register_agent_def authorize_agent_def sample_central_def sample_central_env_def commit_def
        upsert_agent_def sample_not_blank) auto
  moreover have "agent_view ''a2'' st' = agent_view ''a2'' sample_central"
    using central_agents_are_isolated [OF valid production run] other by blast
  moreover have "list_agents sample_central_lib sample_central_env auth st' = Inl StatusUnauthorized"
    using handle_auth [of sample_central sample_central_lib sample_central_env auth req] run bearer
    by (simp add: list_agents_def authorize_def same_auth_def sample_central_def)
  ultimately show ?thesis
    using run by (simp add: req_def auth_def Let_def)
qed

section \<open>Specification notions\<close>

definition copies :: "string \<times> string \<Rightarrow> app_state \<Rightarrow> nat" where
  "copies k st = length (filter (delivered (fst k) (snd k)) (ap_detections st))"

text \<open>A request with its environment and header, and the delivery it carries.\<close>

type_synonym central_message = "central_env \<times> authorization \<times> central_request"

definition receive :: "central_lib \<Rightarrow> central_message \<Rightarrow> app_state \<Rightarrow> app_state" where
  "receive lib m st = (case m of (env, auth, req) \<Rightarrow> fst (handle lib env auth req st))"

definition message_key :: "central_message \<Rightarrow> string \<times> string" where
  "message_key m =
     (case m of
        (_, _, Ingest report) \<Rightarrow> (dr_agent_id report, case dr_delivery_id report of None \<Rightarrow> [] | Some i \<Rightarrow> i)
      | _ \<Rightarrow> ([], []))"

definition takes_delivery :: "central_lib \<Rightarrow> central_message \<Rightarrow> app_state \<Rightarrow> bool" where
  "takes_delivery lib m st =
     (case m of
        (env, auth, Ingest report) \<Rightarrow> dr_delivery_id report \<noteq> None \<and> (\<exists>code. snd (handle lib env auth (Ingest report) st) = Inr code)
      | _ \<Rightarrow> False)"

section \<open>Deliveries are taken once\<close>

text \<open>
  What a sender that repeats its messages relies on: an accepted message is there once, however
  often it and others arrive.
\<close>

locale idempotent_receiver =
  fixes recv :: "'m \<Rightarrow> 'st \<Rightarrow> 'st" and accepts :: "'m \<Rightarrow> 'st \<Rightarrow> bool" and copies_of :: "'k \<Rightarrow> 'st \<Rightarrow> nat"
    and key_of :: "'m \<Rightarrow> 'k" and good :: "'st \<Rightarrow> bool"
  assumes good_recv: "good st \<Longrightarrow> good (recv m st)"
    and at_most_one: "good st \<Longrightarrow> copies_of k st \<le> 1"
    and accepted_is_there: "good st \<Longrightarrow> accepts m st \<Longrightarrow> 0 < copies_of (key_of m) (recv m st)"
    and never_removed: "copies_of k st \<le> copies_of k (recv m st)"
begin

lemma good_fold: "good st \<Longrightarrow> good (fold recv ms st)"
  by (induction ms arbitrary: st) (simp_all add: good_recv)

lemma fold_keeps: "copies_of k st \<le> copies_of k (fold recv ms st)"
  by (induction ms arbitrary: st) (auto intro: order_trans never_removed)

lemma accepted_once:
  assumes "good st" "accepts m st"
  shows "copies_of (key_of m) (fold recv ms (recv m st)) = 1"
  using accepted_is_there [OF assms] fold_keeps [of "key_of m" "recv m st" ms]
    at_most_one [OF good_fold [OF good_recv [OF assms(1)]], of "key_of m" ms m]
  by linarith

end

lemma handle_grows: "\<exists>xs. ap_detections (fst (handle lib env auth req st)) = ap_detections st @ xs"
  using handle_effect [of lib env auth req st]
  by (elim disjE conjE exE) (auto simp: update_agent_def insert_report_def)

lemma ingest_accepted:
  assumes "ingest_detection lib env auth report st = (st', Inr code)"
  shows "ap_detections st' = ap_detections (insert_report lib report st)" "report_ok report"
    "authorize_agent st auth (dr_agent_id report) = Inr ()" "dr_agent_id report \<in> ca_agent_id ` set (ap_agents st)"
  using assms by (cases "cv_commit env"; auto simp: ingest_detection_def commit_def update_agent_def split: sum.splits if_splits)+

lemma insert_report_delivered:
  "dr_delivery_id report = Some i \<Longrightarrow> \<exists>d\<in>set (ap_detections (insert_report lib report st)). delivered (dr_agent_id report) i d"
  by (auto simp: insert_report_def new_detection_def delivered_def list_ex_iff)

lemma copies_pos: "0 < copies (agent, i) st \<longleftrightarrow> (\<exists>d\<in>set (ap_detections st). delivered agent i d)"
  by (auto simp: copies_def length_greater_0_conv filter_empty_conv)

interpretation central: idempotent_receiver "receive lib" "takes_delivery lib" copies message_key central_inv
proof unfold_locales
  fix st and m :: central_message and k :: "string \<times> string"
  obtain env auth req where m: "m = (env, auth, req)"
    by (cases m)
  show "central_inv st \<Longrightarrow> central_inv (receive lib m st)"
    by (simp add: receive_def m handle_inv)
  show "central_inv st \<Longrightarrow> copies k st \<le> 1"
    by (simp add: central_inv_def copies_def)
  show "copies k st \<le> copies k (receive lib m st)"
    using handle_grows [of lib env auth req st] by (auto simp: copies_def receive_def m)
  assume "takes_delivery lib m st"
  then obtain report i code where "req = Ingest report" "dr_delivery_id report = Some i"
    "snd (ingest_detection lib env auth report st) = Inr code"
    by (auto simp: takes_delivery_def m split: central_request.splits)
  moreover from this have "ap_detections (fst (ingest_detection lib env auth report st)) = ap_detections (insert_report lib report st)"
    using ingest_accepted(1) [of lib env auth report st] by (metis prod.collapse)
  ultimately show "0 < copies (message_key m) (receive lib m st)"
    using insert_report_delivered [of report i lib st] by (simp add: message_key_def m receive_def copies_pos)
qed

end
