(* ===== verification/Storage_Outbox.thy ===== *)
theory Storage_Outbox
  imports Argos_Common
begin

text \<open>
  Crate \<^verbatim>\<open>argos-storage\<close>, \<^verbatim>\<open>outbox.rs\<close>, with \<^verbatim>\<open>insert_detection\<close> of \<^verbatim>\<open>lib.rs\<close>: a detection is
  recorded together with its delivery to the central server and its retention job, in one
  transaction; deliveries and jobs are acknowledged or retried.  The tables are lists in the
  order of their row ids, counters are natural numbers (SQLite's are 64-bit).  A statement that
  fails rolls the transaction back; the JSON codec and the random delivery id are arguments.
\<close>

section \<open>Tables\<close>

record outbox_row =
  or_id :: nat
  or_delivery_id :: string
  or_agent_id :: string
  or_detection_json :: string
  or_created_at_ms :: u64
  or_attempts :: nat
  or_last_error :: "string option"

record retention_row =
  rr_detection_id :: nat
  rr_detection_json :: string
  rr_attempts :: nat
  rr_last_error :: "string option"
  rr_next_attempt_ms :: nat

record delivery_counter =
  dn_failed_attempts :: nat
  dn_acknowledged :: nat

record event_store =
  es_detections :: "(nat \<times> detection) list"
  es_detection_seq :: nat
  es_outbox :: "outbox_row list"
  es_outbox_seq :: nat
  es_counters :: "(string, delivery_counter) hmap"
  es_jobs :: "retention_row list"
  es_failed_attempts :: nat
  es_overflow :: nat
  es_completed :: nat

definition init_schema :: event_store where
  "init_schema =
     \<lparr>es_detections = [], es_detection_seq = 0, es_outbox = [], es_outbox_seq = 0, es_counters = [],
      es_jobs = [], es_failed_attempts = 0, es_overflow = 0, es_completed = 0\<rparr>"

record outbox_entry =
  oe_delivery_id :: string
  oe_agent_id :: string
  oe_detection :: detection
  oe_attempts :: nat

record outbox_report =
  os_pending :: nat
  os_failed_attempts :: nat
  os_acknowledged :: nat
  os_oldest_pending_ms :: "u64 option"

record retention_job =
  rj_detection_id :: nat
  rj_detection :: detection
  rj_attempts :: nat

record retention_report =
  rs_pending :: nat
  rs_failed_attempts :: nat
  rs_overflow :: nat
  rs_completed :: nat

definition RETENTION_CAPACITY :: nat where
  "RETENTION_CAPACITY = 10000"

datatype storage_error = InvalidRange | SqlError | JsonError

record storage_lib =
  sl_paths_json :: "string list \<Rightarrow> string option"
  sl_detection_json :: "detection \<Rightarrow> string option"
  sl_parse_detection :: "string \<Rightarrow> detection option"

text \<open>One call: whether a statement fails, how the commit ends, the random delivery id, the clock.\<close>

record sql_env =
  sq_fails :: bool
  sq_commit :: commit_outcome
  sq_random :: string
  sq_now :: u64

section \<open>Recording a detection\<close>

text \<open>SQLite stores a score that is not a number as NULL, which the column refuses.\<close>

definition insert_detection :: "storage_lib \<Rightarrow> detection \<Rightarrow> event_store \<Rightarrow> storage_error + event_store" where
  "insert_detection lib d s =
     (case sl_paths_json lib (d_paths d) of
        None \<Rightarrow> Inl JsonError
      | Some _ \<Rightarrow>
          if d_score d = NaN then Inl SqlError
          else Inr (s\<lparr>es_detections := es_detections s @ [(es_detection_seq s + 1, d)],
                       es_detection_seq := es_detection_seq s + 1\<rparr>))"

definition insert_outbox :: "sql_env \<Rightarrow> string \<Rightarrow> string \<Rightarrow> event_store \<Rightarrow> storage_error + event_store" where
  "insert_outbox env agent json s =
     (if sq_random env \<in> or_delivery_id ` set (es_outbox s) then Inl SqlError
      else Inr (s\<lparr>es_outbox := es_outbox s @
          [\<lparr>or_id = es_outbox_seq s + 1, or_delivery_id = sq_random env, or_agent_id = agent,
            or_detection_json = json, or_created_at_ms = sq_now env, or_attempts = 0, or_last_error = None\<rparr>],
          es_outbox_seq := es_outbox_seq s + 1\<rparr>))"

definition add_job :: "nat \<Rightarrow> string \<Rightarrow> event_store \<Rightarrow> storage_error + event_store" where
  "add_job i json s =
     (if length (es_jobs s) < RETENTION_CAPACITY
      then if i \<in> rr_detection_id ` set (es_jobs s) then Inl SqlError
           else Inr (s\<lparr>es_jobs := es_jobs s @
             [\<lparr>rr_detection_id = i, rr_detection_json = json, rr_attempts = 0, rr_last_error = None,
               rr_next_attempt_ms = 0\<rparr>]\<rparr>)
      else Inr (s\<lparr>es_overflow := es_overflow s + 1\<rparr>))"

definition record_detection ::
  "storage_lib \<Rightarrow> sql_env \<Rightarrow> detection \<Rightarrow> string option \<Rightarrow> bool \<Rightarrow> event_store \<Rightarrow> event_store \<times> (storage_error + nat)" where
  "record_detection lib env d agent retain s =
     (if (case agent of None \<Rightarrow> False | Some a \<Rightarrow> blank_str a) then (s, Inl InvalidRange)
      else if sq_fails env then (s, Inl SqlError)
      else case insert_detection lib d s of Inl e \<Rightarrow> (s, Inl e) | Inr t \<Rightarrow>
      let i = es_detection_seq t
      in case (case agent of
                 None \<Rightarrow> Inr t
               | Some a \<Rightarrow>
                   (case sl_detection_json lib d of None \<Rightarrow> Inl JsonError | Some json \<Rightarrow> insert_outbox env a json t)) of
           Inl e \<Rightarrow> (s, Inl e)
         | Inr t \<Rightarrow>
             (case (if \<not> retain then Inr t
                    else if length (es_jobs t) < RETENTION_CAPACITY \<and> sl_detection_json lib d = None then Inl JsonError
                    else add_job i (case sl_detection_json lib d of None \<Rightarrow> [] | Some json \<Rightarrow> json) t) of
                Inl e \<Rightarrow> (s, Inl e)
              | Inr t \<Rightarrow> commit SqlError (sq_commit env) s t i))"

definition insert_detection_with_outbox ::
  "storage_lib \<Rightarrow> sql_env \<Rightarrow> detection \<Rightarrow> string \<Rightarrow> event_store \<Rightarrow> event_store \<times> (storage_error + unit)" where
  "insert_detection_with_outbox lib env d agent s =
     (if blank_str agent then (s, Inl InvalidRange)
      else case sl_detection_json lib d of None \<Rightarrow> (s, Inl JsonError) | Some json \<Rightarrow>
      if sq_fails env then (s, Inl SqlError)
      else case insert_detection lib d s of Inl e \<Rightarrow> (s, Inl e) | Inr t \<Rightarrow>
      case insert_outbox env agent json t of Inl e \<Rightarrow> (s, Inl e) | Inr t \<Rightarrow> commit SqlError (sq_commit env) s t ())"

section \<open>Deliveries\<close>

fun collect_rows :: "('a \<Rightarrow> 'b option) \<Rightarrow> 'a list \<Rightarrow> 'b list option" where
  "collect_rows f [] = Some []"
| "collect_rows f (x # xs) =
     (case f x of None \<Rightarrow> None | Some y \<Rightarrow> map_option (\<lambda>ys. y # ys) (collect_rows f xs))"

definition decode_entry :: "storage_lib \<Rightarrow> outbox_row \<Rightarrow> outbox_entry option" where
  "decode_entry lib r =
     map_option (\<lambda>d. \<lparr>oe_delivery_id = or_delivery_id r, oe_agent_id = or_agent_id r, oe_detection = d,
                      oe_attempts = or_attempts r\<rparr>) (sl_parse_detection lib (or_detection_json r))"

definition pending_deliveries :: "storage_lib \<Rightarrow> string \<Rightarrow> nat \<Rightarrow> event_store \<Rightarrow> storage_error + outbox_entry list" where
  "pending_deliveries lib agent limit s =
     (if limit = 0 \<or> 1000 < limit then Inl InvalidRange
      else case collect_rows (decode_entry lib)
                  (take limit (sort_key or_id (filter (\<lambda>r. or_agent_id r = agent) (es_outbox s)))) of
        None \<Rightarrow> Inl SqlError | Some entries \<Rightarrow> Inr entries)"

definition delivery_row :: "string \<Rightarrow> string \<Rightarrow> outbox_row \<Rightarrow> bool" where
  "delivery_row delivery agent r = (or_delivery_id r = delivery \<and> or_agent_id r = agent)"

definition bump_counter ::
  "string \<Rightarrow> (delivery_counter \<Rightarrow> delivery_counter) \<Rightarrow> event_store \<Rightarrow> event_store" where
  "bump_counter agent f s =
     s\<lparr>es_counters := hm_put agent
         (f (case map_of (es_counters s) agent of
               None \<Rightarrow> \<lparr>dn_failed_attempts = 0, dn_acknowledged = 0\<rparr> | Some c \<Rightarrow> c)) (es_counters s)\<rparr>"

definition acknowledge_delivery ::
  "sql_env \<Rightarrow> string \<Rightarrow> string \<Rightarrow> event_store \<Rightarrow> event_store \<times> (storage_error + unit)" where
  "acknowledge_delivery env delivery agent s =
     (if sq_fails env then (s, Inl SqlError)
      else
        let t = s\<lparr>es_outbox := filter (\<lambda>r. \<not> delivery_row delivery agent r) (es_outbox s)\<rparr>;
            t = (if list_ex (delivery_row delivery agent) (es_outbox s)
                 then bump_counter agent (\<lambda>c. c\<lparr>dn_acknowledged := dn_acknowledged c + 1\<rparr>) t else t)
        in commit SqlError (sq_commit env) s t ())"

text \<open>The first 512 characters of an error are kept.\<close>

definition clip_error :: "string \<Rightarrow> string" where
  "clip_error e = concat (take 512 (utf8_chars e))"

definition record_delivery_failure ::
  "sql_env \<Rightarrow> string \<Rightarrow> string \<Rightarrow> string \<Rightarrow> event_store \<Rightarrow> event_store \<times> (storage_error + unit)" where
  "record_delivery_failure env delivery agent error s =
     (if sq_fails env then (s, Inl SqlError)
      else
        let t = s\<lparr>es_outbox := map (\<lambda>r. if delivery_row delivery agent r
                then r\<lparr>or_attempts := or_attempts r + 1, or_last_error := Some (clip_error error)\<rparr> else r) (es_outbox s)\<rparr>;
            t = (if list_ex (delivery_row delivery agent) (es_outbox s)
                 then bump_counter agent (\<lambda>c. c\<lparr>dn_failed_attempts := dn_failed_attempts c + 1\<rparr>) t else t)
        in commit SqlError (sq_commit env) s t ())"

text \<open>Times are kept as signed numbers; one that is negative is refused when it is read back.\<close>

definition outbox_stats :: "string \<Rightarrow> event_store \<Rightarrow> storage_error + outbox_report" where
  "outbox_stats agent s =
     (let rows = filter (\<lambda>r. or_agent_id r = agent) (es_outbox s)
      in if list_ex (\<lambda>r. i64_max < or_created_at_ms r) rows then Inl SqlError
         else Inr \<lparr>os_pending = length rows,
          os_failed_attempts = (case map_of (es_counters s) agent of None \<Rightarrow> 0 | Some c \<Rightarrow> dn_failed_attempts c),
          os_acknowledged = (case map_of (es_counters s) agent of None \<Rightarrow> 0 | Some c \<Rightarrow> dn_acknowledged c),
          os_oldest_pending_ms = map_option or_created_at_ms (min_by or_created_at_ms rows)\<rparr>)"

section \<open>Retention jobs\<close>

definition decode_job :: "storage_lib \<Rightarrow> retention_row \<Rightarrow> retention_job option" where
  "decode_job lib r =
     map_option (\<lambda>d. \<lparr>rj_detection_id = rr_detection_id r, rj_detection = d, rj_attempts = rr_attempts r\<rparr>)
       (sl_parse_detection lib (rr_detection_json r))"

definition pending_retention_jobs :: "storage_lib \<Rightarrow> u64 \<Rightarrow> nat \<Rightarrow> event_store \<Rightarrow> storage_error + retention_job list" where
  "pending_retention_jobs lib now limit s =
     (if limit = 0 \<or> 100 < limit \<or> i64_max < now then Inl InvalidRange
      else case collect_rows (decode_job lib)
                  (take limit (sort_key (\<lambda>r. (rr_next_attempt_ms r, rr_detection_id r))
                     (filter (\<lambda>r. rr_next_attempt_ms r \<le> unat now) (es_jobs s)))) of
        None \<Rightarrow> Inl SqlError | Some jobs \<Rightarrow> Inr jobs)"

definition acknowledge_retention_job :: "sql_env \<Rightarrow> nat \<Rightarrow> event_store \<Rightarrow> event_store \<times> (storage_error + unit)" where
  "acknowledge_retention_job env i s =
     (if sq_fails env then (s, Inl SqlError)
      else
        let t = s\<lparr>es_jobs := filter (\<lambda>r. rr_detection_id r \<noteq> i) (es_jobs s)\<rparr>;
            t = (if i \<in> rr_detection_id ` set (es_jobs s) then t\<lparr>es_completed := es_completed t + 1\<rparr> else t)
        in commit SqlError (sq_commit env) s t ())"

definition record_retention_failure ::
  "sql_env \<Rightarrow> nat \<Rightarrow> string \<Rightarrow> u64 \<Rightarrow> event_store \<Rightarrow> event_store \<times> (storage_error + unit)" where
  "record_retention_failure env i error next_attempt s =
     (if i64_max < next_attempt then (s, Inl InvalidRange)
      else if sq_fails env then (s, Inl SqlError)
      else
        let t = s\<lparr>es_jobs := map (\<lambda>r. if rr_detection_id r = i
                then r\<lparr>rr_attempts := rr_attempts r + 1, rr_last_error := Some (clip_error error),
                       rr_next_attempt_ms := unat next_attempt\<rparr> else r) (es_jobs s)\<rparr>;
            t = (if i \<in> rr_detection_id ` set (es_jobs s) then t\<lparr>es_failed_attempts := es_failed_attempts t + 1\<rparr> else t)
        in commit SqlError (sq_commit env) s t ())"

definition retention_stats :: "event_store \<Rightarrow> retention_report" where
  "retention_stats s =
     \<lparr>rs_pending = length (es_jobs s), rs_failed_attempts = es_failed_attempts s, rs_overflow = es_overflow s,
      rs_completed = es_completed s\<rparr>"

section \<open>Specification notions\<close>

text \<open>A detection as its stored JSON form reads back.\<close>

definition reread :: "storage_lib \<Rightarrow> detection \<Rightarrow> detection option" where
  "reread lib d = Option.bind (sl_detection_json lib d) (sl_parse_detection lib)"

text \<open>
  A run is a sequence of calls, each with its own faults, random id and clock.  A call recorded a
  detection when the sequence of detection ids advanced: a commit that reports an error may still
  have taken effect.
\<close>

datatype outbox_call =
  RecordDetection detection "string option" bool
| InsertDetectionWithOutbox detection string
| AcknowledgeDelivery string string
| RecordDeliveryFailure string string string
| AcknowledgeRetentionJob nat
| RecordRetentionFailure nat string u64

fun apply_call :: "storage_lib \<Rightarrow> outbox_call \<times> sql_env \<Rightarrow> event_store \<Rightarrow> event_store" where
  "apply_call lib (RecordDetection d agent retain, env) s = fst (record_detection lib env d agent retain s)"
| "apply_call lib (InsertDetectionWithOutbox d agent, env) s = fst (insert_detection_with_outbox lib env d agent s)"
| "apply_call lib (AcknowledgeDelivery delivery agent, env) s = fst (acknowledge_delivery env delivery agent s)"
| "apply_call lib (RecordDeliveryFailure delivery agent e, env) s = fst (record_delivery_failure env delivery agent e s)"
| "apply_call lib (AcknowledgeRetentionJob i, env) s = fst (acknowledge_retention_job env i s)"
| "apply_call lib (RecordRetentionFailure i e later, env) s = fst (record_retention_failure env i e later s)"

fun call_agent :: "outbox_call \<Rightarrow> string option" where
  "call_agent (RecordDetection _ agent _) = agent"
| "call_agent (InsertDetectionWithOutbox _ agent) = Some agent"
| "call_agent _ = None"

fun call_retains :: "outbox_call \<Rightarrow> bool" where
  "call_retains (RecordDetection _ _ retain) = retain"
| "call_retains _ = False"

fun recorded :: "(outbox_call \<Rightarrow> bool) \<Rightarrow> storage_lib \<Rightarrow> (outbox_call \<times> sql_env) list \<Rightarrow> event_store \<Rightarrow> nat" where
  "recorded P lib [] s = 0"
| "recorded P lib (c # cs) s =
     (let t = apply_call lib c s
      in (if P (fst c) \<and> es_detection_seq s < es_detection_seq t then 1 else 0) + recorded P lib cs t)"

definition run_calls :: "storage_lib \<Rightarrow> (outbox_call \<times> sql_env) list \<Rightarrow> event_store \<Rightarrow> event_store" where
  "run_calls lib cs s = fold (apply_call lib) cs s"

definition agent_rows :: "string \<Rightarrow> event_store \<Rightarrow> outbox_row list" where
  "agent_rows agent s = filter (\<lambda>r. or_agent_id r = agent) (es_outbox s)"

definition acknowledged_of :: "string \<Rightarrow> event_store \<Rightarrow> nat" where
  "acknowledged_of agent s = (case map_of (es_counters s) agent of None \<Rightarrow> 0 | Some c \<Rightarrow> dn_acknowledged c)"

definition outbox_inv :: "storage_lib \<Rightarrow> event_store \<Rightarrow> bool" where
  "outbox_inv lib s =
     (distinct (map or_delivery_id (es_outbox s)) \<and> sorted (map or_id (es_outbox s))
      \<and> (\<forall>r\<in>set (es_outbox s). or_id r \<le> es_outbox_seq s \<and> (\<exists>d\<in>snd ` set (es_detections s). sl_detection_json lib d = Some (or_detection_json r))))"

definition jobs_inv :: "event_store \<Rightarrow> bool" where
  "jobs_inv s =
     (distinct (map rr_detection_id (es_jobs s)) \<and> (\<forall>r\<in>set (es_jobs s). rr_detection_id r \<le> es_detection_seq s)
      \<and> length (es_jobs s) \<le> RETENTION_CAPACITY \<and> map fst (es_detections s) = [1..<Suc (es_detection_seq s)])"

text \<open>Every call leaves the state as it was or applies one of these effects.\<close>

definition recorded_in :: "storage_lib \<Rightarrow> outbox_call \<times> sql_env \<Rightarrow> detection \<Rightarrow> event_store \<Rightarrow> event_store \<Rightarrow> bool" where
  "recorded_in lib c d s t =
     (es_detections t = es_detections s @ [(Suc (es_detection_seq s), d)] \<and> es_detection_seq t = Suc (es_detection_seq s)
      \<and> es_counters t = es_counters s \<and> es_completed t = es_completed s
      \<and> (case call_agent (fst c) of
           None \<Rightarrow> es_outbox t = es_outbox s \<and> es_outbox_seq t = es_outbox_seq s
         | Some a \<Rightarrow> \<exists>json. sl_detection_json lib d = Some json
             \<and> sq_random (snd c) \<notin> or_delivery_id ` set (es_outbox s) \<and> es_outbox_seq t = Suc (es_outbox_seq s)
             \<and> es_outbox t = es_outbox s @ [\<lparr>or_id = Suc (es_outbox_seq s), or_delivery_id = sq_random (snd c),
                   or_agent_id = a, or_detection_json = json, or_created_at_ms = sq_now (snd c),
                   or_attempts = 0, or_last_error = None\<rparr>])
      \<and> (if \<not> call_retains (fst c) then es_jobs t = es_jobs s \<and> es_overflow t = es_overflow s
         else if length (es_jobs s) < RETENTION_CAPACITY
         then es_overflow t = es_overflow s \<and> (\<exists>r. es_jobs t = es_jobs s @ [r] \<and> rr_detection_id r = Suc (es_detection_seq s))
         else es_jobs t = es_jobs s \<and> es_overflow t = Suc (es_overflow s)))"

definition failed_row :: "outbox_row \<Rightarrow> outbox_row \<Rightarrow> bool" where
  "failed_row r t =
     (or_id t = or_id r \<and> or_delivery_id t = or_delivery_id r \<and> or_agent_id t = or_agent_id r
      \<and> or_detection_json t = or_detection_json r \<and> or_created_at_ms t = or_created_at_ms r \<and> or_attempts r \<le> or_attempts t)"

text \<open>A sample store: one detection, recorded for an agent and for retention, then a failed attempt.\<close>

definition sample_detection :: detection where
  "sample_detection =
     \<lparr>d_timestamp_ms = 10, d_rule = ''behavior.canary'', d_score = Fin 95, d_severity = Critical,
      d_summary = CanarySummary ''/a'' Delete, d_pid = 7, d_paths = [''/a'']\<rparr>"

definition sample_storage_lib :: storage_lib where
  "sample_storage_lib =
     \<lparr>sl_paths_json = (\<lambda>_. Some ''[]''),
      sl_detection_json = (\<lambda>d. if d = sample_detection then Some ''d'' else None),
      sl_parse_detection = (\<lambda>json. if json = ''d'' then Some sample_detection else None)\<rparr>"

definition sample_sql_env :: "string \<Rightarrow> sql_env" where
  "sample_sql_env delivery = \<lparr>sq_fails = False, sq_commit = Committed, sq_random = delivery, sq_now = 20\<rparr>"

definition sample_later :: "(outbox_call \<times> sql_env) list" where
  "sample_later =
     [(RecordDeliveryFailure ''x1'' ''a1'' ''offline'', sample_sql_env ''x2''),
      (AcknowledgeDelivery ''x1'' ''a2'', sample_sql_env ''x3'')]"

definition sample_recorded :: event_store where
  "sample_recorded =
     fst (record_detection sample_storage_lib (sample_sql_env ''x1'') sample_detection (Some ''a1'') True init_schema)"

lemma init_outbox_inv: "outbox_inv lib init_schema" "jobs_inv init_schema"
  by (simp_all add: outbox_inv_def jobs_inv_def init_schema_def)

lemma commit_state: "fst (commit e outcome s t r) \<in> {s, t}"
  by (simp add: commit_def split: commit_outcome.split)

lemma commit_Inr: "commit e outcome s t r = (u, Inr v) \<longleftrightarrow> outcome = Committed \<and> u = t \<and> v = r"
  by (auto simp: commit_def split: commit_outcome.split)

lemma record_detection_effect:
  "fst (record_detection lib env d agent retain s) = s
   \<or> recorded_in lib (RecordDetection d agent retain, env) d s (fst (record_detection lib env d agent retain s))"
  by (cases "sq_commit env")
    (simp_all add: record_detection_def insert_detection_def insert_outbox_def add_job_def recorded_in_def Let_def
      commit_def split: option.split sum.split if_split)

lemma record_detection_Inr:
  "record_detection lib env d agent retain s = (t, Inr i)
     \<Longrightarrow> recorded_in lib (RecordDetection d agent retain, env) d s t \<and> i = es_detection_seq t"
  by (cases "sq_commit env")
    (auto simp: record_detection_def insert_detection_def insert_outbox_def add_job_def recorded_in_def Let_def
      commit_def split: option.splits sum.splits if_splits)

lemma insert_with_outbox_effect:
  "fst (insert_detection_with_outbox lib env d agent s) = s
   \<or> recorded_in lib (InsertDetectionWithOutbox d agent, env) d s (fst (insert_detection_with_outbox lib env d agent s))"
  by (cases "sq_commit env")
    (simp_all add: insert_detection_with_outbox_def insert_detection_def insert_outbox_def recorded_in_def
      commit_def split: option.split sum.split if_split)

lemma acknowledge_delivery_effect:
  "fst (acknowledge_delivery env delivery agent s) = s
   \<or> list_ex (delivery_row delivery agent) (es_outbox s)
     \<and> fst (acknowledge_delivery env delivery agent s)
       = bump_counter agent (\<lambda>c. c\<lparr>dn_acknowledged := dn_acknowledged c + 1\<rparr>)
           (s\<lparr>es_outbox := filter (\<lambda>r. \<not> delivery_row delivery agent r) (es_outbox s)\<rparr>)"
proof (cases "list_ex (delivery_row delivery agent) (es_outbox s)")
  case False
  then have "filter (\<lambda>r. \<not> delivery_row delivery agent r) (es_outbox s) = es_outbox s"
    by (auto simp: list_ex_iff filter_id_conv)
  then show ?thesis
    using False by (cases "sq_commit env") (simp_all add: acknowledge_delivery_def commit_def)
qed (cases "sq_commit env"; simp add: acknowledge_delivery_def commit_def)

lemma failed_row_refl [simp]: "failed_row r r"
  by (simp add: failed_row_def)

lemma failed_row_trans: "failed_row r t \<Longrightarrow> failed_row t u \<Longrightarrow> failed_row r u"
  by (simp add: failed_row_def)

lemma delivery_failure_effect:
  fixes env delivery agent e s
  defines "t \<equiv> fst (record_delivery_failure env delivery agent e s)"
  shows "list_all2 failed_row (es_outbox s) (es_outbox t)" "acknowledged_of a t = acknowledged_of a s"
    "es_detections t = es_detections s" "es_detection_seq t = es_detection_seq s"
    "es_outbox_seq t = es_outbox_seq s" "es_jobs t = es_jobs s" "es_overflow t = es_overflow s"
    "es_completed t = es_completed s"
  unfolding t_def
  by (cases "sq_commit env";
      simp add: record_delivery_failure_def commit_def bump_counter_def list_all2_conv_all_nth failed_row_def
        acknowledged_of_def hm_get_put Let_def split: option.split)+

lemma job_ack_effect:
  "fst (acknowledge_retention_job env i s) = s
   \<or> i \<in> rr_detection_id ` set (es_jobs s)
     \<and> fst (acknowledge_retention_job env i s)
       = s\<lparr>es_jobs := filter (\<lambda>r. rr_detection_id r \<noteq> i) (es_jobs s), es_completed := es_completed s + 1\<rparr>"
proof (cases "i \<in> rr_detection_id ` set (es_jobs s)")
  case False
  then have "filter (\<lambda>r. rr_detection_id r \<noteq> i) (es_jobs s) = es_jobs s"
    by (auto simp: filter_id_conv)
  then show ?thesis
    using False by (cases "sq_commit env") (simp_all add: acknowledge_retention_job_def commit_def)
qed (cases "sq_commit env"; simp add: acknowledge_retention_job_def commit_def)

lemma retention_failure_effect:
  fixes env i e later s
  defines "t \<equiv> fst (record_retention_failure env i e later s)"
  shows "map rr_detection_id (es_jobs t) = map rr_detection_id (es_jobs s)"
    "es_outbox t = es_outbox s" "es_counters t = es_counters s" "es_detections t = es_detections s"
    "es_detection_seq t = es_detection_seq s" "es_outbox_seq t = es_outbox_seq s" "es_overflow t = es_overflow s"
    "es_completed t = es_completed s"
  unfolding t_def
  by (cases "sq_commit env"; simp add: record_retention_failure_def commit_def Let_def)+

lemma failed_rows:
  assumes "list_all2 failed_row xs ys"
  shows "map or_delivery_id ys = map or_delivery_id xs" "map or_id ys = map or_id xs"
    "map or_agent_id ys = map or_agent_id xs" "map or_detection_json ys = map or_detection_json xs"
    "length (filter (\<lambda>r. or_agent_id r = a) ys) = length (filter (\<lambda>r. or_agent_id r = a) xs)"
  using assms by (induction rule: list_all2_induct) (simp_all add: failed_row_def)

lemma outbox_inv_cong:
  assumes "outbox_inv lib s" "list_all2 failed_row (es_outbox s) (es_outbox t)" "es_outbox_seq t = es_outbox_seq s"
    "es_detections t = es_detections s"
  shows "outbox_inv lib t"
proof -
  note same = failed_rows [OF assms(2)]
  have "\<exists>r\<in>set (es_outbox s). or_id u = or_id r \<and> or_detection_json u = or_detection_json r"
    if "u \<in> set (es_outbox t)" for u
    using assms(2) that by (induction rule: list_all2_induct) (auto simp: failed_row_def)
  then show ?thesis
    using assms(1,3,4) unfolding outbox_inv_def same by metis
qed

lemma outbox_inv_recorded: "outbox_inv lib s \<Longrightarrow> recorded_in lib c d s t \<Longrightarrow> outbox_inv lib t"
  by (auto simp: outbox_inv_def recorded_in_def sorted_append le_SucI split: option.splits)

lemma outbox_inv_filter: "outbox_inv lib s \<Longrightarrow> outbox_inv lib (s\<lparr>es_outbox := filter P (es_outbox s), es_counters := cs\<rparr>)"
  by (auto simp: outbox_inv_def distinct_map_filter sorted_filter)

lemma jobs_inv_ids:
  "jobs_inv s \<longleftrightarrow> (let ids = map rr_detection_id (es_jobs s) in distinct ids \<and> (\<forall>i\<in>set ids. i \<le> es_detection_seq s)
     \<and> length ids \<le> RETENTION_CAPACITY \<and> map fst (es_detections s) = [1..<Suc (es_detection_seq s)])"
  by (simp add: jobs_inv_def)

lemma jobs_inv_cong:
  "jobs_inv s \<Longrightarrow> map rr_detection_id (es_jobs t) = map rr_detection_id (es_jobs s)
     \<Longrightarrow> es_detections t = es_detections s \<Longrightarrow> es_detection_seq t = es_detection_seq s \<Longrightarrow> jobs_inv t"
  by (simp only: jobs_inv_ids)

lemma jobs_inv_recorded: "jobs_inv s \<Longrightarrow> recorded_in lib c d s t \<Longrightarrow> jobs_inv t"
  by (auto simp: jobs_inv_def recorded_in_def le_SucI split: if_splits) (metis Suc_n_not_le_n)+

lemma jobs_inv_filter: "jobs_inv s \<Longrightarrow> jobs_inv (s\<lparr>es_jobs := filter P (es_jobs s), es_completed := n\<rparr>)"
  by (auto simp: jobs_inv_def distinct_map_filter intro: order_trans [OF length_filter_le])

lemma apply_call_inv:
  assumes "outbox_inv lib s" "jobs_inv s"
  shows "outbox_inv lib (apply_call lib c s) \<and> jobs_inv (apply_call lib c s)"
proof -
  note cong = outbox_inv_cong [OF assms(1)] jobs_inv_cong [OF assms(2)]
  have same: "list_all2 failed_row (es_outbox s) (es_outbox s)"
    by (simp add: list_all2_same)
  obtain call env where c: "c = (call, env)"
    by fastforce
  show ?thesis
  proof (cases call)
    case (RecordDetection d agent retain)
    show ?thesis
      using record_detection_effect [of lib env d agent retain s] assms outbox_inv_recorded jobs_inv_recorded
      unfolding c RecordDetection apply_call.simps by metis
  next
    case (InsertDetectionWithOutbox d agent)
    show ?thesis
      using insert_with_outbox_effect [of lib env d agent s] assms outbox_inv_recorded jobs_inv_recorded
      unfolding c InsertDetectionWithOutbox apply_call.simps by metis
  next
    case (AcknowledgeDelivery delivery agent)
    then show ?thesis
      using acknowledge_delivery_effect [of env delivery agent s] assms
      by (auto simp: c bump_counter_def intro: outbox_inv_filter cong(2))
  next
    case (RecordDeliveryFailure delivery agent e)
    then show ?thesis
      by (simp add: c cong delivery_failure_effect)
  next
    case (AcknowledgeRetentionJob i)
    then show ?thesis
      using job_ack_effect [of env i s] assms
      by (auto simp: c same intro: jobs_inv_filter cong(1))
  next
    case (RecordRetentionFailure i e later)
    then show ?thesis
      by (simp add: c cong same retention_failure_effect)
  qed
qed

lemma filter_key_one:
  assumes "distinct (map f xs)" "x \<in> set xs"
  shows "length (filter P xs) = length (filter P (filter (\<lambda>y. f y \<noteq> f x) xs)) + (if P x then 1 else 0)"
  using assms
proof (induction xs)
  case (Cons y xs)
  have rest: "filter (\<lambda>z. f z \<noteq> f y) xs = xs"
    using Cons.prems(1) by (simp add: filter_id_conv) (metis imageI)
  show ?case
  proof (cases "x = y")
    case True
    then show ?thesis
      using rest by simp
  next
    case False
    then have "x \<in> set xs" "f y \<noteq> f x"
      using Cons.prems by auto
    then show ?thesis
      using Cons by simp
  qed
qed simp

lemma delivery_row_key:
  assumes "distinct (map or_delivery_id rows)" "r \<in> set rows" "delivery_row delivery agent r"
  shows "filter (\<lambda>r. \<not> delivery_row delivery agent r) rows = filter (\<lambda>x. or_delivery_id x \<noteq> or_delivery_id r) rows"
  using assms by (intro filter_cong) (auto simp: delivery_row_def distinct_map inj_on_def)

text \<open>What one call does to the two balances.\<close>

lemma apply_call_deliveries:
  assumes "outbox_inv lib s"
  shows "length (agent_rows a (apply_call lib c s)) + acknowledged_of a (apply_call lib c s)
     = length (agent_rows a s) + acknowledged_of a s
       + (if call_agent (fst c) = Some a \<and> es_detection_seq s < es_detection_seq (apply_call lib c s) then 1 else 0)"
proof -
  have distinct: "distinct (map or_delivery_id (es_outbox s))"
    using assms by (simp add: outbox_inv_def)
  have rec: "?thesis" if "recorded_in lib c d s (apply_call lib c s)" for d
    using that by (auto simp: recorded_in_def agent_rows_def acknowledged_of_def split: option.splits)
  obtain call env where c: "c = (call, env)"
    by fastforce
  show ?thesis
  proof (cases call)
    case (RecordDetection d agent retain)
    then show ?thesis
      using record_detection_effect [of lib env d agent retain s] rec [of d] by (auto simp: c)
  next
    case (InsertDetectionWithOutbox d agent)
    then show ?thesis
      using insert_with_outbox_effect [of lib env d agent s] rec [of d] by (auto simp: c)
  next
    case (AcknowledgeDelivery delivery agent)
    consider "apply_call lib c s = s"
      | r where "r \<in> set (es_outbox s)" "delivery_row delivery agent r"
        "apply_call lib c s = bump_counter agent (\<lambda>c. c\<lparr>dn_acknowledged := dn_acknowledged c + 1\<rparr>)
           (s\<lparr>es_outbox := filter (\<lambda>r. \<not> delivery_row delivery agent r) (es_outbox s)\<rparr>)"
      using acknowledge_delivery_effect [of env delivery agent s] by (auto simp: c AcknowledgeDelivery list_ex_iff)
    then show ?thesis
    proof cases
      case (2 r)
      then show ?thesis
        using filter_key_one [OF distinct 2(1), of "\<lambda>r. or_agent_id r = a"] delivery_row_key [OF distinct 2(1,2)]
        by (auto simp: c AcknowledgeDelivery bump_counter_def agent_rows_def acknowledged_of_def hm_get_put
            delivery_row_def split: option.split)
    qed (simp add: c AcknowledgeDelivery)
  next
    case (RecordDeliveryFailure delivery agent e)
    then show ?thesis
      using failed_rows(5) [OF delivery_failure_effect(1), of a env delivery agent e s]
      by (simp add: c delivery_failure_effect agent_rows_def)
  next
    case (AcknowledgeRetentionJob i)
    then show ?thesis
      using job_ack_effect [of env i s] by (auto simp: c agent_rows_def acknowledged_of_def)
  next
    case (RecordRetentionFailure i e later)
    then show ?thesis
      by (simp add: c retention_failure_effect agent_rows_def acknowledged_of_def)
  qed
qed

lemma apply_call_jobs:
  assumes "jobs_inv s"
  shows "length (es_jobs (apply_call lib c s)) + es_completed (apply_call lib c s) + es_overflow (apply_call lib c s)
     = length (es_jobs s) + es_completed s + es_overflow s
       + (if call_retains (fst c) \<and> es_detection_seq s < es_detection_seq (apply_call lib c s) then 1 else 0)"
proof -
  have distinct: "distinct (map rr_detection_id (es_jobs s))"
    using assms by (simp add: jobs_inv_def)
  have rec: "?thesis" if "recorded_in lib c d s (apply_call lib c s)" for d
    using that by (auto simp: recorded_in_def split: if_splits)
  obtain call env where c: "c = (call, env)"
    by fastforce
  show ?thesis
  proof (cases call)
    case (RecordDetection d agent retain)
    then show ?thesis
      using record_detection_effect [of lib env d agent retain s] rec [of d] by (auto simp: c)
  next
    case (InsertDetectionWithOutbox d agent)
    then show ?thesis
      using insert_with_outbox_effect [of lib env d agent s] rec [of d] by (auto simp: c)
  next
    case (AcknowledgeDelivery delivery agent)
    then show ?thesis
      using acknowledge_delivery_effect [of env delivery agent s] by (auto simp: c bump_counter_def)
  next
    case (RecordDeliveryFailure delivery agent e)
    then show ?thesis
      by (simp add: c delivery_failure_effect)
  next
    case (AcknowledgeRetentionJob i)
    then show ?thesis
      using job_ack_effect [of env i s] filter_key_one [OF distinct, of _ "\<lambda>_. True"] by (auto simp: c)
  next
    case (RecordRetentionFailure i e later)
    then show ?thesis
      using map_eq_imp_length_eq [OF retention_failure_effect(1), of env i e later s]
      by (simp add: c retention_failure_effect)
  qed
qed

lemma run_calls_invs:
  assumes "outbox_inv lib s" "jobs_inv s"
  shows "outbox_inv lib (run_calls lib cs s) \<and> jobs_inv (run_calls lib cs s)"
  using assms by (induction cs arbitrary: s) (simp_all add: run_calls_def apply_call_inv)

lemma run_calls_balance:
  assumes "outbox_inv lib s" "jobs_inv s"
  shows "length (agent_rows a (run_calls lib cs s)) + acknowledged_of a (run_calls lib cs s)
       = length (agent_rows a s) + acknowledged_of a s + recorded (\<lambda>c. call_agent c = Some a) lib cs s
    \<and> length (es_jobs (run_calls lib cs s)) + es_completed (run_calls lib cs s) + es_overflow (run_calls lib cs s)
       = length (es_jobs s) + es_completed s + es_overflow s + recorded call_retains lib cs s"
  using assms
proof (induction cs arbitrary: s)
  case (Cons c cs)
  have "outbox_inv lib (apply_call lib c s)" "jobs_inv (apply_call lib c s)"
    using apply_call_inv [OF Cons.prems, of c] by simp_all
  from Cons.IH [OF this] show ?case
    using apply_call_deliveries [OF Cons.prems(1), of a c] apply_call_jobs [OF Cons.prems(2), of lib c]
    by (simp add: run_calls_def Let_def)
qed (simp add: run_calls_def)

text \<open>
  C23: Whatever calls are made and whatever fails in them, every detection recorded for an agent is
  either still waiting for delivery or counted once as acknowledged, and every detection recorded
  for retention is a pending job, a completed one or counted as overflow.  At most 10000 jobs
  wait.  The counts of the two status reports are these numbers.
\<close>

theorem every_detection_is_accounted_for:
  "let s = run_calls lib cs init_schema
   in recorded (\<lambda>c. call_agent c = Some agent) lib cs init_schema = length (agent_rows agent s) + acknowledged_of agent s
    \<and> recorded call_retains lib cs init_schema
        = rs_pending (retention_stats s) + rs_completed (retention_stats s) + rs_overflow (retention_stats s)
    \<and> rs_pending (retention_stats s) \<le> 10000
    \<and> (case outbox_stats agent s of
         Inl e \<Rightarrow> \<exists>r\<in>set (agent_rows agent s). i64_max < or_created_at_ms r
       | Inr report \<Rightarrow> os_pending report = length (agent_rows agent s) \<and> os_acknowledged report = acknowledged_of agent s)"
proof -
  define s where "s = run_calls lib cs init_schema"
  note inv = init_outbox_inv
  have "recorded (\<lambda>c. call_agent c = Some agent) lib cs init_schema = length (agent_rows agent s) + acknowledged_of agent s"
    and "recorded call_retains lib cs init_schema
      = rs_pending (retention_stats s) + rs_completed (retention_stats s) + rs_overflow (retention_stats s)"
    using run_calls_balance [OF inv, of agent lib cs]
    by (simp_all add: s_def retention_stats_def agent_rows_def acknowledged_of_def init_schema_def)
  moreover have "rs_pending (retention_stats s) \<le> 10000"
    using run_calls_invs [OF inv, of lib cs] by (simp add: s_def retention_stats_def jobs_inv_def RETENTION_CAPACITY_def)
  moreover have "case outbox_stats agent s of
         Inl e \<Rightarrow> \<exists>r\<in>set (agent_rows agent s). i64_max < or_created_at_ms r
       | Inr report \<Rightarrow> os_pending report = length (agent_rows agent s) \<and> os_acknowledged report = acknowledged_of agent s"
    by (auto simp: outbox_stats_def agent_rows_def acknowledged_of_def Let_def list_ex_iff)
  ultimately show ?thesis
    by (simp add: Let_def flip: s_def)
qed

lemma recorded_row:
  assumes "recorded_in lib c d s t" "call_agent (fst c) = Some a"
  shows "\<exists>r\<in>set (es_outbox t). or_delivery_id r = sq_random (snd c) \<and> or_agent_id r = a
    \<and> sl_detection_json lib d = Some (or_detection_json r)"
proof -
  obtain json where "sl_detection_json lib d = Some json" "es_outbox t = es_outbox s @
      [\<lparr>or_id = Suc (es_outbox_seq s), or_delivery_id = sq_random (snd c), or_agent_id = a, or_detection_json = json,
        or_created_at_ms = sq_now (snd c), or_attempts = 0, or_last_error = None\<rparr>]"
    using assms by (auto simp: recorded_in_def)
  then show ?thesis
    by simp
qed

lemma apply_call_keeps:
  assumes "r \<in> set (es_outbox s)" "fst c \<noteq> AcknowledgeDelivery (or_delivery_id r) (or_agent_id r)"
  shows "\<exists>t\<in>set (es_outbox (apply_call lib c s)). failed_row r t"
proof -
  have here: "?thesis" if "r \<in> set (es_outbox (apply_call lib c s))"
    using that by (intro bexI [of _ r]) simp_all
  have rec: "?thesis" if "recorded_in lib c d s (apply_call lib c s)" for d
    using that assms(1) by (intro here) (auto simp: recorded_in_def split: option.splits)
  have same: "?thesis" if "es_outbox (apply_call lib c s) = es_outbox s"
    using that assms(1) by (intro here) simp
  obtain call env where c: "c = (call, env)"
    by fastforce
  show ?thesis
  proof (cases call)
    case (RecordDetection d agent retain)
    then show ?thesis
      using record_detection_effect [of lib env d agent retain s] rec same unfolding c by fastforce
  next
    case (InsertDetectionWithOutbox d agent)
    then show ?thesis
      using insert_with_outbox_effect [of lib env d agent s] rec same unfolding c by fastforce
  next
    case (AcknowledgeDelivery delivery agent)
    then have "\<not> delivery_row delivery agent r"
      using assms(2) by (auto simp: c delivery_row_def)
    then show ?thesis
      using acknowledge_delivery_effect [of env delivery agent s] assms(1)
      by (intro here) (auto simp: c AcknowledgeDelivery bump_counter_def)
  next
    case (RecordDeliveryFailure delivery agent e)
    then show ?thesis
      using delivery_failure_effect(1) [of s env delivery agent e] assms(1)
      by (auto simp: c in_set_conv_nth list_all2_conv_all_nth) (metis nth_mem)
  next
    case (AcknowledgeRetentionJob i)
    then show ?thesis
      using job_ack_effect [of env i s] same by (auto simp: c)
  next
    case (RecordRetentionFailure i e later)
    then show ?thesis
      using same by (simp add: c retention_failure_effect)
  qed
qed

lemma run_calls_keep:
  assumes "r \<in> set (es_outbox s)" "AcknowledgeDelivery (or_delivery_id r) (or_agent_id r) \<notin> fst ` set cs"
  shows "\<exists>t\<in>set (es_outbox (run_calls lib cs s)). failed_row r t"
  using assms
proof (induction cs arbitrary: r s)
  case (Cons c cs)
  then obtain t where t: "t \<in> set (es_outbox (apply_call lib c s))" "failed_row r t"
    using apply_call_keeps [of r s c lib] by auto
  then have "AcknowledgeDelivery (or_delivery_id t) (or_agent_id t) \<notin> fst ` set cs"
    using Cons.prems(2) by (auto simp: failed_row_def)
  from Cons.IH [OF t(1) this] t(2) show ?case
    using failed_row_trans by (auto simp: run_calls_def)
next
  case Nil
  then show ?case
    using failed_row_refl by (auto simp only: run_calls_def fold_Nil id_apply)
qed

lemma collect_rows_all:
  "(\<And>x. x \<in> set xs \<Longrightarrow> f x = Some (g x)) \<Longrightarrow> collect_rows f xs = Some (map g xs)"
  by (induction xs) simp_all

text \<open>If every stored detection can be read back, the deliveries of an agent are listed oldest first.\<close>

lemma pending_deliveries_lists:
  assumes codec: "\<And>d json. is_finite (d_score d) \<Longrightarrow> sl_detection_json lib d = Some json \<Longrightarrow> sl_parse_detection lib json \<noteq> None"
    and inv: "outbox_inv lib s" and finite: "\<forall>d\<in>snd ` set (es_detections s). is_finite (d_score d)"
    and limit: "0 < limit" "limit \<le> 1000"
  shows "pending_deliveries lib agent limit s = Inr (map (\<lambda>r.
     \<lparr>oe_delivery_id = or_delivery_id r, oe_agent_id = or_agent_id r,
      oe_detection = the (sl_parse_detection lib (or_detection_json r)), oe_attempts = or_attempts r\<rparr>)
     (take limit (agent_rows agent s)))"
proof -
  have sorted: "sort_key or_id (filter (\<lambda>r. or_agent_id r = agent) (es_outbox s)) = agent_rows agent s"
    using inv by (simp add: outbox_inv_def agent_rows_def sort_key_id_if_sorted sorted_filter)
  have "\<exists>d. sl_parse_detection lib (or_detection_json r) = Some d" if "r \<in> set (take limit (agent_rows agent s))" for r
  proof -
    have "r \<in> set (es_outbox s)"
      using in_set_takeD [OF that] by (simp add: agent_rows_def)
    then obtain d where "d \<in> snd ` set (es_detections s)" "sl_detection_json lib d = Some (or_detection_json r)"
      using inv unfolding outbox_inv_def by blast
    then show ?thesis
      using codec [of d "or_detection_json r"] finite by blast
  qed
  then show ?thesis
    using limit unfolding pending_deliveries_def sorted
    by (subst collect_rows_all) (auto simp: decode_entry_def)
qed

text \<open>
  A detection recorded for an agent stays deliverable.  Whatever happened before and happens
  later, failed attempts, lost commits and other acknowledgements included, as long as this
  delivery is not acknowledged a listing large enough for the agent's backlog contains it with
  the detection as its JSON form reads back.  The scores must be finite: JSON has no form for
  others that can be read back.
\<close>

theorem delivery_waits_for_acknowledgement:
  assumes codec: "\<And>d json. is_finite (d_score d) \<Longrightarrow> sl_detection_json lib d = Some json \<Longrightarrow> sl_parse_detection lib json \<noteq> None"
    and recorded: "record_detection lib env d (Some agent) retain (run_calls lib cs init_schema) = (s, Inr i)"
    and waiting: "AcknowledgeDelivery (sq_random env) agent \<notin> fst ` set later"
    and finite: "\<forall>d\<in>snd ` set (es_detections (run_calls lib later s)). is_finite (d_score d)"
    and limit: "length (agent_rows agent (run_calls lib later s)) \<le> limit" "limit \<le> 1000"
  shows "\<exists>entries e. pending_deliveries lib agent limit (run_calls lib later s) = Inr entries \<and> e \<in> set entries
    \<and> oe_delivery_id e = sq_random env \<and> oe_agent_id e = agent \<and> reread lib d = Some (oe_detection e)"
proof -
  define u where "u = run_calls lib cs init_schema"
  have s: "s = apply_call lib (RecordDetection d (Some agent) retain, env) u"
    using recorded by (simp add: u_def)
  have inv: "outbox_inv lib (run_calls lib later s)"
    using run_calls_invs [OF init_outbox_inv, of lib cs] apply_call_inv run_calls_invs unfolding s u_def by metis
  have rec: "recorded_in lib (RecordDetection d (Some agent) retain, env) d u s"
    using record_detection_Inr recorded by (simp add: u_def)
  obtain r where r: "r \<in> set (es_outbox s)" "or_delivery_id r = sq_random env" "or_agent_id r = agent"
    "sl_detection_json lib d = Some (or_detection_json r)"
    using recorded_row [OF rec] by auto
  obtain t where t: "t \<in> set (es_outbox (run_calls lib later s))" "failed_row r t"
    using run_calls_keep [OF r(1), of later lib] waiting unfolding r by blast
  then have mem: "t \<in> set (agent_rows agent (run_calls lib later s))" and json: "or_detection_json t = or_detection_json r"
    using r by (simp_all add: agent_rows_def failed_row_def)
  then have "0 < limit"
    using limit(1) by (cases limit) auto
  note listed = pending_deliveries_lists [OF codec inv finite this limit(2), where agent = agent]
  obtain x where x: "x \<in> snd ` set (es_detections (run_calls lib later s))" "sl_detection_json lib x = Some (or_detection_json t)"
    using inv t(1) unfolding outbox_inv_def by blast
  then obtain y where "sl_parse_detection lib (or_detection_json t) = Some y"
    using codec finite by blast
  then show ?thesis
    using listed mem t(2) r limit(1) by (auto simp: failed_row_def reread_def intro!: bexI [of _ t])
qed

lemmas sample_defs = record_detection_def insert_detection_def insert_outbox_def add_job_def commit_def run_calls_def
  record_delivery_failure_def acknowledge_delivery_def bump_counter_def delivery_row_def agent_rows_def hm_put_def
  sample_detection_def sample_storage_lib_def sample_sql_env_def sample_later_def init_schema_def RETENTION_CAPACITY_def

theorem delivery_waits_for_acknowledgement_witness:
  "\<exists>entries e. pending_deliveries sample_storage_lib ''a1'' 5 (run_calls sample_storage_lib sample_later sample_recorded)
      = Inr entries \<and> e \<in> set entries
    \<and> oe_delivery_id e = ''x1'' \<and> oe_agent_id e = ''a1'' \<and> reread sample_storage_lib sample_detection = Some (oe_detection e)"
proof -
  have random: "sq_random (sample_sql_env ''x1'') = ''x1''"
    by (simp add: sample_sql_env_def)
  have "\<not> blank_str ''a1''"
    by code_simp
  then have "record_detection sample_storage_lib (sample_sql_env ''x1'') sample_detection (Some ''a1'') True
      (run_calls sample_storage_lib [] init_schema) = (sample_recorded, Inr 1)"
    by (simp add: sample_recorded_def sample_defs)
  moreover have "sl_parse_detection sample_storage_lib json \<noteq> None"
    if "sl_detection_json sample_storage_lib d = Some json" for d json
    using that by (auto simp: sample_storage_lib_def split: if_splits)
  moreover have "\<forall>d\<in>snd ` set (es_detections (run_calls sample_storage_lib sample_later sample_recorded)). is_finite (d_score d)"
    using \<open>\<not> blank_str ''a1''\<close> by (simp add: sample_recorded_def sample_defs)
  moreover have "AcknowledgeDelivery (sq_random (sample_sql_env ''x1'')) ''a1'' \<notin> fst ` set sample_later"
    by (simp add: sample_later_def)
  moreover have "length (agent_rows ''a1'' (run_calls sample_storage_lib sample_later sample_recorded)) \<le> 5"
    using \<open>\<not> blank_str ''a1''\<close> by (simp add: sample_recorded_def sample_defs)
  ultimately show ?thesis
    using delivery_waits_for_acknowledgement [of sample_storage_lib "sample_sql_env ''x1''" sample_detection "''a1''" True
        "[]" sample_recorded 1 sample_later 5]
    unfolding random by simp
qed

end
