(* ===== verification/Agent_Reporter.thy ===== *)
theory Agent_Reporter
  imports Central_Server Storage_Outbox
begin

text \<open>
  Crate \<^verbatim>\<open>argos-agent\<close>, \<^verbatim>\<open>reporter.rs\<close>: the thread that delivers the outbox to the central server.  One
  turn of its loop is a function on the reporter's variables, the local database and the central
  server; every request may be lost on the way there or back.  Instants and durations are
  milliseconds.  The HTTP header encoding, the JSON bodies and the texts of errors and summaries
  are parameters.
\<close>

section \<open>Parameters and state\<close>

datatype post_error = TransportError | HttpError http_status

datatype report_error = PostError post_error | StoreError storage_error

text \<open>
  \<open>rl_header\<close> is the header made of a text: \<open>None\<close> when no request can be built from it, else what
  the server reads.  The other functions take a body through serialisation and the server's
  extractor, which refuses it with \<open>None\<close>.
\<close>

record reporter_lib =
  rl_storage :: storage_lib
  rl_central :: central_lib
  rl_header :: "string \<Rightarrow> string option option"
  rl_register :: "register_request \<Rightarrow> register_request option"
  rl_heartbeat :: "heartbeat_request \<Rightarrow> heartbeat_request option"
  rl_report :: "detection_report \<Rightarrow> detection_report option"
  rl_summary :: "summary \<Rightarrow> string"
  rl_error_text :: "post_error \<Rightarrow> string"

record timing =
  tm_poll :: nat
  tm_retry :: nat
  tm_max_retry :: nat
  tm_heartbeat :: nat

definition timing_default :: timing where
  "timing_default = \<lparr>tm_poll = 1000, tm_retry = 1000, tm_max_retry = 60000, tm_heartbeat = 30000\<rparr>"

record reporter =
  rp_url :: string
  rp_token :: string
  rp_agent_id :: string
  rp_hostname :: string
  rp_timing :: timing
  rp_registered :: bool
  rp_retry :: nat
  rp_next_attempt :: nat
  rp_next_heartbeat :: nat
  rp_last_health :: bool

definition trim_end_slashes :: "string \<Rightarrow> string" where
  "trim_end_slashes s = rev (dropWhile (\<lambda>c. c = CHR ''/'') (rev s))"

text \<open>\<^verbatim>\<open>spawn\<close> and the variables at the start of \<^verbatim>\<open>run\<close>; without a URL there is no reporter.\<close>

definition spawn_reporter :: "central_config \<Rightarrow> string \<Rightarrow> timing \<Rightarrow> nat \<Rightarrow> reporter option" where
  "spawn_reporter config host timing now =
     (if ct_url config = [] then None
      else Some \<lparr>rp_url = trim_end_slashes (ct_url config), rp_token = ct_token config,
             rp_agent_id = (if ct_agent_id config = [] then host else ct_agent_id config),
             rp_hostname = host, rp_timing = timing,
             rp_registered = False, rp_retry = tm_retry timing, rp_next_attempt = now,
             rp_next_heartbeat = now, rp_last_health = True\<rparr>)"

record world =
  wo_reporter :: reporter
  wo_store :: event_store
  wo_central :: app_state

text \<open>One turn: the clock readings in program order, the sensor's health, and the fate of each request.\<close>

datatype transfer = NotSent | ResponseLost | Answered

record turn_env =
  tu_due :: nat
  tu_healthy :: bool
  tu_beat_check :: nat
  tu_beat_done :: nat
  tu_end :: nat
  tu_wait :: nat
  tu_read_fails :: bool
  tu_stats_fails :: bool
  tu_register :: "transfer \<times> central_env"
  tu_beat :: "transfer \<times> central_env"
  tu_deliver :: "transfer \<times> central_env"
  tu_sql :: sql_env

section \<open>Requests\<close>

definition post :: "reporter_lib \<Rightarrow> string \<Rightarrow> transfer \<Rightarrow>
    (authorization \<Rightarrow> app_state \<Rightarrow> app_state \<times> (http_status + http_status)) \<Rightarrow> app_state \<Rightarrow> app_state \<times> (post_error + unit)" where
  "post lib token t serve st =
     (case (if token = [] then Some [] else map_option (\<lambda>v. [v]) (rl_header lib (''Bearer '' @ token))) of
        None \<Rightarrow> (st, Inl TransportError)
      | Some auth \<Rightarrow>
          (case t of
             NotSent \<Rightarrow> (st, Inl TransportError)
           | ResponseLost \<Rightarrow> (fst (serve auth st), Inl TransportError)
           | Answered \<Rightarrow>
               (case serve auth st of
                  (st', Inl status) \<Rightarrow> (st', Inl (HttpError status))
                | (st', Inr _) \<Rightarrow> (st', Inr ()))))"

text \<open>A body that the extractor refuses never reaches the handler.\<close>

definition serve_decoded ::
  "('r \<Rightarrow> 'r option) \<Rightarrow> (authorization \<Rightarrow> 'r \<Rightarrow> app_state \<Rightarrow> app_state \<times> (http_status + http_status))
     \<Rightarrow> 'r \<Rightarrow> authorization \<Rightarrow> app_state \<Rightarrow> app_state \<times> (http_status + http_status)" where
  "serve_decoded decode handler body auth st =
     (case decode body of None \<Rightarrow> (st, Inl StatusUnprocessable) | Some req \<Rightarrow> handler auth req st)"

definition delivery_body :: "reporter_lib \<Rightarrow> outbox_entry \<Rightarrow> detection_report" where
  "delivery_body lib entry =
     (let d = oe_detection entry
      in \<lparr>dr_delivery_id = Some (oe_delivery_id entry), dr_agent_id = oe_agent_id entry,
          dr_timestamp_ms = d_timestamp_ms d, dr_rule = d_rule d, dr_score = d_score d,
          dr_severity = severity_as_str (d_severity d), dr_summary = rl_summary lib (d_summary d),
          dr_pid = d_pid d, dr_paths = d_paths d\<rparr>)"

section \<open>One turn of the loop\<close>

definition register_step :: "reporter_lib \<Rightarrow> turn_env \<Rightarrow> world \<Rightarrow> world \<times> (report_error + unit)" where
  "register_step lib env w =
     (let r = wo_reporter w
      in if rp_registered r then (w, Inr ())
         else case post lib (rp_token r) (fst (tu_register env))
                (serve_decoded (rl_register lib) (register_agent (rl_central lib) (snd (tu_register env)))
                  \<lparr>rq_agent_id = rp_agent_id r, rq_hostname = rp_hostname r, rq_tags = []\<rparr>) (wo_central w) of
           (st, Inl e) \<Rightarrow> (w\<lparr>wo_central := st\<rparr>, Inl (PostError e))
         | (st, Inr _) \<Rightarrow> (w\<lparr>wo_central := st, wo_reporter := r\<lparr>rp_registered := True\<rparr>\<rparr>, Inr ()))"

definition heartbeat_step :: "reporter_lib \<Rightarrow> turn_env \<Rightarrow> world \<Rightarrow> world \<times> (report_error + unit)" where
  "heartbeat_step lib env w =
     (let r = wo_reporter w
      in if tu_beat_check env < rp_next_heartbeat r \<and> tu_healthy env = rp_last_health r then (w, Inr ())
         else if tu_read_fails env then (w, Inl (StoreError SqlError))
         else case outbox_stats (rp_agent_id r) (wo_store w) of
           Inl e \<Rightarrow> (w, Inl (StoreError e))
         | Inr stats \<Rightarrow>
             (case post lib (rp_token r) (fst (tu_beat env))
                 (serve_decoded (rl_heartbeat lib) (heartbeat (snd (tu_beat env)))
                   \<lparr>hb_agent_id = rp_agent_id r, hb_sensor_healthy = tu_healthy env,
                    hb_outbox_pending = of_nat (os_pending stats),
                    hb_failed_attempts = of_nat (os_failed_attempts stats)\<rparr>) (wo_central w) of
                (st, Inl e) \<Rightarrow> (w\<lparr>wo_central := st\<rparr>, Inl (PostError e))
              | (st, Inr _) \<Rightarrow>
                  (w\<lparr>wo_central := st,
                     wo_reporter := r\<lparr>rp_next_heartbeat := tu_beat_done env + tm_heartbeat (rp_timing r),
                                      rp_last_health := tu_healthy env\<rparr>\<rparr>, Inr ())))"

definition deliver_step :: "reporter_lib \<Rightarrow> turn_env \<Rightarrow> world \<Rightarrow> world \<times> (report_error + unit)" where
  "deliver_step lib env w =
     (let r = wo_reporter w; s = wo_store w
      in if tu_read_fails env then (w, Inl (StoreError SqlError))
         else case pending_deliveries (rl_storage lib) (rp_agent_id r) 1 s of
           Inl e \<Rightarrow> (w, Inl (StoreError e))
         | Inr [] \<Rightarrow> (w, Inr ())
         | Inr (entry # _) \<Rightarrow>
             (case post lib (rp_token r) (fst (tu_deliver env))
                 (serve_decoded (rl_report lib) (ingest_detection (rl_central lib) (snd (tu_deliver env)))
                   (delivery_body lib entry)) (wo_central w) of
                (st, Inr _) \<Rightarrow>
                  (case acknowledge_delivery (tu_sql env) (oe_delivery_id entry) (rp_agent_id r) s of
                     (s', Inl e) \<Rightarrow> (w\<lparr>wo_central := st, wo_store := s'\<rparr>, Inl (StoreError e))
                   | (s', Inr _) \<Rightarrow> (w\<lparr>wo_central := st, wo_store := s'\<rparr>, Inr ()))
              | (st, Inl error) \<Rightarrow>
                  (case record_delivery_failure (tu_sql env) (oe_delivery_id entry) (rp_agent_id r)
                          (rl_error_text lib error) s of
                     (s', Inl e) \<Rightarrow> (w\<lparr>wo_central := st, wo_store := s'\<rparr>, Inl (StoreError e))
                   | (s', Inr _) \<Rightarrow> (w\<lparr>wo_central := st, wo_store := s'\<rparr>, Inl (PostError error)))))"

definition attempt :: "reporter_lib \<Rightarrow> turn_env \<Rightarrow> world \<Rightarrow> world \<times> (report_error + unit)" where
  "attempt lib env w =
     (case register_step lib env w of
        (w, Inl e) \<Rightarrow> (w, Inl e)
      | (w, Inr _) \<Rightarrow>
          (case heartbeat_step lib env w of
             (w, Inl e) \<Rightarrow> (w, Inl e)
           | (w, Inr _) \<Rightarrow> deliver_step lib env w))"

definition settle :: "turn_env \<Rightarrow> report_error + unit \<Rightarrow> reporter \<Rightarrow> reporter" where
  "settle env result r =
     (case result of
        Inr _ \<Rightarrow> r\<lparr>rp_retry := tm_retry (rp_timing r), rp_next_attempt := tu_end env\<rparr>
      | Inl _ \<Rightarrow> r\<lparr>rp_registered := False, rp_next_attempt := tu_end env + rp_retry r,
                    rp_retry := min (rp_retry r * 2) (tm_max_retry (rp_timing r))\<rparr>)"

definition turn :: "reporter_lib \<Rightarrow> turn_env \<Rightarrow> world \<Rightarrow> world" where
  "turn lib env w =
     (if tu_due env < rp_next_attempt (wo_reporter w) then w
      else case attempt lib env w of (w, result) \<Rightarrow> w\<lparr>wo_reporter := settle env result (wo_reporter w)\<rparr>)"

text \<open>How long the loop sleeps after a turn, unless it is woken.\<close>

definition turn_wait :: "turn_env \<Rightarrow> world \<Rightarrow> nat" where
  "turn_wait env w =
     (let r = wo_reporter w;
          pending = (\<not> tu_stats_fails env
            \<and> (case outbox_stats (rp_agent_id r) (wo_store w) of Inl _ \<Rightarrow> False | Inr stats \<Rightarrow> 0 < os_pending stats))
      in if rp_registered r \<and> pending \<and> rp_next_attempt r \<le> tu_wait env then 1 else tm_poll (rp_timing r))"

section \<open>Specification notions\<close>

text \<open>
  The report of a recorded detection, and that a row of the central server is that report as the
  server decoded it.
\<close>

definition body_of :: "reporter_lib \<Rightarrow> string \<Rightarrow> string \<Rightarrow> detection \<Rightarrow> detection_report" where
  "body_of lib agent i d =
     delivery_body lib \<lparr>oe_delivery_id = i, oe_agent_id = agent, oe_detection = d, oe_attempts = 0\<rparr>"

definition reports :: "reporter_lib \<Rightarrow> string \<Rightarrow> string \<Rightarrow> detection \<Rightarrow> central_detection \<Rightarrow> bool" where
  "reports lib agent i d x =
     (\<exists>e report. reread (rl_storage lib) d = Some e \<and> rl_report lib (body_of lib agent i e) = Some report
        \<and> x = new_detection (rl_central lib) (cd_id x) report)"

text \<open>
  The system of one agent: turns and restarts of its reporter, recording calls of the agent, and
  requests to the server that are not authorised for this agent.  The list holds the detections
  recorded for the agent with their delivery ids, which SQLite draws at random and never twice.
\<close>

fun recording_call :: "string \<Rightarrow> outbox_call \<Rightarrow> bool" where
  "recording_call a (RecordDetection d agent retain) = (agent = None \<or> agent = Some a)"
| "recording_call a (InsertDetectionWithOutbox d agent) = (agent = a)"
| "recording_call a (AcknowledgeRetentionJob i) = True"
| "recording_call a (RecordRetentionFailure i e later) = True"
| "recording_call a _ = False"

fun call_detection :: "outbox_call \<Rightarrow> detection option" where
  "call_detection (RecordDetection d _ _) = Some d"
| "call_detection (InsertDetectionWithOutbox d _) = Some d"
| "call_detection _ = None"

inductive system :: "reporter_lib \<Rightarrow> (string \<times> detection) list \<Rightarrow> world \<Rightarrow> bool" for lib where
  start: "spawn_reporter config host timing now = Some r \<Longrightarrow> central_start args tokens = Inr st
    \<Longrightarrow> system lib [] \<lparr>wo_reporter = r, wo_store = init_schema, wo_central = st\<rparr>"
| report: "system lib rec w \<Longrightarrow> system lib rec (turn lib env w)"
| restart: "system lib rec w \<Longrightarrow> spawn_reporter config host timing now = Some r \<Longrightarrow> rp_agent_id r = rp_agent_id (wo_reporter w)
    \<Longrightarrow> system lib rec (w\<lparr>wo_reporter := r\<rparr>)"
| recorded: "system lib rec w \<Longrightarrow> recording_call (rp_agent_id (wo_reporter w)) call
    \<Longrightarrow> apply_call (rl_storage lib) (call, env) (wo_store w) = s
    \<Longrightarrow> es_detection_seq (wo_store w) < es_detection_seq s \<Longrightarrow> call_agent call \<noteq> None \<Longrightarrow> call_detection call = Some d
    \<Longrightarrow> sq_random env \<notin> fst ` set rec \<Longrightarrow> system lib (rec @ [(sq_random env, d)]) (w\<lparr>wo_store := s\<rparr>)"
| unrecorded: "system lib rec w \<Longrightarrow> recording_call (rp_agent_id (wo_reporter w)) call
    \<Longrightarrow> apply_call (rl_storage lib) (call, env) (wo_store w) = s
    \<Longrightarrow> es_detection_seq (wo_store w) = es_detection_seq s \<or> call_agent call = None \<Longrightarrow> system lib rec (w\<lparr>wo_store := s\<rparr>)"
| foreign: "system lib rec w
    \<Longrightarrow> request_agent req \<noteq> rp_agent_id (wo_reporter w) \<or> authorize_agent (wo_central w) auth (rp_agent_id (wo_reporter w)) \<noteq> Inr ()
    \<Longrightarrow> system lib rec (w\<lparr>wo_central := fst (handle (rl_central lib) env auth req (wo_central w))\<rparr>)"

definition agent_ids :: "app_state \<Rightarrow> string set" where
  "agent_ids st = ca_agent_id ` set (ap_agents st)"

definition system_inv :: "reporter_lib \<Rightarrow> (string \<times> detection) list \<Rightarrow> world \<Rightarrow> bool" where
  "system_inv lib rec w =
     (let a = rp_agent_id (wo_reporter w); s = wo_store w; st = wo_central w
      in outbox_inv (rl_storage lib) s \<and> jobs_inv s \<and> central_inv st \<and> distinct (map fst rec)
       \<and> (\<forall>r\<in>set (agent_rows a s). \<exists>d. (or_delivery_id r, d) \<in> set rec
            \<and> sl_detection_json (rl_storage lib) d = Some (or_detection_json r))
       \<and> (\<forall>i\<in>fst ` set rec. i \<in> or_delivery_id ` set (agent_rows a s) \<or> 0 < copies (a, i) st)
       \<and> (\<forall>x\<in>set (ap_detections st). cd_agent_id x = a \<longrightarrow> (\<exists>i d. (i, d) \<in> set rec \<and> reports lib a i d x))
       \<and> (rp_registered (wo_reporter w) \<longrightarrow> a \<in> agent_ids st))"

definition evolves :: "reporter_lib \<Rightarrow> (string \<times> detection) list \<Rightarrow> string \<Rightarrow> app_state \<Rightarrow> app_state \<Rightarrow> bool" where
  "evolves lib rec a st st' =
     (central_inv st' \<and> (\<forall>k. copies k st \<le> copies k st') \<and> agent_ids st \<subseteq> agent_ids st'
      \<and> (\<forall>x\<in>set (ap_detections st'). cd_agent_id x = a \<longrightarrow> x \<in> set (ap_detections st) \<or> (\<exists>i d. (i, d) \<in> set rec \<and> reports lib a i d x)))"

text \<open>A step that leaves the store alone.\<close>

definition central_only :: "reporter_lib \<Rightarrow> (string \<times> detection) list \<Rightarrow> world \<Rightarrow> world \<Rightarrow> bool" where
  "central_only lib rec w w' =
     (wo_store w' = wo_store w \<and> rp_agent_id (wo_reporter w') = rp_agent_id (wo_reporter w)
      \<and> evolves lib rec (rp_agent_id (wo_reporter w)) (wo_central w) (wo_central w')
      \<and> (rp_registered (wo_reporter w') \<longrightarrow>
           rp_registered (wo_reporter w) \<or> rp_agent_id (wo_reporter w) \<in> agent_ids (wo_central w')))"

text \<open>Conditions under which a turn succeeds: the token is known, nothing fails, the reports are acceptable.\<close>

definition linked :: "reporter_lib \<Rightarrow> world \<Rightarrow> bool" where
  "linked lib w =
     (let r = wo_reporter w
      in rp_token r \<noteq> [] \<and> \<not> blank_str (rp_agent_id r)
       \<and> map_of (ap_agent_tokens (wo_central w)) (rp_agent_id r) = Some (rp_token r)
       \<and> rl_header lib (''Bearer '' @ rp_token r) = Some (Some (''Bearer '' @ rp_token r)))"

definition failed_of :: "string \<Rightarrow> event_store \<Rightarrow> nat" where
  "failed_of agent s = (case map_of (es_counters s) agent of None \<Rightarrow> 0 | Some c \<Rightarrow> dn_failed_attempts c)"

definition deliverable :: "reporter_lib \<Rightarrow> string \<Rightarrow> event_store \<Rightarrow> bool" where
  "deliverable lib a s =
     (length (agent_rows a s) < 2 ^ 63 \<and> failed_of a s < 2 ^ 63
      \<and> (\<forall>r\<in>set (agent_rows a s). or_created_at_ms r \<le> i64_max
           \<and> (\<exists>e report. sl_parse_detection (rl_storage lib) (or_detection_json r) = Some e
                \<and> rl_report lib (body_of lib a (or_delivery_id r) e) = Some report \<and> report_ok report)))"

definition working :: "transfer \<times> central_env \<Rightarrow> bool" where
  "working x = (fst x = Answered \<and> \<not> cv_poisoned (snd x) \<and> \<not> cv_fails (snd x) \<and> cv_commit (snd x) = Committed)"

definition good_turn :: "turn_env \<Rightarrow> world \<Rightarrow> bool" where
  "good_turn env w =
     (rp_next_attempt (wo_reporter w) \<le> tu_due env \<and> \<not> tu_read_fails env \<and> \<not> sq_fails (tu_sql env)
      \<and> sq_commit (tu_sql env) = Committed \<and> working (tu_register env) \<and> working (tu_beat env) \<and> working (tu_deliver env))"

fun good_run :: "reporter_lib \<Rightarrow> turn_env list \<Rightarrow> world \<Rightarrow> bool" where
  "good_run lib [] w = True"
| "good_run lib (env # envs) w = (good_turn env w \<and> good_run lib envs (turn lib env w))"

abbreviation token_header :: "world \<Rightarrow> authorization" where
  "token_header w \<equiv> [Some (''Bearer '' @ rp_token (wo_reporter w))]"

text \<open>What a step keeps of the connection.\<close>

definition same_link :: "world \<Rightarrow> world \<Rightarrow> bool" where
  "same_link w w' =
     (rp_agent_id (wo_reporter w') = rp_agent_id (wo_reporter w) \<and> rp_token (wo_reporter w') = rp_token (wo_reporter w)
      \<and> same_auth (wo_central w) (wo_central w') \<and> agent_ids (wo_central w) \<subseteq> agent_ids (wo_central w'))"

text \<open>A sample system: one detection recorded, one undisturbed turn.\<close>

definition sample_reporter_lib :: reporter_lib where
  "sample_reporter_lib =
     \<lparr>rl_storage = sample_storage_lib, rl_central = sample_central_lib, rl_header = (\<lambda>v. Some (Some v)),
      rl_register = Some, rl_heartbeat = Some, rl_report = Some, rl_summary = (\<lambda>_. ''s''), rl_error_text = (\<lambda>_. ''e'')\<rparr>"

definition sample_reporter :: reporter where
  "sample_reporter =
     \<lparr>rp_url = ''http://c'', rp_token = ''t1'', rp_agent_id = ''a1'', rp_hostname = ''h'', rp_timing = timing_default,
      rp_registered = False, rp_retry = 1000, rp_next_attempt = 0, rp_next_heartbeat = 0, rp_last_health = True\<rparr>"

definition sample_turn :: turn_env where
  "sample_turn =
     \<lparr>tu_due = 1, tu_healthy = True, tu_beat_check = 2, tu_beat_done = 3, tu_end = 4, tu_wait = 5, tu_read_fails = False,
      tu_stats_fails = False, tu_register = (Answered, sample_central_env), tu_beat = (Answered, sample_central_env),
      tu_deliver = (Answered, sample_central_env), tu_sql = sample_sql_env ''x9''\<rparr>"

definition sample_world :: world where
  "sample_world = \<lparr>wo_reporter = sample_reporter, wo_store = sample_recorded, wo_central = sample_central\<rparr>"

lemma evolves_refl: "central_inv st \<Longrightarrow> evolves lib rec a st st"
  by (simp add: evolves_def)

lemma evolves_trans: "evolves lib rec a st u \<Longrightarrow> evolves lib rec a u v \<Longrightarrow> evolves lib rec a st v"
  unfolding evolves_def by (meson order_trans subset_trans)

lemma handle_rows:
  "x \<in> set (ap_detections (fst (handle lib env auth req st))) \<Longrightarrow> x \<in> set (ap_detections st)
     \<or> (\<exists>report. req = Ingest report \<and> authorize_agent st auth (dr_agent_id report) = Inr () \<and> x = new_detection lib (cd_id x) report)"
  using handle_effect [of lib env auth req st]
  by (elim disjE conjE exE) (auto simp: update_agent_def insert_report_def new_detection_def split: if_splits)

lemma handle_ids: "agent_ids st \<subseteq> agent_ids (fst (handle lib env auth req st))"
proof -
  have ids: "agent_ids u = set (map ca_agent_id (ap_agents u))" for u
    by (simp add: agent_ids_def)
  have keep: "agent_ids (update_agent agent f st) = agent_ids st" if "\<forall>a. ca_agent_id (f a) = ca_agent_id a" for agent f st
    using that map_update_id [of f agent "ap_agents st"] unfolding ids update_agent_def by (simp del: map_map set_map)
  have upsert: "agent_ids (st\<lparr>ap_agents := upsert_agent r tags now (ap_agents st)\<rparr>) \<supseteq> agent_ids st" for r tags now
    using arg_cong [OF upsert_agent_ids [of r tags now "ap_agents st"], of set] by (auto simp: agent_ids_def split: if_splits)
  have "agent_ids (insert_report lib report st) = agent_ids st" for report
    by (simp add: agent_ids_def)
  then show ?thesis
    using handle_effect [of lib env auth req st] keep upsert by (elim disjE conjE exE) simp_all
qed

lemma handle_evolves:
  assumes "central_inv st"
    and "\<And>report. req = Ingest report \<Longrightarrow> dr_agent_id report = a \<Longrightarrow> authorize_agent st auth a = Inr ()
       \<Longrightarrow> \<exists>i d e. (i, d) \<in> set rec \<and> reread (rl_storage lib) d = Some e \<and> rl_report lib (body_of lib a i e) = Some report"
  shows "evolves lib rec a st (fst (handle (rl_central lib) env auth req st))"
proof -
  have "copies k st \<le> copies k (fst (handle (rl_central lib) env auth req st))" for k
    using handle_grows [of "rl_central lib" env auth req st] by (auto simp: copies_def)
  moreover have "x \<in> set (ap_detections st) \<or> (\<exists>i d. (i, d) \<in> set rec \<and> reports lib a i d x)"
    if mem: "x \<in> set (ap_detections (fst (handle (rl_central lib) env auth req st)))" and own: "cd_agent_id x = a" for x
  proof (cases "x \<in> set (ap_detections st)")
    case False
    then obtain report where report: "req = Ingest report" "authorize_agent st auth (dr_agent_id report) = Inr ()"
      "x = new_detection (rl_central lib) (cd_id x) report"
      using handle_rows [OF mem] by blast
    moreover from this(3) own have "dr_agent_id report = a"
      by (metis new_detection_def central_detection.select_convs(2))
    ultimately show ?thesis
      using assms(2) [of report] unfolding reports_def by blast
  qed simp
  ultimately show ?thesis
    using handle_inv [OF assms(1)] handle_ids by (simp add: evolves_def)
qed

lemma post_cases:
  "fst (post lib token t serve st) = st \<and> (\<exists>e. snd (post lib token t serve st) = Inl e)
   \<or> (\<exists>auth. fst (post lib token t serve st) = fst (serve auth st)
        \<and> (snd (post lib token t serve st) = Inr () \<longrightarrow> (\<exists>code. snd (serve auth st) = Inr code)))"
proof (cases "if token = [] then Some [] else map_option (\<lambda>v. [v]) (rl_header lib (''Bearer '' @ token))")
  case (Some auth)
  obtain st' result where serve: "serve auth st = (st', result)"
    by fastforce
  show ?thesis
  proof (cases t)
    case NotSent
    then show ?thesis
      using Some by (simp add: post_def)
  next
    case ResponseLost
    then show ?thesis
      using Some serve by (intro disjI2 exI [of _ auth]) (simp add: post_def)
  next
    case Answered
    then show ?thesis
      using Some serve by (intro disjI2 exI [of _ auth]) (cases result; simp add: post_def)
  qed
qed (simp add: post_def)

lemma serve_decoded_cases:
  "serve_decoded decode handler body auth st = (st, Inl StatusUnprocessable)
   \<or> (\<exists>req. decode body = Some req \<and> serve_decoded decode handler body auth st = handler auth req st)"
  by (cases "decode body") (simp_all add: serve_decoded_def)

text \<open>A posted request moves the server as the handler does, if it reaches it.\<close>

lemma post_evolves:
  assumes inv: "central_inv st"
    and handler: "\<And>auth r. handler auth r st = handle (rl_central lib) env auth (con r) st"
    and ingest: "\<And>req report. decode body = Some req \<Longrightarrow> con req = Ingest report \<Longrightarrow> dr_agent_id report = a
      \<Longrightarrow> \<exists>i d e. (i, d) \<in> set rec \<and> reread (rl_storage lib) d = Some e \<and> rl_report lib (body_of lib a i e) = Some report"
  shows "evolves lib rec a st (fst (post lib token t (serve_decoded decode handler body) st))"
    and "snd (post lib token t (serve_decoded decode handler body) st) = Inr ()
      \<Longrightarrow> \<exists>auth req code. decode body = Some req \<and> snd (handle (rl_central lib) env auth (con req) st) = Inr code
        \<and> fst (post lib token t (serve_decoded decode handler body) st) = fst (handle (rl_central lib) env auth (con req) st)"
proof -
  let ?serve = "serve_decoded decode handler body"
  have served: "evolves lib rec a st (fst (?serve auth st))" for auth
    using serve_decoded_cases [of decode handler body auth st]
  proof (elim disjE exE conjE)
    fix req
    assume "decode body = Some req" "?serve auth st = handler auth req st"
    then show ?thesis
      using handle_evolves [OF inv, of "con req" a auth rec lib env] ingest by (simp add: handler)
  qed (simp add: evolves_refl inv)
  show "evolves lib rec a st (fst (post lib token t ?serve st))"
    using post_cases [of lib token t ?serve st] served evolves_refl [OF inv] by metis
  assume "snd (post lib token t ?serve st) = Inr ()"
  then obtain auth code where "fst (post lib token t ?serve st) = fst (?serve auth st)" "snd (?serve auth st) = Inr code"
    using post_cases [of lib token t ?serve st] by auto
  then show "\<exists>auth req code. decode body = Some req \<and> snd (handle (rl_central lib) env auth (con req) st) = Inr code
        \<and> fst (post lib token t ?serve st) = fst (handle (rl_central lib) env auth (con req) st)"
    using serve_decoded_cases [of decode handler body auth st] by (metis Inl_Inr_False handler snd_conv)
qed

lemma register_accepted:
  "snd (register_agent lib env auth req st) = Inr code \<Longrightarrow> rq_agent_id req \<in> agent_ids (fst (register_agent lib env auth req st))"
  using arg_cong [OF upsert_agent_ids [of req "strings_json lib (rq_tags req)" "now_i64 env" "ap_agents st"], of set]
  by (cases "cv_commit env") (auto simp: register_agent_def commit_def agent_ids_def split: sum.splits if_splits)

lemma register_central_only:
  assumes wire: "\<And>r q. rl_register lib r = Some q \<Longrightarrow> rq_agent_id q = rq_agent_id r" and inv: "central_inv (wo_central w)"
  shows "central_only lib rec w (fst (register_step lib env w))"
proof -
  define serve where "serve = serve_decoded (rl_register lib) (register_agent (rl_central lib) (snd (tu_register env)))
     \<lparr>rq_agent_id = rp_agent_id (wo_reporter w), rq_hostname = rp_hostname (wo_reporter w), rq_tags = []\<rparr>"
  obtain st result where post: "post lib (rp_token (wo_reporter w)) (fst (tu_register env)) serve (wo_central w) = (st, result)"
    by fastforce
  note posted = post_evolves [OF inv, where con = Register and lib = lib and rec = rec and decode = "rl_register lib"
      and a = "rp_agent_id (wo_reporter w)" and env = "snd (tu_register env)" and token = "rp_token (wo_reporter w)"
      and t = "fst (tu_register env)" and handler = "register_agent (rl_central lib) (snd (tu_register env))"
      and body = "\<lparr>rq_agent_id = rp_agent_id (wo_reporter w), rq_hostname = rp_hostname (wo_reporter w), rq_tags = []\<rparr>",
      folded serve_def, unfolded post fst_conv snd_conv]
  have "rp_agent_id (wo_reporter w) \<in> agent_ids st" if "result = Inr ()"
    using posted(2) [OF handle.simps(1) [symmetric] _ that] wire register_accepted by fastforce
  moreover have "evolves lib rec (rp_agent_id (wo_reporter w)) (wo_central w) st"
    using posted(1) by simp
  ultimately show ?thesis
    using post by (auto simp: central_only_def register_step_def Let_def evolves_refl inv serve_def split: sum.splits)
qed

lemma heartbeat_central_only:
  assumes "central_inv (wo_central w)"
  shows "central_only lib rec w (fst (heartbeat_step lib env w))"
proof -
  note post = post_evolves(1) [OF assms, where con = Heartbeat and lib = lib and rec = rec and decode = "rl_heartbeat lib"
      and a = "rp_agent_id (wo_reporter w)" and env = "snd (tu_beat env)" and token = "rp_token (wo_reporter w)"
      and t = "fst (tu_beat env)"
      and handler = "heartbeat (snd (tu_beat env))"]
  show ?thesis
  proof (cases "outbox_stats (rp_agent_id (wo_reporter w)) (wo_store w)")
    case (Inr stats)
    then show ?thesis
      using post [of "\<lparr>hb_agent_id = rp_agent_id (wo_reporter w), hb_sensor_healthy = tu_healthy env,
          hb_outbox_pending = of_nat (os_pending stats), hb_failed_attempts = of_nat (os_failed_attempts stats)\<rparr>"]
      by (auto simp: central_only_def heartbeat_step_def Let_def evolves_refl assms split: prod.splits sum.splits)
  qed (simp add: central_only_def heartbeat_step_def Let_def evolves_refl assms)
qed

lemma system_inv_central_only:
  assumes "system_inv lib rec w" "central_only lib rec w w'"
  shows "system_inv lib rec w'"
proof -
  have "0 < copies k (wo_central w')" if "0 < copies k (wo_central w)" for k
    using assms(2) that unfolding central_only_def evolves_def by (meson order_less_le_trans)
  moreover have "agent_ids (wo_central w) \<subseteq> agent_ids (wo_central w')"
    using assms(2) by (simp add: central_only_def evolves_def)
  ultimately show ?thesis
    using assms unfolding system_inv_def central_only_def evolves_def Let_def subset_iff by metis
qed

lemma system_inv_store:
  assumes "system_inv lib rec w" "outbox_inv (rl_storage lib) s" "jobs_inv s"
    and rows: "\<And>r. r \<in> set (agent_rows (rp_agent_id (wo_reporter w)) s) \<Longrightarrow>
      \<exists>q\<in>set (agent_rows (rp_agent_id (wo_reporter w)) (wo_store w)).
        or_delivery_id q = or_delivery_id r \<and> or_detection_json q = or_detection_json r"
    and kept: "\<And>q. q \<in> set (agent_rows (rp_agent_id (wo_reporter w)) (wo_store w)) \<Longrightarrow>
      or_delivery_id q \<in> or_delivery_id ` set (agent_rows (rp_agent_id (wo_reporter w)) s)
      \<or> 0 < copies (rp_agent_id (wo_reporter w), or_delivery_id q) (wo_central w)"
  shows "system_inv lib rec (w\<lparr>wo_store := s\<rparr>)"
proof -
  let ?a = "rp_agent_id (wo_reporter w)"
  have old: "\<exists>d. (or_delivery_id q, d) \<in> set rec \<and> sl_detection_json (rl_storage lib) d = Some (or_detection_json q)"
    if "q \<in> set (agent_rows ?a (wo_store w))" for q
    using assms(1) that by (simp add: system_inv_def Let_def)
  have sent: "\<forall>i\<in>fst ` set rec. i \<in> or_delivery_id ` set (agent_rows ?a (wo_store w)) \<or> 0 < copies (?a, i) (wo_central w)"
    using assms(1) unfolding system_inv_def Let_def by (elim conjE)
  have "\<exists>d. (or_delivery_id r, d) \<in> set rec \<and> sl_detection_json (rl_storage lib) d = Some (or_detection_json r)"
    if mem: "r \<in> set (agent_rows ?a s)" for r
  proof -
    obtain q where "q \<in> set (agent_rows ?a (wo_store w))" "or_delivery_id q = or_delivery_id r"
      "or_detection_json q = or_detection_json r"
      using rows [OF mem] by blast
    then show ?thesis
      using old [of q] by simp
  qed
  moreover have "i \<in> or_delivery_id ` set (agent_rows ?a s) \<or> 0 < copies (?a, i) (wo_central w)" if "i \<in> fst ` set rec" for i
  proof (cases "i \<in> or_delivery_id ` set (agent_rows ?a (wo_store w))")
    case True
    then obtain q where "q \<in> set (agent_rows ?a (wo_store w))" "or_delivery_id q = i"
      by blast
    then show ?thesis
      using kept [of q] by simp
  next
    case False
    then show ?thesis
      using bspec [OF sent that] by simp
  qed
  ultimately show ?thesis
    using assms(1-3) by (simp add: system_inv_def Let_def)
qed

lemma system_inv_call:
  assumes "system_inv lib rec w"
  shows "outbox_inv (rl_storage lib) (apply_call (rl_storage lib) c (wo_store w))"
    "jobs_inv (apply_call (rl_storage lib) c (wo_store w))"
  using apply_call_inv [of "rl_storage lib" "wo_store w" c] assms by (simp_all add: system_inv_def Let_def)

lemma system_inv_ack:
  assumes inv: "system_inv lib rec w" and there: "0 < copies (rp_agent_id (wo_reporter w), i) (wo_central w)"
  shows "system_inv lib rec (w\<lparr>wo_store := fst (acknowledge_delivery env i (rp_agent_id (wo_reporter w)) (wo_store w))\<rparr>)"
proof -
  let ?a = "rp_agent_id (wo_reporter w)"
  let ?s = "fst (acknowledge_delivery env i ?a (wo_store w))"
  have new: "agent_rows ?a ?s = agent_rows ?a (wo_store w)
    \<or> agent_rows ?a ?s = filter (\<lambda>r. \<not> delivery_row i ?a r) (agent_rows ?a (wo_store w))"
    using acknowledge_delivery_effect [of env i ?a "wo_store w"]
    by (auto simp: agent_rows_def bump_counter_def conj_commute intro: filter_cong)
  show ?thesis
  proof (rule system_inv_store [OF inv])
    show "outbox_inv (rl_storage lib) ?s" "jobs_inv ?s"
      using system_inv_call [OF inv, of "(AcknowledgeDelivery i ?a, env)"] by simp_all
    fix r
    show "r \<in> set (agent_rows ?a ?s) \<Longrightarrow> \<exists>q\<in>set (agent_rows ?a (wo_store w)).
        or_delivery_id q = or_delivery_id r \<and> or_detection_json q = or_detection_json r"
      using new by auto
    show "r \<in> set (agent_rows ?a (wo_store w)) \<Longrightarrow> or_delivery_id r \<in> or_delivery_id ` set (agent_rows ?a ?s)
        \<or> 0 < copies (?a, or_delivery_id r) (wo_central w)"
      using new there by (cases "delivery_row i ?a r") (auto simp: delivery_row_def intro!: imageI)
  qed
qed

lemma failed_agent_rows:
  assumes "list_all2 failed_row (es_outbox s) (es_outbox t)"
  shows "list_all2 failed_row (agent_rows a s) (agent_rows a t)"
  using assms unfolding agent_rows_def by (induction rule: list_all2_induct) (simp_all add: failed_row_def)

lemma list_all2_rows:
  assumes "list_all2 failed_row xs ys"
  shows "y \<in> set ys \<Longrightarrow> \<exists>x\<in>set xs. or_delivery_id x = or_delivery_id y \<and> or_detection_json x = or_detection_json y"
    "or_delivery_id ` set ys = or_delivery_id ` set xs"
  using assms by (induction rule: list_all2_induct) (auto simp: failed_row_def)

lemma system_inv_failure:
  assumes inv: "system_inv lib rec w"
  shows "system_inv lib rec (w\<lparr>wo_store := fst (record_delivery_failure env i (rp_agent_id (wo_reporter w)) e (wo_store w))\<rparr>)"
proof -
  let ?a = "rp_agent_id (wo_reporter w)"
  note rows = list_all2_rows [OF failed_agent_rows [OF delivery_failure_effect(1) [of "wo_store w" env i ?a e], of ?a]]
  show ?thesis
    using system_inv_call [OF inv, of "(RecordDeliveryFailure i ?a e, env)"]
    by (intro system_inv_store [OF inv]) (simp_all add: rows)
qed

lemma system_inv_cong:
  "system_inv lib rec w \<Longrightarrow> rp_agent_id r = rp_agent_id (wo_reporter w) \<Longrightarrow>
     (rp_registered r \<Longrightarrow> rp_registered (wo_reporter w)) \<Longrightarrow> system_inv lib rec (w\<lparr>wo_reporter := r\<rparr>)"
  by (simp add: system_inv_def Let_def)

lemma collect_rows_Cons: "collect_rows f xs = Some (y # ys) \<Longrightarrow> \<exists>x\<in>set xs. f x = Some y"
  by (cases xs) (auto split: option.splits)

lemma pending_entry:
  assumes "pending_deliveries lib a n s = Inr (entry # rest)"
  shows "\<exists>r\<in>set (agent_rows a s). decode_entry lib r = Some entry"
proof -
  let ?rows = "take n (sort_key or_id (filter (\<lambda>r. or_agent_id r = a) (es_outbox s)))"
  have "collect_rows (decode_entry lib) ?rows = Some (entry # rest)"
    using assms by (simp add: pending_deliveries_def split: if_splits option.splits)
  then obtain r where "r \<in> set ?rows" "decode_entry lib r = Some entry"
    using collect_rows_Cons by metis
  then show ?thesis
    by (intro bexI [of _ r]) (auto simp: agent_rows_def dest: in_set_takeD)
qed

lemma pending_entry_body:
  assumes "system_inv lib rec w" "pending_deliveries (rl_storage lib) (rp_agent_id (wo_reporter w)) n (wo_store w) = Inr (entry # rest)"
  shows "\<exists>d e. (oe_delivery_id entry, d) \<in> set rec \<and> reread (rl_storage lib) d = Some e
     \<and> delivery_body lib entry = body_of lib (rp_agent_id (wo_reporter w)) (oe_delivery_id entry) e"
proof -
  let ?a = "rp_agent_id (wo_reporter w)"
  obtain r where r: "r \<in> set (agent_rows ?a (wo_store w))" "decode_entry (rl_storage lib) r = Some entry"
    using pending_entry [OF assms(2)] by blast
  then obtain e where e: "sl_parse_detection (rl_storage lib) (or_detection_json r) = Some e"
    "entry = \<lparr>oe_delivery_id = or_delivery_id r, oe_agent_id = or_agent_id r, oe_detection = e, oe_attempts = or_attempts r\<rparr>"
    by (auto simp: decode_entry_def)
  obtain d where "(or_delivery_id r, d) \<in> set rec" "sl_detection_json (rl_storage lib) d = Some (or_detection_json r)"
    using assms(1) r(1) by (auto simp: system_inv_def Let_def)
  then show ?thesis
    using e r(1) by (intro exI [of _ d] exI [of _ e]) (simp add: reread_def body_of_def delivery_body_def agent_rows_def)
qed

lemma deliver_inv:
  assumes wire: "\<And>r q. rl_report lib r = Some q \<Longrightarrow> dr_delivery_id q = dr_delivery_id r \<and> dr_agent_id q = dr_agent_id r"
    and inv: "system_inv lib rec w"
  shows "system_inv lib rec (fst (deliver_step lib env w))"
proof (cases "pending_deliveries (rl_storage lib) (rp_agent_id (wo_reporter w)) 1 (wo_store w)")
  case (Inr entries)
  let ?a = "rp_agent_id (wo_reporter w)"
  show ?thesis
  proof (cases entries)
    case (Cons entry rest)
    obtain d e where body: "(oe_delivery_id entry, d) \<in> set rec" "reread (rl_storage lib) d = Some e"
      "delivery_body lib entry = body_of lib ?a (oe_delivery_id entry) e"
      using pending_entry_body [OF inv, of 1 entry rest] Inr Cons by auto
    define serve where "serve = serve_decoded (rl_report lib)
      (ingest_detection (rl_central lib) (snd (tu_deliver env))) (delivery_body lib entry)"
    obtain st result where post: "post lib (rp_token (wo_reporter w)) (fst (tu_deliver env)) serve (wo_central w) = (st, result)"
      by fastforce
    have cinv: "central_inv (wo_central w)"
      using inv by (simp add: system_inv_def Let_def)
    note posted = post_evolves [OF cinv, where lib = lib and con = Ingest and rec = rec and a = ?a
        and handler = "ingest_detection (rl_central lib) (snd (tu_deliver env))" and env = "snd (tu_deliver env)"
        and decode = "rl_report lib" and body = "delivery_body lib entry" and token = "rp_token (wo_reporter w)"
        and t = "fst (tu_deliver env)", folded serve_def, unfolded post fst_conv snd_conv]
    have evolves: "evolves lib rec ?a (wo_central w) st"
      using body by (intro posted(1)) auto
    have inv2: "system_inv lib rec (w\<lparr>wo_central := st\<rparr>)"
      using evolves by (intro system_inv_central_only [OF inv]) (simp add: central_only_def)
    have there: "0 < copies (?a, oe_delivery_id entry) st" if "result = Inr ()"
    proof -
      have "\<exists>auth req code. rl_report lib (delivery_body lib entry) = Some req
          \<and> snd (handle (rl_central lib) (snd (tu_deliver env)) auth (Ingest req) (wo_central w)) = Inr code
          \<and> st = fst (handle (rl_central lib) (snd (tu_deliver env)) auth (Ingest req) (wo_central w))"
        by (rule posted(2)) (use that body in auto)
      then obtain auth report code where h: "rl_report lib (delivery_body lib entry) = Some report"
        "snd (handle (rl_central lib) (snd (tu_deliver env)) auth (Ingest report) (wo_central w)) = Inr code"
        "st = fst (handle (rl_central lib) (snd (tu_deliver env)) auth (Ingest report) (wo_central w))"
        by blast
      then have "dr_delivery_id report = Some (oe_delivery_id entry)" "dr_agent_id report = ?a"
        using wire [OF h(1)] body(3) by (simp_all add: body_of_def delivery_body_def Let_def)
      then show ?thesis
        using central.accepted_is_there [OF cinv, of "rl_central lib" "(snd (tu_deliver env), auth, Ingest report)"] h(2,3)
        by (simp add: takes_delivery_def message_key_def receive_def)
    qed
    have step: "fst (deliver_step lib env w) = w \<or> (\<exists>x. result = Inl x \<and> fst (deliver_step lib env w) = w\<lparr>wo_central := st,
          wo_store := fst (record_delivery_failure (tu_sql env) (oe_delivery_id entry) ?a (rl_error_text lib x) (wo_store w))\<rparr>)
      \<or> result = Inr () \<and> fst (deliver_step lib env w) =
        w\<lparr>wo_central := st, wo_store := fst (acknowledge_delivery (tu_sql env) (oe_delivery_id entry) ?a (wo_store w))\<rparr>"
      using Inr Cons post by (auto simp: deliver_step_def Let_def serve_def split: sum.splits prod.splits)
    then show ?thesis
      using inv system_inv_failure [OF inv2] system_inv_ack [OF inv2, of "oe_delivery_id entry"] there
      by (elim disjE exE conjE) simp_all
  qed (use inv Inr in \<open>simp add: deliver_step_def Let_def\<close>)
qed (use inv in \<open>simp add: deliver_step_def Let_def\<close>)

lemma turn_inv:
  assumes register: "\<And>r q. rl_register lib r = Some q \<Longrightarrow> rq_agent_id q = rq_agent_id r"
    and wire: "\<And>r q. rl_report lib r = Some q \<Longrightarrow> dr_delivery_id q = dr_delivery_id r \<and> dr_agent_id q = dr_agent_id r"
    and inv: "system_inv lib rec w"
  shows "system_inv lib rec (turn lib env w)"
proof -
  have central: "central_inv (wo_central v)" if "system_inv lib rec v" for v
    using that by (simp add: system_inv_def Let_def)
  have 1: "system_inv lib rec (fst (register_step lib env w))"
    using system_inv_central_only [OF inv] register_central_only [OF register central [OF inv]] by blast
  have 2: "system_inv lib rec (fst (heartbeat_step lib env v))" if "system_inv lib rec v" for v
    using system_inv_central_only [OF that] heartbeat_central_only [OF central [OF that]] by blast
  have "system_inv lib rec (fst (attempt lib env w))"
    using 1 2 [OF 1] deliver_inv [OF wire 2 [OF 1], of env]
    by (auto simp: attempt_def split: prod.splits sum.splits)
  then show ?thesis
    using inv by (auto simp: turn_def settle_def split: prod.splits sum.splits intro!: system_inv_cong)
qed

lemma recording_effect:
  assumes "recording_call a call"
  shows "(\<exists>d. call_detection call = Some d \<and> recorded_in lib (call, env) d s (apply_call lib (call, env) s))
    \<or> es_outbox (apply_call lib (call, env) s) = es_outbox s \<and> es_detection_seq (apply_call lib (call, env) s) = es_detection_seq s"
proof (cases call)
  case (RecordDetection d agent retain)
  then show ?thesis
    using record_detection_effect [of lib env d agent retain s] by auto
next
  case (InsertDetectionWithOutbox d agent)
  then show ?thesis
    using insert_with_outbox_effect [of lib env d agent s] by auto
next
  case (AcknowledgeRetentionJob i)
  then show ?thesis
    using job_ack_effect [of env i s] by auto
next
  case (RecordRetentionFailure i e later)
  then show ?thesis
    by (simp add: retention_failure_effect)
qed (use assms in simp_all)

lemma recorded_in_seq: "recorded_in lib c d s t \<Longrightarrow> es_detection_seq t = Suc (es_detection_seq s)"
  by (simp add: recorded_in_def)

lemma recorded_in_None: "recorded_in lib c d s t \<Longrightarrow> call_agent (fst c) = None \<Longrightarrow> es_outbox t = es_outbox s"
  by (simp add: recorded_in_def)

lemma recorded_in_Some:
  "recorded_in lib c d s t \<Longrightarrow> call_agent (fst c) = Some a \<Longrightarrow> \<exists>r. es_outbox t = es_outbox s @ [r]
     \<and> or_delivery_id r = sq_random (snd c) \<and> or_agent_id r = a \<and> sl_detection_json lib d = Some (or_detection_json r)"
  by (simp add: recorded_in_def) (elim conjE exE, simp)

lemma system_inv_unrecorded:
  assumes inv: "system_inv lib rec w" and "recording_call (rp_agent_id (wo_reporter w)) call"
    and s: "apply_call (rl_storage lib) (call, env) (wo_store w) = s"
    and "es_detection_seq (wo_store w) = es_detection_seq s \<or> call_agent call = None"
  shows "system_inv lib rec (w\<lparr>wo_store := s\<rparr>)"
proof -
  have "es_outbox s = es_outbox (wo_store w)"
    using recording_effect [OF assms(2), of "rl_storage lib" env "wo_store w"] assms(4) unfolding s
    by (metis fst_conv n_not_Suc_n recorded_in_None recorded_in_seq)
  then have same: "agent_rows a s = agent_rows a (wo_store w)" for a
    by (simp add: agent_rows_def)
  show ?thesis
    using system_inv_call [OF inv, of "(call, env)"] inv unfolding s by (simp add: system_inv_def Let_def same)
qed

lemma recorded_agent: "recording_call a call \<Longrightarrow> call_agent call \<noteq> None \<Longrightarrow> call_agent call = Some a"
  by (cases call) auto

lemma system_inv_recorded:
  assumes inv: "system_inv lib rec w" and call: "recording_call (rp_agent_id (wo_reporter w)) call" "call_agent call \<noteq> None"
    "call_detection call = Some d"
    and s: "apply_call (rl_storage lib) (call, env) (wo_store w) = s"
    and seq: "es_detection_seq (wo_store w) < es_detection_seq s" and fresh: "sq_random env \<notin> fst ` set rec"
  shows "system_inv lib (rec @ [(sq_random env, d)]) (w\<lparr>wo_store := s\<rparr>)"
proof -
  let ?a = "rp_agent_id (wo_reporter w)"
  have made: "recorded_in (rl_storage lib) (call, env) d (wo_store w) s"
    using recording_effect [OF call(1), of "rl_storage lib" env "wo_store w"] seq call(3) unfolding s by auto
  obtain r where r: "es_outbox s = es_outbox (wo_store w) @ [r]" "or_delivery_id r = sq_random env" "or_agent_id r = ?a"
    "sl_detection_json (rl_storage lib) d = Some (or_detection_json r)"
    using recorded_in_Some [OF made, of ?a] recorded_agent [OF call(1,2)] by auto
  then have rows: "agent_rows ?a s = agent_rows ?a (wo_store w) @ [r]"
    by (simp add: agent_rows_def)
  have "\<forall>x\<in>set (ap_detections (wo_central w)). cd_agent_id x = ?a
      \<longrightarrow> (\<exists>i e. (i, e) \<in> set (rec @ [(sq_random env, d)]) \<and> reports lib ?a i e x)"
    using inv unfolding system_inv_def Let_def by fastforce
  moreover have "\<forall>q\<in>set (agent_rows ?a s). \<exists>e. (or_delivery_id q, e) \<in> set (rec @ [(sq_random env, d)])
      \<and> sl_detection_json (rl_storage lib) e = Some (or_detection_json q)"
    using inv r unfolding rows system_inv_def Let_def by fastforce
  moreover have "\<forall>i\<in>fst ` set (rec @ [(sq_random env, d)]). i \<in> or_delivery_id ` set (agent_rows ?a s)
      \<or> 0 < copies (?a, i) (wo_central w)"
    using inv r unfolding rows system_inv_def Let_def by auto
  ultimately show ?thesis
    using inv fresh system_inv_call [OF inv, of "(call, env)"] unfolding s system_inv_def Let_def by simp
qed

lemma spawn_unregistered: "spawn_reporter config host timing now = Some r \<Longrightarrow> \<not> rp_registered r"
  by (auto simp: spawn_reporter_def split: if_splits)

lemma central_start_inv: "central_start args tokens = Inr st \<Longrightarrow> central_inv st \<and> ap_detections st = []"
  by (auto simp: central_start_def central_inv_def split: sum.splits)

lemma system_keeps_inv:
  assumes register: "\<And>r q. rl_register lib r = Some q \<Longrightarrow> rq_agent_id q = rq_agent_id r"
    and wire: "\<And>r q. rl_report lib r = Some q \<Longrightarrow> dr_delivery_id q = dr_delivery_id r \<and> dr_agent_id q = dr_agent_id r"
    and "system lib rec w"
  shows "system_inv lib rec w"
  using assms(3)
proof induction
  case (start config host timing now r args tokens st)
  then show ?case
    using init_outbox_inv central_start_inv [of args tokens st] spawn_unregistered [OF start(1)]
    by (simp add: system_inv_def Let_def agent_rows_def init_schema_def)
next
  case (report rec w env)
  then show ?case
    using turn_inv [OF register wire] by blast
next
  case (restart rec w config host timing now r)
  then show ?case
    using spawn_unregistered [OF restart(2)] by (intro system_inv_cong) simp_all
next
  case (recorded rec w call env s d)
  then show ?case
    using system_inv_recorded by blast
next
  case (unrecorded rec w call env s)
  then show ?case
    using system_inv_unrecorded by blast
next
  case (foreign rec w req auth env)
  have "central_inv (wo_central w)"
    using foreign.IH by (simp add: system_inv_def Let_def)
  then have "evolves lib rec (rp_agent_id (wo_reporter w)) (wo_central w) (fst (handle (rl_central lib) env auth req (wo_central w)))"
    using foreign.hyps(2) by (intro handle_evolves) auto
  then show ?case
    by (intro system_inv_central_only [OF foreign.IH]) (simp add: central_only_def)
qed

lemma reports_delivered:
  assumes wire: "\<And>r q. rl_report lib r = Some q \<Longrightarrow> dr_delivery_id q = dr_delivery_id r \<and> dr_agent_id q = dr_agent_id r"
    and "reports lib a i d x"
  shows "delivered a i x"
proof -
  obtain e report where report: "rl_report lib (body_of lib a i e) = Some report" "x = new_detection (rl_central lib) (cd_id x) report"
    using assms(2) by (auto simp: reports_def)
  have "cd_agent_id x = dr_agent_id report" "cd_delivery_id x = dr_delivery_id report"
    by (subst report(2), simp add: new_detection_def)+
  then show ?thesis
    using wire [OF report(1)] by (simp add: delivered_def body_of_def delivery_body_def Let_def)
qed


lemma linked_authorized:
  "linked lib w \<Longrightarrow> authorize_agent (wo_central w) (token_header w) (rp_agent_id (wo_reporter w)) = Inr ()"
  by (simp add: authorize_agent_def linked_def Let_def central_bearer_def strip_prefix_def)

lemma linked_post:
  "linked lib w \<Longrightarrow> serve (token_header w) st = (st', Inr code) \<Longrightarrow> post lib (rp_token (wo_reporter w)) Answered serve st = (st', Inr ())"
  by (simp add: post_def linked_def Let_def)

lemma same_link_linked: "linked lib w \<Longrightarrow> same_link w w' \<Longrightarrow> linked lib w'"
  by (simp add: linked_def same_link_def same_auth_def Let_def)

lemma same_link_trans: "same_link u v \<Longrightarrow> same_link v w \<Longrightarrow> same_link u w"
  by (auto simp: same_link_def same_auth_def)

lemma register_good:
  assumes "linked lib w" "working (tu_register env)" "\<And>r. rl_register lib r = Some r"
    and inv: "rp_registered (wo_reporter w) \<Longrightarrow> rp_agent_id (wo_reporter w) \<in> agent_ids (wo_central w)"
  shows "\<exists>v. register_step lib env w = (v, Inr ()) \<and> same_link w v \<and> wo_store v = wo_store w
    \<and> rp_agent_id (wo_reporter w) \<in> agent_ids (wo_central v)"
proof (cases "rp_registered (wo_reporter w)")
  case True
  then show ?thesis
    using inv by (simp add: register_step_def Let_def same_link_def same_auth_def)
next
  case False
  define req where "req = \<lparr>rq_agent_id = rp_agent_id (wo_reporter w), rq_hostname = rp_hostname (wo_reporter w), rq_tags = []\<rparr>"
  let ?handle = "register_agent (rl_central lib) (snd (tu_register env)) (token_header w) req (wo_central w)"
  have ok: "snd ?handle = Inr StatusOk"
    using linked_authorized [OF assms(1)] assms(2) by (simp add: register_agent_def req_def working_def commit_def)
  then have serve: "serve_decoded (rl_register lib) (register_agent (rl_central lib) (snd (tu_register env))) req
      (token_header w) (wo_central w) = (fst ?handle, Inr StatusOk)"
    using assms(3) by (simp add: serve_decoded_def prod_eq_iff)
  have "register_step lib env w = (w\<lparr>wo_central := fst ?handle, wo_reporter := (wo_reporter w)\<lparr>rp_registered := True\<rparr>\<rparr>, Inr ())"
    using False linked_post [OF assms(1), of "serve_decoded (rl_register lib) (register_agent (rl_central lib) (snd (tu_register env))) req", OF serve]
      assms(2) by (simp add: register_step_def Let_def working_def req_def)
  moreover have "same_auth (wo_central w) (fst ?handle)" "agent_ids (wo_central w) \<subseteq> agent_ids (fst ?handle)"
    using handle_auth [of "wo_central w" "rl_central lib" "snd (tu_register env)" "token_header w" "Register req"]
      handle_ids [of "wo_central w" "rl_central lib" "snd (tu_register env)" "token_header w" "Register req"] by simp_all
  ultimately show ?thesis
    using register_accepted [OF ok] by (simp add: same_link_def req_def)
qed

lemma outbox_stats_good:
  assumes "deliverable lib a s"
  shows "\<exists>stats. outbox_stats a s = Inr stats \<and> os_pending stats = length (agent_rows a s) \<and> os_failed_attempts stats = failed_of a s"
  using assms by (auto simp: outbox_stats_def deliverable_def agent_rows_def failed_of_def Let_def list_ex_iff not_le [symmetric])

lemma fits_i64: "n < 2 ^ 63 \<Longrightarrow> (of_nat n :: u64) \<le> i64_max"
  by (simp add: word_le_nat_alt i64_max_def unat_of_nat)

lemma heartbeat_good:
  assumes "linked lib w" "working (tu_beat env)" "\<not> tu_read_fails env" "\<And>r. rl_heartbeat lib r = Some r"
    and "rp_agent_id (wo_reporter w) \<in> agent_ids (wo_central w)" "deliverable lib (rp_agent_id (wo_reporter w)) (wo_store w)"
  shows "\<exists>v. heartbeat_step lib env w = (v, Inr ()) \<and> same_link w v \<and> wo_store v = wo_store w"
proof (cases "tu_beat_check env < rp_next_heartbeat (wo_reporter w) \<and> tu_healthy env = rp_last_health (wo_reporter w)")
  case True
  then show ?thesis
    by (simp add: heartbeat_step_def Let_def same_link_def same_auth_def)
next
  case False
  obtain stats where stats: "outbox_stats (rp_agent_id (wo_reporter w)) (wo_store w) = Inr stats"
    "os_pending stats < 2 ^ 63" "os_failed_attempts stats < 2 ^ 63"
    using outbox_stats_good [OF assms(6)] assms(6) by (auto simp: deliverable_def)
  define req where "req = \<lparr>hb_agent_id = rp_agent_id (wo_reporter w), hb_sensor_healthy = tu_healthy env,
      hb_outbox_pending = of_nat (os_pending stats), hb_failed_attempts = of_nat (os_failed_attempts stats)\<rparr>"
  let ?handle = "heartbeat (snd (tu_beat env)) (token_header w) req (wo_central w)"
  have ok: "snd ?handle = Inr StatusOk"
    using linked_authorized [OF assms(1)] assms(2,5) fits_i64 [OF stats(2)] fits_i64 [OF stats(3)]
    by (simp add: heartbeat_def req_def working_def commit_def agent_ids_def not_less)
  then have serve: "serve_decoded (rl_heartbeat lib) (heartbeat (snd (tu_beat env))) req
      (token_header w) (wo_central w) = (fst ?handle, Inr StatusOk)"
    using assms(4) by (simp add: serve_decoded_def prod_eq_iff)
  have "heartbeat_step lib env w = (w\<lparr>wo_central := fst ?handle,
      wo_reporter := (wo_reporter w)\<lparr>rp_next_heartbeat := tu_beat_done env + tm_heartbeat (rp_timing (wo_reporter w)),
        rp_last_health := tu_healthy env\<rparr>\<rparr>, Inr ())"
    using False linked_post [OF assms(1), of "serve_decoded (rl_heartbeat lib) (heartbeat (snd (tu_beat env))) req", OF serve]
      assms(2,3) stats(1)
    by (auto simp: heartbeat_step_def Let_def working_def req_def)
  moreover have "same_auth (wo_central w) (fst ?handle)" "agent_ids (wo_central w) \<subseteq> agent_ids (fst ?handle)"
    using handle_auth [of "wo_central w" "rl_central lib" "snd (tu_beat env)" "token_header w" "Heartbeat req"]
      handle_ids [of "wo_central w" "rl_central lib" "snd (tu_beat env)" "token_header w" "Heartbeat req"] by simp_all
  ultimately show ?thesis
    by (simp add: same_link_def)
qed

lemma pending_first:
  assumes inv: "outbox_inv lib s" and rows: "agent_rows a s = r # rs"
    and parse: "sl_parse_detection lib (or_detection_json r) = Some e"
  shows "pending_deliveries lib a 1 s = Inr [\<lparr>oe_delivery_id = or_delivery_id r, oe_agent_id = a, oe_detection = e,
     oe_attempts = or_attempts r\<rparr>]"
proof -
  have "sort_key or_id (filter (\<lambda>r. or_agent_id r = a) (es_outbox s)) = filter (\<lambda>r. or_agent_id r = a) (es_outbox s)"
    using inv by (simp add: outbox_inv_def sort_key_id_if_sorted sorted_filter)
  then have "sort_key or_id (filter (\<lambda>r. or_agent_id r = a) (es_outbox s)) = r # rs"
    using rows by (simp add: agent_rows_def)
  moreover have "or_agent_id r = a"
    using rows by (metis (mono_tags, lifting) agent_rows_def filter_eq_ConsD)
  ultimately show ?thesis
    using parse by (simp add: pending_deliveries_def decode_entry_def)
qed

lemma ack_first:
  assumes "outbox_inv lib s" and rows: "agent_rows a s = r # rs" and "\<not> sq_fails env" "sq_commit env = Committed"
  shows "\<exists>t. acknowledge_delivery env (or_delivery_id r) a s = (t, Inr ()) \<and> agent_rows a t = rs \<and> failed_of a t = failed_of a s"
proof -
  have r: "r \<in> set (es_outbox s)" "or_agent_id r = a"
    using arg_cong [OF rows, of set] by (auto simp: agent_rows_def)
  have "distinct (map or_delivery_id (r # rs))"
    using assms(1) by (simp add: outbox_inv_def distinct_map_filter agent_rows_def flip: rows)
  then have "filter (\<lambda>x. \<not> delivery_row (or_delivery_id r) a x) (r # rs) = rs"
    using r(2) by (auto simp: delivery_row_def filter_id_conv rev_image_eqI)
  then have "filter (\<lambda>x. \<not> delivery_row (or_delivery_id r) a x) (agent_rows a s) = rs"
    by (simp only: rows)
  then have "filter (\<lambda>x. or_agent_id x = a) (filter (\<lambda>x. \<not> delivery_row (or_delivery_id r) a x) (es_outbox s)) = rs"
    unfolding agent_rows_def filter_filter by (simp only: conj_commute)
  moreover have "list_ex (delivery_row (or_delivery_id r) a) (es_outbox s)"
    using r by (auto simp: list_ex_iff delivery_row_def)
  ultimately show ?thesis
    using assms(3,4)
    by (simp add: acknowledge_delivery_def commit_def bump_counter_def agent_rows_def failed_of_def hm_get_put
        del: filter_filter split: option.split)
qed

lemma deliver_good:
  assumes link: "linked lib w" and good: "working (tu_deliver env)" "\<not> tu_read_fails env"
      "\<not> sq_fails (tu_sql env)" "sq_commit (tu_sql env) = Committed"
    and wire: "\<And>r q. rl_report lib r = Some q \<Longrightarrow> dr_delivery_id q = dr_delivery_id r \<and> dr_agent_id q = dr_agent_id r"
    and ids: "rp_agent_id (wo_reporter w) \<in> agent_ids (wo_central w)"
    and inv: "outbox_inv (rl_storage lib) (wo_store w)"
    and deliverable: "deliverable lib (rp_agent_id (wo_reporter w)) (wo_store w)"
  shows "\<exists>v. deliver_step lib env w = (v, Inr ()) \<and> same_link w v
    \<and> agent_rows (rp_agent_id (wo_reporter w)) (wo_store v) = tl (agent_rows (rp_agent_id (wo_reporter w)) (wo_store w))
    \<and> failed_of (rp_agent_id (wo_reporter w)) (wo_store v) = failed_of (rp_agent_id (wo_reporter w)) (wo_store w)"
proof (cases "agent_rows (rp_agent_id (wo_reporter w)) (wo_store w)")
  case Nil
  then have "pending_deliveries (rl_storage lib) (rp_agent_id (wo_reporter w)) 1 (wo_store w) = Inr []"
    by (simp add: pending_deliveries_def agent_rows_def)
  then show ?thesis
    using good(2) Nil by (simp add: deliver_step_def Let_def same_link_def same_auth_def)
next
  case (Cons r rs)
  let ?a = "rp_agent_id (wo_reporter w)"
  obtain e report where e: "sl_parse_detection (rl_storage lib) (or_detection_json r) = Some e"
    and report: "rl_report lib (body_of lib ?a (or_delivery_id r) e) = Some report" "report_ok report"
    using deliverable Cons by (auto simp: deliverable_def)
  define entry where "entry = \<lparr>oe_delivery_id = or_delivery_id r, oe_agent_id = ?a, oe_detection = e, oe_attempts = or_attempts r\<rparr>"
  have body: "delivery_body lib entry = body_of lib ?a (or_delivery_id r) e" and agent: "dr_agent_id report = ?a"
    using wire [OF report(1)] by (simp_all add: entry_def body_of_def delivery_body_def)
  let ?handle = "ingest_detection (rl_central lib) (snd (tu_deliver env)) (token_header w) report (wo_central w)"
  let ?serve = "serve_decoded (rl_report lib) (ingest_detection (rl_central lib) (snd (tu_deliver env))) (delivery_body lib entry)"
  have "snd ?handle = Inr StatusOk"
    using linked_authorized [OF link] good(1) ids report(2)
    by (simp add: ingest_detection_def agent working_def commit_def agent_ids_def)
  then have serve: "?serve (token_header w) (wo_central w) = (fst ?handle, Inr StatusOk)"
    using report(1) by (simp add: serve_decoded_def body prod_eq_iff)
  obtain t where t: "acknowledge_delivery (tu_sql env) (or_delivery_id r) ?a (wo_store w) = (t, Inr ())" "agent_rows ?a t = rs"
    "failed_of ?a t = failed_of ?a (wo_store w)"
    using ack_first [OF inv Cons good(3,4)] by blast
  have "deliver_step lib env w = (w\<lparr>wo_central := fst ?handle, wo_store := t\<rparr>, Inr ())"
    using linked_post [OF link, of ?serve, OF serve] good(1,2) pending_first [OF inv Cons e] t(1)
    by (simp add: deliver_step_def Let_def working_def entry_def)
  moreover have "same_auth (wo_central w) (fst ?handle)" "agent_ids (wo_central w) \<subseteq> agent_ids (fst ?handle)"
    using handle_auth [of "wo_central w" "rl_central lib" "snd (tu_deliver env)" "token_header w" "Ingest report"]
      handle_ids [of "wo_central w" "rl_central lib" "snd (tu_deliver env)" "token_header w" "Ingest report"] by simp_all
  ultimately show ?thesis
    using t(2,3) Cons by (simp add: same_link_def)
qed

lemma turn_good:
  assumes register: "\<And>r. rl_register lib r = Some r" and beat: "\<And>r. rl_heartbeat lib r = Some r"
    and wire: "\<And>r q. rl_report lib r = Some q \<Longrightarrow> dr_delivery_id q = dr_delivery_id r \<and> dr_agent_id q = dr_agent_id r"
    and inv: "system_inv lib rec w" and link: "linked lib w" and a: "a = rp_agent_id (wo_reporter w)"
    and deliverable: "deliverable lib a (wo_store w)" and good: "good_turn env w"
  shows "linked lib (turn lib env w) \<and> a = rp_agent_id (wo_reporter (turn lib env w))
    \<and> deliverable lib a (wo_store (turn lib env w)) \<and> agent_rows a (wo_store (turn lib env w)) = tl (agent_rows a (wo_store w))"
proof -
  note good = good [unfolded good_turn_def]
  obtain u where u: "register_step lib env w = (u, Inr ())" "same_link w u" "wo_store u = wo_store w" "a \<in> agent_ids (wo_central u)"
    using register_good [OF link _ register, of env] good inv a by (auto simp: system_inv_def Let_def)
  have ua: "a = rp_agent_id (wo_reporter u)"
    using u(2) a by (simp add: same_link_def)
  obtain v where v: "heartbeat_step lib env u = (v, Inr ())" "same_link u v" "wo_store v = wo_store w"
    using heartbeat_good [OF same_link_linked [OF link u(2)] _ _ beat, of env] good u(3,4) ua deliverable by auto
  have va: "a = rp_agent_id (wo_reporter v)" "a \<in> agent_ids (wo_central v)"
    using v(2) ua u(4) by (auto simp: same_link_def)
  have "outbox_inv (rl_storage lib) (wo_store v)"
    using inv v(3) by (simp add: system_inv_def Let_def)
  then obtain x where x: "deliver_step lib env v = (x, Inr ())" "same_link v x"
    "agent_rows a (wo_store x) = tl (agent_rows a (wo_store w))" "failed_of a (wo_store x) = failed_of a (wo_store w)"
    using deliver_good [OF same_link_linked [OF same_link_linked [OF link u(2)] v(2)] _ _ _ _ wire, of env] good v(3) va deliverable
    by auto
  have turn: "turn lib env w = x\<lparr>wo_reporter := settle env (Inr ()) (wo_reporter x)\<rparr>"
    using good u(1) v(1) x(1) by (simp add: turn_def attempt_def not_less)
  have link': "same_link w (turn lib env w)"
    using same_link_trans [OF same_link_trans [OF u(2) v(2)] x(2)] by (simp add: turn same_link_def settle_def)
  have "deliverable lib a (wo_store x)"
    using deliverable x(3,4) by (auto simp: deliverable_def dest: list.set_sel(2) [rotated] split: list.splits)
      (metis list.sel(2) list.set_sel(2))+
  then show ?thesis
    using same_link_linked [OF link link'] link' a x(3) by (simp add: turn same_link_def)
qed

lemma run_good:
  assumes register: "\<And>r. rl_register lib r = Some r" and beat: "\<And>r. rl_heartbeat lib r = Some r"
    and wire: "\<And>r q. rl_report lib r = Some q \<Longrightarrow> dr_delivery_id q = dr_delivery_id r \<and> dr_agent_id q = dr_agent_id r"
    and "system lib rec w" "linked lib w" "a = rp_agent_id (wo_reporter w)" "deliverable lib a (wo_store w)" "good_run lib envs w"
  shows "system lib rec (fold (turn lib) envs w) \<and> a = rp_agent_id (wo_reporter (fold (turn lib) envs w))
    \<and> agent_rows a (wo_store (fold (turn lib) envs w)) = drop (length envs) (agent_rows a (wo_store w))"
  using assms(4-8)
proof (induction envs arbitrary: w)
  case (Cons env envs)
  have "system_inv lib rec w"
    using system_keeps_inv [OF _ wire Cons.prems(1)] register by auto
  then have after: "linked lib (turn lib env w) \<and> a = rp_agent_id (wo_reporter (turn lib env w))
    \<and> deliverable lib a (wo_store (turn lib env w)) \<and> agent_rows a (wo_store (turn lib env w)) = tl (agent_rows a (wo_store w))"
    using turn_good [OF register beat wire _ Cons.prems(2,3,4)] Cons.prems(5) by simp
  show ?case
    using Cons.IH [OF system.report [OF Cons.prems(1)], of env] after Cons.prems(5) by (auto simp: drop_Suc)
qed simp

text \<open>
  C24: The backlog drains.  From every state of the system, once the token is known to the server
  and the stored reports are acceptable to it, as many undisturbed turns as there are waiting
  deliveries empty the outbox of the agent, and then everything recorded for it is at the server.
\<close>

theorem backlog_drains:
  assumes register: "\<And>r. rl_register lib r = Some r" and beat: "\<And>r. rl_heartbeat lib r = Some r"
    and wire: "\<And>r q. rl_report lib r = Some q \<Longrightarrow> dr_delivery_id q = dr_delivery_id r \<and> dr_agent_id q = dr_agent_id r"
    and state: "system lib rec w" "linked lib w" "a = rp_agent_id (wo_reporter w)" "deliverable lib a (wo_store w)"
    and run: "good_run lib envs w" "length (agent_rows a (wo_store w)) \<le> length envs"
  shows "agent_rows a (wo_store (fold (turn lib) envs w)) = []
    \<and> (\<forall>i\<in>fst ` set rec. copies (a, i) (wo_central (fold (turn lib) envs w)) = 1)"
proof -
  note ran = run_good [OF register beat wire state run(1)]
  then have inv: "system_inv lib rec (fold (turn lib) envs w)"
    by (intro system_keeps_inv [OF _ wire]) (auto simp: register)
  have empty: "agent_rows a (wo_store (fold (turn lib) envs w)) = []"
    using ran run(2) by (metis drop_all)
  have "0 < copies (a, i) (wo_central (fold (turn lib) envs w))" if "i \<in> fst ` set rec" for i
    using inv ran that empty by (auto simp: system_inv_def Let_def)
  moreover have "copies (a, i) (wo_central (fold (turn lib) envs w)) \<le> 1" for i
    using central.at_most_one [of "wo_central (fold (turn lib) envs w)" "(a, i)"] inv by (simp add: system_inv_def Let_def)
  ultimately show ?thesis
    using empty by (metis One_nat_def Suc_leI le_antisym)
qed

lemma sample_recorded_rows:
  "es_detection_seq sample_recorded = 1" "es_counters sample_recorded = []"
  "agent_rows ''a1'' sample_recorded = [\<lparr>or_id = 1, or_delivery_id = ''x1'', or_agent_id = ''a1'', or_detection_json = ''d'',
     or_created_at_ms = 20, or_attempts = 0, or_last_error = None\<rparr>]"
  using sample_not_blank by (simp_all add: sample_recorded_def sample_defs)

lemma sample_system: "system sample_reporter_lib [(''x1'', sample_detection)] sample_world"
proof -
  have spawn: "spawn_reporter \<lparr>ct_url = ''http://c'', ct_token = ''t1'', ct_agent_id = ''a1''\<rparr> ''h'' timing_default 0 = Some sample_reporter"
    by (simp add: spawn_reporter_def sample_reporter_def timing_default_def trim_end_slashes_def)
  have call: "apply_call (rl_storage sample_reporter_lib) (RecordDetection sample_detection (Some ''a1'') True, sample_sql_env ''x1'')
      init_schema = sample_recorded"
    by (simp add: sample_recorded_def sample_reporter_lib_def)
  have "system sample_reporter_lib ([] @ [(sq_random (sample_sql_env ''x1''), sample_detection)])
      (\<lparr>wo_reporter = sample_reporter, wo_store = init_schema, wo_central = sample_central\<rparr>\<lparr>wo_store := sample_recorded\<rparr>)"
    by (rule system.recorded [OF system.start [OF spawn sample_start],
          where call = "RecordDetection sample_detection (Some ''a1'') True"])
      (simp_all only: world.simps call sample_recorded_rows, simp_all add: sample_reporter_def init_schema_def)
  then show ?thesis
    by (simp add: sample_world_def sample_sql_env_def)
qed


lemma sample_good: "linked sample_reporter_lib sample_world" "good_run sample_reporter_lib [sample_turn] sample_world"
  "deliverable sample_reporter_lib ''a1'' (wo_store sample_world)"
  using sample_not_blank
  by (simp_all add: linked_def sample_world_def sample_reporter_def sample_central_def sample_reporter_lib_def good_turn_def
      sample_turn_def working_def sample_central_env_def sample_sql_env_def deliverable_def sample_recorded_rows failed_of_def
      i64_max_def sample_storage_lib_def report_ok_def body_of_def delivery_body_def sample_detection_def f_in_def)

theorem backlog_drains_witness:
  "agent_rows ''a1'' (wo_store (turn sample_reporter_lib sample_turn sample_world)) = []
    \<and> copies (''a1'', ''x1'') (wo_central (turn sample_reporter_lib sample_turn sample_world)) = 1"
  using backlog_drains [OF _ _ _ sample_system sample_good(1) _ sample_good(3) sample_good(2)]
  by (simp add: sample_reporter_lib_def sample_world_def sample_recorded_rows sample_reporter_def)

end
