(* ===== verification/Storage_Evidence.thy ===== *)
theory Storage_Evidence
  imports Storage_Outbox
begin

text \<open>
  Crate \<^verbatim>\<open>argos-storage\<close>: the tables of file events, process events and responses and the read-only
  queries on them (\<^verbatim>\<open>lib.rs\<close>, \<^verbatim>\<open>evidence.rs\<close>, \<^verbatim>\<open>response_audit.rs\<close>).  A row holds its columns as SQLite
  does: 64-bit signed integers, NULL for a real that is not a number.  The column of a table of an
  older database that lacks it reads as NULL.  JSON values are a type parameter; whether a statement
  fails is an argument.
\<close>

section \<open>Tables\<close>

record file_row =
  fr_id :: nat
  fr_timestamp_ms :: int
  fr_pid :: pid
  fr_path :: string
  fr_action :: string
  fr_size :: "int option"
  fr_entropy :: "f64 option"
  fr_event_json :: "string option"

record process_row =
  pw_id :: nat
  pw_timestamp_ms :: int
  pw_pid :: pid
  pw_ppid :: pid
  pw_uid :: u32
  pw_comm :: string
  pw_cmdline :: string
  pw_start_time_ticks :: "int option"
  pw_boot_id :: "string option"
  pw_exe :: "string option"
  pw_event_json :: "string option"

record response_audit =
  au_timestamp_ms :: u64
  au_pid :: pid
  au_start_time_ticks :: "u64 option"
  au_boot_id :: "string option"
  au_score :: f64
  au_action :: string
  au_outcome :: string
  au_error :: "string option"

record response_row =
  rw_id :: nat
  rw_timestamp_ms :: int
  rw_pid :: pid
  rw_result_json :: string

record evidence_store =
  db_events :: event_store
  db_files :: "file_row list"
  db_file_seq :: nat
  db_processes :: "process_row list"
  db_process_seq :: nat
  db_responses :: "response_row list"
  db_response_seq :: nat

definition open_empty :: evidence_store where
  "open_empty =
     \<lparr>db_events = init_schema, db_files = [], db_file_seq = 0, db_processes = [], db_process_seq = 0,
      db_responses = [], db_response_seq = 0\<rparr>"

record 'v evidence_lib =
  el_storage :: storage_lib
  el_file_json :: "file_event \<Rightarrow> string option"
  el_process_json :: "process_event \<Rightarrow> string option"
  el_response_json :: "response_audit \<Rightarrow> string option"
  el_parse_value :: "string \<Rightarrow> 'v option"
  el_is_object :: "'v \<Rightarrow> bool"
  el_empty_object :: 'v
  el_set_columns :: "u64 \<Rightarrow> pid \<Rightarrow> string \<Rightarrow> file_action \<Rightarrow> u64 option \<Rightarrow> f64 option \<Rightarrow> 'v \<Rightarrow> 'v"
  el_file_event :: "'v \<Rightarrow> file_event option"
  el_parse_process :: "string \<Rightarrow> process_event option"
  el_parse_response :: "string \<Rightarrow> response_audit option"
  el_parse_paths :: "string \<Rightarrow> string list option"

section \<open>Insertions\<close>

fun action_name :: "file_action \<Rightarrow> string" where
  "action_name Create = ''Create''"
| "action_name Modify = ''Modify''"
| "action_name Delete = ''Delete''"
| "action_name Rename = ''Rename''"
| "action_name Chmod = ''Chmod''"
| "action_name Chown = ''Chown''"

definition stored_real :: "f64 option \<Rightarrow> f64 option" where
  "stored_real x = (if x = Some NaN then None else x)"

definition file_row_of :: "'v evidence_lib \<Rightarrow> nat \<Rightarrow> file_event \<Rightarrow> file_row" where
  "file_row_of lib i e =
     \<lparr>fr_id = i, fr_timestamp_ms = sint (fe_timestamp_ms e), fr_pid = fe_pid e, fr_path = fe_path e,
      fr_action = action_name (fe_action e), fr_size = map_option sint (fe_size e),
      fr_entropy = stored_real (fe_entropy e), fr_event_json = el_file_json lib e\<rparr>"

definition insert_file_event ::
  "'v evidence_lib \<Rightarrow> sql_env \<Rightarrow> file_event \<Rightarrow> evidence_store \<Rightarrow> evidence_store \<times> (storage_error + unit)" where
  "insert_file_event lib env e s =
     (if el_file_json lib e = None then (s, Inl JsonError)
      else if sq_fails env then (s, Inl SqlError)
      else commit SqlError (sq_commit env) s
             (s\<lparr>db_files := db_files s @ [file_row_of lib (db_file_seq s + 1) e], db_file_seq := db_file_seq s + 1\<rparr>) ())"

definition process_row_of :: "'v evidence_lib \<Rightarrow> nat \<Rightarrow> process_event \<Rightarrow> process_row" where
  "process_row_of lib i e =
     \<lparr>pw_id = i, pw_timestamp_ms = sint (pe_timestamp_ms e), pw_pid = pe_pid e, pw_ppid = pe_ppid e,
      pw_uid = pe_uid e, pw_comm = pe_comm e, pw_cmdline = pe_cmdline e,
      pw_start_time_ticks = map_option sint (pe_start_time_ticks e), pw_boot_id = pe_boot_id e,
      pw_exe = pe_exe e, pw_event_json = el_process_json lib e\<rparr>"

text \<open>The start time is bound without a cast: one above the signed range is refused.\<close>

definition insert_process_event ::
  "'v evidence_lib \<Rightarrow> sql_env \<Rightarrow> process_event \<Rightarrow> evidence_store \<Rightarrow> evidence_store \<times> (storage_error + unit)" where
  "insert_process_event lib env e s =
     (if el_process_json lib e = None then (s, Inl JsonError)
      else if sq_fails env \<or> (case pe_start_time_ticks e of None \<Rightarrow> False | Some t \<Rightarrow> i64_max < t) then (s, Inl SqlError)
      else commit SqlError (sq_commit env) s
             (s\<lparr>db_processes := db_processes s @ [process_row_of lib (db_process_seq s + 1) e],
                db_process_seq := db_process_seq s + 1\<rparr>) ())"

definition response_row_of :: "'v evidence_lib \<Rightarrow> nat \<Rightarrow> response_audit \<Rightarrow> response_row" where
  "response_row_of lib i a =
     \<lparr>rw_id = i, rw_timestamp_ms = sint (au_timestamp_ms a), rw_pid = au_pid a,
      rw_result_json = (case el_response_json lib a of None \<Rightarrow> [] | Some json \<Rightarrow> json)\<rparr>"

definition audit_in_range :: "response_audit \<Rightarrow> bool" where
  "audit_in_range a = (au_timestamp_ms a \<le> i64_max \<and> is_finite (au_score a) \<and> f_in 0 100 (au_score a))"

definition insert_response_result ::
  "'v evidence_lib \<Rightarrow> sql_env \<Rightarrow> response_audit \<Rightarrow> evidence_store \<Rightarrow> evidence_store \<times> (storage_error + unit)" where
  "insert_response_result lib env a s =
     (if \<not> audit_in_range a then (s, Inl InvalidRange)
      else if el_response_json lib a = None then (s, Inl JsonError)
      else if sq_fails env then (s, Inl SqlError)
      else commit SqlError (sq_commit env) s
             (s\<lparr>db_responses := db_responses s @ [response_row_of lib (db_response_seq s + 1) a],
                db_response_seq := db_response_seq s + 1\<rparr>) ())"

section \<open>Decoding rows\<close>

text \<open>Reading an integer column as an unsigned number fails on a negative one.\<close>

definition read_u64 :: "int \<Rightarrow> u64 option" where
  "read_u64 i = (if 0 \<le> i then Some (of_int i) else None)"

definition read_optional_u64 :: "int option \<Rightarrow> u64 option option" where
  "read_optional_u64 c = (case c of None \<Rightarrow> Some None | Some i \<Rightarrow> map_option Some (read_u64 i))"

definition action_of :: "string \<Rightarrow> file_action option" where
  "action_of name =
     (if name = ''Create'' then Some Create else if name = ''Modify'' then Some Modify
      else if name = ''Delete'' then Some Delete else if name = ''Rename'' then Some Rename
      else if name = ''Chmod'' then Some Chmod else if name = ''Chown'' then Some Chown else None)"

definition valid_entropy :: "f64 option \<Rightarrow> bool" where
  "valid_entropy x = (case x of None \<Rightarrow> True | Some e \<Rightarrow> is_finite e \<and> f_in 0 8 e)"

definition decode_file_event :: "'v evidence_lib \<Rightarrow> file_row \<Rightarrow> (nat \<times> file_event) option" where
  "decode_file_event lib r =
     (case action_of (fr_action r) of None \<Rightarrow> None | Some action \<Rightarrow>
      if \<not> valid_entropy (fr_entropy r) then None
      else case (case fr_event_json r of None \<Rightarrow> Some (el_empty_object lib) | Some json \<Rightarrow> el_parse_value lib json) of
        None \<Rightarrow> None
      | Some v \<Rightarrow>
          if \<not> el_is_object lib v then None
          else case (read_u64 (fr_timestamp_ms r), read_optional_u64 (fr_size r)) of
            (Some ts, Some sz) \<Rightarrow>
              map_option (Pair (fr_id r))
                (el_file_event lib (el_set_columns lib ts (fr_pid r) (fr_path r) action sz (fr_entropy r) v))
          | _ \<Rightarrow> None)"

definition decode_process :: "'v evidence_lib \<Rightarrow> process_row \<Rightarrow> (nat \<times> process_event) option" where
  "decode_process lib r =
     (case pw_event_json r of
        Some json \<Rightarrow> map_option (Pair (pw_id r)) (el_parse_process lib json)
      | None \<Rightarrow>
          (case (read_u64 (pw_timestamp_ms r), read_optional_u64 (pw_start_time_ticks r)) of
             (Some ts, Some ticks) \<Rightarrow>
               Some (pw_id r, \<lparr>pe_timestamp_ms = ts, pe_pid = pw_pid r, pe_ppid = pw_ppid r, pe_uid = pw_uid r,
                 pe_credentials = None, pe_start_time_ticks = ticks, pe_boot_id = pw_boot_id r, pe_exe = pw_exe r,
                 pe_comm = pw_comm r, pe_cmdline = pw_cmdline r\<rparr>)
           | _ \<Rightarrow> None))"

definition decode_response :: "'v evidence_lib \<Rightarrow> response_row \<Rightarrow> (nat \<times> response_audit) option" where
  "decode_response lib r = map_option (Pair (rw_id r)) (el_parse_response lib (rw_result_json r))"

record detection_row =
  dq_id :: nat
  dq_timestamp_ms :: int
  dq_rule :: string
  dq_score :: f64
  dq_severity :: string
  dq_summary :: summary
  dq_pid :: pid
  dq_paths :: "string list"

definition detection_row_of :: "nat \<times> detection \<Rightarrow> string list \<Rightarrow> detection_row" where
  "detection_row_of row ps =
     (case row of (i, d) \<Rightarrow>
        \<lparr>dq_id = i, dq_timestamp_ms = sint (d_timestamp_ms d), dq_rule = d_rule d, dq_score = d_score d,
         dq_severity = severity_as_str (d_severity d), dq_summary = d_summary d, dq_pid = d_pid d, dq_paths = ps\<rparr>)"

definition stored_paths :: "'v evidence_lib \<Rightarrow> nat \<times> detection \<Rightarrow> string list option" where
  "stored_paths lib row = Option.bind (sl_paths_json (el_storage lib) (d_paths (snd row))) (el_parse_paths lib)"

text \<open>The evidence query refuses a malformed list of paths, the listings read it as empty.\<close>

definition decode_detection :: "'v evidence_lib \<Rightarrow> nat \<times> detection \<Rightarrow> detection_row option" where
  "decode_detection lib row = map_option (detection_row_of row) (stored_paths lib row)"

definition lenient_detection :: "'v evidence_lib \<Rightarrow> nat \<times> detection \<Rightarrow> detection_row" where
  "lenient_detection lib row = detection_row_of row (case stored_paths lib row of None \<Rightarrow> [] | Some ps \<Rightarrow> ps)"

section \<open>Listings\<close>

text \<open>A limit is cast to a signed number; SQLite reads a negative one as no limit.\<close>

definition sql_limit :: "usize \<Rightarrow> 'a list \<Rightarrow> 'a list" where
  "sql_limit limit xs = (if sint limit < 0 then xs else take (nat (sint limit)) xs)"

definition newest :: "('r \<Rightarrow> nat) \<Rightarrow> usize \<Rightarrow> 'r list \<Rightarrow> 'r list" where
  "newest rid limit rows = sql_limit limit (rev (sort_key rid rows))"

definition between :: "('r \<Rightarrow> int) \<Rightarrow> int \<Rightarrow> int \<Rightarrow> 'r list \<Rightarrow> 'r list" where
  "between ts lo hi rows = filter (\<lambda>r. lo \<le> ts r \<and> ts r \<le> hi) rows"

definition recent_events :: "bool \<Rightarrow> usize \<Rightarrow> evidence_store \<Rightarrow> storage_error + (int \<times> pid \<times> string \<times> string) list" where
  "recent_events fails limit s =
     (if fails then Inl SqlError
      else Inr (map (\<lambda>r. (fr_timestamp_ms r, fr_pid r, fr_path r, fr_action r)) (newest fr_id limit (db_files s))))"

definition recent_detections ::
  "bool \<Rightarrow> usize \<Rightarrow> evidence_store \<Rightarrow> storage_error + (int \<times> string \<times> f64 \<times> string \<times> summary) list" where
  "recent_detections fails limit s =
     (if fails then Inl SqlError
      else Inr (map (\<lambda>(i, d). (sint (d_timestamp_ms d), d_rule d, d_score d, severity_as_str (d_severity d), d_summary d))
        (newest fst limit (es_detections (db_events s)))))"

definition process_columns :: "process_row \<Rightarrow> int \<times> pid \<times> pid \<times> u32 \<times> string \<times> string" where
  "process_columns r = (pw_timestamp_ms r, pw_pid r, pw_ppid r, pw_uid r, pw_comm r, pw_cmdline r)"

definition recent_processes ::
  "bool \<Rightarrow> usize \<Rightarrow> evidence_store \<Rightarrow> storage_error + (int \<times> pid \<times> pid \<times> u32 \<times> string \<times> string) list" where
  "recent_processes fails limit s =
     (if fails then Inl SqlError else Inr (map process_columns (newest pw_id limit (db_processes s))))"

definition processes_between ::
  "bool \<Rightarrow> int \<Rightarrow> int \<Rightarrow> usize \<Rightarrow> evidence_store \<Rightarrow> storage_error + (int \<times> pid \<times> pid \<times> u32 \<times> string \<times> string) list" where
  "processes_between fails lo hi limit s =
     (if fails then Inl SqlError
      else Inr (map process_columns (sql_limit limit (sort_key pw_id (between pw_timestamp_ms lo hi (db_processes s))))))"

definition detection_by_id :: "'v evidence_lib \<Rightarrow> bool \<Rightarrow> int \<Rightarrow> evidence_store \<Rightarrow> storage_error + detection_row option" where
  "detection_by_id lib fails i s =
     (if fails then Inl SqlError
      else Inr (map_option (lenient_detection lib) (find (\<lambda>row. int (fst row) = i) (es_detections (db_events s)))))"

definition recent_detections_with_id ::
  "'v evidence_lib \<Rightarrow> bool \<Rightarrow> usize \<Rightarrow> evidence_store \<Rightarrow> storage_error + detection_row list" where
  "recent_detections_with_id lib fails limit s =
     (if fails then Inl SqlError
      else Inr (map (lenient_detection lib) (newest fst limit (es_detections (db_events s)))))"

definition events_between ::
  "bool \<Rightarrow> int \<Rightarrow> int \<Rightarrow> usize \<Rightarrow> evidence_store \<Rightarrow> storage_error + (int \<times> pid \<times> string \<times> string) list" where
  "events_between fails lo hi limit s =
     (if fails then Inl SqlError
      else Inr (map (\<lambda>r. (fr_timestamp_ms r, fr_pid r, fr_action r, fr_path r))
        (sql_limit limit (sort_key fr_id (between fr_timestamp_ms lo hi (db_files s))))))"

definition event_count :: "bool \<Rightarrow> evidence_store \<Rightarrow> storage_error + nat" where
  "event_count fails s = (if fails then Inl SqlError else Inr (length (db_files s)))"

definition detection_count :: "bool \<Rightarrow> evidence_store \<Rightarrow> storage_error + nat" where
  "detection_count fails s = (if fails then Inl SqlError else Inr (length (es_detections (db_events s))))"

definition last_file_event_id :: "bool \<Rightarrow> evidence_store \<Rightarrow> storage_error + nat" where
  "last_file_event_id fails s = (if fails then Inl SqlError else Inr (Max (insert 0 (set (map fr_id (db_files s))))))"

definition probe_file_event ::
  "bool \<Rightarrow> string \<Rightarrow> int \<Rightarrow> evidence_store \<Rightarrow> storage_error + (nat \<times> int) option" where
  "probe_file_event fails p after s =
     (if fails then Inl SqlError
      else Inr (map_option (\<lambda>r. (fr_id r, fr_timestamp_ms r))
        (find (\<lambda>r. after < int (fr_id r) \<and> fr_path r = p \<and> fr_action r \<in> {''Create'', ''Modify''})
          (sort_key fr_id (db_files s)))))"

section \<open>Pages of evidence\<close>

record file_event_range =
  rg_from_ms :: u64
  rg_to_ms :: u64
  rg_total_events :: nat
  rg_truncated :: bool
  rg_events :: "(nat \<times> file_event) list"

record evidence_query =
  eq_from_ms :: u64
  eq_to_ms :: u64
  eq_pid :: "pid option"
  eq_limit :: usize

record 'a evidence_page =
  pg_total_rows :: nat
  pg_truncated :: bool
  pg_rows :: "'a list"

record evidence_bundle =
  eb_from_ms :: u64
  eb_to_ms :: u64
  eb_pid :: "pid option"
  eb_files :: "(nat \<times> file_event) evidence_page"
  eb_detections :: "detection_row evidence_page"
  eb_processes :: "(nat \<times> process_event) evidence_page"

text \<open>Rows in the order of their time, those of the same time in the order of their ids.\<close>

definition in_order :: "('r \<Rightarrow> int) \<Rightarrow> ('r \<Rightarrow> nat) \<Rightarrow> 'r list \<Rightarrow> 'r list" where
  "in_order ts rid rows = sort_key ts (sort_key rid rows)"

definition file_events_in_range ::
  "'v evidence_lib \<Rightarrow> bool \<Rightarrow> u64 \<Rightarrow> u64 \<Rightarrow> usize \<Rightarrow> evidence_store \<Rightarrow> storage_error + file_event_range" where
  "file_events_in_range lib fails from_ms to_ms limit s =
     (if to_ms < from_ms \<or> i64_max < to_ms then Inl InvalidRange
      else if limit = 0 \<or> i64_max < limit then Inl InvalidRange
      else if fails then Inl SqlError
      else let rows = between fr_timestamp_ms (sint from_ms) (sint to_ms) (db_files s)
        in case collect_rows (decode_file_event lib) (sql_limit limit (in_order fr_timestamp_ms fr_id rows)) of
             None \<Rightarrow> Inl SqlError
           | Some events \<Rightarrow>
               Inr \<lparr>rg_from_ms = from_ms, rg_to_ms = to_ms, rg_total_events = length rows,
                    rg_truncated = (length events < length rows), rg_events = events\<rparr>)"

definition matches :: "('r \<Rightarrow> int) \<Rightarrow> ('r \<Rightarrow> pid) \<Rightarrow> evidence_query \<Rightarrow> 'r \<Rightarrow> bool" where
  "matches ts owner q r =
     (sint (eq_from_ms q) \<le> ts r \<and> ts r \<le> sint (eq_to_ms q) \<and> (eq_pid q = None \<or> eq_pid q = Some (owner r)))"

definition query_page ::
  "('r \<Rightarrow> int) \<Rightarrow> ('r \<Rightarrow> pid) \<Rightarrow> ('r \<Rightarrow> nat) \<Rightarrow> ('r \<Rightarrow> 'a option) \<Rightarrow> evidence_query \<Rightarrow> 'r list
     \<Rightarrow> storage_error + 'a evidence_page" where
  "query_page ts owner rid decode q rows =
     (let found = filter (matches ts owner q) rows
      in case collect_rows decode (sql_limit (eq_limit q) (in_order ts rid found)) of
           None \<Rightarrow> Inl SqlError
         | Some page \<Rightarrow>
             Inr \<lparr>pg_total_rows = length found, pg_truncated = (length page < length found), pg_rows = page\<rparr>)"

definition query_bad :: "evidence_query \<Rightarrow> bool" where
  "query_bad q =
     (eq_to_ms q < eq_from_ms q \<or> i64_max < eq_to_ms q \<or> eq_limit q = 0 \<or> 10000 < eq_limit q)"

definition query_evidence ::
  "'v evidence_lib \<Rightarrow> bool \<Rightarrow> evidence_query \<Rightarrow> evidence_store \<Rightarrow> storage_error + evidence_bundle" where
  "query_evidence lib fails q s =
     (if query_bad q then Inl InvalidRange
      else if fails then Inl SqlError
      else case query_page fr_timestamp_ms fr_pid fr_id (decode_file_event lib) q (db_files s) of
        Inl e \<Rightarrow> Inl e
      | Inr files \<Rightarrow>
      case query_page (\<lambda>r. sint (d_timestamp_ms (snd r))) (\<lambda>r. d_pid (snd r)) fst (decode_detection lib) q
             (es_detections (db_events s)) of
        Inl e \<Rightarrow> Inl e
      | Inr detections \<Rightarrow>
      case query_page pw_timestamp_ms pw_pid pw_id (decode_process lib) q (db_processes s) of
        Inl e \<Rightarrow> Inl e
      | Inr processes \<Rightarrow>
          Inr \<lparr>eb_from_ms = eq_from_ms q, eb_to_ms = eq_to_ms q, eb_pid = eq_pid q, eb_files = files,
               eb_detections = detections, eb_processes = processes\<rparr>)"

text \<open>A database of an older version, opened for reading, may have no table of responses.\<close>

definition response_results ::
  "'v evidence_lib \<Rightarrow> bool \<Rightarrow> bool \<Rightarrow> evidence_query \<Rightarrow> evidence_store
     \<Rightarrow> storage_error + (nat \<times> response_audit) evidence_page" where
  "response_results lib table fails q s =
     (if query_bad q then Inl InvalidRange
      else if fails then Inl SqlError
      else if \<not> table then Inr \<lparr>pg_total_rows = 0, pg_truncated = False, pg_rows = []\<rparr>
      else query_page rw_timestamp_ms rw_pid rw_id (decode_response lib) q (db_responses s))"

section \<open>Specification notions\<close>

definition page_of :: "nat \<Rightarrow> ('e \<Rightarrow> u64) \<Rightarrow> (nat \<Rightarrow> 'e \<Rightarrow> 'b) \<Rightarrow> (nat \<times> 'e) list \<Rightarrow> 'b evidence_page" where
  "page_of limit stamp restore found =
     \<lparr>pg_total_rows = length found, pg_truncated = (limit < length found),
      pg_rows = map (\<lambda>(i, e). restore i e) (take limit (sort_key (\<lambda>x. stamp (snd x)) found))\<rparr>"

definition wanted :: "('e \<Rightarrow> u64) \<Rightarrow> ('e \<Rightarrow> pid) \<Rightarrow> evidence_query \<Rightarrow> nat \<times> 'e \<Rightarrow> bool" where
  "wanted stamp owner q x =
     (eq_from_ms q \<le> stamp (snd x) \<and> stamp (snd x) \<le> eq_to_ms q \<and> (eq_pid q = None \<or> eq_pid q = Some (owner (snd x))))"

lemma sint_u64: "sint (w :: u64) = (if w \<le> i64_max then uint w else uint w - 2 ^ 64)"
proof -
  have u: "uint w < 2 ^ 64" "0 \<le> uint w" using uint_lt2p [of w] by simp_all
  have s: "sint w = (uint w + 2 ^ 63) mod 2 ^ 64 - 2 ^ 63"
    by (simp add: sint_uint signed_take_bit_eq_take_bit_shift take_bit_eq_mod)
  have le: "w \<le> i64_max \<longleftrightarrow> uint w < 2 ^ 63" by (simp add: word_le_def i64_max_def) linarith
  have "(uint w + 2 ^ 63) mod 2 ^ 64 = (if uint w < 2 ^ 63 then uint w + 2 ^ 63 else uint w + 2 ^ 63 - 2 ^ 64)"
  proof (cases "uint w < 2 ^ 63")
    case True
    then show ?thesis using u by (simp add: mod_pos_pos_trivial)
  next
    case False
    then have "(uint w + 2 ^ 63) mod 2 ^ 64 = (uint w + 2 ^ 63 - 2 ^ 64) mod 2 ^ 64"
      by (simp only: minus_mod_self2)
    also have "\<dots> = uint w + 2 ^ 63 - 2 ^ 64" using False u by (intro mod_pos_pos_trivial) simp_all
    finally show ?thesis using False by simp
  qed
  then show ?thesis unfolding s le by simp
qed

lemma between_i64:
  assumes "lo \<le> i64_max" "hi \<le> (i64_max :: u64)"
  shows "sint lo \<le> sint w \<and> sint w \<le> sint hi \<longleftrightarrow> lo \<le> w \<and> w \<le> hi"
proof -
  have "sint lo = uint lo" using assms(1) by (simp add: sint_u64)
  then have lo: "0 \<le> sint lo" by (simp only: uint_ge_0)
  show ?thesis
  proof (cases "w \<le> i64_max")
    case True
    then show ?thesis using assms by (auto simp: sint_u64 word_le_def)
  next
    case False
    then have "sint w < 0" using uint_lt2p [of w] by (simp add: sint_u64)
    then have "\<not> sint lo \<le> sint w" using lo by linarith
    moreover have "\<not> w \<le> hi" using False assms(2) order_trans by blast
    ultimately show ?thesis by simp
  qed
qed

lemma sort_key_map: "sort_key f (map g xs) = map g (sort_key (\<lambda>x. f (g x)) xs)"
proof -
  have "insort_key f (g x) (map g ys) = map g (insort_key (\<lambda>x. f (g x)) x ys)" for x ys
    by (induction ys) auto
  then show ?thesis by (induction xs) auto
qed

lemma sort_key_cong_on:
  assumes "\<And>x y. x \<in> set xs \<Longrightarrow> y \<in> set xs \<Longrightarrow> f x \<le> f y \<longleftrightarrow> g x \<le> g y"
  shows "sort_key f xs = sort_key g xs"
proof -
  have ins: "insort_key f x ys = insort_key g x ys" if "\<forall>y\<in>set ys. f x \<le> f y \<longleftrightarrow> g x \<le> g y" for x ys
    using that by (induction ys) auto
  show ?thesis using assms by (induction xs) (auto intro!: ins)
qed

lemma enumerate_mem: "x \<in> set (enumerate n xs) \<Longrightarrow> snd x \<in> set xs"
proof -
  assume "x \<in> set (enumerate n xs)"
  then have "snd x \<in> set (map snd (enumerate n xs))" by (simp only: list.set_map imageI)
  then show ?thesis by (simp only: map_snd_enumerate)
qed

lemma sorted_enumerate: "sorted (map fst (enumerate n xs))"
  by (simp add: map_fst_enumerate)

locale logged_table =
  fixes ts :: "'r \<Rightarrow> int" and row_pid :: "'r \<Rightarrow> pid" and rid :: "'r \<Rightarrow> nat" and decode :: "'r \<Rightarrow> 'b option"
    and encode :: "nat \<Rightarrow> 'e \<Rightarrow> 'r" and stamp :: "'e \<Rightarrow> u64" and owner :: "'e \<Rightarrow> pid"
    and readable :: "'e \<Rightarrow> bool" and restore :: "nat \<Rightarrow> 'e \<Rightarrow> 'b"
  assumes ts_encode: "ts (encode i e) = sint (stamp e)"
    and pid_encode: "row_pid (encode i e) = owner e"
    and rid_encode: "rid (encode i e) = i"
    and decode_encode: "readable e \<Longrightarrow> stamp e \<le> i64_max \<Longrightarrow> decode (encode i e) = Some (restore i e)"
begin

lemma matches_encode:
  assumes "\<not> query_bad q"
  shows "matches ts row_pid q (encode i e) = wanted stamp owner q (i, e)"
  using assms between_i64 [of "eq_from_ms q" "eq_to_ms q" "stamp e"] order_trans [of "eq_from_ms q" "eq_to_ms q" i64_max]
  by (auto simp: matches_def wanted_def ts_encode pid_encode query_bad_def not_less)

lemma ordered_encode:
  assumes "sorted (map fst rows)" "\<And>x. x \<in> set rows \<Longrightarrow> stamp (snd x) \<le> i64_max"
  shows "in_order ts rid (map (\<lambda>(i, e). encode i e) rows) = map (\<lambda>(i, e). encode i e) (sort_key (\<lambda>x. stamp (snd x)) rows)"
proof -
  have "sort_key rid (map (\<lambda>(i, e). encode i e) rows) = map (\<lambda>(i, e). encode i e) rows"
    using assms(1) by (intro sort_key_id_if_sorted) (simp add: comp_def case_prod_unfold rid_encode)
  moreover have "sort_key (\<lambda>x. ts (case x of (i, e) \<Rightarrow> encode i e)) rows = sort_key (\<lambda>x. stamp (snd x)) rows"
    using assms(2) by (intro sort_key_cong_on) (auto simp: ts_encode word_le_def sint_u64)
  ultimately show ?thesis by (simp add: in_order_def sort_key_map)
qed

lemma page_of_log:
  assumes "\<not> query_bad q" "sorted (map fst rows)" "\<And>x. x \<in> set rows \<Longrightarrow> wanted stamp owner q x \<Longrightarrow> readable (snd x)"
  shows "query_page ts row_pid rid decode q (map (\<lambda>(i, e). encode i e) rows)
    = Inr (page_of (unat (eq_limit q)) stamp restore (filter (wanted stamp owner q) rows))"
proof -
  let ?found = "filter (wanted stamp owner q) rows"
  let ?page = "take (unat (eq_limit q)) (sort_key (\<lambda>x. stamp (snd x)) ?found)"
  have found: "filter (matches ts row_pid q) (map (\<lambda>(i, e). encode i e) rows) = map (\<lambda>(i, e). encode i e) ?found"
    using matches_encode [OF assms(1)] by (simp add: filter_map comp_def case_prod_unfold)
  have le: "stamp (snd x) \<le> i64_max" if "x \<in> set ?found" for x
    using that assms(1) by (auto simp: wanted_def query_bad_def)
  have ordered: "in_order ts rid (map (\<lambda>(i, e). encode i e) ?found) = map (\<lambda>(i, e). encode i e) (sort_key (\<lambda>x. stamp (snd x)) ?found)"
    using assms(2) le by (intro ordered_encode) (auto intro: sorted_filter)
  have limit: "sql_limit (eq_limit q) xs = take (unat (eq_limit q)) xs" for xs :: "'r list"
    using assms(1) sint_u64 [of "eq_limit q"] order_trans [of "eq_limit q" 10000 i64_max]
    by (auto simp: sql_limit_def query_bad_def i64_max_def not_less)
  have "collect_rows decode (map (\<lambda>(i, e). encode i e) ?page) = Some (map decode' (map (\<lambda>(i, e). encode i e) ?page))"
    if "decode' = (\<lambda>r. the (decode r))" for decode'
  proof (rule collect_rows_all)
    fix r assume "r \<in> set (map (\<lambda>(i, e). encode i e) ?page)"
    then obtain i e where "r = encode i e" "(i, e) \<in> set ?found"
      by (auto dest!: in_set_takeD)
    then show "decode r = Some (decode' r)"
      using decode_encode [of e i] assms(3) [of "(i, e)"] le [of "(i, e)"] that by simp
  qed
  moreover have "map (\<lambda>r. the (decode r)) (map (\<lambda>(i, e). encode i e) ?page) = map (\<lambda>(i, e). restore i e) ?page"
    using decode_encode assms(3) le by (auto dest!: in_set_takeD)
  ultimately have "collect_rows decode (map (\<lambda>(i, e). encode i e) ?page) = Some (map (\<lambda>(i, e). restore i e) ?page)"
    by simp
  moreover have "length (filter (wanted stamp owner q) rows) = length ?found" by simp
  ultimately show ?thesis
    unfolding query_page_def Let_def found ordered limit page_of_def
    by (auto simp: take_map min_def not_less)
qed

lemma page_of_numbered:
  assumes "\<not> query_bad q" "\<forall>e\<in>set es. readable e"
  shows "query_page ts row_pid rid decode q (map (\<lambda>(i, e). encode i e) (enumerate n es))
    = Inr (page_of (unat (eq_limit q)) stamp restore (filter (wanted stamp owner q) (enumerate n es)))"
  using page_of_log [OF assms(1) sorted_enumerate] assms(2) enumerate_mem by blast

end

section \<open>Specification notions\<close>

text \<open>
  What the JSON codec promises: the text of an event is an object, and setting its columns replaces
  those fields of the event it decodes to.
\<close>

definition with_columns :: "u64 \<Rightarrow> pid \<Rightarrow> string \<Rightarrow> file_action \<Rightarrow> u64 option \<Rightarrow> f64 option \<Rightarrow> file_event \<Rightarrow> file_event" where
  "with_columns ts p path action sz entropy e =
     e\<lparr>fe_timestamp_ms := ts, fe_pid := p, fe_path := path, fe_action := action, fe_size := sz, fe_entropy := entropy\<rparr>"

definition file_codec :: "'v evidence_lib \<Rightarrow> bool" where
  "file_codec lib =
     ((\<forall>e json v. el_file_json lib e = Some json \<longrightarrow> el_parse_value lib json = Some v \<longrightarrow> el_is_object lib v)
      \<and> (\<forall>v e ts p path action sz entropy. el_is_object lib v \<longrightarrow> el_file_event lib v = Some e \<longrightarrow> valid_entropy entropy
           \<longrightarrow> el_file_event lib (el_set_columns lib ts p path action sz entropy v)
                 = Some (with_columns ts p path action sz entropy e)))"

definition reread_file :: "'v evidence_lib \<Rightarrow> file_event \<Rightarrow> file_event option" where
  "reread_file lib e =
     Option.bind (Option.bind (el_file_json lib e) (el_parse_value lib)) (el_file_event lib)"

definition readable_file :: "'v evidence_lib \<Rightarrow> file_event \<Rightarrow> bool" where
  "readable_file lib e =
     (file_codec lib \<and> reread_file lib e \<noteq> None \<and> valid_entropy (stored_real (fe_entropy e))
      \<and> (case fe_size e of None \<Rightarrow> True | Some n \<Rightarrow> n \<le> i64_max))"

definition restored_file :: "'v evidence_lib \<Rightarrow> nat \<Rightarrow> file_event \<Rightarrow> nat \<times> file_event" where
  "restored_file lib i e =
     (i, with_columns (fe_timestamp_ms e) (fe_pid e) (fe_path e) (fe_action e) (fe_size e)
           (stored_real (fe_entropy e)) (the (reread_file lib e)))"

definition readable_process :: "'v evidence_lib \<Rightarrow> process_event \<Rightarrow> bool" where
  "readable_process lib e = (Option.bind (el_process_json lib e) (el_parse_process lib) \<noteq> None)"

definition restored_process :: "'v evidence_lib \<Rightarrow> nat \<Rightarrow> process_event \<Rightarrow> nat \<times> process_event" where
  "restored_process lib i e = (i, the (Option.bind (el_process_json lib e) (el_parse_process lib)))"

definition readable_response :: "'v evidence_lib \<Rightarrow> response_audit \<Rightarrow> bool" where
  "readable_response lib a = (Option.bind (el_response_json lib a) (el_parse_response lib) \<noteq> None)"

definition restored_response :: "'v evidence_lib \<Rightarrow> nat \<Rightarrow> response_audit \<Rightarrow> nat \<times> response_audit" where
  "restored_response lib i a = (i, the (Option.bind (el_response_json lib a) (el_parse_response lib)))"

definition readable_detection :: "'v evidence_lib \<Rightarrow> detection \<Rightarrow> bool" where
  "readable_detection lib d = (stored_paths lib (0, d) \<noteq> None)"

definition restored_detection :: "'v evidence_lib \<Rightarrow> nat \<Rightarrow> detection \<Rightarrow> detection_row" where
  "restored_detection lib i d = detection_row_of (i, d) (the (stored_paths lib (i, d)))"

text \<open>Any sequence of writes, and the inserts among them that took effect.\<close>

datatype evidence_call =
    InsertFile file_event | InsertProcess process_event | InsertResponse response_audit | Outbox outbox_call

fun evidence_step :: "'v evidence_lib \<Rightarrow> evidence_call \<times> sql_env \<Rightarrow> evidence_store \<Rightarrow> evidence_store" where
  "evidence_step lib (InsertFile e, env) s = fst (insert_file_event lib env e s)"
| "evidence_step lib (InsertProcess e, env) s = fst (insert_process_event lib env e s)"
| "evidence_step lib (InsertResponse a, env) s = fst (insert_response_result lib env a s)"
| "evidence_step lib (Outbox call, env) s = s\<lparr>db_events := apply_call (el_storage lib) (call, env) (db_events s)\<rparr>"

definition takes_effect :: "sql_env \<Rightarrow> bool" where
  "takes_effect env = (\<not> sq_fails env \<and> sq_commit env \<noteq> NotCommitted)"

fun written_file :: "'v evidence_lib \<Rightarrow> evidence_call \<times> sql_env \<Rightarrow> file_event list" where
  "written_file lib (InsertFile e, env) = (if takes_effect env \<and> el_file_json lib e \<noteq> None then [e] else [])"
| "written_file lib _ = []"

fun written_process :: "'v evidence_lib \<Rightarrow> evidence_call \<times> sql_env \<Rightarrow> process_event list" where
  "written_process lib (InsertProcess e, env) =
     (if takes_effect env \<and> el_process_json lib e \<noteq> None
         \<and> (case pe_start_time_ticks e of None \<Rightarrow> True | Some t \<Rightarrow> t \<le> i64_max) then [e] else [])"
| "written_process lib _ = []"

fun written_response :: "'v evidence_lib \<Rightarrow> evidence_call \<times> sql_env \<Rightarrow> response_audit list" where
  "written_response lib (InsertResponse a, env) =
     (if takes_effect env \<and> el_response_json lib a \<noteq> None \<and> audit_in_range a then [a] else [])"
| "written_response lib _ = []"

definition written :: "'v evidence_lib \<Rightarrow> file_event list \<Rightarrow> process_event list \<Rightarrow> response_audit list \<Rightarrow> evidence_store \<Rightarrow> bool" where
  "written lib fs ps as s =
     (db_files s = map (\<lambda>(i, e). file_row_of lib i e) (enumerate 1 fs) \<and> db_file_seq s = length fs
      \<and> db_processes s = map (\<lambda>(i, e). process_row_of lib i e) (enumerate 1 ps) \<and> db_process_seq s = length ps
      \<and> db_responses s = map (\<lambda>(i, a). response_row_of lib i a) (enumerate 1 as) \<and> db_response_seq s = length as
      \<and> outbox_inv (el_storage lib) (db_events s) \<and> jobs_inv (db_events s))"

interpretation files: logged_table fr_timestamp_ms fr_pid fr_id "decode_file_event lib" "file_row_of lib"
  fe_timestamp_ms fe_pid "readable_file lib" "restored_file lib" for lib
proof unfold_locales
  fix e :: file_event and i
  assume ok: "readable_file lib e" and ts: "fe_timestamp_ms e \<le> i64_max"
  then obtain json v e0 where v: "el_file_json lib e = Some json" "el_parse_value lib json = Some v"
    "el_file_event lib v = Some e0" by (auto simp: readable_file_def reread_file_def bind_eq_Some_conv)
  have act: "action_of (action_name a) = Some a" for a by (cases a) (simp_all add: action_of_def)
  have u: "read_u64 (sint w) = Some w" if "w \<le> i64_max" for w :: u64
    using that by (simp add: read_u64_def sint_u64)
  then have "read_optional_u64 (map_option sint (fe_size e)) = Some (fe_size e)"
    using ok by (cases "fe_size e") (auto simp: readable_file_def read_optional_u64_def)
  then show "decode_file_event lib (file_row_of lib i e) = Some (restored_file lib i e)"
    using v ok u [OF ts] unfolding readable_file_def file_codec_def
    by (auto simp: decode_file_event_def file_row_of_def act restored_file_def reread_file_def)
qed (simp_all add: file_row_of_def)

interpretation processes: logged_table pw_timestamp_ms pw_pid pw_id "decode_process lib" "process_row_of lib"
  pe_timestamp_ms pe_pid "readable_process lib" "restored_process lib" for lib
  by unfold_locales (auto simp: process_row_of_def decode_process_def readable_process_def restored_process_def bind_eq_Some_conv)

interpretation responses: logged_table rw_timestamp_ms rw_pid rw_id "decode_response lib" "response_row_of lib"
  au_timestamp_ms au_pid "readable_response lib" "restored_response lib" for lib
  by unfold_locales (auto simp: response_row_of_def decode_response_def readable_response_def restored_response_def bind_eq_Some_conv)

interpretation detections: logged_table "\<lambda>r. sint (d_timestamp_ms (snd r))" "\<lambda>r. d_pid (snd r)" fst "decode_detection lib" Pair
  d_timestamp_ms d_pid "readable_detection lib" "restored_detection lib" for lib
  by unfold_locales (auto simp: decode_detection_def readable_detection_def restored_detection_def stored_paths_def)

lemma enumerate_snoc: "enumerate n (xs @ [x]) = enumerate n xs @ [(n + length xs, x)]"
  by (simp add: enumerate_append_eq)

lemma evidence_step_written:
  assumes "written lib fs ps as s"
  shows "written lib (fs @ written_file lib c) (ps @ written_process lib c) (as @ written_response lib c) (evidence_step lib c s)"
proof (cases c)
  case (Pair call env)
  show ?thesis
  proof (cases call)
    case (InsertFile e)
    then show ?thesis using assms Pair
      by (cases "sq_commit env") (auto simp: written_def insert_file_event_def commit_def takes_effect_def enumerate_snoc)
  next
    case (InsertProcess e)
    then show ?thesis using assms Pair
      by (cases "sq_commit env"; cases "pe_start_time_ticks e")
        (auto simp: written_def insert_process_event_def commit_def takes_effect_def enumerate_snoc)
  next
    case (InsertResponse a)
    then show ?thesis using assms Pair
      by (cases "sq_commit env") (auto simp: written_def insert_response_result_def commit_def takes_effect_def enumerate_snoc)
  next
    case (Outbox call)
    then show ?thesis using assms Pair apply_call_inv [of "el_storage lib" "db_events s" "(call, env)"]
      by (simp add: written_def)
  qed
qed

lemma run_written:
  "written lib fs ps as s \<Longrightarrow>
   written lib (fs @ concat (map (written_file lib) cs)) (ps @ concat (map (written_process lib) cs))
     (as @ concat (map (written_response lib) cs)) (fold (evidence_step lib) cs s)"
proof (induction cs arbitrary: fs ps as s)
  case (Cons c cs)
  show ?case using Cons.IH [OF evidence_step_written [OF Cons.prems]] by simp
qed simp

lemma empty_written: "written lib [] [] [] open_empty"
  by (simp add: written_def open_empty_def init_outbox_inv)

section \<open>Specification notions\<close>

definition sample_file_event :: file_event where
  "sample_file_event =
     \<lparr>fe_timestamp_ms = 20, fe_pid = 42, fe_path = ''/srv/a'', fe_action = Modify, fe_size = Some 5,
      fe_entropy = Some (Fin 7), fe_process = None, fe_content = None\<rparr>"

definition sample_evidence_lib :: "file_event evidence_lib" where
  "sample_evidence_lib =
     \<lparr>el_storage = sample_storage_lib, el_file_json = (\<lambda>e. if e = sample_file_event then Some ''f'' else None),
      el_process_json = (\<lambda>_. None), el_response_json = (\<lambda>_. None), el_parse_value = (\<lambda>_. Some sample_file_event),
      el_is_object = (\<lambda>_. True), el_empty_object = sample_file_event, el_set_columns = with_columns,
      el_file_event = Some, el_parse_process = (\<lambda>_. None), el_parse_response = (\<lambda>_. None), el_parse_paths = (\<lambda>_. Some [])\<rparr>"

definition sample_writes :: "(evidence_call \<times> sql_env) list" where
  "sample_writes =
     [(InsertFile sample_file_event, sample_sql_env ''x''),
      (InsertFile sample_file_event, (sample_sql_env ''x'')\<lparr>sq_commit := NotCommitted\<rparr>)]"


lemma sample_file_readable: "readable_file sample_evidence_lib sample_file_event"
  by (simp add: readable_file_def file_codec_def reread_file_def sample_evidence_lib_def valid_entropy_def stored_real_def)
      (simp add: sample_file_event_def i64_max_def)


end
