(* ===== verification/Sensor_Health.thy ===== *)
theory Sensor_Health
  imports Argos_Common
begin

text \<open>
  Crate \<^verbatim>\<open>argos-sensor\<close>, \<^verbatim>\<open>health.rs\<close>: the counters of a sensor and the delivery of its events into the
  bounded channel of the agent, which never waits.
\<close>

section \<open>Counters and channel\<close>

record sensor_health =
  sh_alive :: bool
  sh_delivered_events :: u64
  sh_dropped_events :: u64
  sh_errors :: u64
  sh_kernel_overflows :: u64
  sh_last_event_ms :: "u64 option"

record sensor_counters =
  ct_alive :: bool
  ct_delivered :: u64
  ct_dropped :: u64
  ct_errors :: u64
  ct_overflows :: u64
  ct_last_event :: u64

definition counters_default :: sensor_counters where
  "counters_default =
     \<lparr>ct_alive = False, ct_delivered = 0, ct_dropped = 0, ct_errors = 0, ct_overflows = 0, ct_last_event = 0\<rparr>"

definition sensor_start :: "sensor_counters \<Rightarrow> sensor_counters" where
  "sensor_start c = c\<lparr>ct_alive := True\<rparr>"

definition sensor_stop :: "sensor_counters \<Rightarrow> sensor_counters" where
  "sensor_stop c = c\<lparr>ct_alive := False\<rparr>"

definition sensor_error :: "sensor_counters \<Rightarrow> sensor_counters" where
  "sensor_error c = c\<lparr>ct_errors := ct_errors c + 1\<rparr>"

definition sensor_overflow :: "sensor_counters \<Rightarrow> sensor_counters" where
  "sensor_overflow c = c\<lparr>ct_overflows := ct_overflows c + 1\<rparr>"

definition sensor_snapshot :: "sensor_counters \<Rightarrow> sensor_health" where
  "sensor_snapshot c =
     \<lparr>sh_alive = ct_alive c, sh_delivered_events = ct_delivered c, sh_dropped_events = ct_dropped c,
      sh_errors = ct_errors c, sh_kernel_overflows = ct_overflows c,
      sh_last_event_ms = (if ct_last_event c \<noteq> 0 then Some (ct_last_event c) else None)\<rparr>"

datatype try_send_error = Full | Closed

record 'e channel =
  cn_capacity :: nat
  cn_queue :: "'e list"
  cn_open :: bool

definition try_send :: "'e \<Rightarrow> 'e channel \<Rightarrow> try_send_error + 'e channel" where
  "try_send e ch =
     (if \<not> cn_open ch then Inl Closed
      else if cn_capacity ch \<le> length (cn_queue ch) then Inl Full
      else Inr (ch\<lparr>cn_queue := cn_queue ch @ [e]\<rparr>))"

definition deliver :: "u64 \<Rightarrow> 'e \<Rightarrow> 'e channel \<times> sensor_counters \<Rightarrow> ('e channel \<times> sensor_counters) \<times> bool" where
  "deliver now e st =
     (case st of (ch, c) \<Rightarrow>
        let c = c\<lparr>ct_last_event := now\<rparr>
        in case try_send e ch of
             Inr ch' \<Rightarrow> ((ch', c\<lparr>ct_delivered := ct_delivered c + 1\<rparr>), True)
           | Inl Full \<Rightarrow> ((ch, c\<lparr>ct_dropped := ct_dropped c + 1\<rparr>), True)
           | Inl Closed \<Rightarrow> ((ch, sensor_stop c), False))"

section \<open>Specification notions\<close>

text \<open>A sensor and its consumer at work; the run keeps the events offered and those received.\<close>

datatype 'e sensor_act = Deliver u64 'e | Receive | Fails | Overflows | Stops | Closes

record 'e sensor_run =
  ru_state :: "'e channel \<times> sensor_counters"
  ru_offered :: "'e list"
  ru_received :: "'e list"

definition sensor_begin :: "nat \<Rightarrow> 'e sensor_run" where
  "sensor_begin capacity =
     \<lparr>ru_state = (\<lparr>cn_capacity = capacity, cn_queue = [], cn_open = True\<rparr>, sensor_start counters_default),
      ru_offered = [], ru_received = []\<rparr>"

fun sensor_step :: "'e sensor_act \<Rightarrow> 'e sensor_run \<Rightarrow> 'e sensor_run" where
  "sensor_step (Deliver now e) r = r\<lparr>ru_state := fst (deliver now e (ru_state r)), ru_offered := ru_offered r @ [e]\<rparr>"
| "sensor_step Receive r =
     (case cn_queue (fst (ru_state r)) of
        [] \<Rightarrow> r
      | e # q \<Rightarrow> r\<lparr>ru_state := ((fst (ru_state r))\<lparr>cn_queue := q\<rparr>, snd (ru_state r)), ru_received := ru_received r @ [e]\<rparr>)"
| "sensor_step Fails r = r\<lparr>ru_state := (fst (ru_state r), sensor_error (snd (ru_state r)))\<rparr>"
| "sensor_step Overflows r = r\<lparr>ru_state := (fst (ru_state r), sensor_overflow (snd (ru_state r)))\<rparr>"
| "sensor_step Stops r = r\<lparr>ru_state := (fst (ru_state r), sensor_stop (snd (ru_state r)))\<rparr>"
| "sensor_step Closes r = r\<lparr>ru_state := ((fst (ru_state r))\<lparr>cn_open := False\<rparr>, snd (ru_state r))\<rparr>"

definition losses_counted :: "'e sensor_run \<Rightarrow> bool" where
  "losses_counted r =
     (\<exists>n. n \<le> length (ru_offered r) \<and> ct_dropped (snd (ru_state r)) = of_nat n
        \<and> (n = 0 \<longrightarrow> ct_alive (snd (ru_state r)) \<longrightarrow> ru_received r @ cn_queue (fst (ru_state r)) = ru_offered r))"

section \<open>Losses are counted\<close>

lemma sensor_begin_counts: "losses_counted (sensor_begin capacity)"
  by (auto simp: losses_counted_def sensor_begin_def sensor_start_def counters_default_def)

lemma sensor_step_counts: "losses_counted r \<Longrightarrow> losses_counted (sensor_step x r)"
proof (cases x)
  case (Deliver now e)
  obtain ch c where st: "ru_state r = (ch, c)" by fastforce
  assume "losses_counted r"
  then obtain n where n: "n \<le> length (ru_offered r)" "ct_dropped c = of_nat n"
    "n = 0 \<longrightarrow> ct_alive c \<longrightarrow> ru_received r @ cn_queue ch = ru_offered r" by (auto simp: losses_counted_def st)
  show ?thesis
  proof (cases "try_send e ch")
    case (Inl err)
    show ?thesis
    proof (cases err)
      case Full
      have "(of_nat n :: u64) + 1 = of_nat (Suc n)" by simp
      then show ?thesis using n Inl Full Deliver
        by (auto simp: losses_counted_def st deliver_def Let_def intro!: exI [of _ "Suc n"])
    next
      case Closed
      then show ?thesis using n Inl Deliver
        by (auto simp: losses_counted_def st deliver_def sensor_stop_def Let_def intro!: exI [of _ n])
    qed
  next
    case (Inr ch')
    then have "cn_queue ch' = cn_queue ch @ [e]" by (auto simp: try_send_def split: if_splits)
    then show ?thesis using n Inr Deliver by (auto simp: losses_counted_def st deliver_def Let_def intro!: exI [of _ n])
  qed
qed (auto simp: losses_counted_def sensor_error_def sensor_overflow_def sensor_stop_def split: list.splits)

lemma sensor_run_counts: "losses_counted r \<Longrightarrow> losses_counted (fold sensor_step xs r)"
  by (induction xs arbitrary: r) (simp_all add: sensor_step_counts)

lemma offered_length: "length (ru_offered (fold sensor_step xs r)) \<le> length (ru_offered r) + length xs"
proof (induction xs arbitrary: r)
  case (Cons x xs)
  have "length (ru_offered (sensor_step x r)) \<le> Suc (length (ru_offered r))"
    by (cases x) (simp_all split: list.split)
  then show ?case using Cons [of "sensor_step x r"] by simp
qed simp

lemma quiet_sensor_lost_nothing:
  assumes "r = fold sensor_step xs (sensor_begin capacity)" "length xs < 2 ^ 64"
    and "sh_alive (sensor_snapshot (snd (ru_state r)))" "sh_dropped_events (sensor_snapshot (snd (ru_state r))) = 0"
  shows "ru_received r @ cn_queue (fst (ru_state r)) = ru_offered r"
proof -
  obtain n where n: "n \<le> length (ru_offered r)" "ct_dropped (snd (ru_state r)) = of_nat n"
    "n = 0 \<longrightarrow> ct_alive (snd (ru_state r)) \<longrightarrow> ru_received r @ cn_queue (fst (ru_state r)) = ru_offered r"
    using sensor_run_counts [OF sensor_begin_counts [of capacity], of xs] assms(1) by (auto simp: losses_counted_def)
  have "length (ru_offered r) \<le> length xs"
    using offered_length [of xs "sensor_begin capacity"] assms(1) by (simp add: sensor_begin_def)
  then have "n < 2 ^ 64" using n(1) assms(2) by linarith
  moreover have "(of_nat n :: u64) = 0" using n(2) assms(4) by (simp add: sensor_snapshot_def)
  ultimately have "n = 0" by (simp add: word_of_nat_eq_0_iff nat_dvd_not_less dvd_imp_le) (metis dvd_imp_le not_less not_gr_zero)
  then show ?thesis using n(3) assms(3) by (simp add: sensor_snapshot_def)
qed

end
