(* ===== verification/Agent_Pipeline.thy ===== *)
theory Agent_Pipeline
  imports Detect_Engine Policy_Trust Agent_Semantic Agent_Response Agent_Reporter Storage_Evidence Sensor_Health
begin

text \<open>
  Crate \<^verbatim>\<open>argos-agent\<close>, \<^verbatim>\<open>main.rs\<close>: the start of the agent, what it does with one file event, from the
  content sample to the stored detections, the guard on the validity of the policy and the loop; with
  the queue of \<^verbatim>\<open>backup_worker.rs\<close>.  Files, kernel answers, clock readings and the faults of the
  database are arguments of the step.
\<close>

section \<open>Code of other crates\<close>

record 'v pipeline_lib =
  pb_evidence :: "'v evidence_lib"
  pb_log2 :: "f64 \<Rightarrow> f64"
  pb_semantic_text :: "semantic_error \<Rightarrow> string"
  pb_response_text :: "response_error \<Rightarrow> string"

section \<open>The backup queue\<close>

record backup_worker =
  bw_capacity :: nat
  bw_queue :: "(path \<times> pid) list"
  bw_running :: bool
  bw_queued :: u64
  bw_dropped :: u64

definition backup_spawn :: "backup_config \<Rightarrow> bool \<Rightarrow> backup_worker option" where
  "backup_spawn config opens =
     (if bk_queue_capacity config = 0 \<or> bk_io_bytes_per_sec config = 0 \<or> \<not> opens then None
      else Some \<lparr>bw_capacity = unat (bk_queue_capacity config), bw_queue = [], bw_running = True, bw_queued = 0,
                 bw_dropped = 0\<rparr>)"

definition backup_receive :: "backup_worker \<Rightarrow> backup_worker \<times> (path \<times> pid) option" where
  "backup_receive b =
     (case bw_queue b of
        [] \<Rightarrow> (b, None)
      | job # jobs \<Rightarrow> (b\<lparr>bw_queue := jobs, bw_queued := bw_queued b - 1\<rparr>, Some job))"

definition backup_enqueue :: "file_event \<Rightarrow> backup_worker \<Rightarrow> backup_worker" where
  "backup_enqueue ev b =
     (if bw_running b \<and> length (bw_queue b) < bw_capacity b
      then b\<lparr>bw_queue := bw_queue b @ [(fe_path ev, fe_pid ev)], bw_queued := bw_queued b + 1\<rparr>
      else b\<lparr>bw_dropped := bw_dropped b + 1\<rparr>)"

section \<open>The policy guard\<close>

record policy_runtime =
  pr_version :: u64
  pr_sha256 :: string
  pr_not_before_ms :: u64
  pr_expires_at_ms :: u64
  pr_invalid :: bool

definition guard_policy_time ::
  "policy_runtime option \<Rightarrow> response_config \<Rightarrow> u64 \<Rightarrow> policy_runtime option \<times> response_config" where
  "guard_policy_time policy response now =
     (case policy of
        None \<Rightarrow> (None, response)
      | Some st \<Rightarrow>
          if pr_invalid st \<or> now < pr_not_before_ms st \<or> pr_expires_at_ms st \<le> now
          then (Some (st\<lparr>pr_invalid := True\<rparr>), response\<lparr>rc_auto_block := False\<rparr>)
          else (Some st, response))"

section \<open>One file event\<close>

text \<open>
  The variables of the loop.  \<open>pn_agent_id\<close> is the id of the reporter, if there is one, and
  \<open>pn_wake\<close> its pending wake signal.
\<close>

record pipeline =
  pn_config :: agent_config
  pn_engine :: detection_engine
  pn_responder :: responder
  pn_sampler :: "content_sampler option"
  pn_semantic :: "semantic_monitor option"
  pn_policy :: "policy_runtime option"
  pn_backup :: "backup_worker option"
  pn_agent_id :: "string option"
  pn_wake :: bool
  pn_sensor_healthy :: bool
  pn_analysis_incomplete :: bool
  pn_store :: evidence_store

record pipeline_env =
  px_reads :: "io_error + (io_error + string) list"
  px_opened :: "io_error + opened_file"
  px_files :: "path \<Rightarrow> file_view"
  px_os :: response_os
  px_loop_now :: u64
  px_sample_now :: u64
  px_guard_now :: u64
  px_audit_now :: u64
  px_audit_sql :: sql_env
  px_event_sql :: sql_env
  px_detection_sql :: "nat \<Rightarrow> sql_env"

text \<open>The content of the event: a whole-file entropy without a sampler, else a sample.\<close>

definition sample_event ::
  "'v pipeline_lib \<Rightarrow> pipeline_env \<Rightarrow> file_event \<Rightarrow> pipeline \<Rightarrow> pipeline \<times> file_event \<times> bool" where
  "sample_event lib env ev p =
     (case pn_sampler p of
        None \<Rightarrow>
          (p, if fe_action ev = Modify \<and> 0 < dc_entropy_sample_bytes (ag_detection (pn_config p))
              then ev\<lparr>fe_entropy := (case file_entropy (pb_log2 lib) (px_reads env)
                           (dc_entropy_sample_bytes (ag_detection (pn_config p))) of Inl _ \<Rightarrow> None | Inr e \<Rightarrow> Some e)\<rparr>
              else ev, False)
      | Some sampler \<Rightarrow>
          if fe_action ev \<notin> {Create, Modify} then (p, ev, False)
          else case observe_content (pb_log2 lib) sampler (fe_path ev) (px_opened env) (px_sample_now env) of
            (sampler', Inr content) \<Rightarrow>
              (p\<lparr>pn_sampler := Some sampler'\<rparr>,
               ev\<lparr>fe_entropy := (case ce_samples content of [] \<Rightarrow> None | s # _ \<Rightarrow> Some (cs_entropy s)),
                  fe_content := Some content\<rparr>, False)
          | (sampler', Inl _) \<Rightarrow>
              (p\<lparr>pn_sampler := Some sampler'\<rparr>, ev\<lparr>fe_content := None, fe_entropy := None\<rparr>, True))"

definition semantic_step ::
  "'v pipeline_lib \<Rightarrow> pipeline_env \<Rightarrow> file_event \<Rightarrow> pipeline \<Rightarrow> pipeline \<times> detection list" where
  "semantic_step lib env ev p =
     (case pn_semantic p of
        None \<Rightarrow> (p, [])
      | Some m \<Rightarrow>
          (case semantic_observe (px_files env) (pb_semantic_text lib) ev m of
             (m', alert) \<Rightarrow> (p\<lparr>pn_semantic := Some m'\<rparr>, case alert of None \<Rightarrow> [] | Some d \<Rightarrow> [d])))"

text \<open>The refusal of a process without an identity, a UTF-8 text.\<close>

definition unknown_identity_text :: string where
  "unknown_identity_text =
     [CHR 0xED, CHR 0x94, CHR 0x84, CHR 0xEB, CHR 0xA1, CHR 0x9C, CHR 0xEC, CHR 0x84, CHR 0xB8, CHR 0xEC, CHR 0x8A, CHR 0xA4,
      CHR 0x20, CHR 0xEC, CHR 0x8B, CHR 0x9C, CHR 0xEC, CHR 0x9E, CHR 0x91, CHR 0x20, CHR 0xEC, CHR 0x8B, CHR 0xA0, CHR 0xEC,
      CHR 0x9B, CHR 0x90, CHR 0x20, CHR 0xEB, CHR 0xAF, CHR 0xB8, CHR 0xED, CHR 0x99, CHR 0x95, CHR 0xEC, CHR 0x9D, CHR 0xB8]"

text \<open>The response: the signals sent, and the outcome and error of the audit row, if any.\<close>

definition respond ::
  "'v pipeline_lib \<Rightarrow> pipeline_env \<Rightarrow> responder \<Rightarrow> response_config \<Rightarrow> file_event \<Rightarrow> evaluation
     \<Rightarrow> signal_target list \<times> (string \<times> string option) option" where
  "respond lib env r response ev ass =
     (if should_block ass response
      then (case fe_process ev of
              Some ctx \<Rightarrow>
                (case execute (px_os env) r (KillProcessInstance (ev_pid ass) (fp_start_time_ticks ctx) (fp_boot_id ctx)) of
                   (sent, Inr _) \<Rightarrow> (sent, Some (''succeeded'', None))
                 | (sent, Inl e) \<Rightarrow> (sent, Some (''failed_or_unconfirmed'', Some (pb_response_text lib e))))
            | None \<Rightarrow> ([], Some (''rejected'', Some unknown_identity_text)))
      else if block_candidate ass response then ([], Some (''observed_threshold'', None))
      else ([], None))"

definition audit_step ::
  "'v pipeline_lib \<Rightarrow> pipeline_env \<Rightarrow> file_event \<Rightarrow> evaluation \<Rightarrow> (string \<times> string option) option \<Rightarrow> pipeline \<Rightarrow> pipeline" where
  "audit_step lib env ev ass outcome p =
     (case outcome of
        None \<Rightarrow> p
      | Some (text, err) \<Rightarrow>
          p\<lparr>pn_store := fst (insert_response_result (pb_evidence lib) (px_audit_sql env)
             \<lparr>au_timestamp_ms = px_audit_now env, au_pid = ev_pid ass,
              au_start_time_ticks = map_option fp_start_time_ticks (fe_process ev),
              au_boot_id = map_option fp_boot_id (fe_process ev), au_score = ev_score ass,
              au_action = ''kill_process'', au_outcome = text, au_error = err\<rparr> (pn_store p))\<rparr>)"

definition record_step :: "'v pipeline_lib \<Rightarrow> pipeline_env \<Rightarrow> nat \<times> detection \<Rightarrow> pipeline \<Rightarrow> pipeline" where
  "record_step lib env nd p =
     (case record_detection (el_storage (pb_evidence lib)) (px_detection_sql env (fst nd)) (snd nd) (pn_agent_id p)
             (pn_backup p \<noteq> None \<and> f_lt (Fin 0) (d_score (snd nd))) (db_events (pn_store p)) of
        (s, result) \<Rightarrow>
          p\<lparr>pn_store := (pn_store p)\<lparr>db_events := s\<rparr>,
            pn_wake := (pn_wake p \<or> (\<exists>i. result = Inr i) \<and> pn_agent_id p \<noteq> None)\<rparr>)"

text \<open>The writes: the audit row, the event, the backup job, then each alert.\<close>

definition persist_event ::
  "'v pipeline_lib \<Rightarrow> pipeline_env \<Rightarrow> file_event \<Rightarrow> evaluation \<Rightarrow> (string \<times> string option) option \<Rightarrow> pipeline \<Rightarrow> pipeline" where
  "persist_event lib env ev ass outcome p =
     (let p = audit_step lib env ev ass outcome p;
          p = p\<lparr>pn_store := fst (insert_file_event (pb_evidence lib) (px_event_sql env) ev (pn_store p))\<rparr>
      in if fe_action ev \<in> {Create, Modify} then p\<lparr>pn_backup := map_option (backup_enqueue ev) (pn_backup p)\<rparr> else p)"

definition alerts_of :: "evaluation \<Rightarrow> detection list \<Rightarrow> detection list" where
  "alerts_of ass extra = (case ev_alert ass of None \<Rightarrow> [] | Some d \<Rightarrow> [d]) @ ev_additional_alerts ass @ extra"

definition process_file_event ::
  "'v pipeline_lib \<Rightarrow> pipeline_env \<Rightarrow> file_event \<Rightarrow> pipeline \<Rightarrow> pipeline \<times> signal_target list \<times> bool" where
  "process_file_event lib env event p =
     (case sample_event lib env event p of (p, ev, sampling_failed) \<Rightarrow>
      case engine_evaluate (pn_engine p) ev of (engine, ass) \<Rightarrow>
      case semantic_step lib env ev (p\<lparr>pn_engine := engine\<rparr>) of (p, extra) \<Rightarrow>
      case guard_policy_time (pn_policy p) (ag_response (pn_config p)) (px_guard_now env) of (policy, response) \<Rightarrow>
      case respond lib env (pn_responder p) response ev ass of (sent, outcome) \<Rightarrow>
        (fold (record_step lib env) (enumerate 0 (alerts_of ass extra))
           (persist_event lib env ev ass outcome (p\<lparr>pn_policy := policy\<rparr>)),
         sent, ev_evidence_truncated ass \<or> sampling_failed))"

text \<open>The branch of the loop for a file event: the guard on the configuration first.\<close>

definition file_event_step ::
  "'v pipeline_lib \<Rightarrow> pipeline_env \<Rightarrow> file_event \<Rightarrow> pipeline \<Rightarrow> pipeline \<times> signal_target list" where
  "file_event_step lib env event p =
     (case guard_policy_time (pn_policy p) (ag_response (pn_config p)) (px_loop_now env) of (policy, response) \<Rightarrow>
      case process_file_event lib env event (p\<lparr>pn_policy := policy, pn_config := (pn_config p)\<lparr>ag_response := response\<rparr>\<rparr>) of
        (p, sent, incomplete) \<Rightarrow> (p\<lparr>pn_analysis_incomplete := incomplete\<rparr>, sent))"

section \<open>The loop\<close>

definition process_monitor_healthy :: "sensor_health option \<Rightarrow> bool" where
  "process_monitor_healthy h =
     (case h of None \<Rightarrow> True | Some h \<Rightarrow> sh_alive h \<and> sh_errors h = 0 \<and> sh_dropped_events h = 0)"

definition agent_healthy :: "bool \<Rightarrow> bool \<Rightarrow> sensor_health \<Rightarrow> sensor_health option \<Rightarrow> pipeline \<Rightarrow> bool" where
  "agent_healthy coverage_healthy retention_healthy sensor processes p =
     (coverage_healthy \<and> retention_healthy
      \<and> (case pn_policy p of None \<Rightarrow> True | Some st \<Rightarrow> \<not> pr_invalid st)
      \<and> \<not> pn_analysis_incomplete p
      \<and> (case pn_semantic p of None \<Rightarrow> True | Some m \<Rightarrow> unavailable_count m = 0)
      \<and> sh_alive sensor \<and> sh_errors sensor = 0 \<and> sh_dropped_events sensor = 0 \<and> sh_kernel_overflows sensor = 0
      \<and> process_monitor_healthy processes)"

text \<open>The reporter is told of the health and woken.\<close>

definition set_sensor_healthy :: "bool \<Rightarrow> pipeline \<Rightarrow> pipeline" where
  "set_sensor_healthy healthy p =
     (if pn_agent_id p = None then p else p\<lparr>pn_sensor_healthy := healthy, pn_wake := True\<rparr>)"

definition health_step :: "u64 \<Rightarrow> bool \<Rightarrow> bool \<Rightarrow> sensor_health \<Rightarrow> sensor_health option \<Rightarrow> pipeline \<Rightarrow> pipeline" where
  "health_step now coverage_healthy retention_healthy sensor processes p =
     (case guard_policy_time (pn_policy p) (ag_response (pn_config p)) now of (policy, response) \<Rightarrow>
      let p = p\<lparr>pn_policy := policy, pn_config := (pn_config p)\<lparr>ag_response := response\<rparr>\<rparr>
      in set_sensor_healthy (agent_healthy coverage_healthy retention_healthy sensor processes p) p)"

datatype agent_input =
    FileInput pipeline_env file_event
  | ProcessInput sql_env process_event
  | HealthTick u64 bool bool sensor_health "sensor_health option"
  | BackupTurn
  | ReporterTurn event_store
  | SensorClosed
  | CtrlC

text \<open>
  The loop, with the backup worker taking a job and the reporter's thread changing the outbox between
  its turns.  It ends when the sensor's channel closes or on an interrupt.
\<close>

fun agent_run :: "'v pipeline_lib \<Rightarrow> agent_input list \<Rightarrow> pipeline \<Rightarrow> pipeline \<times> signal_target list" where
  "agent_run lib [] p = (p, [])"
| "agent_run lib (FileInput env event # ins) p =
     (case file_event_step lib env event p of (p, sent) \<Rightarrow>
      case agent_run lib ins p of (p, later) \<Rightarrow> (p, sent @ later))"
| "agent_run lib (ProcessInput env e # ins) p =
     agent_run lib ins (p\<lparr>pn_store := fst (insert_process_event (pb_evidence lib) env e (pn_store p))\<rparr>)"
| "agent_run lib (HealthTick now coverage retention sensor processes # ins) p =
     agent_run lib ins (health_step now coverage retention sensor processes p)"
| "agent_run lib (BackupTurn # ins) p = agent_run lib ins (p\<lparr>pn_backup := map_option (\<lambda>b. fst (backup_receive b)) (pn_backup p)\<rparr>)"
| "agent_run lib (ReporterTurn s # ins) p =
     agent_run lib ins (if es_detections s = es_detections (db_events (pn_store p))
                        then p\<lparr>pn_store := (pn_store p)\<lparr>db_events := s\<rparr>, pn_wake := False\<rparr> else p)"
| "agent_run lib (SensorClosed # ins) p = (set_sensor_healthy False p, [])"
| "agent_run lib (CtrlC # ins) p = (p, [])"

section \<open>Start\<close>

datatype agent_error =
    PolicyRefused activation_error
  | ConfigRefused "config_problem list"
  | StartIo io_error
  | StoreFailed storage_error
  | SemanticRefused monitor_error
  | BackupInsideWatch
  | BackupFailed
  | ReporterFailed

record start_env =
  sv_linux :: bool
  sv_policy_lib :: policy_lib
  sv_policy_files :: policy_files
  sv_state_fs :: state_fs
  sv_faults :: db_faults
  sv_policy_now :: u64
  sv_policy_state :: policy_state
  sv_prepare :: "path \<Rightarrow> io_error + path"
  sv_canonical :: "path \<Rightarrow> io_error + path"
  sv_store :: "storage_error + evidence_store"
  sv_files :: "path \<Rightarrow> file_view"
  sv_backup_dir :: "io_error + path"
  sv_backup_opens :: bool
  sv_host :: string
  sv_reporter_fails :: bool

definition apply_policy ::
  "start_env \<Rightarrow> agent_config \<Rightarrow> policy_state \<times> (agent_error + agent_config \<times> policy_runtime option)" where
  "apply_policy env config =
     (if \<not> policy_is_enabled (ag_policy config) then (sv_policy_state env, Inr (config, None))
      else case activate_at (sv_policy_lib env) (sv_policy_files env) (sv_state_fs env) (sv_faults env) (ag_policy config)
                  (ag_db_path config) (ag_sensor config) (sv_policy_now env) (sv_policy_state env) of
        (st, Inl e) \<Rightarrow> (st, Inl (PolicyRefused e))
      | (st, Inr a) \<Rightarrow>
          (st, Inr (config\<lparr>ag_detection := po_detection (at_policy a), ag_response := po_response (at_policy a)\<rparr>,
             Some \<lparr>pr_version = po_version (at_policy a), pr_sha256 = at_sha256 a,
                   pr_not_before_ms = po_not_before_ms (at_policy a), pr_expires_at_ms = po_expires_at_ms (at_policy a),
                   pr_invalid = False\<rparr>)))"

fun prepare_paths :: "(path \<Rightarrow> io_error + path) \<Rightarrow> path list \<Rightarrow> agent_error + path list" where
  "prepare_paths prepare [] = Inr []"
| "prepare_paths prepare (p # ps) =
     (case prepare p of Inl e \<Rightarrow> Inl (StartIo e) | Inr c \<Rightarrow>
      case prepare_paths prepare ps of Inl e \<Rightarrow> Inl e | Inr cs \<Rightarrow> Inr (c # cs))"

fun outside_watch :: "(path \<Rightarrow> io_error + path) \<Rightarrow> path \<Rightarrow> path list \<Rightarrow> agent_error + unit" where
  "outside_watch canonical dir [] = Inr ()"
| "outside_watch canonical dir (p # ps) =
     (case canonical p of Inl e \<Rightarrow> Inl (StartIo e) | Inr c \<Rightarrow>
      if path_starts_with dir c then Inl BackupInsideWatch else outside_watch canonical dir ps)"

definition start_backup :: "start_env \<Rightarrow> agent_config \<Rightarrow> agent_error + backup_worker option" where
  "start_backup env config =
     (if \<not> bk_enabled (ag_backup config) then Inr None
      else case sv_backup_dir env of Inl e \<Rightarrow> Inl (StartIo e) | Inr dir \<Rightarrow>
      case outside_watch (sv_canonical env) dir (ag_watch_paths config) of Inl e \<Rightarrow> Inl e | Inr _ \<Rightarrow>
      case backup_spawn (ag_backup config) (sv_backup_opens env) of None \<Rightarrow> Inl BackupFailed | Some b \<Rightarrow> Inr (Some b))"

definition start_sampler :: "content_sampling_config \<Rightarrow> content_sampler option" where
  "start_sampler c =
     (if cc_enabled c then Some (content_sampler_new (cc_total_bytes c) (cc_max_files c) (cc_history_secs c)) else None)"

definition start_components :: "'v pipeline_lib \<Rightarrow> start_env \<Rightarrow> agent_config \<Rightarrow> policy_runtime option \<Rightarrow> agent_error + pipeline" where
  "start_components lib env config policy =
     (case validate_configuration (pb_log2 lib) (ag_detection config) (ag_response config) (ag_sensor config) of
        Inl problems \<Rightarrow> Inl (ConfigRefused problems)
      | Inr _ \<Rightarrow>
      case prepare_paths (sv_prepare env) (ag_watch_paths config) of Inl e \<Rightarrow> Inl e | Inr watch \<Rightarrow>
      let config = config\<lparr>ag_watch_paths := watch\<rparr>
      in case sv_store env of Inl e \<Rightarrow> Inl (StoreFailed e) | Inr store \<Rightarrow>
      case monitor_new (sv_files env) (ag_semantic config) watch of Inl e \<Rightarrow> Inl (SemanticRefused e) | Inr monitor \<Rightarrow>
      case start_backup env config of Inl e \<Rightarrow> Inl e | Inr backup \<Rightarrow>
      let reporter = spawn_reporter (ag_central config) (sv_host env) timing_default 0
      in if reporter \<noteq> None \<and> sv_reporter_fails env then Inl ReporterFailed
      else Inr \<lparr>pn_config = config, pn_engine = engine_with_sensor (ag_detection config) (ag_sensor config),
                pn_responder = make_responder (sv_linux env) (rc_auto_block (ag_response config)),
                pn_sampler = start_sampler (dc_content_sampling (ag_detection config)), pn_semantic = Some monitor,
                pn_policy = policy, pn_backup = backup, pn_agent_id = map_option rp_agent_id reporter, pn_wake = False,
                pn_sensor_healthy = True, pn_analysis_incomplete = False, pn_store = store\<rparr>)"

definition agent_start :: "'v pipeline_lib \<Rightarrow> start_env \<Rightarrow> agent_config \<Rightarrow> policy_state \<times> (agent_error + pipeline)" where
  "agent_start lib env config =
     (case apply_policy env config of
        (st, Inl e) \<Rightarrow> (st, Inl e)
      | (st, Inr (config, policy)) \<Rightarrow> (st, start_components lib env config policy))"

section \<open>Specification notions\<close>

text \<open>The event as the engine sees it, and the engine's assessment of it.\<close>

definition sampled_event :: "'v pipeline_lib \<Rightarrow> pipeline_env \<Rightarrow> file_event \<Rightarrow> pipeline \<Rightarrow> file_event" where
  "sampled_event lib env event p = fst (snd (sample_event lib env event p))"

definition assessment :: "'v pipeline_lib \<Rightarrow> pipeline_env \<Rightarrow> file_event \<Rightarrow> pipeline \<Rightarrow> evaluation" where
  "assessment lib env event p = snd (engine_evaluate (pn_engine p) (sampled_event lib env event p))"

definition policy_valid_at :: "policy_runtime option \<Rightarrow> u64 \<Rightarrow> bool" where
  "policy_valid_at policy now =
     (case policy of None \<Rightarrow> True
      | Some st \<Rightarrow> \<not> pr_invalid st \<and> pr_not_before_ms st \<le> now \<and> now < pr_expires_at_ms st)"

definition event_response :: "'v pipeline_lib \<Rightarrow> pipeline_env \<Rightarrow> file_event \<Rightarrow> pipeline
     \<Rightarrow> signal_target list \<times> (string \<times> string option) option" where
  "event_response lib env event p =
     respond lib env (pn_responder p) (snd (guard_policy_time (pn_policy p) (ag_response (pn_config p)) (px_guard_now env)))
       (sampled_event lib env event p) (assessment lib env event p)"

definition event_alerts :: "'v pipeline_lib \<Rightarrow> pipeline_env \<Rightarrow> file_event \<Rightarrow> pipeline \<Rightarrow> detection list" where
  "event_alerts lib env event p =
     alerts_of (assessment lib env event p) (snd (semantic_step lib env (sampled_event lib env event p) p))"

lemma guard_policy_time_eq:
  "guard_policy_time policy response now =
     (if policy_valid_at policy now then (policy, response)
      else (map_option (\<lambda>st. st\<lparr>pr_invalid := True\<rparr>) policy, response\<lparr>rc_auto_block := False\<rparr>))"
  by (auto simp: guard_policy_time_def policy_valid_at_def not_less not_le split: option.split)

lemma sample_event_keeps:
  "fst (sample_event lib env event p) = p\<lparr>pn_sampler := pn_sampler (fst (sample_event lib env event p))\<rparr>"
  "fe_process (sampled_event lib env event p) = fe_process event"
  "fe_pid (sampled_event lib env event p) = fe_pid event"
  "fe_action (sampled_event lib env event p) = fe_action event"
  "fe_path (sampled_event lib env event p) = fe_path event"
  by (simp_all add: sample_event_def sampled_event_def split: option.split sum.split prod.split)

lemma semantic_step_keeps: "fst (semantic_step lib env ev p) = p\<lparr>pn_semantic := pn_semantic (fst (semantic_step lib env ev p))\<rparr>"
  by (simp add: semantic_step_def split: option.split prod.split)

lemma record_step_keeps:
  "pn_engine (record_step lib env nd p) = pn_engine p" "pn_config (record_step lib env nd p) = pn_config p"
  "pn_policy (record_step lib env nd p) = pn_policy p" "pn_responder (record_step lib env nd p) = pn_responder p"
  "db_responses (pn_store (record_step lib env nd p)) = db_responses (pn_store p)"
  "db_files (pn_store (record_step lib env nd p)) = db_files (pn_store p)"
  by (simp_all add: record_step_def split: prod.split)

lemma record_fold_keeps:
  "pn_engine (fold (record_step lib env) ds p) = pn_engine p" "pn_config (fold (record_step lib env) ds p) = pn_config p"
  "pn_policy (fold (record_step lib env) ds p) = pn_policy p" "pn_responder (fold (record_step lib env) ds p) = pn_responder p"
  "db_responses (pn_store (fold (record_step lib env) ds p)) = db_responses (pn_store p)"
  "db_files (pn_store (fold (record_step lib env) ds p)) = db_files (pn_store p)"
  by (induction ds arbitrary: p) (simp_all add: record_step_keeps)

lemma audit_step_keeps:
  "pn_engine (audit_step lib env ev ass outcome p) = pn_engine p" "pn_config (audit_step lib env ev ass outcome p) = pn_config p"
  "pn_policy (audit_step lib env ev ass outcome p) = pn_policy p" "pn_responder (audit_step lib env ev ass outcome p) = pn_responder p"
  "pn_agent_id (audit_step lib env ev ass outcome p) = pn_agent_id p"
  by (simp_all add: audit_step_def split: option.split prod.split)

lemma audit_step_store:
  "pn_store p = pn_store q \<Longrightarrow> pn_store (audit_step lib env ev ass outcome p) = pn_store (audit_step lib env ev ass outcome q)"
  by (simp add: audit_step_def split: option.split prod.split)

lemma semantic_step_alerts:
  "snd (semantic_step lib env ev (p\<lparr>pn_sampler := sm, pn_engine := eng\<rparr>)) = snd (semantic_step lib env ev p)"
  by (simp add: semantic_step_def split: option.split prod.split)

text \<open>The steps of an event, one after the other.\<close>

lemma process_event_eq:
  "\<exists>q. process_file_event lib env event p =
     (fold (record_step lib env) (enumerate 0 (event_alerts lib env event p)) q, fst (event_response lib env event p),
      ev_evidence_truncated (assessment lib env event p) \<or> snd (snd (sample_event lib env event p)))
    \<and> pn_engine q = fst (engine_evaluate (pn_engine p) (sampled_event lib env event p))
    \<and> pn_policy q = fst (guard_policy_time (pn_policy p) (ag_response (pn_config p)) (px_guard_now env))
    \<and> pn_config q = pn_config p \<and> pn_responder q = pn_responder p \<and> pn_agent_id q = pn_agent_id p
    \<and> pn_store q = fst (insert_file_event (pb_evidence lib) (px_event_sql env) (sampled_event lib env event p)
         (pn_store (audit_step lib env (sampled_event lib env event p) (assessment lib env event p)
            (snd (event_response lib env event p)) p)))"
proof -
  let ?ev = "sampled_event lib env event p" and ?ass = "assessment lib env event p"
  define sm failed where "sm = pn_sampler (fst (sample_event lib env event p))"
    and "failed = snd (snd (sample_event lib env event p))"
  then have s: "sample_event lib env event p = (p\<lparr>pn_sampler := sm\<rparr>, ?ev, failed)"
    unfolding sampled_event_def sm_def using sample_event_keeps(1) [of lib env event p] by (intro prod_eqI) simp_all
  define eng where "eng = fst (engine_evaluate (pn_engine p) ?ev)"
  then have e: "engine_evaluate (pn_engine p) ?ev = (eng, ?ass)" by (simp add: assessment_def)
  let ?p = "p\<lparr>pn_sampler := sm, pn_engine := eng\<rparr>"
  define sem where "sem = pn_semantic (fst (semantic_step lib env ?ev ?p))"
  have m: "semantic_step lib env ?ev ?p = (?p\<lparr>pn_semantic := sem\<rparr>, snd (semantic_step lib env ?ev p))"
    unfolding sem_def using semantic_step_keeps [of lib env ?ev ?p] semantic_step_alerts [of lib env ?ev]
    by (intro prod_eqI) simp_all
  let ?g = "guard_policy_time (pn_policy p) (ag_response (pn_config p)) (px_guard_now env)"
  let ?q = "persist_event lib env ?ev ?ass (snd (event_response lib env event p)) (?p\<lparr>pn_semantic := sem, pn_policy := fst ?g\<rparr>)"
  have "process_file_event lib env event p =
     (fold (record_step lib env) (enumerate 0 (event_alerts lib env event p)) ?q, fst (event_response lib env event p),
      ev_evidence_truncated ?ass \<or> failed)"
    unfolding process_file_event_def s by (simp add: e m event_response_def event_alerts_def split: prod.split)
  moreover have "pn_store (audit_step lib env ?ev ?ass (snd (event_response lib env event p)) (?p\<lparr>pn_semantic := sem, pn_policy := fst ?g\<rparr>))
      = pn_store (audit_step lib env ?ev ?ass (snd (event_response lib env event p)) p)"
    by (rule audit_step_store) simp
  ultimately show ?thesis using s e by (intro exI [of _ ?q]) (simp add: persist_event_def Let_def audit_step_keeps)
qed

section \<open>Specification notions\<close>

fun input_times :: "agent_input \<Rightarrow> u64 list" where
  "input_times (FileInput env event) = [px_loop_now env, px_guard_now env]"
| "input_times (HealthTick now _ _ _ _) = [now]"
| "input_times _ = []"

definition policy_gone :: "pipeline \<Rightarrow> bool" where
  "policy_gone p = (case pn_policy p of None \<Rightarrow> False | Some st \<Rightarrow> pr_invalid st)"

text \<open>What the start establishes and every input keeps.\<close>

definition scores_ok :: "pipeline \<Rightarrow> bool" where
  "scores_ok p = (\<forall>d\<in>snd ` set (es_detections (db_events (pn_store p))). f_in 0 100 (d_score d))"

definition initial_ok :: "start_env \<Rightarrow> bool" where
  "initial_ok env =
     (case sv_store env of Inl _ \<Rightarrow> True | Inr s \<Rightarrow> \<forall>d\<in>snd ` set (es_detections (db_events s)). f_in 0 100 (d_score d))"

definition pipeline_inv :: "start_env \<Rightarrow> agent_config \<Rightarrow> nat \<Rightarrow> pipeline \<Rightarrow> bool" where
  "pipeline_inv env config n p =
     ((\<exists>es. length es \<le> n \<and> pn_engine p = run_engine es (engine_with_sensor (ag_detection config) (ag_sensor config)))
      \<and> (sv_linux env \<and> rc_auto_block (ag_response (pn_config p)) \<longrightarrow> pn_responder p = LinuxResponder)
      \<and> (initial_ok env \<longrightarrow> scores_ok p))"

definition accepted_config :: "'v pipeline_lib \<Rightarrow> agent_config \<Rightarrow> bool" where
  "accepted_config lib config =
     (\<exists>warnings. validate_configuration (pb_log2 lib) (ag_detection config) (ag_response config) (ag_sensor config) = Inr warnings)"

lemma respond_sent:
  assumes "target \<in> set (fst (respond lib env r response ev ass))"
  shows "should_block ass response \<and> (\<exists>ctx result sent. fe_process ev = Some ctx \<and> target \<in> set sent
    \<and> execute (px_os env) r (KillProcessInstance (ev_pid ass) (fp_start_time_ticks ctx) (fp_boot_id ctx)) = (sent, result))"
  using assms by (auto simp: respond_def split: if_splits option.splits prod.splits sum.splits)

lemma respond_guarded: "\<not> rc_auto_block response \<Longrightarrow> fst (respond lib env r response ev ass) = []"
  using respond_sent [of _ lib env r response ev ass] by (fastforce simp: should_block_def)

lemma file_event_step_valid:
  assumes "policy_valid_at (pn_policy p) (px_loop_now env)"
  shows "file_event_step lib env event p =
    (case process_file_event lib env event p of (p', sent, incomplete) \<Rightarrow> (p'\<lparr>pn_analysis_incomplete := incomplete\<rparr>, sent))"
  unfolding file_event_step_def using assms by (simp add: guard_policy_time_eq)

text \<open>The guard leaves the policy or marks it; a marked or expired policy silences the response.\<close>

lemma guard_gone:
  "\<not> policy_valid_at policy now \<Longrightarrow> snd (guard_policy_time policy response now) = response\<lparr>rc_auto_block := False\<rparr>
     \<and> (\<exists>st. fst (guard_policy_time policy response now) = Some (st\<lparr>pr_invalid := True\<rparr>))"
  by (auto simp: guard_policy_time_def policy_valid_at_def not_less not_le split: option.splits)

lemma guard_off: "\<not> rc_auto_block response \<Longrightarrow> \<not> rc_auto_block (snd (guard_policy_time policy response now))"
  by (simp add: guard_policy_time_eq)

lemma process_event_policy:
  "pn_policy (fst (process_file_event lib env event p)) = fst (guard_policy_time (pn_policy p) (ag_response (pn_config p)) (px_guard_now env))"
  "pn_config (fst (process_file_event lib env event p)) = pn_config p"
  "pn_responder (fst (process_file_event lib env event p)) = pn_responder p"
  "pn_engine (fst (process_file_event lib env event p)) = fst (engine_evaluate (pn_engine p) (sampled_event lib env event p))"
  using process_event_eq [of lib env event p] by (auto simp: record_fold_keeps)

lemma process_event_sent: "fst (snd (process_file_event lib env event p)) = fst (event_response lib env event p)"
  using process_event_eq [of lib env event p] by auto

lemma file_event_step_gone:
  assumes "\<not> policy_valid_at (pn_policy p) (px_loop_now env) \<or> \<not> policy_valid_at (pn_policy p) (px_guard_now env)"
  shows "snd (file_event_step lib env event p) = [] \<and> policy_gone (fst (file_event_step lib env event p))"
proof -
  let ?g = "guard_policy_time (pn_policy p) (ag_response (pn_config p)) (px_loop_now env)"
  let ?p = "p\<lparr>pn_policy := fst ?g, pn_config := (pn_config p)\<lparr>ag_response := snd ?g\<rparr>\<rparr>"
  have step: "snd (file_event_step lib env event p) = fst (event_response lib env event ?p)"
    "pn_policy (fst (file_event_step lib env event p)) = fst (guard_policy_time (fst ?g) (snd ?g) (px_guard_now env))"
    using process_event_sent [of lib env event ?p] process_event_policy(1) [of lib env event ?p]
    by (simp_all add: file_event_step_def case_prod_unfold)
  have "\<not> rc_auto_block (snd (guard_policy_time (fst ?g) (snd ?g) (px_guard_now env)))
      \<and> (\<exists>st. fst (guard_policy_time (fst ?g) (snd ?g) (px_guard_now env)) = Some (st\<lparr>pr_invalid := True\<rparr>))"
  proof (cases "policy_valid_at (pn_policy p) (px_loop_now env)")
    case True
    then show ?thesis using assms guard_gone [of "pn_policy p" "px_guard_now env"] by (simp add: guard_policy_time_eq [of _ _ "px_loop_now env"])
  next
    case False
    then obtain st where g: "fst ?g = Some (st\<lparr>pr_invalid := True\<rparr>)" "\<not> rc_auto_block (snd ?g)"
      using guard_gone [OF False, of "ag_response (pn_config p)"] by auto
    then have "\<not> policy_valid_at (fst ?g) (px_guard_now env)" by (simp add: policy_valid_at_def)
    then show ?thesis using guard_gone [of "fst ?g" "px_guard_now env" "snd ?g"] by simp
  qed
  then show ?thesis using step respond_guarded by (auto simp: event_response_def policy_gone_def)
qed

lemma gone_not_valid: "policy_gone p \<Longrightarrow> \<not> policy_valid_at (pn_policy p) now"
  by (auto simp: policy_gone_def policy_valid_at_def split: option.splits)

lemma health_step_gone:
  assumes "\<not> policy_valid_at (pn_policy p) now"
  shows "policy_gone (health_step now c r s h p)"
  using guard_gone [OF assms, of "ag_response (pn_config p)"]
  by (auto simp: health_step_def set_sensor_healthy_def policy_gone_def Let_def split: prod.split)

lemma agent_run_file:
  "agent_run lib (FileInput env event # ins) p =
     (fst (agent_run lib ins (fst (file_event_step lib env event p))),
      snd (file_event_step lib env event p) @ snd (agent_run lib ins (fst (file_event_step lib env event p))))"
  by (simp add: case_prod_unfold)

lemma run_gone: "policy_gone p \<Longrightarrow> snd (agent_run lib ins p) = []"
proof (induction lib ins p rule: agent_run.induct)
  case (2 lib env event ins p)
  have g: "snd (file_event_step lib env event p) = [] \<and> policy_gone (fst (file_event_step lib env event p))"
    using file_event_step_gone gone_not_valid [OF 2(2)] by blast
  then have "snd (agent_run lib ins (fst (file_event_step lib env event p))) = []" using 2(1) [OF prod.collapse] by simp
  then show ?case using g by (simp only: agent_run_file snd_conv append.simps)
next
  case (4 lib now coverage retention sensor processes ins p)
  then show ?case using health_step_gone gone_not_valid by simp
qed (simp_all add: policy_gone_def)

text \<open>
  C8: once the clock has been read outside the validity of the active policy, or the policy was marked
  before, no signal is sent for the current event or any later one, whatever the clock says afterwards.
\<close>

theorem expired_policy_never_blocks_again:
  assumes "now \<in> set (input_times x)" "\<not> policy_valid_at (pn_policy p) now"
  shows "snd (agent_run lib (x # ins) p) = []"
proof (cases x)
  case (FileInput env event)
  then have "snd (file_event_step lib env event p) = [] \<and> policy_gone (fst (file_event_step lib env event p))"
    using assms by (intro file_event_step_gone) auto
  then show ?thesis using FileInput run_gone [of "fst (file_event_step lib env event p)" lib ins]
    by (simp only: agent_run_file snd_conv append.simps)
next
  case (HealthTick t c r s h)
  then show ?thesis using assms by (simp add: run_gone health_step_gone)
qed (use assms in auto)


lemma start_inv:
  assumes "agent_start lib env config = (st, Inr p)"
  shows "\<exists>c. accepted_config lib c \<and> pipeline_inv env c 0 p"
proof -
  obtain c policy where "start_components lib env c policy = Inr p"
    using assms by (auto simp: agent_start_def split: prod.splits sum.splits)
  then have "accepted_config lib c \<and> pipeline_inv env c 0 p"
    by (auto simp: start_components_def Let_def accepted_config_def pipeline_inv_def scores_ok_def run_engine_def make_responder_def
        initial_ok_def split: sum.splits if_splits)
  then show ?thesis by blast
qed

lemma run_engine_snoc: "run_engine (es @ [e]) eng = fst (engine_evaluate (run_engine es eng) e)"
  by (simp add: run_engine_def)

lemma record_step_scores:
  assumes "scores_ok p" "f_in 0 100 (d_score (snd nd))"
  shows "scores_ok (record_step lib env nd p)"
proof -
  let ?r = "record_detection (el_storage (pb_evidence lib)) (px_detection_sql env (fst nd)) (snd nd) (pn_agent_id p)
             (pn_backup p \<noteq> None \<and> f_lt (Fin 0) (d_score (snd nd))) (db_events (pn_store p))"
  have "set (es_detections (fst ?r)) \<subseteq> insert (Suc (es_detection_seq (db_events (pn_store p))), snd nd) (set (es_detections (db_events (pn_store p))))"
    using record_detection_effect [of "el_storage (pb_evidence lib)" "px_detection_sql env (fst nd)" "snd nd" "pn_agent_id p"
        "pn_backup p \<noteq> None \<and> f_lt (Fin 0) (d_score (snd nd))" "db_events (pn_store p)"] by (auto simp: recorded_in_def)
  then have "\<forall>d\<in>snd ` set (es_detections (fst ?r)). f_in 0 100 (d_score d)"
    using assms unfolding scores_ok_def by fastforce
  then show ?thesis unfolding scores_ok_def by (simp add: record_step_def case_prod_unfold)
qed

lemma record_fold_scores:
  "scores_ok p \<Longrightarrow> \<forall>nd\<in>set ds. f_in 0 100 (d_score (snd nd)) \<Longrightarrow> scores_ok (fold (record_step lib env) ds p)"
  by (induction ds arbitrary: p) (simp_all add: record_step_scores)

lemma insert_keeps_events:
  "db_events (fst (insert_file_event lib env e s)) = db_events s"
  "db_events (fst (insert_process_event lib env pe s)) = db_events s"
  "db_events (fst (insert_response_result lib env a s)) = db_events s"
  by (simp_all add: insert_file_event_def insert_process_event_def insert_response_result_def commit_def split: commit_outcome.split)

lemma audit_step_events: "db_events (pn_store (audit_step lib env ev ass outcome p)) = db_events (pn_store p)"
  by (simp add: audit_step_def insert_keeps_events split: option.split prod.split)

lemma semantic_step_score:
  assumes "d \<in> set (snd (semantic_step lib env ev p))"
  shows "d_score d \<in> {Fin 0, Fin 70}"
proof -
  obtain m where "pn_semantic p = Some m" "snd (semantic_observe (px_files env) (pb_semantic_text lib) ev m) = Some d"
    using assms by (auto simp: semantic_step_def case_prod_unfold split: option.splits)
  then show ?thesis using semantic_score by blast
qed

lemma assessment_range:
  assumes "accepted_config lib c" "pipeline_inv senv c n p" "n < 2 ^ 64 - 1"
  shows "f_in 0 100 (ev_score (assessment lib env event p))"
    and "d \<in> set (event_alerts lib env event p) \<Longrightarrow> f_in 0 100 (d_score d)"
proof -
  obtain es warnings where e: "length es \<le> n" "pn_engine p = run_engine es (engine_with_sensor (ag_detection c) (ag_sensor c))"
    "validate_configuration (pb_log2 lib) (ag_detection c) (ag_response c) (ag_sensor c) = Inr warnings"
    using assms(1,2) by (auto simp: accepted_config_def pipeline_inv_def)
  have "length es < 2 ^ 64 - 1" using e(1) assms(3) by linarith
  note r = engine_range [OF e(3) this, of "assessment lib env event p" "sampled_event lib env event p"]
  show "f_in 0 100 (ev_score (assessment lib env event p))" using r by (simp add: assessment_def e(2))
  assume "d \<in> set (event_alerts lib env event p)"
  then consider "ev_alert (assessment lib env event p) = Some d" | "d \<in> set (ev_additional_alerts (assessment lib env event p))"
    | "d \<in> set (snd (semantic_step lib env (sampled_event lib env event p) p))"
    by (auto simp: event_alerts_def alerts_of_def split: option.splits)
  then show "f_in 0 100 (d_score d)"
  proof cases
    case 1
    then show ?thesis using r by (simp add: assessment_def e(2))
  next
    case 2
    then show ?thesis using r by (simp add: assessment_def e(2) list_all_iff)
  next
    case 3
    then show ?thesis using semantic_step_score [OF 3] by auto
  qed
qed

lemma process_event_inv:
  assumes "accepted_config lib c" "pipeline_inv senv c n p" "n < 2 ^ 64 - 1"
  shows "pipeline_inv senv c (Suc n) (fst (process_file_event lib env event p))"
proof -
  obtain q where q: "fst (process_file_event lib env event p) = fold (record_step lib env) (enumerate 0 (event_alerts lib env event p)) q"
    "pn_store q = fst (insert_file_event (pb_evidence lib) (px_event_sql env) (sampled_event lib env event p)
         (pn_store (audit_step lib env (sampled_event lib env event p) (assessment lib env event p)
            (snd (event_response lib env event p)) p)))"
    using process_event_eq [of lib env event p] by auto
  have "scores_ok q" if "initial_ok senv"
    using that assms(2) q(2) by (simp add: scores_ok_def pipeline_inv_def insert_keeps_events audit_step_events)
  moreover have "f_in 0 100 (d_score (snd nd))" if "nd \<in> set (enumerate 0 (event_alerts lib env event p))" for nd
    using assessment_range(2) [OF assms] enumerate_mem [OF that] by blast
  ultimately have "scores_ok (fst (process_file_event lib env event p))" if "initial_ok senv"
    using that unfolding q(1) by (intro record_fold_scores) blast+
  moreover obtain es where "length es \<le> n" "pn_engine p = run_engine es (engine_with_sensor (ag_detection c) (ag_sensor c))"
    using assms(2) by (auto simp: pipeline_inv_def)
  then have "\<exists>es. length es \<le> Suc n \<and> pn_engine (fst (process_file_event lib env event p)) = run_engine es (engine_with_sensor (ag_detection c) (ag_sensor c))"
    by (intro exI [of _ "es @ [sampled_event lib env event p]"]) (simp add: process_event_policy run_engine_snoc)
  ultimately show ?thesis using assms(2) by (simp add: pipeline_inv_def process_event_policy)
qed

lemma guarded_inv:
  "pipeline_inv senv c n p \<Longrightarrow>
   pipeline_inv senv c n (p\<lparr>pn_policy := fst (guard_policy_time (pn_policy p) (ag_response (pn_config p)) now),
     pn_config := (pn_config p)\<lparr>ag_response := snd (guard_policy_time (pn_policy p) (ag_response (pn_config p)) now)\<rparr>\<rparr>)"
  by (simp add: pipeline_inv_def scores_ok_def guard_policy_time_eq)

lemma file_event_step_inv:
  assumes "accepted_config lib c" "pipeline_inv senv c n p" "n < 2 ^ 64 - 1"
  shows "pipeline_inv senv c (Suc n) (fst (file_event_step lib env event p))"
  using process_event_inv [OF assms(1) guarded_inv [OF assms(2)] assms(3)]
  by (simp add: file_event_step_def case_prod_unfold pipeline_inv_def scores_ok_def)

lemma pipeline_inv_mono: "pipeline_inv senv c n p \<Longrightarrow> n \<le> m \<Longrightarrow> pipeline_inv senv c m p"
  by (auto simp: pipeline_inv_def intro: order_trans)

lemma run_inv:
  "accepted_config lib c \<Longrightarrow> pipeline_inv senv c n p \<Longrightarrow> n + length ins < 2 ^ 64 - 1
     \<Longrightarrow> pipeline_inv senv c (n + length ins) (fst (agent_run lib ins p))"
proof (induction lib ins p arbitrary: n rule: agent_run.induct)
  case (2 lib env event ins p)
  have "pipeline_inv senv c (Suc n) (fst (file_event_step lib env event p))"
    using 2 by (intro file_event_step_inv) simp_all
  from 2(1) [OF prod.collapse 2(2) this] 2(4) show ?case by (simp only: agent_run_file fst_conv) simp
next
  case (3 lib env e ins p)
  have "pipeline_inv senv c n (p\<lparr>pn_store := fst (insert_process_event (pb_evidence lib) env e (pn_store p))\<rparr>)"
    using 3(3) by (simp add: pipeline_inv_def scores_ok_def insert_keeps_events)
  from pipeline_inv_mono [OF 3(1) [OF 3(2) this]] 3(4) show ?case by simp
next
  case (4 lib now coverage retention sensor processes ins p)
  have "pipeline_inv senv c n (health_step now coverage retention sensor processes p)"
    using guarded_inv [OF 4(3), of now]
    by (simp add: health_step_def set_sensor_healthy_def Let_def case_prod_unfold pipeline_inv_def scores_ok_def)
  from pipeline_inv_mono [OF 4(1) [OF 4(2) this]] 4(4) show ?case by simp
next
  case (5 lib ins p)
  have "pipeline_inv senv c n (p\<lparr>pn_backup := b\<rparr>)" for b
    using 5(3) by (simp add: pipeline_inv_def scores_ok_def)
  from pipeline_inv_mono [OF 5(1) [OF 5(2) this]] 5(4) show ?case by simp
next
  case (6 lib s ins p)
  have "pipeline_inv senv c n (if es_detections s = es_detections (db_events (pn_store p))
        then p\<lparr>pn_store := (pn_store p)\<lparr>db_events := s\<rparr>, pn_wake := False\<rparr> else p)"
    using 6(3) by (simp add: pipeline_inv_def scores_ok_def)
  from pipeline_inv_mono [OF 6(1) [OF 6(2) this]] 6(4) show ?case by simp
next
  case (7 lib ins p)
  then have "pipeline_inv senv c n (set_sensor_healthy False p)"
    by (simp add: set_sensor_healthy_def pipeline_inv_def scores_ok_def)
  then show ?case using pipeline_inv_mono by simp
qed (auto intro: pipeline_inv_mono)

text \<open>
  C26: whatever the agent has been through since an accepted start, every detection it has stored has a
  score between 0 and 100, so the central server accepts the report of each one with a plausible
  time and delivery id.
\<close>

theorem recorded_scores_are_reportable:
  assumes "agent_start lib senv config = (st, Inr p0)" "initial_ok senv" "length ins < 2 ^ 64 - 1"
    and "(k, d) \<in> set (es_detections (db_events (pn_store (fst (agent_run lib ins p0)))))"
  shows "f_in 0 100 (d_score d)
    \<and> (d_timestamp_ms d \<le> i64_max \<and> i \<noteq> [] \<and> length i \<le> 128 \<longrightarrow> report_ok (body_of rlib agent i d))"
proof -
  obtain c where c: "accepted_config lib c" "pipeline_inv senv c 0 p0" using start_inv [OF assms(1)] by blast
  then have "scores_ok (fst (agent_run lib ins p0))"
    using run_inv [OF c] assms(2,3) by (simp add: pipeline_inv_def)
  then have "f_in 0 100 (d_score d)" using assms(4) by (force simp: scores_ok_def)
  then show ?thesis using f_in_finite by (auto simp: report_ok_def body_of_def delivery_body_def Let_def)
qed

lemma respond_none:
  "\<not> block_candidate ass response \<Longrightarrow> respond lib env r response ev ass = ([], None)"
  by (simp add: respond_def should_block_def)

lemma respond_some:
  assumes "block_candidate ass response"
  obtains outcome err where "snd (respond lib env r response ev ass) = Some (outcome, err)"
    "fst (respond lib env r response ev ass) \<noteq> [] \<longrightarrow> outcome \<in> {''succeeded'', ''failed_or_unconfirmed''}"
    "outcome = ''succeeded'' \<longrightarrow> rc_auto_block response \<and> (r = LinuxResponder \<longrightarrow> fst (respond lib env r response ev ass) \<noteq> [])"
proof -
  have "\<exists>outcome err. snd (respond lib env r response ev ass) = Some (outcome, err)
    \<and> (fst (respond lib env r response ev ass) \<noteq> [] \<longrightarrow> outcome \<in> {''succeeded'', ''failed_or_unconfirmed''})
    \<and> (outcome = ''succeeded'' \<longrightarrow> rc_auto_block response \<and> (r = LinuxResponder \<longrightarrow> fst (respond lib env r response ev ass) \<noteq> []))"
    using assms
    by (auto simp: respond_def should_block_def execute_def linux_execute_def Let_def split: option.splits sum.splits responder.splits)
  then show thesis using that by blast
qed

lemma guarded_assessment:
  "assessment lib env event (p\<lparr>pn_policy := policy, pn_config := (pn_config p)\<lparr>ag_response := response\<rparr>\<rparr>) = assessment lib env event p"
  by (simp add: assessment_def sampled_event_def sample_event_def split: option.split prod.split sum.split)

lemma guarded_candidate: "block_candidate ass (snd (guard_policy_time policy response now)) = block_candidate ass response"
  by (simp add: guard_policy_time_eq block_candidate_def)

lemma process_event_responses:
  "db_responses (pn_store (fst (process_file_event lib env event p)))
   = db_responses (pn_store (audit_step lib env (sampled_event lib env event p) (assessment lib env event p)
       (snd (event_response lib env event p)) p))"
proof -
  have "db_responses (fst (insert_file_event l e ev s)) = db_responses s" for l e ev s
    by (simp add: insert_file_event_def commit_def split: commit_outcome.split)
  then show ?thesis using process_event_eq [of lib env event p] by (auto simp: record_fold_keeps)
qed


section \<open>Specification notions\<close>

text \<open>A sample agent on Linux with a canary file, blocking at score 80, and one event that tampers with the file.\<close>

definition armed_config :: agent_config where
  "armed_config = (agent_config_default True)
     \<lparr>ag_watch_paths := [], ag_sensor := Fanotify, ag_detection := canary_config\<lparr>dc_entropy_sample_bytes := 0\<rparr>,
      ag_response := \<lparr>rc_auto_block = True, rc_block_score = Fin 80\<rparr>,
      ag_backup := (backup_config_default True)\<lparr>bk_enabled := False\<rparr>\<rparr>"

definition sample_os :: response_os where
  "sample_os =
     \<lparr>os_self = 9, os_boot_id = Some ''boot-a'',
      os_stat = (\<lambda>_. Some ''42 (a) S 1 1 1 0 1 0 0 0 0 0 0 0 0 0 0 0 1 0 7 0''),
      os_pidfd_open = (\<lambda>_. Inr 3), os_pidfd_send = (\<lambda>_ _. Inr ()), os_exited = (\<lambda>_. True),
      os_kill = (\<lambda>_ _. Inl [])\<rparr>"

definition sample_pipeline_env :: pipeline_env where
  "sample_pipeline_env =
     \<lparr>px_reads = Inr [], px_opened = Inl undefined, px_files = undefined, px_os = sample_os, px_loop_now = 20, px_sample_now = 20,
      px_guard_now = 20, px_audit_now = 20, px_audit_sql = sample_sql_env ''x'', px_event_sql = sample_sql_env ''x'',
      px_detection_sql = (\<lambda>_. sample_sql_env ''x'')\<rparr>"

definition sample_pipeline_lib :: "file_event pipeline_lib" where
  "sample_pipeline_lib =
     \<lparr>pb_evidence = sample_evidence_lib\<lparr>el_response_json := (\<lambda>_. Some ''r'')\<rparr>, pb_log2 = (\<lambda>_. Fin 8),
      pb_semantic_text = (\<lambda>_. []), pb_response_text = (\<lambda>_. [])\<rparr>"

definition sample_start_env :: start_env where
  "sample_start_env =
     \<lparr>sv_linux = True, sv_policy_lib = undefined, sv_policy_files = undefined, sv_state_fs = undefined, sv_faults = undefined,
      sv_policy_now = 10, sv_policy_state = policy_state_empty, sv_prepare = Inr, sv_canonical = Inr, sv_store = Inr open_empty,
      sv_files = undefined, sv_backup_dir = Inr ''/b'', sv_backup_opens = True, sv_host = ''h'', sv_reporter_fails = False\<rparr>"

definition armed_pipeline :: pipeline where
  "armed_pipeline =
     \<lparr>pn_config = armed_config, pn_engine = engine_with_sensor (ag_detection armed_config) Fanotify, pn_responder = LinuxResponder,
      pn_sampler = None, pn_semantic = Some \<lparr>mon_max_file_bytes = sem_max_file_bytes (ag_semantic armed_config), mon_previous = [], mon_unavailable = {}\<rparr>,
      pn_policy = None, pn_backup = None, pn_agent_id = None, pn_wake = False, pn_sensor_healthy = True,
      pn_analysis_incomplete = False, pn_store = open_empty\<rparr>"

abbreviation tampering :: file_event where
  "tampering \<equiv> demo_event 20 42 7 ''/srv/tmp/canary''"

lemma armed_fields:
  "ag_watch_paths armed_config = []" "ag_sensor armed_config = Fanotify" "dc_entropy_sample_bytes (ag_detection armed_config) = 0"
  "ag_response armed_config = \<lparr>rc_auto_block = True, rc_block_score = Fin 80\<rparr>"
  "\<not> bk_enabled (ag_backup armed_config)" "ag_detection armed_config = canary_config\<lparr>dc_entropy_sample_bytes := 0\<rparr>"
  by (simp_all add: armed_config_def)

lemma armed_parts:
  "pn_config armed_pipeline = armed_config" "pn_policy armed_pipeline = None" "pn_responder armed_pipeline = LinuxResponder"
  "db_responses (pn_store armed_pipeline) = []" "db_response_seq (pn_store armed_pipeline) = 0"
  by (simp_all add: armed_pipeline_def open_empty_def)

lemma armed_accepted: "config_problems (ag_detection armed_config) (ag_response armed_config) = []"
proof -
  have "absolute_clean_path ''/srv/tmp/canary''" "has_file_name ''/srv/tmp/canary''" by code_simp+
  then show ?thesis
    by (simp add: armed_fields config_problems_def canary_config_def multi_config_def multi_problems_def multi_window_config_default_def
        sampling_problem_def content_sampling_config_default_def checked_mul_def detection_window_default_def)
qed

lemma armed_start_on:
  "agent_start sample_pipeline_lib (sample_start_env\<lparr>sv_store := Inr s\<rparr>) armed_config
     = (policy_state_empty, Inr (armed_pipeline\<lparr>pn_store := s\<rparr>))"
proof -
  have "\<not> policy_is_enabled (ag_policy armed_config)" "sem_files (ag_semantic armed_config) = []"
    "0 < sem_max_file_bytes (ag_semantic armed_config)" "sem_max_file_bytes (ag_semantic armed_config) \<le> 1024 * 1024"
    "ct_url (ag_central armed_config) = []" "\<not> cc_enabled (dc_content_sampling (ag_detection armed_config))"
    by (simp_all add: armed_config_def agent_config_default_def policy_is_enabled_def policy_file_config_default_def
        semantic_config_default_def central_config_default_def canary_config_def multi_config_def
        content_sampling_config_default_def detection_config_default_def)
  moreover have "armed_config\<lparr>ag_watch_paths := []\<rparr> = armed_config" by (simp add: armed_config_def)
  ultimately show ?thesis using armed_accepted
    by (simp add: agent_start_def apply_policy_def sample_start_env_def start_components_def validate_configuration_def
        armed_fields(1,2,4,5) Let_def monitor_new_def start_backup_def spawn_reporter_def armed_pipeline_def make_responder_def start_sampler_def not_less)
qed

lemma armed_start: "agent_start sample_pipeline_lib sample_start_env armed_config = (policy_state_empty, Inr armed_pipeline)"
  using armed_start_on [of open_empty] by (simp add: sample_start_env_def armed_pipeline_def)

lemma armed_tampered: "tampers_canary (ag_detection armed_config) tampering" "is_excluded (ag_detection armed_config) ''/srv/tmp/canary''"
  by (code_simp, code_simp)

lemma armed_assessment:
  "ev_eligible (assessment sample_pipeline_lib sample_pipeline_env tampering armed_pipeline)"
  "ev_pid (assessment sample_pipeline_lib sample_pipeline_env tampering armed_pipeline) = 42"
  "ev_score (assessment sample_pipeline_lib sample_pipeline_env tampering armed_pipeline) = Fin 95"
proof -
  have ev: "sampled_event sample_pipeline_lib sample_pipeline_env tampering armed_pipeline = tampering"
    by (simp add: sampled_event_def sample_event_def armed_pipeline_def armed_fields)
  have de: "de_config (pn_engine armed_pipeline) = ag_detection armed_config" by (simp add: armed_pipeline_def engine_with_sensor_def)
  have "engine_evaluate (pn_engine armed_pipeline) tampering = check_canary tampering (pn_engine armed_pipeline, no_evidence tampering)"
    using armed_tampered by (simp add: engine_evaluate_def de demo_event_def)
  then show "ev_eligible (assessment sample_pipeline_lib sample_pipeline_env tampering armed_pipeline)"
    "ev_pid (assessment sample_pipeline_lib sample_pipeline_env tampering armed_pipeline) = 42"
    "ev_score (assessment sample_pipeline_lib sample_pipeline_env tampering armed_pipeline) = Fin 95"
    using armed_tampered(1) by (simp_all add: assessment_def ev canary_parts no_evidence_def de f_max_def) (simp add: demo_event_def)
qed

lemma armed_kill: "execute sample_os LinuxResponder (KillProcessInstance 42 7 ''boot-a'') = ([ToHandle 3 SIGKILL], Inr ())"
  by code_simp

lemma demo_process:
  "fe_process (demo_event t k start p) = Some \<lparr>fp_uid = 1000, fp_exe = ''/usr/bin/task'', fp_start_time_ticks = start,
     fp_boot_id = ''boot-a'', fp_ancestors = []\<rparr>"
  by (simp add: demo_event_def)

lemma sample_os_env: "px_os sample_pipeline_env = sample_os"
  by (simp add: sample_pipeline_env_def)

lemma armed_signal: "snd (file_event_step sample_pipeline_lib sample_pipeline_env tampering armed_pipeline) = [ToHandle 3 SIGKILL]"
proof -
  have v: "policy_valid_at (pn_policy armed_pipeline) now" for now by (simp add: armed_pipeline_def policy_valid_at_def)
  have ctx: "fe_process (sampled_event sample_pipeline_lib sample_pipeline_env tampering armed_pipeline) = fe_process tampering"
    by (rule sample_event_keeps)
  have "should_block (assessment sample_pipeline_lib sample_pipeline_env tampering armed_pipeline) (ag_response armed_config)"
    by (simp add: should_block_def block_candidate_def armed_assessment armed_fields)
  then have "fst (event_response sample_pipeline_lib sample_pipeline_env tampering armed_pipeline) = [ToHandle 3 SIGKILL]"
    using armed_kill
    by (simp add: event_response_def guard_policy_time_def respond_def ctx armed_assessment armed_parts demo_process
        sample_os_env)
  then show ?thesis using process_event_sent [of sample_pipeline_lib sample_pipeline_env tampering armed_pipeline]
    by (simp add: file_event_step_valid [OF v] case_prod_unfold)
qed


theorem expired_policy_never_blocks_again_witness:
  "snd (agent_run sample_pipeline_lib [HealthTick 30 True True (sensor_snapshot counters_default) None,
      FileInput sample_pipeline_env tampering]
     (armed_pipeline\<lparr>pn_policy := Some \<lparr>pr_version = 1, pr_sha256 = [], pr_not_before_ms = 10, pr_expires_at_ms = 25, pr_invalid = False\<rparr>\<rparr>)) = []"
  by (rule expired_policy_never_blocks_again [of 30]) (simp_all add: policy_valid_at_def)

theorem recorded_scores_are_reportable_witness:
  "f_in 0 100 (d_score sample_detection) \<and> report_ok (body_of sample_reporter_lib ''a1'' ''x1'' sample_detection)"
proof -
  let ?s = "open_empty\<lparr>db_events := sample_recorded\<rparr>" and ?ins = "[HealthTick 30 True True (sensor_snapshot counters_default) None]"
  have rec: "es_detections sample_recorded = [(1, sample_detection)]"
    by (simp add: sample_recorded_def sample_defs) code_simp
  have ok: "initial_ok (sample_start_env\<lparr>sv_store := Inr ?s\<rparr>)" by (simp add: initial_ok_def rec) (simp add: sample_detection_def)
  have "(1, sample_detection) \<in> set (es_detections (db_events (pn_store (fst (agent_run sample_pipeline_lib ?ins (armed_pipeline\<lparr>pn_store := ?s\<rparr>))))))"
    by (simp add: health_step_def set_sensor_healthy_def Let_def case_prod_unfold rec)
  from recorded_scores_are_reportable [OF armed_start_on ok _ this, of "''x1''" sample_reporter_lib "''a1''"] show ?thesis
    by (simp add: sample_detection_def i64_max_def)
qed


text \<open>
  C29: when the agent reports itself healthy, no event that the sensor offered since its start was lost:
  what the loop has received and what waits in the channel are all of them, in their order.
\<close>

theorem healthy_agent_lost_nothing:
  assumes "r = fold sensor_step xs (sensor_begin capacity)" "length xs < 2 ^ 64"
    and "agent_healthy coverage retention (sensor_snapshot (snd (ru_state r))) processes p"
  shows "ru_received r @ cn_queue (fst (ru_state r)) = ru_offered r"
  using quiet_sensor_lost_nothing [OF assms(1,2)] assms(3) by (simp add: agent_healthy_def)

theorem healthy_agent_lost_nothing_witness:
  "ru_received (fold sensor_step [Deliver 5 (1 :: nat), Deliver 6 2, Receive] (sensor_begin 2))
     @ cn_queue (fst (ru_state (fold sensor_step [Deliver 5 (1 :: nat), Deliver 6 2, Receive] (sensor_begin 2)))) = [1, 2]"
proof -
  let ?r = "fold sensor_step [Deliver 5 (1 :: nat), Deliver 6 2, Receive] (sensor_begin 2)"
  have r: "ru_offered ?r = [1, 2]" "ct_alive (snd (ru_state ?r))" "ct_errors (snd (ru_state ?r)) = 0"
    "ct_dropped (snd (ru_state ?r)) = 0" "ct_overflows (snd (ru_state ?r)) = 0"
    by (simp_all add: sensor_begin_def sensor_start_def counters_default_def deliver_def try_send_def)
  have "agent_healthy True True (sensor_snapshot (snd (ru_state ?r))) None armed_pipeline"
    using r by (simp add: agent_healthy_def sensor_snapshot_def process_monitor_healthy_def unavailable_count_def armed_pipeline_def)
  from healthy_agent_lost_nothing [OF refl _ this] r(1) show ?thesis by simp
qed

end
