(* ===== verification/Policy_Simulation.thy ===== *)
theory Policy_Simulation
  imports Policy_Trust Storage_Evidence
begin

text \<open>
  Crate \<^verbatim>\<open>argos-policy\<close>, \<^verbatim>\<open>simulation.rs\<close> and \<^verbatim>\<open>exception_audit.rs\<close>: stored events are replayed through the
  detection engine under two policies and the outcomes compared; the approved changes of a policy are
  audited by replaying the events once per rule.  Counts are natural numbers; warnings and reasons are
  constructors; tree maps are association lists that are sorted by key when they are read out.
\<close>

section \<open>Options and reports\<close>

record simulation_options =
  so_from_ms :: u64
  so_to_ms :: u64
  so_max_events :: usize
  so_sensor :: sensor_kind

datatype policy_role = Baseline | Candidate

datatype simulation_error =
    SimulationStorage storage_error
  | BadRange | BadLimit
  | InvalidPolicy policy_role "config_problem list"
  | AuditLimit | AuditSamples | AuditTime | AuditSize

record simulation_coverage =
  cv_from_ms :: u64
  cv_to_ms :: u64
  cv_warmup_from_ms :: u64
  cv_available_events :: nat
  cv_loaded_events :: nat
  cv_warmup_events :: nat
  cv_evaluated_events :: nat
  cv_truncated :: bool
  cv_first_loaded_ms :: "u64 option"
  cv_last_loaded_ms :: "u64 option"
  cv_missing_entropy_events :: nat

record target_key =
  tk_pid :: pid
  tk_start_time_ticks :: "u64 option"
  tk_boot_id :: "string option"

definition key_rank :: "target_key \<Rightarrow> pid \<times> u64 option \<times> string option" where
  "key_rank k = (tk_pid k, tk_start_time_ticks k, tk_boot_id k)"

record simulation_target =
  tg_pid :: pid
  tg_start_time_ticks :: "u64 option"
  tg_boot_id :: "string option"
  tg_first_event_id :: nat
  tg_first_timestamp_ms :: u64
  tg_peak_score :: f64
  tg_evidence_event_ids :: "nat list"
  tg_paths :: "string list"

definition target_key_of :: "simulation_target \<Rightarrow> target_key" where
  "target_key_of t = \<lparr>tk_pid = tg_pid t, tk_start_time_ticks = tg_start_time_ticks t, tk_boot_id = tg_boot_id t\<rparr>"

definition has_identity :: "simulation_target \<Rightarrow> bool" where
  "has_identity t =
     ((case tg_start_time_ticks t of None \<Rightarrow> False | Some ticks \<Rightarrow> 0 < ticks)
      \<and> (case tg_boot_id t of None \<Rightarrow> False | Some i \<Rightarrow> \<not> blank_str i))"

record policy_simulation =
  ps_policy :: policy
  ps_alerts :: nat
  ps_aggregate_alerts :: nat
  ps_aggregation_evidence_truncated :: bool
  ps_detection_events :: nat
  ps_block_threshold_crossings :: nat
  ps_unattributed_threshold_events :: nat
  ps_threshold_targets :: "simulation_target list"
  ps_would_block_pids :: "pid list"

record simulation_delta =
  sd_alerts :: int
  sd_detection_events :: int
  sd_new_threshold_pids :: "pid list"
  sd_removed_threshold_pids :: "pid list"
  sd_new_block_pids :: "pid list"
  sd_removed_block_pids :: "pid list"
  sd_new_block_targets :: "target_key list"
  sd_removed_block_targets :: "target_key list"

datatype simulation_warning =
    ReplayOnly | SensorAssumed | OlderStateUnknown
  | PolicyWarning policy_role config_warning
  | SampleSizeDiffers | SamplesMissing | SamplingDiffers | ContextMissing
  | OnlyLoaded nat nat | EntropyMissing nat | NothingEvaluated | AggregationTruncated

record simulation_report =
  sr_sensor :: sensor_kind
  sr_coverage :: simulation_coverage
  sr_baseline :: policy_simulation
  sr_candidate :: policy_simulation
  sr_delta :: simulation_delta
  sr_warnings :: "simulation_warning list"

section \<open>Replay\<close>

definition policy_window_secs :: "policy \<Rightarrow> u64" where
  "policy_window_secs p =
     (let aggregate = dc_multi_window (po_detection p);
          maximum = (if mw_enabled aggregate then foldl max 0 (map dw_window_secs (mw_windows aggregate)) else 0)
      in max (dc_window_secs (po_detection p)) maximum)"

definition event_key :: "file_event \<Rightarrow> target_key" where
  "event_key e =
     \<lparr>tk_pid = fe_pid e, tk_start_time_ticks = map_option fp_start_time_ticks (fe_process e),
      tk_boot_id = map_option fp_boot_id (fe_process e)\<rparr>"

text \<open>Without an entropy budget the policy would not have sampled the file.\<close>

definition replayed_event :: "policy \<Rightarrow> file_event \<Rightarrow> file_event" where
  "replayed_event p e = (if dc_entropy_sample_bytes (po_detection p) = 0 then e\<lparr>fe_entropy := None\<rparr> else e)"

record replay_state =
  re_engine :: detection_engine
  re_result :: policy_simulation
  re_above :: "(target_key, bool \<times> u64) hmap"
  re_targets :: "(target_key, simulation_target) hmap"

definition add_evidence :: "nat \<times> file_event \<Rightarrow> evaluation \<Rightarrow> simulation_target \<Rightarrow> simulation_target" where
  "add_evidence row ev t =
     t\<lparr>tg_peak_score := f_max (tg_peak_score t) (ev_score ev),
       tg_evidence_event_ids := (if length (tg_evidence_event_ids t) < 20 then tg_evidence_event_ids t @ [fst row]
                                 else tg_evidence_event_ids t),
       tg_paths := (if length (tg_paths t) < 20 \<and> fe_path (snd row) \<notin> set (tg_paths t)
                    then tg_paths t @ [fe_path (snd row)] else tg_paths t)\<rparr>"

definition new_target :: "nat \<times> file_event \<Rightarrow> evaluation \<Rightarrow> simulation_target" where
  "new_target row ev =
     (let k = event_key (snd row)
      in \<lparr>tg_pid = fe_pid (snd row), tg_start_time_ticks = tk_start_time_ticks k, tg_boot_id = tk_boot_id k,
          tg_first_event_id = fst row, tg_first_timestamp_ms = fe_timestamp_ms (snd row), tg_peak_score = ev_score ev,
          tg_evidence_event_ids = [], tg_paths = []\<rparr>)"

definition was_above :: "policy \<Rightarrow> file_event \<Rightarrow> (target_key, bool \<times> u64) hmap \<Rightarrow> bool" where
  "was_above p e states =
     (case map_of states (event_key e) of
        None \<Rightarrow> False
      | Some (before, previous_ms) \<Rightarrow>
          before \<and> sat_sub (fe_timestamp_ms e) previous_ms \<le> sat_mul (policy_window_secs p) 1000)"

definition count_event :: "policy \<Rightarrow> file_event \<Rightarrow> evaluation \<Rightarrow> bool \<Rightarrow> bool \<Rightarrow> policy_simulation \<Rightarrow> policy_simulation" where
  "count_event p e ev over before r =
     r\<lparr>ps_alerts := ps_alerts r + (if ev_alert ev = None then 0 else 1) + length (ev_additional_alerts ev),
       ps_aggregate_alerts := ps_aggregate_alerts r + length (filter (\<lambda>d. d_pid d = 0) (ev_additional_alerts ev)),
       ps_detection_events := ps_detection_events r
         + (if ev_eligible ev \<and> f_le (dc_detect_score (po_detection p)) (ev_score ev) \<or> ev_additional_alerts ev \<noteq> [] then 1 else 0),
       ps_block_threshold_crossings := ps_block_threshold_crossings r + (if over \<and> \<not> before then 1 else 0),
       ps_unattributed_threshold_events := ps_unattributed_threshold_events r + (if over \<and> fe_pid e = 0 then 1 else 0)\<rparr>"

definition replay_row :: "policy \<Rightarrow> simulation_options \<Rightarrow> nat \<times> file_event \<Rightarrow> replay_state \<Rightarrow> replay_state" where
  "replay_row p options row st =
     (case engine_evaluate (re_engine st) (replayed_event p (snd row)) of (engine, ev) \<Rightarrow>
      let e = snd row; k = event_key e;
          over = (ev_eligible ev \<and> f_le (rc_block_score (po_response p)) (ev_score ev));
          before = was_above p e (re_above st);
          r = (re_result st)\<lparr>ps_aggregation_evidence_truncated :=
                (ps_aggregation_evidence_truncated (re_result st) \<or> ev_evidence_truncated ev)\<rparr>;
          st = st\<lparr>re_engine := engine, re_result := r, re_above := hm_put k (over, fe_timestamp_ms e) (re_above st)\<rparr>
      in if fe_timestamp_ms e < so_from_ms options then st
         else let st = st\<lparr>re_result := count_event p e ev over before (re_result st)\<rparr>
              in if \<not> block_candidate ev (po_response p) then st
                 else st\<lparr>re_targets := hm_put k
                        (add_evidence row ev (case map_of (re_targets st) k of None \<Rightarrow> new_target row ev | Some t \<Rightarrow> t))
                        (re_targets st)\<rparr>)"

definition replay_start :: "policy \<Rightarrow> simulation_options \<Rightarrow> replay_state" where
  "replay_start p options =
     \<lparr>re_engine = engine_with_sensor (po_detection p) (so_sensor options),
      re_result = \<lparr>ps_policy = p, ps_alerts = 0, ps_aggregate_alerts = 0, ps_aggregation_evidence_truncated = False,
        ps_detection_events = 0, ps_block_threshold_crossings = 0, ps_unattributed_threshold_events = 0,
        ps_threshold_targets = [], ps_would_block_pids = []\<rparr>,
      re_above = [], re_targets = []\<rparr>"

definition replay_end :: "policy \<Rightarrow> replay_state \<Rightarrow> policy_simulation" where
  "replay_end p st =
     (let targets = map snd (sort_key (\<lambda>kt. key_rank (fst kt)) (re_targets st))
      in (re_result st)\<lparr>ps_threshold_targets := targets,
           ps_would_block_pids := (if rc_auto_block (po_response p)
             then sorted_list_of_set (tg_pid ` set (filter has_identity targets)) else [])\<rparr>)"

definition replay :: "(nat \<times> file_event) list \<Rightarrow> policy \<Rightarrow> simulation_options \<Rightarrow> policy_simulation" where
  "replay rows p options = replay_end p (fold (replay_row p options) rows (replay_start p options))"

section \<open>Comparison\<close>

definition warmup_ms :: "policy \<Rightarrow> policy \<Rightarrow> u64" where
  "warmup_ms baseline candidate = sat_mul (max (policy_window_secs baseline) (policy_window_secs candidate)) 1000"

definition validate_policies ::
  "(f64 \<Rightarrow> f64) \<Rightarrow> policy \<Rightarrow> policy \<Rightarrow> sensor_kind \<Rightarrow> simulation_error + simulation_warning list" where
  "validate_policies log2 baseline candidate sensor =
     (case validate_configuration log2 (po_detection baseline) (po_response baseline) sensor of
        Inl problems \<Rightarrow> Inl (InvalidPolicy Baseline problems)
      | Inr ws \<Rightarrow>
          (case validate_configuration log2 (po_detection candidate) (po_response candidate) sensor of
             Inl problems \<Rightarrow> Inl (InvalidPolicy Candidate problems)
           | Inr vs \<Rightarrow> Inr (map (PolicyWarning Baseline) ws @ map (PolicyWarning Candidate) vs)))"

definition load_simulation_range ::
  "'v evidence_lib \<Rightarrow> (f64 \<Rightarrow> f64) \<Rightarrow> bool \<Rightarrow> evidence_store \<Rightarrow> policy \<Rightarrow> policy \<Rightarrow> simulation_options
     \<Rightarrow> simulation_error + file_event_range" where
  "load_simulation_range lib log2 fails s baseline candidate options =
     (if so_to_ms options < so_from_ms options \<or> i64_max < so_to_ms options then Inl BadRange
      else if so_max_events options = 0 \<or> 1000000 < so_max_events options then Inl BadLimit
      else case validate_policies log2 baseline candidate (so_sensor options) of
        Inl e \<Rightarrow> Inl e
      | Inr _ \<Rightarrow>
          (case file_events_in_range lib fails (sat_sub (so_from_ms options) (warmup_ms baseline candidate))
                  (so_to_ms options) (so_max_events options) s of
             Inl e \<Rightarrow> Inl (SimulationStorage e) | Inr loaded \<Rightarrow> Inr loaded))"

definition range_coverage :: "file_event_range \<Rightarrow> policy \<Rightarrow> policy \<Rightarrow> simulation_options \<Rightarrow> simulation_coverage" where
  "range_coverage loaded baseline candidate options =
     (let events = map snd (rg_events loaded);
          warmup = length (filter (\<lambda>e. fe_timestamp_ms e < so_from_ms options) events)
      in \<lparr>cv_from_ms = so_from_ms options, cv_to_ms = so_to_ms options,
          cv_warmup_from_ms = sat_sub (so_from_ms options) (warmup_ms baseline candidate),
          cv_available_events = rg_total_events loaded, cv_loaded_events = length events, cv_warmup_events = warmup,
          cv_evaluated_events = length events - warmup, cv_truncated = rg_truncated loaded,
          cv_first_loaded_ms = (case events of [] \<Rightarrow> None | e # _ \<Rightarrow> Some (fe_timestamp_ms e)),
          cv_last_loaded_ms = (case rev events of [] \<Rightarrow> None | e # _ \<Rightarrow> Some (fe_timestamp_ms e)),
          cv_missing_entropy_events = length (filter (\<lambda>e. fe_action e = Modify \<and> fe_entropy e = None) events)\<rparr>)"

definition range_warnings ::
  "file_event_range \<Rightarrow> policy \<Rightarrow> policy \<Rightarrow> simulation_coverage \<Rightarrow> simulation_warning list" where
  "range_warnings loaded baseline candidate cov =
     (let b = po_detection baseline; c = po_detection candidate;
          bs = dc_content_sampling b; cs = dc_content_sampling c; events = map snd (rg_events loaded)
      in (if dc_entropy_sample_bytes b \<noteq> dc_entropy_sample_bytes c then [SampleSizeDiffers] else [])
         @ (if cc_enabled bs \<or> cc_enabled cs
            then (if list_ex (\<lambda>e. fe_content e = None) events then [SamplesMissing] else [])
              @ (if cc_enabled bs \<noteq> cc_enabled cs \<or> cc_total_bytes bs \<noteq> cc_total_bytes cs then [SamplingDiffers] else [])
            else [])
         @ (if (dc_approved_changes b \<noteq> [] \<or> dc_approved_changes c \<noteq> []) \<and> list_ex (\<lambda>e. fe_process e = None) events
            then [ContextMissing] else [])
         @ (if rg_truncated loaded then [OnlyLoaded (rg_total_events loaded) (length events)] else [])
         @ (if 0 < cv_missing_entropy_events cov then [EntropyMissing (cv_missing_entropy_events cov)] else [])
         @ (if cv_evaluated_events cov = 0 then [NothingEvaluated] else []))"

definition threshold_pids :: "policy_simulation \<Rightarrow> pid set" where
  "threshold_pids r = tg_pid ` set (ps_threshold_targets r)"

definition block_keys :: "policy \<Rightarrow> policy_simulation \<Rightarrow> target_key set" where
  "block_keys p r =
     target_key_of ` set (filter (\<lambda>t. rc_auto_block (po_response p) \<and> has_identity t) (ps_threshold_targets r))"

definition sorted_keys :: "target_key set \<Rightarrow> target_key list" where
  "sorted_keys ks =
     map (\<lambda>(p, ticks, boot). \<lparr>tk_pid = p, tk_start_time_ticks = ticks, tk_boot_id = boot\<rparr>) (sorted_list_of_set (key_rank ` ks))"

definition delta_of :: "policy \<Rightarrow> policy \<Rightarrow> policy_simulation \<Rightarrow> policy_simulation \<Rightarrow> simulation_delta" where
  "delta_of baseline candidate b c =
     \<lparr>sd_alerts = int (ps_alerts c) - int (ps_alerts b),
      sd_detection_events = int (ps_detection_events c) - int (ps_detection_events b),
      sd_new_threshold_pids = sorted_list_of_set (threshold_pids c - threshold_pids b),
      sd_removed_threshold_pids = sorted_list_of_set (threshold_pids b - threshold_pids c),
      sd_new_block_pids = sorted_list_of_set (set (ps_would_block_pids c) - set (ps_would_block_pids b)),
      sd_removed_block_pids = sorted_list_of_set (set (ps_would_block_pids b) - set (ps_would_block_pids c)),
      sd_new_block_targets = sorted_keys (block_keys candidate c - block_keys baseline b),
      sd_removed_block_targets = sorted_keys (block_keys baseline b - block_keys candidate c)\<rparr>"

definition simulate_range ::
  "(f64 \<Rightarrow> f64) \<Rightarrow> file_event_range \<Rightarrow> policy \<Rightarrow> policy \<Rightarrow> simulation_options \<Rightarrow> simulation_error + simulation_report" where
  "simulate_range log2 loaded baseline candidate options =
     (case validate_policies log2 baseline candidate (so_sensor options) of
        Inl e \<Rightarrow> Inl e
      | Inr ws \<Rightarrow>
          let cov = range_coverage loaded baseline candidate options;
              b = replay (rg_events loaded) baseline options;
              c = replay (rg_events loaded) candidate options
          in Inr \<lparr>sr_sensor = so_sensor options, sr_coverage = cov, sr_baseline = b, sr_candidate = c,
                  sr_delta = delta_of baseline candidate b c,
                  sr_warnings = [ReplayOnly, SensorAssumed, OlderStateUnknown] @ ws @ range_warnings loaded baseline candidate cov
                    @ (if ps_aggregation_evidence_truncated b \<or> ps_aggregation_evidence_truncated c
                       then [AggregationTruncated] else [])\<rparr>)"

definition simulate ::
  "'v evidence_lib \<Rightarrow> (f64 \<Rightarrow> f64) \<Rightarrow> bool \<Rightarrow> evidence_store \<Rightarrow> policy \<Rightarrow> policy \<Rightarrow> simulation_options
     \<Rightarrow> simulation_error + simulation_report" where
  "simulate lib log2 fails s baseline candidate options =
     (case load_simulation_range lib log2 fails s baseline candidate options of
        Inl e \<Rightarrow> Inl e | Inr loaded \<Rightarrow> simulate_range log2 loaded baseline candidate options)"

section \<open>The audit of approved changes\<close>

definition AUDIT_RULES :: "string list" where
  "AUDIT_RULES = [BEHAVIOR_RULE, INSTANCE_RULE, USER_RULE, PATH_RULE, ANCESTOR_RULE]"

definition DAY_MS :: u64 where
  "DAY_MS = 86400000"

record audit_options =
  ao_simulation :: simulation_options
  ao_now_ms :: u64
  ao_expiring_within_ms :: u64
  ao_sample_limit :: usize

record rule_usage =
  ru_rule :: string
  ru_matched_events :: nat
  ru_warmup_matched_events :: nat

datatype time_status = Expired | NotStarted | Expiring | Active

datatype scope_reason = TopLevelPath | LongerThanADay | ManyPaths

record exception_usage =
  eu_definition :: approved_change
  eu_time_status :: time_status
  eu_broad_scope_reasons :: "scope_reason list"
  eu_matched_in_range :: bool
  eu_replay_matched_events :: nat
  eu_warmup_matched_events :: nat
  eu_first_matched_ms :: "u64 option"
  eu_last_matched_ms :: "u64 option"
  eu_rule_matches :: "rule_usage list"
  eu_paths :: "(string \<times> nat) list"
  eu_path_samples_truncated :: bool
  eu_process_samples :: "process_identity list"
  eu_process_samples_truncated :: bool
  eu_evidence_event_ids :: "nat list"
  eu_evidence_samples_truncated :: bool

datatype audit_warning =
    SuppliedPolicyReplay | ComparisonMeaning | FirstMatchWins | NoMatchMeaning | ScopeHeuristic
  | MatchingIncomplete | IdentityMissing nat nat

record audit_report =
  ar_now_ms :: u64
  ar_expiring_within_ms :: u64
  ar_sample_limit :: usize
  ar_missing_identity_events :: nat
  ar_missing_executable_events :: nat
  ar_matching_evidence_truncated :: bool
  ar_exceptions :: "exception_usage list"
  ar_comparison :: simulation_report
  ar_warnings :: "audit_warning list"

definition time_status_of :: "approved_change \<Rightarrow> audit_options \<Rightarrow> time_status" where
  "time_status_of change options =
     (if ac_valid_until_ms change \<le> ao_now_ms options then Expired
      else if ao_now_ms options < ac_valid_from_ms change then NotStarted
      else if sat_sub (ac_valid_until_ms change) (ao_now_ms options) \<le> ao_expiring_within_ms options then Expiring
      else Active)"

definition normal_parts :: "path \<Rightarrow> nat" where
  "normal_parts p = length (filter (\<lambda>c. case c of Normal _ \<Rightarrow> True | _ \<Rightarrow> False) (components p))"

definition broad_scope_reasons :: "approved_change \<Rightarrow> scope_reason list" where
  "broad_scope_reasons change =
     (if list_ex (\<lambda>p. normal_parts p \<le> 1) (ac_paths change) then [TopLevelPath] else [])
     @ (if DAY_MS < sat_sub (ac_valid_until_ms change) (ac_valid_from_ms change) then [LongerThanADay] else [])
     @ (if 16 < length (ac_paths change) then [ManyPaths] else [])"

definition oversized_change :: "approved_change \<Rightarrow> bool" where
  "oversized_change change =
     (256 < length (ac_id change) \<or> 128 < length (ac_paths change) \<or> length AUDIT_RULES < length (ac_adjusted_rules change)
      \<or> list_ex (\<lambda>p. 4096 < length p) (ac_paths change) \<or> 4096 < length (ac_exe change))"

definition validate_audit_options :: "policy \<Rightarrow> audit_options \<Rightarrow> simulation_error + unit" where
  "validate_audit_options p options =
     (if so_max_events (ao_simulation options) = 0 \<or> 100000 < so_max_events (ao_simulation options) then Inl AuditLimit
      else if ao_sample_limit options = 0 \<or> 100 < ao_sample_limit options then Inl AuditSamples
      else if i64_max < ao_now_ms options \<or> 366 * DAY_MS < ao_expiring_within_ms options then Inl AuditTime
      else if 128 < length (dc_approved_changes (po_detection p)) \<or> list_ex oversized_change (dc_approved_changes (po_detection p))
      then Inl AuditSize
      else Inr ())"

definition new_usage :: "audit_options \<Rightarrow> approved_change \<Rightarrow> exception_usage" where
  "new_usage options change =
     \<lparr>eu_definition = change, eu_time_status = time_status_of change options,
      eu_broad_scope_reasons = broad_scope_reasons change, eu_matched_in_range = False, eu_replay_matched_events = 0,
      eu_warmup_matched_events = 0, eu_first_matched_ms = None, eu_last_matched_ms = None,
      eu_rule_matches = map (\<lambda>r. \<lparr>ru_rule = r, ru_matched_events = 0, ru_warmup_matched_events = 0\<rparr>)
        (sorted_list_of_set (set (ac_adjusted_rules change))),
      eu_paths = [], eu_path_samples_truncated = False, eu_process_samples = [], eu_process_samples_truncated = False,
      eu_evidence_event_ids = [], eu_evidence_samples_truncated = False\<rparr>"

text \<open>The policy with every change reduced to one rule; a change without rules still hides later ones.\<close>

definition project_rule :: "string \<Rightarrow> detection_config \<Rightarrow> detection_config" where
  "project_rule rule config = config\<lparr>dc_approved_changes :=
     map (\<lambda>c. c\<lparr>ac_adjusted_rules := filter (\<lambda>r. r = rule) (ac_adjusted_rules c)\<rparr>) (dc_approved_changes config)\<rparr>"

definition change_index :: "approved_change list \<Rightarrow> string \<Rightarrow> nat option" where
  "change_index changes i = map_of (rev (zip (map ac_id changes) [0..<length changes])) i"

record matching_state =
  ms_engine :: detection_engine
  ms_usages :: "exception_usage list"
  ms_rows :: "nat set list"
  ms_truncated :: bool

definition bump_rule :: "string \<Rightarrow> bool \<Rightarrow> exception_usage \<Rightarrow> exception_usage" where
  "bump_rule rule warmup u =
     u\<lparr>eu_rule_matches := map (\<lambda>r. if ru_rule r = rule
         then if warmup then r\<lparr>ru_warmup_matched_events := ru_warmup_matched_events r + 1\<rparr>
              else r\<lparr>ru_matched_events := ru_matched_events r + 1\<rparr>
         else r) (eu_rule_matches u)\<rparr>"

definition content_action :: "file_action \<Rightarrow> bool" where
  "content_action a = (a \<in> {Create, Modify, Delete, Rename})"

definition match_row ::
  "policy \<Rightarrow> audit_options \<Rightarrow> string \<Rightarrow> nat \<times> nat \<times> file_event \<Rightarrow> matching_state \<Rightarrow> matching_state" where
  "match_row p options rule row st =
     (case row of (k, _, e) \<Rightarrow>
      case engine_evaluate (ms_engine st) (replayed_event p e) of (engine, ev) \<Rightarrow>
      let st = st\<lparr>ms_engine := engine, ms_truncated := (ms_truncated st \<or> ev_evidence_truncated ev)\<rparr>
      in if rule \<noteq> BEHAVIOR_RULE \<and> \<not> content_action (fe_action e) then st
         else case Option.bind (ev_approved_change_id ev) (change_index (dc_approved_changes (po_detection p))) of
           None \<Rightarrow> st
         | Some i \<Rightarrow>
             if list_ex (\<lambda>r. ru_rule r = rule) (eu_rule_matches (ms_usages st ! i))
             then st\<lparr>ms_usages := (ms_usages st)[i := bump_rule rule (fe_timestamp_ms e < so_from_ms (ao_simulation options)) (ms_usages st ! i)],
                     ms_rows := (ms_rows st)[i := insert k (ms_rows st ! i)]\<rparr>
             else st)"

definition match_rule ::
  "policy \<Rightarrow> audit_options \<Rightarrow> (nat \<times> file_event) list \<Rightarrow> string \<Rightarrow> matching_state \<Rightarrow> matching_state" where
  "match_rule p options rows rule st =
     (if \<not> list_ex (\<lambda>c. rule \<in> set (ac_adjusted_rules c)) (dc_approved_changes (po_detection p)) then st
      else fold (match_row p options rule) (enumerate 0 rows)
             (st\<lparr>ms_engine := engine_with_sensor (project_rule rule (po_detection p)) (so_sensor (ao_simulation options))\<rparr>))"

definition note_path :: "usize \<Rightarrow> string \<Rightarrow> exception_usage \<Rightarrow> exception_usage" where
  "note_path limit path u =
     (if path \<in> fst ` set (eu_paths u)
      then u\<lparr>eu_paths := map (\<lambda>(q, n). (q, if q = path then n + 1 else n)) (eu_paths u)\<rparr>
      else if length (eu_paths u) < unat limit then u\<lparr>eu_paths := eu_paths u @ [(path, 1)]\<rparr>
      else u\<lparr>eu_path_samples_truncated := True\<rparr>)"

definition note_process :: "usize \<Rightarrow> file_event \<Rightarrow> exception_usage \<Rightarrow> exception_usage" where
  "note_process limit e u =
     (case fe_process e of
        None \<Rightarrow> u
      | Some ctx \<Rightarrow>
          let i = \<lparr>pi_pid = fe_pid e, pi_start_time_ticks = fp_start_time_ticks ctx, pi_boot_id = fp_boot_id ctx\<rparr>
          in if i \<in> set (eu_process_samples u) then u
             else if length (eu_process_samples u) < unat limit then u\<lparr>eu_process_samples := eu_process_samples u @ [i]\<rparr>
             else u\<lparr>eu_process_samples_truncated := True\<rparr>)"

definition note_match :: "audit_options \<Rightarrow> nat \<times> file_event \<Rightarrow> exception_usage \<Rightarrow> exception_usage" where
  "note_match options row u =
     (case row of (i, e) \<Rightarrow>
      if fe_timestamp_ms e < so_from_ms (ao_simulation options)
      then u\<lparr>eu_warmup_matched_events := eu_warmup_matched_events u + 1\<rparr>
      else
        let u = u\<lparr>eu_replay_matched_events := eu_replay_matched_events u + 1,
                  eu_first_matched_ms := (case eu_first_matched_ms u of None \<Rightarrow> Some (fe_timestamp_ms e) | Some t \<Rightarrow> Some t),
                  eu_last_matched_ms := Some (fe_timestamp_ms e)\<rparr>;
            u = (if length (eu_evidence_event_ids u) < unat (ao_sample_limit options)
                 then u\<lparr>eu_evidence_event_ids := eu_evidence_event_ids u @ [i]\<rparr>
                 else u\<lparr>eu_evidence_samples_truncated := True\<rparr>)
        in note_process (ao_sample_limit options) e (note_path (ao_sample_limit options) (fe_path e) u))"

definition finish_usage :: "audit_options \<Rightarrow> (nat \<times> file_event) list \<Rightarrow> nat set \<Rightarrow> exception_usage \<Rightarrow> exception_usage" where
  "finish_usage options rows ks u =
     (let u = fold (\<lambda>k. note_match options (rows ! k)) (sorted_list_of_set ks) u
      in if 0 < eu_replay_matched_events u then u\<lparr>eu_matched_in_range := True\<rparr> else u)"

definition identity_missing :: "file_event \<Rightarrow> bool" where
  "identity_missing e =
     (fe_pid e = 0
      \<or> (case fe_process e of None \<Rightarrow> True | Some ctx \<Rightarrow> fp_start_time_ticks ctx = 0 \<or> blank_str (fp_boot_id ctx)))"

definition executable_missing :: "file_event \<Rightarrow> bool" where
  "executable_missing e = (case fe_process e of None \<Rightarrow> True | Some ctx \<Rightarrow> blank_str (fp_exe ctx))"

definition match_all :: "policy \<Rightarrow> audit_options \<Rightarrow> (nat \<times> file_event) list \<Rightarrow> matching_state" where
  "match_all p options rows =
     (let changes = dc_approved_changes (po_detection p)
      in fold (match_rule p options rows) AUDIT_RULES
        \<lparr>ms_engine = engine_with_sensor (po_detection p) (so_sensor (ao_simulation options)),
         ms_usages = map (new_usage options) changes, ms_rows = replicate (length changes) {}, ms_truncated = False\<rparr>)"

definition audit_exceptions ::
  "'v evidence_lib \<Rightarrow> (f64 \<Rightarrow> f64) \<Rightarrow> bool \<Rightarrow> evidence_store \<Rightarrow> policy \<Rightarrow> audit_options \<Rightarrow> simulation_error + audit_report" where
  "audit_exceptions lib log2 fails s p options =
     (case validate_audit_options p options of Inl e \<Rightarrow> Inl e | Inr _ \<Rightarrow>
      let bare = p\<lparr>po_detection := (po_detection p)\<lparr>dc_approved_changes := []\<rparr>\<rparr>
      in case load_simulation_range lib log2 fails s p bare (ao_simulation options) of Inl e \<Rightarrow> Inl e | Inr loaded \<Rightarrow>
      case simulate_range log2 loaded p bare (ao_simulation options) of Inl e \<Rightarrow> Inl e | Inr comparison \<Rightarrow>
      let rows = rg_events loaded; st = match_all p options rows;
          evaluated = filter (\<lambda>e. so_from_ms (ao_simulation options) \<le> fe_timestamp_ms e) (map snd rows);
          no_identity = length (filter identity_missing evaluated);
          no_executable = length (filter executable_missing evaluated)
      in Inr \<lparr>ar_now_ms = ao_now_ms options, ar_expiring_within_ms = ao_expiring_within_ms options,
              ar_sample_limit = ao_sample_limit options, ar_missing_identity_events = no_identity,
              ar_missing_executable_events = no_executable, ar_matching_evidence_truncated = ms_truncated st,
              ar_exceptions = map (\<lambda>(u, ks). finish_usage options rows ks u) (zip (ms_usages st) (ms_rows st)),
              ar_comparison = comparison,
              ar_warnings = [SuppliedPolicyReplay, ComparisonMeaning, FirstMatchWins, NoMatchMeaning, ScopeHeuristic]
                @ (if cv_truncated (sr_coverage comparison) \<or> ms_truncated st then [MatchingIncomplete] else [])
                @ (if 0 < no_identity \<or> 0 < no_executable then [IdentityMissing no_identity no_executable] else [])\<rparr>)"

section \<open>Specification notions\<close>

text \<open>The engine's assessment of the event at a position, after the events before it.\<close>

definition assessed_at ::
  "detection_config \<Rightarrow> policy \<Rightarrow> sensor_kind \<Rightarrow> (nat \<times> file_event) list \<Rightarrow> nat \<Rightarrow> evaluation" where
  "assessed_at config p sensor rows k =
     snd (engine_evaluate (run_engine (map (\<lambda>r. replayed_event p (snd r)) (take k rows)) (engine_with_sensor config sensor))
       (replayed_event p (snd (rows ! k))))"

definition evaluated_at :: "simulation_options \<Rightarrow> (nat \<times> file_event) list \<Rightarrow> nat \<Rightarrow> bool" where
  "evaluated_at options rows k = (k < length rows \<and> so_from_ms options \<le> fe_timestamp_ms (snd (rows ! k)))"

text \<open>The processes that the live agent would have tried to block while it saw these events.\<close>

definition blocked_pids :: "policy \<Rightarrow> simulation_options \<Rightarrow> (nat \<times> file_event) list \<Rightarrow> pid set" where
  "blocked_pids p options rows =
     (\<lambda>k. fe_pid (snd (rows ! k))) ` {k. evaluated_at options rows k
        \<and> should_block (assessed_at (po_detection p) p (so_sensor options) rows k) (po_response p)
        \<and> \<not> identity_missing (snd (rows ! k))}"

definition candidate_keys :: "policy \<Rightarrow> simulation_options \<Rightarrow> (nat \<times> file_event) list \<Rightarrow> target_key set" where
  "candidate_keys p options rows =
     (\<lambda>k. event_key (snd (rows ! k))) ` {k. evaluated_at options rows k
        \<and> block_candidate (assessed_at (po_detection p) p (so_sensor options) rows k) (po_response p)}"

definition key_identified :: "target_key \<Rightarrow> bool" where
  "key_identified k =
     ((case tk_start_time_ticks k of None \<Rightarrow> False | Some ticks \<Rightarrow> 0 < ticks)
      \<and> (case tk_boot_id k of None \<Rightarrow> False | Some i \<Rightarrow> \<not> blank_str i))"

definition replay_inv :: "policy \<Rightarrow> simulation_options \<Rightarrow> (nat \<times> file_event) list \<Rightarrow> replay_state \<Rightarrow> bool" where
  "replay_inv p options rows st =
     (re_engine st = run_engine (map (\<lambda>r. replayed_event p (snd r)) rows) (engine_with_sensor (po_detection p) (so_sensor options))
      \<and> fst ` set (re_targets st) = candidate_keys p options rows
      \<and> (\<forall>(k, t)\<in>set (re_targets st). target_key_of t = k))"

section \<open>A replay predicts the blocks\<close>

lemma assessed_at_append: "k < length rows \<Longrightarrow> assessed_at config p sensor (rows @ later) k = assessed_at config p sensor rows k"
  by (simp add: assessed_at_def nth_append)

lemma assessed_at_last:
  "assessed_at config p sensor (rows @ [row]) (length rows) =
     snd (engine_evaluate (run_engine (map (\<lambda>r. replayed_event p (snd r)) rows) (engine_with_sensor config sensor)) (replayed_event p (snd row)))"
  by (simp add: assessed_at_def)

lemma evaluated_at_snoc:
  "evaluated_at options (rows @ [row]) k \<longleftrightarrow>
     (if k = length rows then so_from_ms options \<le> fe_timestamp_ms (snd row) else evaluated_at options rows k)"
  by (auto simp: evaluated_at_def nth_append)

lemma positions_snoc:
  "{k. evaluated_at options (rows @ [row]) k \<and> P k} = {k. evaluated_at options rows k \<and> P k}
     \<union> (if so_from_ms options \<le> fe_timestamp_ms (snd row) \<and> P (length rows) then {length rows} else {})"
proof -
  have "\<not> evaluated_at options rows (length rows)" by (simp add: evaluated_at_def)
  then show ?thesis unfolding evaluated_at_snoc by (auto split: if_splits)
qed

lemma candidate_keys_snoc:
  "candidate_keys p options (rows @ [row]) = candidate_keys p options rows
     \<union> (if so_from_ms options \<le> fe_timestamp_ms (snd row)
           \<and> block_candidate (assessed_at (po_detection p) p (so_sensor options) (rows @ [row]) (length rows)) (po_response p)
        then {event_key (snd row)} else {})"
proof -
  let ?P = "\<lambda>rows k. block_candidate (assessed_at (po_detection p) p (so_sensor options) rows k) (po_response p)"
  have short: "k < length rows" if "evaluated_at options rows k" for k using that by (simp add: evaluated_at_def)
  have "{k. evaluated_at options rows k \<and> ?P (rows @ [row]) k} = {k. evaluated_at options rows k \<and> ?P rows k}"
    using short by (auto simp: assessed_at_append)
  then have "{k. evaluated_at options (rows @ [row]) k \<and> ?P (rows @ [row]) k} = {k. evaluated_at options rows k \<and> ?P rows k}
      \<union> (if so_from_ms options \<le> fe_timestamp_ms (snd row) \<and> ?P (rows @ [row]) (length rows) then {length rows} else {})"
    using positions_snoc [of options rows row "?P (rows @ [row])"] by simp
  moreover have "(\<lambda>k. event_key (snd ((rows @ [row]) ! k))) ` {k. evaluated_at options rows k \<and> ?P rows k} = candidate_keys p options rows"
    unfolding candidate_keys_def by (intro image_cong) (auto simp: nth_append dest: short)
  ultimately show ?thesis unfolding candidate_keys_def [of p options "rows @ [row]"] by (auto simp: image_Un)
qed

lemma new_target_key: "target_key_of (new_target row ev) = event_key (snd row)"
  by (simp add: target_key_of_def new_target_def event_key_def Let_def)

lemma add_evidence_key: "target_key_of (add_evidence row ev t) = target_key_of t"
  by (simp add: target_key_of_def add_evidence_def)

lemma hm_put_keys: "fst ` set (hm_put k v m) = insert k (fst ` set m)"
  by (simp add: hm_put_def dom_update flip: dom_map_of_conv_image_fst) (simp add: dom_map_of_conv_image_fst update_conv')

lemma replay_row_inv:
  assumes "replay_inv p options rows st"
  shows "replay_inv p options (rows @ [row]) (replay_row p options row st)"
proof -
  let ?ev = "snd (engine_evaluate (re_engine st) (replayed_event p (snd row)))"
  have eng: "re_engine st = run_engine (map (\<lambda>r. replayed_event p (snd r)) rows) (engine_with_sensor (po_detection p) (so_sensor options))"
    and keys: "fst ` set (re_targets st) = candidate_keys p options rows"
    and own: "\<forall>(k, t)\<in>set (re_targets st). target_key_of t = k"
    using assms by (simp_all add: replay_inv_def)
  have ev: "assessed_at (po_detection p) p (so_sensor options) (rows @ [row]) (length rows) = ?ev"
    by (simp add: assessed_at_last eng)
  have engine: "re_engine (replay_row p options row st) = fst (engine_evaluate (re_engine st) (replayed_event p (snd row)))"
    by (simp add: replay_row_def Let_def case_prod_unfold)
  let ?c = "so_from_ms options \<le> fe_timestamp_ms (snd row) \<and> block_candidate ?ev (po_response p)"
  let ?t = "add_evidence row ?ev (case map_of (re_targets st) (event_key (snd row)) of None \<Rightarrow> new_target row ?ev | Some t \<Rightarrow> t)"
  have targets: "re_targets (replay_row p options row st) = (if ?c then hm_put (event_key (snd row)) ?t (re_targets st) else re_targets st)"
    by (auto simp: replay_row_def Let_def case_prod_unfold)
  have t: "target_key_of ?t = event_key (snd row)"
    using own by (auto simp: add_evidence_key new_target_key split: option.split dest!: map_of_SomeD)
  have "fst ` set (re_targets (replay_row p options row st)) = candidate_keys p options (rows @ [row])"
    unfolding targets candidate_keys_snoc ev keys [symmetric] by (simp add: hm_put_keys)
  moreover have "\<forall>(k, x)\<in>set (re_targets (replay_row p options row st)). target_key_of x = k"
    using own t hm_set_put [of "event_key (snd row)" ?t "re_targets st"] unfolding targets by auto
  ultimately show ?thesis by (simp add: replay_inv_def engine eng run_engine_def)
qed

lemma replay_fold_inv: "replay_inv p options rows (fold (replay_row p options) rows (replay_start p options))"
proof (induction rows rule: rev_induct)
  case Nil
  then show ?case by (simp add: replay_inv_def replay_start_def run_engine_def candidate_keys_def evaluated_at_def)
next
  case (snoc row rows)
  then show ?case using replay_row_inv by simp
qed

lemma event_key_identified: "fe_pid e \<noteq> 0 \<Longrightarrow> key_identified (event_key e) \<longleftrightarrow> \<not> identity_missing e"
  by (auto simp: key_identified_def event_key_def identity_missing_def word_neq_0_conv split: option.splits)

lemma has_identity_key: "has_identity t = key_identified (target_key_of t)"
  by (simp add: has_identity_def key_identified_def target_key_of_def)

lemma replayed_pid: "fe_pid (replayed_event p e) = fe_pid e"
  by (simp add: replayed_event_def)

lemma would_block_keys: "tk_pid ` {k \<in> candidate_keys p options rows. key_identified k} =
   (\<lambda>k. fe_pid (snd (rows ! k))) ` {k. evaluated_at options rows k
     \<and> block_candidate (assessed_at (po_detection p) p (so_sensor options) rows k) (po_response p) \<and> \<not> identity_missing (snd (rows ! k))}"
proof -
  have pid: "fe_pid (snd (rows ! k)) \<noteq> 0"
    if "block_candidate (assessed_at (po_detection p) p (so_sensor options) rows k) (po_response p)" for k
    using that by (simp add: block_candidate_def assessed_at_def engine_pid replayed_pid)
  have key: "tk_pid (event_key e) = fe_pid e" for e by (simp add: event_key_def)
  show ?thesis unfolding candidate_keys_def using pid event_key_identified
    by (intro set_eqI iffI) (auto simp: key image_iff)
qed

lemma replay_blocks:
  "ps_would_block_pids (replay rows p options) = sorted_list_of_set (blocked_pids p options rows)"
proof -
  let ?st = "fold (replay_row p options) rows (replay_start p options)"
  have inv: "fst ` set (re_targets ?st) = candidate_keys p options rows" "\<forall>(k, t)\<in>set (re_targets ?st). target_key_of t = k"
    using replay_fold_inv [of p options rows] by (simp_all add: replay_inv_def)
  have pid: "tg_pid t = tk_pid (target_key_of t)" for t by (simp add: target_key_of_def)
  have "tg_pid ` set (filter has_identity (map snd (sort_key (\<lambda>kt. key_rank (fst kt)) (re_targets ?st))))
      = tk_pid ` {k \<in> candidate_keys p options rows. key_identified k}"
    using inv(2) unfolding inv(1) [symmetric] by (force simp: pid has_identity_key image_iff)
  then show ?thesis unfolding would_block_keys
    by (auto simp: replay_def replay_end_def Let_def blocked_pids_def should_block_def)
qed

lemma blocked_pids_finite: "finite (blocked_pids p options rows)"
  unfolding blocked_pids_def by (rule finite_imageI, rule finite_subset [of _ "{..<length rows}"]) (auto simp: evaluated_at_def)

lemma simulate_parts:
  assumes "simulate lib log2 fails s baseline candidate options = Inr report"
  obtains loaded where "load_simulation_range lib log2 fails s baseline candidate options = Inr loaded"
    "sr_baseline report = replay (rg_events loaded) baseline options"
    "sr_candidate report = replay (rg_events loaded) candidate options"
    "sr_delta report = delta_of baseline candidate (sr_baseline report) (sr_candidate report)"
  using assms by (auto simp: simulate_def simulate_range_def Let_def split: sum.splits)

text \<open>
  C30: a completed simulation predicts, for each of the two policies, exactly the processes that the
  detection engine would have handed to the responder on the loaded events: those that own an event of
  the requested period which the engine, after all earlier events of the period and its warm-up,
  assesses as blockable under that policy, and whose identity is known.  The new and the removed
  processes of the comparison are the two differences of these sets, each in ascending order.
\<close>

theorem simulation_predicts_blocks:
  assumes "simulate lib log2 fails s baseline candidate options = Inr report"
  shows "\<exists>loaded. load_simulation_range lib log2 fails s baseline candidate options = Inr loaded
    \<and> ps_would_block_pids (sr_baseline report) = sorted_list_of_set (blocked_pids baseline options (rg_events loaded))
    \<and> ps_would_block_pids (sr_candidate report) = sorted_list_of_set (blocked_pids candidate options (rg_events loaded))
    \<and> sd_new_block_pids (sr_delta report) =
        sorted_list_of_set (blocked_pids candidate options (rg_events loaded) - blocked_pids baseline options (rg_events loaded))
    \<and> sd_removed_block_pids (sr_delta report) =
        sorted_list_of_set (blocked_pids baseline options (rg_events loaded) - blocked_pids candidate options (rg_events loaded))"
  using assms by (rule simulate_parts) (simp add: delta_of_def replay_blocks blocked_pids_finite)

section \<open>A stored attack\<close>

definition armed_policy :: "bool \<Rightarrow> policy" where
  "armed_policy auto_block = policy_default\<lparr>po_detection := canary_config, po_response := \<lparr>rc_auto_block = auto_block, rc_block_score = Fin 80\<rparr>\<rparr>"

definition attack :: file_event where
  "attack = demo_event 20 42 7 ''/srv/tmp/canary''"

definition attack_lib :: "file_event evidence_lib" where
  "attack_lib = sample_evidence_lib\<lparr>el_parse_value := (\<lambda>_. Some attack)\<rparr>"

definition attacked_store :: evidence_store where
  "attacked_store = open_empty\<lparr>db_file_seq := 1, db_files :=
     [\<lparr>fr_id = 1, fr_timestamp_ms = 20, fr_pid = 42, fr_path = ''/srv/tmp/canary'', fr_action = ''Modify'', fr_size = None,
       fr_entropy = Some (Fin 7), fr_event_json = Some ''e''\<rparr>]\<rparr>"

definition attack_options :: simulation_options where
  "attack_options = \<lparr>so_from_ms = 10, so_to_ms = 30, so_max_events = 5, so_sensor = Fanotify\<rparr>"

lemma armed_policy_accepted: "config_problems (po_detection (armed_policy b)) (po_response (armed_policy b)) = []"
proof -
  have "absolute_clean_path ''/srv/tmp/canary''" "has_file_name ''/srv/tmp/canary''" by code_simp+
  then show ?thesis
    by (simp add: armed_policy_def config_problems_def canary_config_def multi_config_def multi_problems_def
        multi_window_config_default_def sampling_problem_def content_sampling_config_default_def checked_mul_def
        detection_window_default_def)
qed

lemma attack_read: "decode_file_event attack_lib (hd (db_files attacked_store)) = Some (1, attack)"
  by (simp add: decode_file_event_def attack_lib_def attacked_store_def sample_evidence_lib_def action_of_def valid_entropy_def
      read_u64_def read_optional_u64_def with_columns_def attack_def demo_event_def)

lemma armed_policies_valid:
  "\<exists>ws. validate_policies log2 (armed_policy b) (armed_policy c) sensor = Inr ws"
  by (simp add: validate_policies_def validate_configuration_def armed_policy_accepted)

lemma single_row_loaded:
  assumes "validate_policies log2 a b Fanotify = Inr ws" "sat_sub 10 (warmup_ms a b) = 0"
    and row: "db_files s = [row]" "fr_timestamp_ms row = 20" "decode_file_event lib row = Some x"
  shows "\<exists>loaded. load_simulation_range lib log2 False s a b attack_options = Inr loaded \<and> rg_events loaded = [x]"
proof -
  have "file_events_in_range lib False 0 30 5 s =
      Inr \<lparr>rg_from_ms = 0, rg_to_ms = 30, rg_total_events = 1, rg_truncated = False, rg_events = [x]\<rparr>"
    by (simp add: file_events_in_range_def row between_def in_order_def sql_limit_def i64_max_def)
  then show ?thesis using assms(1,2) by (simp add: load_simulation_range_def attack_options_def i64_max_def)
qed

lemma attack_loaded:
  "\<exists>loaded. load_simulation_range attack_lib log2 False attacked_store (armed_policy False) (armed_policy True) attack_options = Inr loaded
     \<and> rg_events loaded = [(1, attack)]"
proof -
  obtain ws where v: "validate_policies log2 (armed_policy False) (armed_policy True) Fanotify = Inr ws"
    using armed_policies_valid by blast
  have w: "sat_sub 10 (warmup_ms (armed_policy False) (armed_policy True)) = 0"
    by (simp add: warmup_ms_def policy_window_secs_def armed_policy_def canary_config_def multi_config_def Let_def
        multi_window_config_default_def detection_window_default_def sat_mul_def sat_sub_def)
  obtain row where "db_files attacked_store = [row]" "fr_timestamp_ms row = 20" by (simp add: attacked_store_def)
  then show ?thesis using single_row_loaded [OF v w] attack_read by simp
qed

lemma attack_blocked: "blocked_pids (armed_policy b) attack_options [(i, attack)] = (if b then {42} else {})"
proof -
  let ?eng = "engine_with_sensor canary_config Fanotify"
  have e: "replayed_event (armed_policy b) attack = attack"
    by (simp add: replayed_event_def armed_policy_def canary_config_def multi_config_def)
  have c: "tampers_canary canary_config attack" "is_excluded canary_config (fe_path attack)" by (code_simp, code_simp)
  have ev: "engine_evaluate ?eng attack = check_canary attack (?eng, no_evidence attack)"
    using c by (simp add: engine_evaluate_def engine_with_sensor_def)
  have "\<not> blank_str ''boot-a''" by code_simp
  then have own: "fe_pid attack = 42" "\<not> identity_missing attack" "fe_timestamp_ms attack = 20"
    by (simp_all add: attack_def demo_event_def identity_missing_def)
  then have position: "evaluated_at attack_options [(i, attack)] k \<longleftrightarrow> k = 0" for k
    by (cases k) (simp_all add: evaluated_at_def attack_options_def)
  have cfg: "de_config ?eng = canary_config" by (simp add: engine_with_sensor_def)
  have seen: "assessed_at canary_config (armed_policy b) Fanotify [(i, attack)] 0 = snd (check_canary attack (?eng, no_evidence attack))"
    by (simp add: assessed_at_def run_engine_def e ev)
  have "po_response (armed_policy b) = \<lparr>rc_auto_block = b, rc_block_score = Fin 80\<rparr>" by (simp add: armed_policy_def)
  then have "should_block (assessed_at canary_config (armed_policy b) Fanotify [(i, attack)] 0) (po_response (armed_policy b)) = b"
    using c(1) own(1) by (simp add: seen should_block_def block_candidate_def canary_parts no_evidence_def cfg f_max_def)
  then have "(evaluated_at attack_options [(i, attack)] k
      \<and> should_block (assessed_at canary_config (armed_policy b) Fanotify [(i, attack)] k) (po_response (armed_policy b))
      \<and> \<not> identity_missing (snd ([(i, attack)] ! k))) \<longleftrightarrow> b \<and> k = 0" for k
    using own(2) by (cases "k = 0") (simp_all add: position)
  then show ?thesis using own(1) by (simp add: blocked_pids_def armed_policy_def attack_options_def)
qed

theorem simulation_predicts_blocks_witness:
  "\<exists>report. simulate attack_lib (\<lambda>_. Fin 8) False attacked_store (armed_policy False) (armed_policy True) attack_options = Inr report
     \<and> sd_new_block_pids (sr_delta report) = [42] \<and> sd_removed_block_pids (sr_delta report) = []"
proof -
  obtain loaded where l: "load_simulation_range attack_lib (\<lambda>_. Fin 8) False attacked_store (armed_policy False) (armed_policy True)
      attack_options = Inr loaded" "rg_events loaded = [(1, attack)]" using attack_loaded by blast
  obtain ws where "validate_policies (\<lambda>_. Fin 8) (armed_policy False) (armed_policy True) Fanotify = Inr ws"
    using armed_policies_valid by blast
  then obtain report where r: "simulate attack_lib (\<lambda>_. Fin 8) False attacked_store (armed_policy False) (armed_policy True)
      attack_options = Inr report"
    using l(1) by (simp add: simulate_def simulate_range_def attack_options_def Let_def)
  from simulation_predicts_blocks [OF r] l r show ?thesis by (simp add: attack_blocked)
qed

section \<open>The audit counts exactly the matches\<close>

text \<open>A change matches an event under a rule: the engine, run with the changes reduced to that rule, names it.\<close>

definition change_matched ::
  "policy \<Rightarrow> audit_options \<Rightarrow> (nat \<times> file_event) list \<Rightarrow> string \<Rightarrow> nat \<Rightarrow> nat \<Rightarrow> bool" where
  "change_matched p options rows rule i k =
     (k < length rows \<and> i < length (dc_approved_changes (po_detection p))
      \<and> rule \<in> set (ac_adjusted_rules (dc_approved_changes (po_detection p) ! i))
      \<and> (rule = BEHAVIOR_RULE \<or> content_action (fe_action (snd (rows ! k))))
      \<and> Option.bind (ev_approved_change_id
           (assessed_at (project_rule rule (po_detection p)) p (so_sensor (ao_simulation options)) rows k))
           (change_index (dc_approved_changes (po_detection p))) = Some i)"

definition rule_tally ::
  "policy \<Rightarrow> audit_options \<Rightarrow> (nat \<times> file_event) list \<Rightarrow> (string \<times> nat) set \<Rightarrow> nat \<Rightarrow> string \<Rightarrow> rule_usage" where
  "rule_tally p options rows seen i r =
     \<lparr>ru_rule = r,
      ru_matched_events = card {k. (r, k) \<in> seen \<and> change_matched p options rows r i k \<and> evaluated_at (ao_simulation options) rows k},
      ru_warmup_matched_events =
        card {k. (r, k) \<in> seen \<and> change_matched p options rows r i k \<and> \<not> evaluated_at (ao_simulation options) rows k}\<rparr>"

definition usage_tally ::
  "policy \<Rightarrow> audit_options \<Rightarrow> (nat \<times> file_event) list \<Rightarrow> (string \<times> nat) set \<Rightarrow> nat \<Rightarrow> exception_usage" where
  "usage_tally p options rows seen i =
     (let change = dc_approved_changes (po_detection p) ! i
      in (new_usage options change)\<lparr>eu_rule_matches :=
           map (rule_tally p options rows seen i) (sorted_list_of_set (set (ac_adjusted_rules change)))\<rparr>)"

definition matching_inv ::
  "policy \<Rightarrow> audit_options \<Rightarrow> (nat \<times> file_event) list \<Rightarrow> (string \<times> nat) set \<Rightarrow> matching_state \<Rightarrow> bool" where
  "matching_inv p options rows seen st =
     (let n = length (dc_approved_changes (po_detection p))
      in ms_usages st = map (usage_tally p options rows seen) [0..<n]
         \<and> ms_rows st = map (\<lambda>i. {k. \<exists>r. (r, k) \<in> seen \<and> change_matched p options rows r i k}) [0..<n])"

lemma change_index_bound: "change_index changes i = Some n \<Longrightarrow> n < length changes"
  by (auto simp: change_index_def dest!: map_of_SomeD set_zip_rightD)

lemma usage_rules: "list_ex (\<lambda>r. ru_rule r = rule) (eu_rule_matches (usage_tally p options rows seen i))
    \<longleftrightarrow> rule \<in> set (ac_adjusted_rules (dc_approved_changes (po_detection p) ! i))"
  by (simp add: usage_tally_def Let_def list_ex_iff rule_tally_def)

lemma handled_insert:
  assumes "finite seen" "(rule, j) \<notin> seen"
  shows "card {k. (r, k) \<in> insert (rule, j) seen \<and> P k} = card {k. (r, k) \<in> seen \<and> P k} + (if r = rule \<and> P j then 1 else 0)"
proof -
  have "finite (snd ` (seen \<inter> {rk. fst rk = r}))" using assms(1) by simp
  then have "finite {k. (r, k) \<in> seen \<and> P k}" by (rule rev_finite_subset) (force simp: image_iff)
  moreover have "{k. (r, k) \<in> insert (rule, j) seen \<and> P k} =
    (if r = rule \<and> P j then insert j {k. (r, k) \<in> seen \<and> P k} else {k. (r, k) \<in> seen \<and> P k})" by auto
  ultimately show ?thesis using assms(2) by (cases "r = rule \<and> P j") (auto simp del: insert_iff)
qed

lemma rule_tally_insert:
  assumes "finite seen" "(rule, k) \<notin> seen" "k < length rows"
  shows "rule_tally p options rows (insert (rule, k) seen) i r =
    (if r = rule \<and> change_matched p options rows rule i k
     then if fe_timestamp_ms (snd (rows ! k)) < so_from_ms (ao_simulation options)
          then (rule_tally p options rows seen i r)\<lparr>ru_warmup_matched_events := ru_warmup_matched_events (rule_tally p options rows seen i r) + 1\<rparr>
          else (rule_tally p options rows seen i r)\<lparr>ru_matched_events := ru_matched_events (rule_tally p options rows seen i r) + 1\<rparr>
     else rule_tally p options rows seen i r)"
proof -
  have e: "evaluated_at (ao_simulation options) rows k \<longleftrightarrow> \<not> fe_timestamp_ms (snd (rows ! k)) < so_from_ms (ao_simulation options)"
    using assms(3) by (simp add: evaluated_at_def not_less)
  show ?thesis by (cases "r = rule") (simp_all add: rule_tally_def handled_insert [OF assms(1,2)] e del: insert_iff)
qed

lemma usage_tally_insert:
  assumes "finite seen" "(rule, k) \<notin> seen" "k < length rows"
  shows "usage_tally p options rows (insert (rule, k) seen) i =
    (if change_matched p options rows rule i k
     then bump_rule rule (fe_timestamp_ms (snd (rows ! k)) < so_from_ms (ao_simulation options)) (usage_tally p options rows seen i)
     else usage_tally p options rows seen i)"
proof -
  have name: "ru_rule (rule_tally p options rows seen i r) = r" for r by (simp add: rule_tally_def)
  show ?thesis
    by (auto simp: usage_tally_def Let_def bump_rule_def rule_tally_insert [OF assms] name comp_def)
qed

lemma match_row_inv:
  assumes inv: "matching_inv p options rows seen st" and seen: "finite seen" "(rule, k) \<notin> seen" "k < length rows"
    and eng: "ms_engine st = run_engine (map (\<lambda>r. replayed_event p (snd r)) (take k rows))
      (engine_with_sensor (project_rule rule (po_detection p)) (so_sensor (ao_simulation options)))"
  shows "matching_inv p options rows (insert (rule, k) seen) (match_row p options rule (k, rows ! k) st)"
proof -
  let ?changes = "dc_approved_changes (po_detection p)" and ?e = "snd (rows ! k)"
  let ?id = "Option.bind (ev_approved_change_id (snd (engine_evaluate (ms_engine st) (replayed_event p ?e)))) (change_index ?changes)"
  let ?warm = "fe_timestamp_ms ?e < so_from_ms (ao_simulation options)"
  have st: "ms_usages st = map (usage_tally p options rows seen) [0..<length ?changes]"
    "ms_rows st = map (\<lambda>i. {k. \<exists>r. (r, k) \<in> seen \<and> change_matched p options rows r i k}) [0..<length ?changes]"
    using inv by (simp_all add: matching_inv_def Let_def)
  have rows: "{j. \<exists>r. (r, j) \<in> insert (rule, k) seen \<and> change_matched p options rows r i j} =
      (if change_matched p options rows rule i k then insert k {j. \<exists>r. (r, j) \<in> seen \<and> change_matched p options rows r i j}
       else {j. \<exists>r. (r, j) \<in> seen \<and> change_matched p options rows r i j})" for i by auto
  have hit: "change_matched p options rows rule i k \<longleftrightarrow> rule \<in> set (ac_adjusted_rules (?changes ! i))
      \<and> (rule = BEHAVIOR_RULE \<or> content_action (fe_action ?e)) \<and> ?id = Some i" if "i < length ?changes" for i
    using that seen(3) by (simp add: change_matched_def assessed_at_def eng)
  show ?thesis
  proof (cases "\<exists>i. i < length ?changes \<and> change_matched p options rows rule i k")
    case True
    then obtain i where i: "i < length ?changes" "change_matched p options rows rule i k" by blast
    then have one: "?id = Some i" and guard: "rule = BEHAVIOR_RULE \<or> content_action (fe_action ?e)" using hit by auto
    have only: "change_matched p options rows rule j k \<longleftrightarrow> j = i" if "j < length ?changes" for j
      using hit [OF that] i one by auto
    have rules: "list_ex (\<lambda>r. ru_rule r = rule) (eu_rule_matches (ms_usages st ! i))" using i hit by (simp add: st usage_rules)
    have "ms_usages (match_row p options rule (k, rows ! k) st) = (ms_usages st)[i := bump_rule rule ?warm (ms_usages st ! i)]"
      "ms_rows (match_row p options rule (k, rows ! k) st) = (ms_rows st)[i := insert k (ms_rows st ! i)]"
      using one guard rules by (auto simp: match_row_def case_prod_unfold Let_def)
    then show ?thesis using i only unfolding matching_inv_def Let_def rows usage_tally_insert [OF seen]
      by (auto simp: st nth_list_update intro!: nth_equalityI)
  next
    case False
    have miss: "\<not> list_ex (\<lambda>r. ru_rule r = rule) (eu_rule_matches (ms_usages st ! i))"
      if "?id = Some i" "rule = BEHAVIOR_RULE \<or> content_action (fe_action ?e)" for i
    proof -
      have "i < length ?changes" using that(1) change_index_bound by (auto simp: bind_eq_Some_conv)
      then show ?thesis using False hit that by (auto simp: st usage_rules)
    qed
    have "ms_usages (match_row p options rule (k, rows ! k) st) = ms_usages st"
      "ms_rows (match_row p options rule (k, rows ! k) st) = ms_rows st"
      using miss by (auto simp: match_row_def case_prod_unfold Let_def split: option.split)
    then show ?thesis using False unfolding matching_inv_def Let_def rows usage_tally_insert [OF seen]
      by (auto simp: st)
  qed
qed

lemma match_fold_inv:
  assumes inv: "matching_inv p options rows seen st" and seen: "finite seen" "rule \<notin> fst ` seen" and "n \<le> length rows"
    and eng: "ms_engine st = engine_with_sensor (project_rule rule (po_detection p)) (so_sensor (ao_simulation options))"
  shows "matching_inv p options rows (seen \<union> {rule} \<times> {..<n}) (fold (match_row p options rule) (take n (enumerate 0 rows)) st)
    \<and> ms_engine (fold (match_row p options rule) (take n (enumerate 0 rows)) st) =
        run_engine (map (\<lambda>r. replayed_event p (snd r)) (take n rows)) (ms_engine st)"
  using \<open>n \<le> length rows\<close>
proof (induction n)
  case 0
  then show ?case using inv by (simp add: run_engine_def)
next
  case (Suc n)
  let ?st = "fold (match_row p options rule) (take n (enumerate 0 rows)) st"
  have n: "n < length rows" using Suc.prems by simp
  have next_row: "take (Suc n) (enumerate 0 rows) = take n (enumerate 0 rows) @ [(n, rows ! n)]"
    "take (Suc n) rows = take n rows @ [rows ! n]"
    using n by (simp_all add: take_Suc_conv_app_nth nth_enumerate_eq)
  have ih: "matching_inv p options rows (seen \<union> {rule} \<times> {..<n}) ?st"
    "ms_engine ?st = run_engine (map (\<lambda>r. replayed_event p (snd r)) (take n rows)) (ms_engine st)"
    using Suc n by simp_all
  have "ms_engine (match_row p options rule (n, rows ! n) ?st) = fst (engine_evaluate (ms_engine ?st) (replayed_event p (snd (rows ! n))))"
    by (auto simp: match_row_def case_prod_unfold Let_def split: option.split)
  moreover have "insert (rule, n) (seen \<union> {rule} \<times> {..<n}) = seen \<union> {rule} \<times> {..<Suc n}"
    by (auto simp: lessThan_Suc)
  moreover have "(rule, n) \<notin> seen \<union> {rule} \<times> {..<n}" using seen(2) by force
  then have "matching_inv p options rows (insert (rule, n) (seen \<union> {rule} \<times> {..<n})) (match_row p options rule (n, rows ! n) ?st)"
    using match_row_inv [OF ih(1) _ _ n] seen(1) ih(2) eng by simp
  ultimately show ?case using ih(2) by (simp add: next_row run_engine_def)
qed

lemma matching_inv_unmatched:
  assumes "\<And>i k. \<not> change_matched p options rows rule i k"
  shows "matching_inv p options rows (seen \<union> {rule} \<times> A) st = matching_inv p options rows seen st"
proof -
  have same: "(r, k) \<in> seen \<union> {rule} \<times> A \<and> change_matched p options rows r i k \<longleftrightarrow> (r, k) \<in> seen \<and> change_matched p options rows r i k" for r i k
    using assms by auto
  have "rule_tally p options rows (seen \<union> {rule} \<times> A) i r = rule_tally p options rows seen i r" for i r
    unfolding rule_tally_def conj_assoc [symmetric] same ..
  then have "usage_tally p options rows (seen \<union> {rule} \<times> A) i = usage_tally p options rows seen i" for i
    by (simp add: usage_tally_def cong: map_cong)
  then show ?thesis unfolding matching_inv_def same by (simp cong: map_cong)
qed

lemma match_rule_inv:
  assumes inv: "matching_inv p options rows seen st" and seen: "finite seen" "rule \<notin> fst ` seen"
  shows "matching_inv p options rows (seen \<union> {rule} \<times> {..<length rows}) (match_rule p options rows rule st)"
proof (cases "list_ex (\<lambda>c. rule \<in> set (ac_adjusted_rules c)) (dc_approved_changes (po_detection p))")
  case True
  let ?st = "st\<lparr>ms_engine := engine_with_sensor (project_rule rule (po_detection p)) (so_sensor (ao_simulation options))\<rparr>"
  have "matching_inv p options rows seen ?st" using inv by (simp add: matching_inv_def)
  from match_fold_inv [OF this seen order_refl] show ?thesis using True by (simp add: match_rule_def)
next
  case False
  then have "\<not> change_matched p options rows rule i k" for i k
    by (auto simp: change_matched_def list_ex_iff)
  then show ?thesis using inv False by (simp add: match_rule_def matching_inv_unmatched)
qed

lemma match_rules_inv:
  assumes "matching_inv p options rows seen st" "finite seen" "distinct rules" "fst ` seen \<inter> set rules = {}"
  shows "matching_inv p options rows (seen \<union> set rules \<times> {..<length rows}) (fold (match_rule p options rows) rules st)"
  using assms
proof (induction rules arbitrary: seen st)
  case (Cons rule rules)
  let ?seen = "seen \<union> {rule} \<times> {..<length rows}"
  have "matching_inv p options rows ?seen (match_rule p options rows rule st)"
    using Cons.prems by (intro match_rule_inv) auto
  then have "matching_inv p options rows (?seen \<union> set rules \<times> {..<length rows})
      (fold (match_rule p options rows) rules (match_rule p options rows rule st))"
    using Cons.prems by (intro Cons.IH) auto
  moreover have "?seen \<union> set rules \<times> {..<length rows} = seen \<union> set (rule # rules) \<times> {..<length rows}" by auto
  ultimately show ?case by simp
qed simp

lemma usage_tally_start: "usage_tally p options rows {} i = new_usage options (dc_approved_changes (po_detection p) ! i)"
  by (simp add: usage_tally_def new_usage_def rule_tally_def Let_def)

lemma AUDIT_RULES_distinct: "distinct AUDIT_RULES"
  by code_simp

lemma match_all_inv: "matching_inv p options rows (set AUDIT_RULES \<times> {..<length rows}) (match_all p options rows)"
proof -
  let ?start = "\<lparr>ms_engine = engine_with_sensor (po_detection p) (so_sensor (ao_simulation options)),
    ms_usages = map (new_usage options) (dc_approved_changes (po_detection p)),
    ms_rows = replicate (length (dc_approved_changes (po_detection p))) {}, ms_truncated = False\<rparr>"
  have "matching_inv p options rows {} ?start"
    by (auto simp: matching_inv_def Let_def usage_tally_start intro!: nth_equalityI)
  from match_rules_inv [OF this _ AUDIT_RULES_distinct] show ?thesis by (simp add: match_all_def Let_def)
qed

lemma note_path_keeps:
  "eu_definition (note_path limit path u) = eu_definition u" "eu_rule_matches (note_path limit path u) = eu_rule_matches u"
  "eu_replay_matched_events (note_path limit path u) = eu_replay_matched_events u"
  "eu_first_matched_ms (note_path limit path u) = eu_first_matched_ms u"
  "eu_last_matched_ms (note_path limit path u) = eu_last_matched_ms u"
  "eu_evidence_event_ids (note_path limit path u) = eu_evidence_event_ids u"
  "eu_evidence_samples_truncated (note_path limit path u) = eu_evidence_samples_truncated u"
  "eu_matched_in_range (note_path limit path u) = eu_matched_in_range u"
  by (simp_all add: note_path_def)

lemma note_process_keeps:
  "eu_definition (note_process limit e u) = eu_definition u" "eu_rule_matches (note_process limit e u) = eu_rule_matches u"
  "eu_replay_matched_events (note_process limit e u) = eu_replay_matched_events u"
  "eu_first_matched_ms (note_process limit e u) = eu_first_matched_ms u"
  "eu_last_matched_ms (note_process limit e u) = eu_last_matched_ms u"
  "eu_evidence_event_ids (note_process limit e u) = eu_evidence_event_ids u"
  "eu_evidence_samples_truncated (note_process limit e u) = eu_evidence_samples_truncated u"
  "eu_matched_in_range (note_process limit e u) = eu_matched_in_range u"
  by (simp_all add: note_process_def Let_def split: option.split)

definition fresh_usage :: "exception_usage \<Rightarrow> bool" where
  "fresh_usage u = (eu_replay_matched_events u = 0 \<and> eu_first_matched_ms u = None \<and> eu_last_matched_ms u = None
     \<and> eu_evidence_event_ids u = [] \<and> \<not> eu_evidence_samples_truncated u \<and> \<not> eu_matched_in_range u)"

lemma note_matches:
  assumes "fresh_usage u"
  shows "let v = fold (note_match options) xs u; hits = filter (\<lambda>r. so_from_ms (ao_simulation options) \<le> fe_timestamp_ms (snd r)) xs
    in eu_definition v = eu_definition u \<and> eu_rule_matches v = eu_rule_matches u \<and> eu_matched_in_range v = eu_matched_in_range u
     \<and> eu_replay_matched_events v = length hits
     \<and> eu_first_matched_ms v = (if hits = [] then None else Some (fe_timestamp_ms (snd (hd hits))))
     \<and> eu_last_matched_ms v = (if hits = [] then None else Some (fe_timestamp_ms (snd (last hits))))
     \<and> eu_evidence_event_ids v = take (unat (ao_sample_limit options)) (map fst hits)
     \<and> eu_evidence_samples_truncated v = (unat (ao_sample_limit options) < length hits)"
proof (induction xs rule: rev_induct)
  case Nil
  then show ?case using assms by (simp add: fresh_usage_def)
next
  case (snoc row xs)
  obtain i e where row: "row = (i, e)" by (cases row)
  have "fe_timestamp_ms e < so_from_ms (ao_simulation options) \<longleftrightarrow> \<not> so_from_ms (ao_simulation options) \<le> fe_timestamp_ms e"
    by (simp add: not_le)
  with snoc show ?case
    by (auto simp: Let_def row note_match_def note_path_keeps note_process_keeps min_def split: if_splits)
qed

lemma positions_in_order: "sorted_list_of_set {k. k < n \<and> P k} = filter P [0..<n]"
proof -
  have "sorted_list_of_set (set (filter P [0..<n])) = filter P [0..<n]"
    by (rule sorted_list_of_set.idem_if_sorted_distinct) (simp_all add: sorted_wrt_filter)
  moreover have "set (filter P [0..<n]) = {k. k < n \<and> P k}" by auto
  ultimately show ?thesis by simp
qed

text \<open>The positions of the requested period at which a change matched under one of the audited rules.\<close>

definition change_hits :: "policy \<Rightarrow> audit_options \<Rightarrow> (nat \<times> file_event) list \<Rightarrow> nat \<Rightarrow> nat list" where
  "change_hits p options rows i =
     filter (\<lambda>k. evaluated_at (ao_simulation options) rows k \<and> list_ex (\<lambda>rule. change_matched p options rows rule i k) AUDIT_RULES)
       [0..<length rows]"

lemma finished_usage:
  assumes "fresh_usage u" "ks = {k. k < length rows \<and> P k}" and u': "u' = finish_usage options rows ks u"
    and hits: "hits = filter (\<lambda>k. evaluated_at (ao_simulation options) rows k \<and> P k) [0..<length rows]"
  shows "eu_definition u' = eu_definition u" "eu_rule_matches u' = eu_rule_matches u"
    "eu_replay_matched_events u' = length hits"
    "eu_first_matched_ms u' = (if hits = [] then None else Some (fe_timestamp_ms (snd (rows ! hd hits))))"
    "eu_last_matched_ms u' = (if hits = [] then None else Some (fe_timestamp_ms (snd (rows ! last hits))))"
    "eu_evidence_event_ids u' = take (unat (ao_sample_limit options)) (map (\<lambda>k. fst (rows ! k)) hits)"
    "eu_evidence_samples_truncated u' \<longleftrightarrow> unat (ao_sample_limit options) < length hits"
    "eu_matched_in_range u' \<longleftrightarrow> hits \<noteq> []"
proof -
  let ?xs = "map ((!) rows) (filter P [0..<length rows])"
  let ?v = "fold (note_match options) ?xs u"
  have v: "finish_usage options rows ks u = (if 0 < eu_replay_matched_events ?v then ?v\<lparr>eu_matched_in_range := True\<rparr> else ?v)"
    by (simp add: finish_usage_def assms(2) positions_in_order fold_map comp_def Let_def)
  have "filter (\<lambda>r. so_from_ms (ao_simulation options) \<le> fe_timestamp_ms (snd r)) ?xs = map ((!) rows) hits"
    unfolding hits filter_map filter_filter by (intro arg_cong [where f = "map _"] filter_cong) (auto simp: evaluated_at_def)
  with note_matches [OF assms(1), of options ?xs]
  have parts: "eu_definition ?v = eu_definition u" "eu_rule_matches ?v = eu_rule_matches u" "eu_matched_in_range ?v = eu_matched_in_range u"
    "eu_replay_matched_events ?v = length hits"
    "eu_first_matched_ms ?v = (if hits = [] then None else Some (fe_timestamp_ms (snd (rows ! hd hits))))"
    "eu_last_matched_ms ?v = (if hits = [] then None else Some (fe_timestamp_ms (snd (rows ! last hits))))"
    "eu_evidence_event_ids ?v = take (unat (ao_sample_limit options)) (map (\<lambda>k. fst (rows ! k)) hits)"
    "eu_evidence_samples_truncated ?v = (unat (ao_sample_limit options) < length hits)"
    by (simp_all add: Let_def hd_map last_map comp_def)
  show "eu_definition u' = eu_definition u" "eu_rule_matches u' = eu_rule_matches u"
    "eu_replay_matched_events u' = length hits"
    "eu_first_matched_ms u' = (if hits = [] then None else Some (fe_timestamp_ms (snd (rows ! hd hits))))"
    "eu_last_matched_ms u' = (if hits = [] then None else Some (fe_timestamp_ms (snd (rows ! last hits))))"
    "eu_evidence_event_ids u' = take (unat (ao_sample_limit options)) (map (\<lambda>k. fst (rows ! k)) hits)"
    "eu_evidence_samples_truncated u' \<longleftrightarrow> unat (ao_sample_limit options) < length hits"
    "eu_matched_in_range u' \<longleftrightarrow> hits \<noteq> []"
    using parts assms(1) by (simp_all add: u' v fresh_usage_def)
qed

lemma audited_usage:
  assumes "i < length (dc_approved_changes (po_detection p))"
  shows "map (\<lambda>(u, ks). finish_usage options rows ks u) (zip (ms_usages (match_all p options rows)) (ms_rows (match_all p options rows))) ! i
    = finish_usage options rows {k. k < length rows \<and> list_ex (\<lambda>rule. change_matched p options rows rule i k) AUDIT_RULES}
        (usage_tally p options rows (set AUDIT_RULES \<times> {..<length rows}) i)"
proof -
  have "{k. \<exists>r. (r, k) \<in> set AUDIT_RULES \<times> {..<length rows} \<and> change_matched p options rows r i k} =
      {k. k < length rows \<and> list_ex (\<lambda>rule. change_matched p options rows rule i k) AUDIT_RULES}"
    by (auto simp: list_ex_iff)
  then show ?thesis using assms match_all_inv [of p options rows] by (simp add: matching_inv_def Let_def)
qed

lemma usage_tally_fresh: "fresh_usage (usage_tally p options rows seen i)"
  "eu_definition (usage_tally p options rows seen i) = dc_approved_changes (po_detection p) ! i"
  by (simp_all add: fresh_usage_def usage_tally_def new_usage_def Let_def)

lemma audit_parts:
  assumes "audit_exceptions lib log2 fails s p options = Inr report"
  obtains loaded where "load_simulation_range lib log2 fails s p (p\<lparr>po_detection := (po_detection p)\<lparr>dc_approved_changes := []\<rparr>\<rparr>)
      (ao_simulation options) = Inr loaded"
    "ar_exceptions report = map (\<lambda>(u, ks). finish_usage options (rg_events loaded) ks u)
       (zip (ms_usages (match_all p options (rg_events loaded))) (ms_rows (match_all p options (rg_events loaded))))"
  using assms by (auto simp: audit_exceptions_def Let_def split: sum.splits)


definition approving_policy :: policy where
  "approving_policy = policy_default\<lparr>po_detection := approving_config, po_response := \<lparr>rc_auto_block = False, rc_block_score = Fin 80\<rparr>\<rparr>"

definition backup_lib :: "file_event evidence_lib" where
  "backup_lib = sample_evidence_lib\<lparr>el_parse_value := (\<lambda>_. Some (demo_event 20 42 7 ''/srv/a''))\<rparr>"

definition backup_store :: evidence_store where
  "backup_store = open_empty\<lparr>db_file_seq := 1, db_files :=
     [\<lparr>fr_id = 1, fr_timestamp_ms = 20, fr_pid = 42, fr_path = ''/srv/a'', fr_action = ''Modify'', fr_size = None,
       fr_entropy = Some (Fin 7), fr_event_json = Some ''e''\<rparr>]\<rparr>"

definition backup_audit :: audit_options where
  "backup_audit = \<lparr>ao_simulation = attack_options, ao_now_ms = 50, ao_expiring_within_ms = 10, ao_sample_limit = 3\<rparr>"

lemma approving_accepted:
  "config_problems (po_detection approving_policy) (po_response approving_policy) = []"
  "config_problems ((po_detection approving_policy)\<lparr>dc_approved_changes := []\<rparr>) (po_response approving_policy) = []"
proof -
  have "\<not> blank_str ''backup''" "absolute_clean_path ''/usr/bin/task''" "absolute_clean_path ''/srv''" "has_file_name ''/usr/bin/task''"
    by code_simp+
  then show "config_problems (po_detection approving_policy) (po_response approving_policy) = []"
    "config_problems ((po_detection approving_policy)\<lparr>dc_approved_changes := []\<rparr>) (po_response approving_policy) = []"
    by (simp_all add: approving_policy_def approving_config_def config_problems_def multi_config_def multi_problems_def
        multi_window_config_default_def sampling_problem_def content_sampling_config_default_def checked_mul_def
        detection_window_default_def)
qed

lemma backup_read: "decode_file_event backup_lib (hd (db_files backup_store)) = Some (1, demo_event 20 42 7 ''/srv/a'')"
  by (simp add: decode_file_event_def backup_lib_def backup_store_def sample_evidence_lib_def action_of_def valid_entropy_def
      read_u64_def read_optional_u64_def with_columns_def demo_event_def)

lemma backup_matched: "change_hits approving_policy backup_audit [(i, demo_event 20 42 7 ''/srv/a'')] 0 = [0]"
proof -
  let ?e = "demo_event 20 42 7 ''/srv/a''" and ?det = "po_detection approving_policy"
  let ?eng = "engine_with_sensor approving_config Fanotify"
  have det: "?det = approving_config" by (simp add: approving_policy_def)
  have one: "project_rule BEHAVIOR_RULE approving_config = approving_config"
    by (simp add: project_rule_def approving_config_def)
  have x: "approval_for approving_config ?e = Some (hd (dc_approved_changes approving_config))"
    "\<not> is_excluded approving_config ''/srv/a''" by code_simp+
  have own: "ev_approved_change_id (snd (evaluate_with_approval event y s)) = y" for event y s
    by (simp add: evaluate_with_approval_def assess_def Let_def)
  have path: "fe_path ?e = ''/srv/a''" "fe_timestamp_ms ?e = 20" by (simp_all add: demo_event_def)
  have e: "replayed_event approving_policy ?e = ?e" by (simp add: replayed_event_def det approving_config_def multi_config_def)
  have "ev_approved_change_id (snd (engine_evaluate ?eng ?e)) = Some ''backup''"
    using x by (simp add: engine_evaluate_def canary_parts included_parts merge_parts own
        engine_with_sensor_def path legacy_approval_def approving_config_def)
  then have "change_matched approving_policy backup_audit [(i, ?e)] BEHAVIOR_RULE 0 0"
    by (simp add: change_matched_def det one assessed_at_def run_engine_def e backup_audit_def attack_options_def)
      (simp add: approving_config_def change_index_def)
  moreover have "BEHAVIOR_RULE \<in> set AUDIT_RULES" by (simp add: AUDIT_RULES_def)
  ultimately show ?thesis
    by (auto simp: change_hits_def evaluated_at_def backup_audit_def attack_options_def path list_ex_iff)
qed


end
