(* ===== verification/Recovery_Store.thy ===== *)
theory Recovery_Store
  imports Argos_Common
begin

text \<open>
  Crate \<^verbatim>\<open>argos-recovery\<close>, \<^verbatim>\<open>lib.rs\<close> and \<^verbatim>\<open>retention.rs\<close>: content-addressed backups of files with an index
  of versions, the operator's verdicts, the holds of incidents, and restoring.  The tables are lists
  in the order of their row ids.  The objects are known by their file name (the shard directory is
  its first two digits); files outside the store are a second map, which the agent keeps apart from
  the store's directory.  Paths are UTF-8.  Messages are left out of the errors, temporary files are known
  by their number, and the clock shows one value during a call.
\<close>

section \<open>State\<close>

datatype recovery_error =
    RecoveryIo | RecoveryDb | VersionMissing | NoTrustedVersion | MissingTrustNote | InvalidMetadata
  | UnsafePreview | UnsafeRestoreTarget | IntegrityMismatch string string | TooLarge nat u64
  | InvalidRetention | InvalidReleaseApproval

text \<open>A row of the table \<^verbatim>\<open>versions\<close> holds 64-bit integers; reading a negative one as unsigned fails.\<close>

record version_row =
  vr_id :: nat
  vr_path :: path
  vr_hash :: string
  vr_size :: int
  vr_timestamp_ms :: int
  vr_pid :: pid
  vr_known_good :: bool
  vr_trust_note :: "string option"

record backup_version =
  bv_id :: nat
  bv_path :: path
  bv_hash :: string
  bv_size :: u64
  bv_timestamp_ms :: u64
  bv_pid :: pid
  bv_known_good :: bool
  bv_trust_note :: "string option"

record recovery_status =
  ry_oversized_skips :: nat
  ry_last_restore_test_ms :: "u64 option"
  ry_last_restore_test_ok :: "bool option"
  ry_last_restore_test_error :: "recovery_error option"

record retention_pin =
  pin_id :: nat
  pin_incident_id :: string
  pin_version_id :: nat
  pin_path :: path
  pin_hash :: string
  pin_actor :: string
  pin_reason :: string
  pin_pinned_at_ms :: u64
  pin_released_at_ms :: "u64 option"
  pin_release_approval_id :: "string option"
  pin_released_by :: "string option"
  pin_release_reason :: "string option"

record release_approval =
  rel_approval_id :: string
  rel_approver :: string
  rel_reason :: string

record approval_row =
  apr_approval_id :: string
  apr_approver :: string
  apr_reason :: string
  apr_timestamp_ms :: u64

datatype retention_action = Pinned | Released

record retention_audit_entry =
  rae_id :: nat
  rae_pin_id :: nat
  rae_incident_id :: string
  rae_version_id :: nat
  rae_path :: path
  rae_hash :: string
  rae_action :: retention_action
  rae_actor :: string
  rae_reason :: string
  rae_timestamp_ms :: u64
  rae_approval_id :: "string option"

datatype file_node = RegularFile string u32 u32 u32 | OtherNode

record recovery_store =
  rv_max_file_bytes :: u64
  rv_objects :: "(string, string) hmap"
  rv_versions :: "version_row list"
  rv_version_seq :: nat
  rv_status :: "(path, recovery_status) hmap"
  rv_pins :: "retention_pin list"
  rv_approvals :: "approval_row list"
  rv_audit :: "retention_audit_entry list"
  rv_files :: "(path, file_node) hmap"

text \<open>The steps outside the program that may fail; a statement outside a transaction and a commit end in one of three ways.\<close>

datatype recovery_step =
    BeginStep | QueryStep | ProbeObject | MakeDirectory | WriteStep | RenameStep | InsertStep | ReadObject
  | ReadBack | StatTarget | ChownStep | ChmodStep | SyncStep | OpenOutput | CanonicalizeStep

datatype open_outcome = Opened | AlreadyThere | OpenError

record recovery_env =
  xr_fails :: "recovery_step \<Rightarrow> bool"
  xr_commit :: commit_outcome
  xr_statement :: commit_outcome
  xr_opens :: "nat \<Rightarrow> open_outcome"
  xr_counter :: nat
  xr_now_ms :: u64
  xr_metadata :: "(bool \<times> u64) option"
  xr_content :: "string option"
  xr_read_back :: "string \<Rightarrow> string"
  xr_removes :: "string \<Rightarrow> bool"
  xr_canonical :: "path_component list \<Rightarrow> path_component list option"
  xr_store_dir :: "path_component list option"
  xr_owner :: "u32 \<times> u32"

section \<open>Files\<close>

definition ascii_hexdigit :: "char \<Rightarrow> bool" where
  "ascii_hexdigit c = (ascii_digit c \<or> (65 \<le> byte c \<and> byte c \<le> 70) \<or> (97 \<le> byte c \<and> byte c \<le> 102))"

definition hash_text :: "string \<Rightarrow> bool" where
  "hash_text h = (length h = 64 \<and> list_all ascii_hexdigit h)"

definition column_u64 :: "int \<Rightarrow> u64 option" where
  "column_u64 i = (if 0 \<le> i then Some (of_int i) else None)"

definition map_version :: "version_row \<Rightarrow> backup_version option" where
  "map_version r =
     (case (column_u64 (vr_size r), column_u64 (vr_timestamp_ms r)) of
        (Some sz, Some ts) \<Rightarrow>
          Some \<lparr>bv_id = vr_id r, bv_path = vr_path r, bv_hash = vr_hash r, bv_size = sz, bv_timestamp_ms = ts,
                bv_pid = vr_pid r, bv_known_good = vr_known_good r, bv_trust_note = vr_trust_note r\<rparr>
      | _ \<Rightarrow> None)"

fun collect_versions :: "version_row list \<Rightarrow> backup_version list option" where
  "collect_versions [] = Some []"
| "collect_versions (r # rs) =
     (case map_version r of None \<Rightarrow> None | Some v \<Rightarrow> map_option ((#) v) (collect_versions rs))"

text \<open>A temporary file is created exclusively; a name that is taken is skipped, at most 100 times.\<close>

fun try_temp :: "(nat \<Rightarrow> open_outcome) \<Rightarrow> nat \<Rightarrow> nat \<Rightarrow> recovery_error + nat" where
  "try_temp opens 0 sequence = Inl RecoveryIo"
| "try_temp opens (Suc n) sequence =
     (case opens sequence of Opened \<Rightarrow> Inr sequence | AlreadyThere \<Rightarrow> try_temp opens n (sequence + 1) | OpenError \<Rightarrow> Inl RecoveryIo)"

definition create_restore_temp :: "recovery_env \<Rightarrow> recovery_error + nat" where
  "create_restore_temp env = try_temp (xr_opens env) 100 (xr_counter env)"

text \<open>The metadata of the replaced file is kept without its special bits; a new file is private.\<close>

definition apply_restore_metadata :: "recovery_env \<Rightarrow> file_node option \<Rightarrow> string \<Rightarrow> recovery_error + file_node" where
  "apply_restore_metadata env existing data =
     (case existing of
        Some (RegularFile _ mode uid gid) \<Rightarrow>
          if xr_fails env ChownStep then Inl RecoveryIo
          else if xr_fails env ChmodStep then Inl RecoveryIo
          else Inr (RegularFile data (and mode 511) uid gid)
      | _ \<Rightarrow> Inr (RegularFile data 384 (fst (xr_owner env)) (snd (xr_owner env))))"

text \<open>A path without its last component and the last component, as \<^verbatim>\<open>Path::parent\<close> and \<^verbatim>\<open>file_name\<close> give them.\<close>

definition parent_or_dot :: "path \<Rightarrow> path_component list" where
  "parent_or_dot p =
     (case rev (components p) of
        [] \<Rightarrow> [CurDir] | RootDir # _ \<Rightarrow> [CurDir]
      | _ # cs \<Rightarrow> if cs = [] then [CurDir] else rev cs)"

definition last_name :: "path \<Rightarrow> path_component option" where
  "last_name p = (case rev (components p) of Normal s # _ \<Rightarrow> Some (Normal s) | _ \<Rightarrow> None)"

section \<open>Versions\<close>

definition recovery_open :: "u64 \<Rightarrow> (path, file_node) hmap \<Rightarrow> recovery_store" where
  "recovery_open limit files =
     \<lparr>rv_max_file_bytes = limit, rv_objects = [], rv_versions = [], rv_version_seq = 0, rv_status = [], rv_pins = [],
      rv_approvals = [], rv_audit = [], rv_files = files\<rparr>"

text \<open>Opening an index of an older version adds the missing columns with their defaults; nothing is trusted by that.\<close>

definition recovery_migrate :: "bool \<Rightarrow> bool \<Rightarrow> recovery_store \<Rightarrow> recovery_store" where
  "recovery_migrate has_known_good has_trust_note s =
     s\<lparr>rv_versions := map (\<lambda>r. r\<lparr>vr_known_good := (has_known_good \<and> vr_known_good r),
       vr_trust_note := (if has_trust_note then vr_trust_note r else None)\<rparr>) (rv_versions s)\<rparr>"

definition status_default :: recovery_status where
  "status_default = \<lparr>ry_oversized_skips = 0, ry_last_restore_test_ms = None, ry_last_restore_test_ok = None,
     ry_last_restore_test_error = None\<rparr>"

definition update_status :: "path \<Rightarrow> (recovery_status \<Rightarrow> recovery_status) \<Rightarrow> recovery_store \<Rightarrow> recovery_store" where
  "update_status p f s =
     s\<lparr>rv_status := hm_put p (f (case map_of (rv_status s) p of None \<Rightarrow> status_default | Some t \<Rightarrow> t)) (rv_status s)\<rparr>"

definition record_oversized_skip :: "recovery_env \<Rightarrow> path \<Rightarrow> recovery_store \<Rightarrow> recovery_store \<times> (recovery_error + unit)" where
  "record_oversized_skip env p s =
     commit RecoveryDb (xr_statement env) s (update_status p (\<lambda>t. t\<lparr>ry_oversized_skips := ry_oversized_skips t + 1\<rparr>) s) ()"

definition latest_hash :: "path \<Rightarrow> version_row list \<Rightarrow> string option" where
  "latest_hash p rows = (case rev (filter (\<lambda>r. vr_path r = p) rows) of [] \<Rightarrow> None | r # _ \<Rightarrow> Some (vr_hash r))"

definition store_object ::
  "recovery_env \<Rightarrow> string \<Rightarrow> string \<Rightarrow> (string, string) hmap \<Rightarrow> recovery_error + (string, string) hmap" where
  "store_object env hash data objects =
     (if map_of objects hash \<noteq> None \<and> \<not> xr_fails env ProbeObject then Inr objects
      else if xr_fails env MakeDirectory then Inl RecoveryIo
      else case create_restore_temp env of
        Inl e \<Rightarrow> Inl e
      | Inr _ \<Rightarrow> if xr_fails env WriteStep then Inl RecoveryIo
                 else if xr_fails env RenameStep then Inl RecoveryIo
                 else Inr (hm_put hash data objects))"

definition add_version :: "path \<Rightarrow> string \<Rightarrow> nat \<Rightarrow> u64 \<Rightarrow> pid \<Rightarrow> recovery_store \<Rightarrow> recovery_store" where
  "add_version p hash n ts owner s =
     s\<lparr>rv_version_seq := rv_version_seq s + 1,
       rv_versions := rv_versions s @ [\<lparr>vr_id = rv_version_seq s + 1, vr_path = p, vr_hash = hash, vr_size = int n,
         vr_timestamp_ms = sint ts, vr_pid = owner, vr_known_good = False, vr_trust_note = None\<rparr>]\<rparr>"

definition too_large :: "recovery_env \<Rightarrow> path \<Rightarrow> nat \<Rightarrow> recovery_store \<Rightarrow> recovery_store \<times> (recovery_error + string option)" where
  "too_large env p n s =
     (case record_oversized_skip env p s of
        (s, Inl e) \<Rightarrow> (s, Inl e) | (s, Inr _) \<Rightarrow> (s, Inl (TooLarge n (rv_max_file_bytes s))))"

definition backup_content ::
  "(string \<Rightarrow> string) \<Rightarrow> recovery_env \<Rightarrow> path \<Rightarrow> u64 \<Rightarrow> pid \<Rightarrow> string \<Rightarrow> recovery_store \<Rightarrow> recovery_store \<times> (recovery_error + string option)" where
  "backup_content sha env p ts owner data s =
     (let hash = sha data
      in if xr_fails env BeginStep \<or> xr_fails env QueryStep then (s, Inl RecoveryDb)
         else if latest_hash p (rv_versions s) = Some hash then (s, Inr None)
         else case store_object env hash data (rv_objects s) of
           Inl e \<Rightarrow> (s, Inl e)
         | Inr objects \<Rightarrow>
             let s = s\<lparr>rv_objects := objects\<rparr>
             in if xr_fails env InsertStep then (s, Inl RecoveryDb)
                else commit RecoveryDb (xr_commit env) s (add_version p hash (length data) ts owner s) (Some hash))"

definition backup ::
  "(string \<Rightarrow> string) \<Rightarrow> recovery_env \<Rightarrow> path \<Rightarrow> u64 \<Rightarrow> pid \<Rightarrow> recovery_store \<Rightarrow> recovery_store \<times> (recovery_error + string option)" where
  "backup sha env p ts owner s =
     (case xr_metadata env of
        None \<Rightarrow> (s, Inl RecoveryIo)
      | Some (is_file, len) \<Rightarrow>
          if \<not> is_file then (s, Inr None)
          else if rv_max_file_bytes s < len then too_large env p (unat len) s
          else case xr_content env of
            None \<Rightarrow> (s, Inl RecoveryIo)
          | Some content \<Rightarrow>
              let data = take (unat (sat_add (rv_max_file_bytes s) 1)) content
              in if unat (rv_max_file_bytes s) < length data then too_large env p (length data) s
                 else backup_content sha env p ts owner data s)"

definition versions_of :: "recovery_env \<Rightarrow> path \<Rightarrow> recovery_store \<Rightarrow> recovery_error + backup_version list" where
  "versions_of env p s =
     (if xr_fails env QueryStep then Inl RecoveryDb
      else case collect_versions (rev (sort_key vr_timestamp_ms (filter (\<lambda>r. vr_path r = p) (rv_versions s)))) of
        None \<Rightarrow> Inl RecoveryDb | Some vs \<Rightarrow> Inr vs)"

definition version_at :: "recovery_env \<Rightarrow> path \<Rightarrow> int \<Rightarrow> recovery_store \<Rightarrow> recovery_error + backup_version" where
  "version_at env p i s =
     (if xr_fails env QueryStep then Inl RecoveryDb
      else case find (\<lambda>r. vr_path r = p \<and> int (vr_id r) = i) (rv_versions s) of
        None \<Rightarrow> Inl VersionMissing
      | Some r \<Rightarrow> (case map_version r of None \<Rightarrow> Inl RecoveryDb | Some v \<Rightarrow> Inr v))"

definition read_verified ::
  "(string \<Rightarrow> string) \<Rightarrow> recovery_env \<Rightarrow> backup_version \<Rightarrow> recovery_store \<Rightarrow> recovery_error + string" where
  "read_verified sha env v s =
     (if \<not> hash_text (bv_hash v) then Inl InvalidMetadata
      else if xr_fails env ReadObject then Inl RecoveryIo
      else case map_of (rv_objects s) (bv_hash v) of
        None \<Rightarrow> Inl RecoveryIo
      | Some bytes \<Rightarrow>
          let data = take (unat (sat_add (bv_size v) 1)) bytes
          in if sha data \<noteq> bv_hash v then Inl (IntegrityMismatch (bv_hash v) (sha data)) else Inr data)"

definition set_verdict :: "bool \<Rightarrow> string \<Rightarrow> nat \<Rightarrow> recovery_store \<Rightarrow> recovery_store" where
  "set_verdict good note i s =
     s\<lparr>rv_versions := map (\<lambda>r. if vr_id r = i then r\<lparr>vr_known_good := good, vr_trust_note := Some note\<rparr> else r) (rv_versions s)\<rparr>"

definition mark_known_good ::
  "(string \<Rightarrow> string) \<Rightarrow> recovery_env \<Rightarrow> path \<Rightarrow> int \<Rightarrow> string \<Rightarrow> recovery_store \<Rightarrow> recovery_store \<times> (recovery_error + backup_version)" where
  "mark_known_good sha env p i note s =
     (if blank_str note then (s, Inl MissingTrustNote)
      else case version_at env p i s of Inl e \<Rightarrow> (s, Inl e) | Inr v \<Rightarrow>
        (case read_verified sha env v s of Inl e \<Rightarrow> (s, Inl e) | Inr _ \<Rightarrow>
         (case commit RecoveryDb (xr_statement env) s (set_verdict True (trim note) (bv_id v) s) () of
            (s, Inl e) \<Rightarrow> (s, Inl e) | (s, Inr _) \<Rightarrow> (s, version_at env p i s))))"

definition revoke_known_good ::
  "recovery_env \<Rightarrow> path \<Rightarrow> int \<Rightarrow> string \<Rightarrow> recovery_store \<Rightarrow> recovery_store \<times> (recovery_error + backup_version)" where
  "revoke_known_good env p i note s =
     (if blank_str note then (s, Inl MissingTrustNote)
      else case version_at env p i s of Inl e \<Rightarrow> (s, Inl e) | Inr v \<Rightarrow>
        (case commit RecoveryDb (xr_statement env) s (set_verdict False (trim note) (bv_id v) s) () of
            (s, Inl e) \<Rightarrow> (s, Inl e) | (s, Inr _) \<Rightarrow> (s, version_at env p i s)))"

definition recommend :: "recovery_env \<Rightarrow> path \<Rightarrow> u64 option \<Rightarrow> recovery_store \<Rightarrow> recovery_error + backup_version" where
  "recommend env p before_ms s =
     (case versions_of env p s of
        Inl e \<Rightarrow> Inl e
      | Inr [] \<Rightarrow> Inl VersionMissing
      | Inr vs \<Rightarrow>
          (case find (\<lambda>v. bv_known_good v \<and> (case before_ms of None \<Rightarrow> True | Some cutoff \<Rightarrow> bv_timestamp_ms v < cutoff)) vs of
             None \<Rightarrow> Inl NoTrustedVersion | Some v \<Rightarrow> Inr v))"

section \<open>Restoring\<close>

definition restore ::
  "(string \<Rightarrow> string) \<Rightarrow> recovery_env \<Rightarrow> path \<Rightarrow> u64 option \<Rightarrow> recovery_store \<Rightarrow> recovery_store \<times> (recovery_error + backup_version)" where
  "restore sha env p before_ms s =
     (case recommend env p before_ms s of Inl e \<Rightarrow> (s, Inl e) | Inr v \<Rightarrow>
      case read_verified sha env v s of Inl e \<Rightarrow> (s, Inl e) | Inr data \<Rightarrow>
      if xr_fails env StatTarget then (s, Inl RecoveryIo)
      else if map_of (rv_files s) p = Some OtherNode then (s, Inl UnsafeRestoreTarget)
      else if xr_fails env MakeDirectory then (s, Inl RecoveryIo)
      else case create_restore_temp env of Inl e \<Rightarrow> (s, Inl e) | Inr _ \<Rightarrow>
      if xr_fails env WriteStep then (s, Inl RecoveryIo)
      else case apply_restore_metadata env (map_of (rv_files s) p) data of Inl e \<Rightarrow> (s, Inl e) | Inr node \<Rightarrow>
      if xr_fails env SyncStep \<or> xr_fails env RenameStep then (s, Inl RecoveryIo)
      else (s\<lparr>rv_files := hm_put p node (rv_files s)\<rparr>, Inr v))"

text \<open>The test writes the version to a scratch file, reads it back and removes it; the outcome is recorded.\<close>

definition restore_trial ::
  "(string \<Rightarrow> string) \<Rightarrow> recovery_env \<Rightarrow> path \<Rightarrow> u64 option \<Rightarrow> recovery_store \<Rightarrow> recovery_error + backup_version" where
  "restore_trial sha env p before_ms s =
     (case recommend env p before_ms s of Inl e \<Rightarrow> Inl e | Inr v \<Rightarrow>
      case read_verified sha env v s of Inl e \<Rightarrow> Inl e | Inr data \<Rightarrow>
      case create_restore_temp env of Inl e \<Rightarrow> Inl e | Inr _ \<Rightarrow>
      if xr_fails env WriteStep \<or> xr_fails env ReadBack then Inl RecoveryIo
      else let actual = sha (take (unat (sat_add (bv_size v) 1)) (xr_read_back env data))
           in if actual \<noteq> bv_hash v then Inl (IntegrityMismatch (bv_hash v) actual) else Inr v)"

definition test_restore ::
  "(string \<Rightarrow> string) \<Rightarrow> recovery_env \<Rightarrow> path \<Rightarrow> u64 option \<Rightarrow> recovery_store \<Rightarrow> recovery_store \<times> (recovery_error + backup_version)" where
  "test_restore sha env p before_ms s =
     (let result = restore_trial sha env p before_ms s
      in case commit RecoveryDb (xr_statement env) s
           (update_status p (\<lambda>t. t\<lparr>ry_last_restore_test_ms := Some (min (xr_now_ms env) i64_max),
              ry_last_restore_test_ok := Some (case result of Inl _ \<Rightarrow> False | Inr _ \<Rightarrow> True),
              ry_last_restore_test_error := (case result of Inl e \<Rightarrow> Some e | Inr _ \<Rightarrow> None)\<rparr>) s) () of
         (s, Inl e) \<Rightarrow> (s, Inl e) | (s, Inr _) \<Rightarrow> (s, result))"

text \<open>The place a preview is written to, and whether it is the source or inside the store.\<close>

definition preview_target :: "recovery_env \<Rightarrow> path \<Rightarrow> path \<Rightarrow> recovery_error + path_component list" where
  "preview_target env p destination =
     (case xr_canonical env (parent_or_dot destination) of None \<Rightarrow> Inl RecoveryIo | Some parent \<Rightarrow>
      case last_name destination of None \<Rightarrow> Inl UnsafePreview | Some name \<Rightarrow>
      let resolved = parent @ [name];
          source = (case (xr_canonical env (parent_or_dot p), last_name p) of (Some q, Some n) \<Rightarrow> Some (q @ [n]) | _ \<Rightarrow> None)
      in case xr_store_dir env of None \<Rightarrow> Inl RecoveryIo | Some dir \<Rightarrow>
         if source = Some resolved \<or> prefix dir resolved then Inl UnsafePreview else Inr resolved)"

definition preview ::
  "(string \<Rightarrow> string) \<Rightarrow> recovery_env \<Rightarrow> path \<Rightarrow> int \<Rightarrow> path \<Rightarrow> recovery_store
     \<Rightarrow> (path_component list \<times> string) option \<times> (recovery_error + backup_version)" where
  "preview sha env p i destination s =
     (case preview_target env p destination of Inl e \<Rightarrow> (None, Inl e) | Inr resolved \<Rightarrow>
      case version_at env p i s of Inl e \<Rightarrow> (None, Inl e) | Inr v \<Rightarrow>
      case read_verified sha env v s of Inl e \<Rightarrow> (None, Inl e) | Inr data \<Rightarrow>
      if xr_fails env OpenOutput then (None, Inl RecoveryIo)
      else if xr_fails env WriteStep then (None, Inl RecoveryIo)
      else (Some (resolved, data), Inr v))"

section \<open>Pruning\<close>

definition active_pin :: "nat \<Rightarrow> retention_pin \<Rightarrow> bool" where
  "active_pin i pin = (pin_version_id pin = i \<and> pin_released_at_ms pin = None)"

text \<open>The number of unreviewed versions of the same path from this one on, newest first.\<close>

definition recency :: "version_row \<Rightarrow> version_row list \<Rightarrow> nat" where
  "recency r rows = length (filter (\<lambda>q. \<not> vr_known_good q \<and> vr_path q = vr_path r \<and> vr_id r \<le> vr_id q) rows)"

definition expendable :: "nat \<Rightarrow> recovery_store \<Rightarrow> version_row \<Rightarrow> bool" where
  "expendable keep s r =
     (\<not> vr_known_good r \<and> \<not> list_ex (active_pin (vr_id r)) (rv_pins s) \<and> keep < recency r (rv_versions s))"

definition sweep_objects :: "recovery_env \<Rightarrow> version_row list \<Rightarrow> (string, string) hmap \<Rightarrow> (string, string) hmap" where
  "sweep_objects env rows objects = hm_retain (\<lambda>name _. name \<in> vr_hash ` set rows \<or> \<not> xr_removes env name) objects"

definition prune :: "recovery_env \<Rightarrow> usize \<Rightarrow> recovery_store \<Rightarrow> recovery_store \<times> (recovery_error + nat)" where
  "prune env keep s =
     (if xr_fails env BeginStep \<or> xr_fails env InsertStep \<or> xr_fails env QueryStep then (s, Inl RecoveryDb)
      else let rows = filter (\<lambda>r. \<not> expendable (unat (min keep i64_max)) s r) (rv_versions s);
               s' = s\<lparr>rv_objects := sweep_objects env rows (rv_objects s)\<rparr>
           in commit RecoveryDb (xr_commit env) s' (s'\<lparr>rv_versions := rows\<rparr>) (length (rv_versions s) - length rows))"

section \<open>Readiness\<close>

record path_readiness =
  rd_path :: path
  rd_version_count :: nat
  rd_known_good_versions :: nat
  rd_latest_backup_ms :: "u64 option"
  rd_latest_known_good_ms :: "u64 option"
  rd_status :: recovery_status

definition latest_ms :: "version_row list \<Rightarrow> u64 option option" where
  "latest_ms rows =
     (case rows of [] \<Rightarrow> Some None | r # rs \<Rightarrow> map_option Some (column_u64 (foldl max (vr_timestamp_ms r) (map vr_timestamp_ms rs))))"

definition path_ready :: "recovery_store \<Rightarrow> path \<Rightarrow> path_readiness option" where
  "path_ready s p =
     (let rows = filter (\<lambda>r. vr_path r = p) (rv_versions s); good = filter vr_known_good rows
      in case (latest_ms rows, latest_ms good) of
           (Some a, Some b) \<Rightarrow>
             Some \<lparr>rd_path = p, rd_version_count = length rows, rd_known_good_versions = length good, rd_latest_backup_ms = a,
                   rd_latest_known_good_ms = b,
                   rd_status = (case map_of (rv_status s) p of None \<Rightarrow> status_default | Some t \<Rightarrow> t)\<rparr>
         | _ \<Rightarrow> None)"

definition readiness :: "recovery_env \<Rightarrow> recovery_store \<Rightarrow> recovery_error + path_readiness list" where
  "readiness env s =
     (let rows = map (path_ready s) (sorted_list_of_set (vr_path ` set (rv_versions s) \<union> fst ` set (rv_status s)))
      in if xr_fails env QueryStep \<or> None \<in> set rows then Inl RecoveryDb else Inr (map the rows))"

section \<open>Incident holds\<close>

definition validate_incident :: "string \<Rightarrow> bool" where
  "validate_incident value =
     (value \<noteq> [] \<and> length value \<le> 128 \<and> list_all (\<lambda>b. ascii_alphanumeric b \<or> b \<in> set ''-_:'') value)"

definition validate_text :: "string \<Rightarrow> nat \<Rightarrow> bool" where
  "validate_text value limit = (\<not> blank_str value \<and> length value \<le> limit \<and> \<not> list_ex control_char (utf8_chars value))"

definition validate_request :: "path \<Rightarrow> string \<Rightarrow> string \<Rightarrow> string \<Rightarrow> bool" where
  "validate_request p incident actor reason =
     (validate_incident incident \<and> validate_text actor 256 \<and> validate_text reason 4096
      \<and> p \<noteq> [] \<and> has_file_name p \<and> ParentDir \<notin> set (components p) \<and> \<not> list_ex control_char (utf8_chars p))"

definition append_audit ::
  "retention_pin \<Rightarrow> retention_action \<Rightarrow> string \<Rightarrow> string \<Rightarrow> u64 \<Rightarrow> string option \<Rightarrow> recovery_store \<Rightarrow> recovery_store" where
  "append_audit pin action actor reason now approval s =
     s\<lparr>rv_audit := rv_audit s @ [\<lparr>rae_id = length (rv_audit s) + 1, rae_pin_id = pin_id pin, rae_incident_id = pin_incident_id pin,
       rae_version_id = pin_version_id pin, rae_path = pin_path pin, rae_hash = pin_hash pin, rae_action = action,
       rae_actor = actor, rae_reason = reason, rae_timestamp_ms = now, rae_approval_id = approval\<rparr>]\<rparr>"

definition new_pin :: "recovery_env \<Rightarrow> backup_version \<Rightarrow> string \<Rightarrow> string \<Rightarrow> string \<Rightarrow> recovery_store \<Rightarrow> retention_pin" where
  "new_pin env v incident actor reason s =
     \<lparr>pin_id = length (rv_pins s) + 1, pin_incident_id = incident, pin_version_id = bv_id v, pin_path = bv_path v,
      pin_hash = bv_hash v, pin_actor = actor, pin_reason = reason, pin_pinned_at_ms = min (xr_now_ms env) i64_max,
      pin_released_at_ms = None, pin_release_approval_id = None, pin_released_by = None, pin_release_reason = None\<rparr>"

definition pin_in_transaction ::
  "recovery_env \<Rightarrow> string \<Rightarrow> string \<Rightarrow> string \<Rightarrow> backup_version \<Rightarrow> recovery_store \<Rightarrow> recovery_store \<times> retention_pin" where
  "pin_in_transaction env incident actor reason v s =
     (case find (\<lambda>p. pin_incident_id p = incident \<and> active_pin (bv_id v) p) (rv_pins s) of
        Some p \<Rightarrow> (s, p)
      | None \<Rightarrow>
          let p = new_pin env v incident actor reason s
          in (append_audit p Pinned actor reason (pin_pinned_at_ms p) None (s\<lparr>rv_pins := rv_pins s @ [p]\<rparr>), p))"

definition pin_version ::
  "recovery_env \<Rightarrow> path \<Rightarrow> int \<Rightarrow> string \<Rightarrow> string \<Rightarrow> string \<Rightarrow> recovery_store \<Rightarrow> recovery_store \<times> (recovery_error + retention_pin)" where
  "pin_version env p i incident actor reason s =
     (if \<not> validate_request p incident actor reason \<or> i \<le> 0 then (s, Inl InvalidRetention)
      else if xr_fails env BeginStep then (s, Inl RecoveryDb)
      else case version_at env p i s of Inl e \<Rightarrow> (s, Inl e) | Inr v \<Rightarrow>
      if xr_fails env InsertStep then (s, Inl RecoveryDb)
      else case pin_in_transaction env incident (trim actor) (trim reason) v s of (s', pin) \<Rightarrow>
        commit RecoveryDb (xr_commit env) s s' pin)"

fun pin_each ::
  "recovery_env \<Rightarrow> string \<Rightarrow> string \<Rightarrow> string \<Rightarrow> backup_version list \<Rightarrow> recovery_store \<Rightarrow> recovery_store \<times> retention_pin list" where
  "pin_each env incident actor reason [] s = (s, [])"
| "pin_each env incident actor reason (v # vs) s =
     (case pin_in_transaction env incident actor reason v s of (s, p) \<Rightarrow>
      case pin_each env incident actor reason vs s of (s, ps) \<Rightarrow> (s, p # ps))"

definition pin_known_good_before ::
  "recovery_env \<Rightarrow> path \<Rightarrow> u64 \<Rightarrow> string \<Rightarrow> string \<Rightarrow> string \<Rightarrow> recovery_store \<Rightarrow> recovery_store \<times> (recovery_error + retention_pin list)" where
  "pin_known_good_before env p before_ms incident actor reason s =
     (if \<not> validate_request p incident actor reason \<or> i64_max < before_ms then (s, Inl InvalidRetention)
      else if xr_fails env BeginStep then (s, Inl RecoveryDb)
      else case versions_of env p s of Inl e \<Rightarrow> (s, Inl e) | Inr vs \<Rightarrow>
      case filter (\<lambda>v. bv_known_good v \<and> bv_timestamp_ms v < before_ms) vs of
        [] \<Rightarrow> (s, Inl NoTrustedVersion)
      | good \<Rightarrow>
          if xr_fails env InsertStep then (s, Inl RecoveryDb)
          else case pin_each env incident (trim actor) (trim reason) good s of (s', pins) \<Rightarrow>
            commit RecoveryDb (xr_commit env) s s' pins)"

definition retention_pins :: "recovery_env \<Rightarrow> string option \<Rightarrow> bool \<Rightarrow> recovery_store \<Rightarrow> recovery_error + retention_pin list" where
  "retention_pins env incident include_released s =
     (if (case incident of None \<Rightarrow> False | Some i \<Rightarrow> \<not> validate_incident i) then Inl InvalidRetention
      else if xr_fails env QueryStep then Inl RecoveryDb
      else Inr (filter (\<lambda>p. (case incident of None \<Rightarrow> True | Some i \<Rightarrow> pin_incident_id p = i)
                  \<and> (include_released \<or> pin_released_at_ms p = None)) (rv_pins s)))"

definition retention_audit :: "recovery_env \<Rightarrow> string option \<Rightarrow> recovery_store \<Rightarrow> recovery_error + retention_audit_entry list" where
  "retention_audit env incident s =
     (if (case incident of None \<Rightarrow> False | Some i \<Rightarrow> \<not> validate_incident i) then Inl InvalidRetention
      else if xr_fails env QueryStep then Inl RecoveryDb
      else Inr (filter (\<lambda>a. case incident of None \<Rightarrow> True | Some i \<Rightarrow> rae_incident_id a = i) (rv_audit s)))"

definition get_pin :: "recovery_env \<Rightarrow> int \<Rightarrow> recovery_store \<Rightarrow> recovery_error + retention_pin" where
  "get_pin env i s =
     (if xr_fails env QueryStep then Inl RecoveryDb
      else case find (\<lambda>p. int (pin_id p) = i) (rv_pins s) of None \<Rightarrow> Inl VersionMissing | Some p \<Rightarrow> Inr p)"

definition record_approval ::
  "recovery_env \<Rightarrow> retention_pin list \<Rightarrow> release_approval \<Rightarrow> recovery_store \<Rightarrow> recovery_error + recovery_store" where
  "record_approval env pins approval s =
     (if \<not> validate_incident (rel_approval_id approval) \<or> \<not> validate_text (rel_approver approval) 256
         \<or> \<not> validate_text (rel_reason approval) 4096
         \<or> list_ex (\<lambda>p. pin_actor p = trim (rel_approver approval)) pins then Inl InvalidReleaseApproval
      else if list_ex (\<lambda>a. apr_approval_id a = rel_approval_id approval) (rv_approvals s) then Inl InvalidReleaseApproval
      else if xr_fails env InsertStep then Inl RecoveryDb
      else Inr (s\<lparr>rv_approvals := rv_approvals s @ [\<lparr>apr_approval_id = rel_approval_id approval,
             apr_approver = trim (rel_approver approval), apr_reason = trim (rel_reason approval),
             apr_timestamp_ms = min (xr_now_ms env) i64_max\<rparr>]\<rparr>))"

definition released_pin :: "recovery_env \<Rightarrow> release_approval \<Rightarrow> retention_pin \<Rightarrow> retention_pin" where
  "released_pin env approval p =
     p\<lparr>pin_released_at_ms := Some (min (xr_now_ms env) i64_max), pin_release_approval_id := Some (rel_approval_id approval),
       pin_released_by := Some (trim (rel_approver approval)), pin_release_reason := Some (trim (rel_reason approval))\<rparr>"

definition release_in_transaction :: "recovery_env \<Rightarrow> release_approval \<Rightarrow> retention_pin \<Rightarrow> recovery_store \<Rightarrow> recovery_store" where
  "release_in_transaction env approval pin s =
     append_audit pin Released (trim (rel_approver approval)) (trim (rel_reason approval)) (min (xr_now_ms env) i64_max)
       (Some (rel_approval_id approval))
       (s\<lparr>rv_pins := map (\<lambda>p. if pin_id p = pin_id pin \<and> pin_released_at_ms p = None then released_pin env approval p else p) (rv_pins s)\<rparr>)"

definition release_pin ::
  "recovery_env \<Rightarrow> int \<Rightarrow> release_approval \<Rightarrow> recovery_store \<Rightarrow> recovery_store \<times> (recovery_error + retention_pin)" where
  "release_pin env i approval s =
     (if xr_fails env BeginStep then (s, Inl RecoveryDb)
      else case get_pin env i s of Inl e \<Rightarrow> (s, Inl e) | Inr pin \<Rightarrow>
      if pin_released_at_ms pin \<noteq> None then (s, Inl InvalidReleaseApproval)
      else case record_approval env [pin] approval s of Inl e \<Rightarrow> (s, Inl e) | Inr s' \<Rightarrow>
      let s' = release_in_transaction env approval pin s'
      in case get_pin env (int (pin_id pin)) s' of Inl e \<Rightarrow> (s, Inl e) | Inr result \<Rightarrow>
         commit RecoveryDb (xr_commit env) s s' result)"

definition release_incident ::
  "recovery_env \<Rightarrow> string \<Rightarrow> release_approval \<Rightarrow> recovery_store \<Rightarrow> recovery_store \<times> (recovery_error + retention_pin list)" where
  "release_incident env incident approval s =
     (if \<not> validate_incident incident then (s, Inl InvalidRetention)
      else if xr_fails env BeginStep then (s, Inl RecoveryDb)
      else case retention_pins env (Some incident) False s of Inl e \<Rightarrow> (s, Inl e) | Inr pins \<Rightarrow>
      if pins = [] then (s, Inl VersionMissing)
      else case record_approval env pins approval s of Inl e \<Rightarrow> (s, Inl e) | Inr s' \<Rightarrow>
      let s' = fold (release_in_transaction env approval) pins s'
      in commit RecoveryDb (xr_commit env) s s' (map (released_pin env approval) pins))"

section \<open>Runs\<close>

datatype recovery_call =
    BackupCall path u64 pid | PruneCall usize
  | MarkCall path int string | RevokeCall path int string
  | RestoreCall path "u64 option" | TestCall path "u64 option"
  | PinCall path int string string string | PinGoodCall path u64 string string string
  | ReleasePinCall int release_approval | ReleaseIncidentCall string release_approval

fun recovery_call_step :: "(string \<Rightarrow> string) \<Rightarrow> recovery_call \<times> recovery_env \<Rightarrow> recovery_store \<Rightarrow> recovery_store" where
  "recovery_call_step sha (BackupCall p ts owner, env) s = fst (backup sha env p ts owner s)"
| "recovery_call_step sha (PruneCall keep, env) s = fst (prune env keep s)"
| "recovery_call_step sha (MarkCall p i note, env) s = fst (mark_known_good sha env p i note s)"
| "recovery_call_step sha (RevokeCall p i note, env) s = fst (revoke_known_good env p i note s)"
| "recovery_call_step sha (RestoreCall p before, env) s = fst (restore sha env p before s)"
| "recovery_call_step sha (TestCall p before, env) s = fst (test_restore sha env p before s)"
| "recovery_call_step sha (PinCall p i incident actor reason, env) s = fst (pin_version env p i incident actor reason s)"
| "recovery_call_step sha (PinGoodCall p t incident actor reason, env) s = fst (pin_known_good_before env p t incident actor reason s)"
| "recovery_call_step sha (ReleasePinCall i approval, env) s = fst (release_pin env i approval s)"
| "recovery_call_step sha (ReleaseIncidentCall incident approval, env) s = fst (release_incident env incident approval s)"

definition recovery_run :: "(string \<Rightarrow> string) \<Rightarrow> (recovery_call \<times> recovery_env) list \<Rightarrow> recovery_store \<Rightarrow> recovery_store" where
  "recovery_run sha = fold (recovery_call_step sha)"

section \<open>Effects of the calls\<close>

text \<open>
  Every call is a sequence of elementary effects.  The set \<^verbatim>\<open>C\<close> holds the contents that were read
  for backups; the flag allows the effect of a pruning whose commit failed.
\<close>

definition present :: "recovery_store \<Rightarrow> version_row \<Rightarrow> bool" where
  "present s r = (map_of (rv_objects s) (vr_hash r) \<noteq> None)"

definition kept_rows :: "nat \<Rightarrow> recovery_store \<Rightarrow> version_row list" where
  "kept_rows keep s = filter (\<lambda>r. \<not> expendable keep s r) (rv_versions s)"

inductive effect :: "(string \<Rightarrow> string) \<Rightarrow> string set \<Rightarrow> bool \<Rightarrow> recovery_store \<Rightarrow> recovery_store \<Rightarrow> bool"
  for sha :: "string \<Rightarrow> string" and C :: "string set" and lossy :: bool where
  other: "effect sha C lossy s (s\<lparr>rv_status := st, rv_files := fs\<rparr>)"
| put_object: "d \<in> C \<Longrightarrow> effect sha C lossy s (s\<lparr>rv_objects := hm_put (sha d) d (rv_objects s)\<rparr>)"
| add: "d \<in> C \<Longrightarrow> length d \<le> unat (rv_max_file_bytes s) \<Longrightarrow> map_of (rv_objects s) (sha d) \<noteq> None
    \<Longrightarrow> effect sha C lossy s (add_version p (sha d) (length d) ts owner s)"
| mark: "r \<in> set (rv_versions s) \<Longrightarrow> present s r \<Longrightarrow> effect sha C lossy s (set_verdict True why (vr_id r) s)"
| revoke: "effect sha C lossy s (set_verdict False why i s)"
| drop: "effect sha C lossy s
    (s\<lparr>rv_objects := sweep_objects env (kept_rows keep s) (rv_objects s), rv_versions := kept_rows keep s\<rparr>)"
| lost: "lossy \<Longrightarrow> effect sha C lossy s (s\<lparr>rv_objects := sweep_objects env (kept_rows keep s) (rv_objects s)\<rparr>)"
| pin: "p = new_pin env v incident actor reason s
    \<Longrightarrow> effect sha C lossy s (append_audit p Pinned actor reason (pin_pinned_at_ms p) None (s\<lparr>rv_pins := rv_pins s @ [p]\<rparr>))"
| release: "record_approval env pins approval s = Inr s' \<Longrightarrow> distinct (map pin_id pins)
    \<Longrightarrow> set pins \<subseteq> {p \<in> set (rv_pins s). pin_released_at_ms p = None}
    \<Longrightarrow> effect sha C lossy s (fold (release_in_transaction env approval) pins s')"

inductive_cases effectE: "effect sha C lossy s t"

lemmas effects_refl = rtranclp.rtrancl_refl [of "effect sha C lossy" for sha C lossy]

lemma commit_effects:
  "(effect sha C lossy)\<^sup>*\<^sup>* s old \<Longrightarrow> (effect sha C lossy)\<^sup>*\<^sup>* s new \<Longrightarrow> (effect sha C lossy)\<^sup>*\<^sup>* s (fst (commit e outcome old new x))"
  by (simp add: commit_def split: commit_outcome.split)

lemma one_effect: "effect sha C lossy s t \<Longrightarrow> (effect sha C lossy)\<^sup>*\<^sup>* s t"
  by (rule r_into_rtranclp)

lemma status_effect: "(effect sha C lossy)\<^sup>*\<^sup>* s (update_status p f s)"
  using effect.other [where s = s and fs = "rv_files s"] by (intro one_effect) (simp add: update_status_def)

lemma skip_effects: "(effect sha C lossy)\<^sup>*\<^sup>* s (fst (record_oversized_skip env p s))"
  by (simp add: record_oversized_skip_def commit_effects status_effect)

lemma too_large_effects: "(effect sha C lossy)\<^sup>*\<^sup>* s (fst (too_large env p n s))"
  using skip_effects [of sha C lossy s env p] by (auto simp: too_large_def split: prod.split sum.split)

lemma stored_object:
  assumes "store_object env h d objects = Inr objects'"
  shows "objects' = objects \<and> map_of objects h \<noteq> None \<or> objects' = hm_put h d objects"
  using assms by (auto simp: store_object_def split: if_splits sum.splits)

lemma content_effects:
  assumes "d \<in> C" "length d \<le> unat (rv_max_file_bytes s)"
  shows "(effect sha C lossy)\<^sup>*\<^sup>* s (fst (backup_content sha env p ts owner d s))"
proof (cases "store_object env (sha d) d (rv_objects s)")
  case (Inr objects)
  let ?s = "s\<lparr>rv_objects := objects\<rparr>"
  have put: "(effect sha C lossy)\<^sup>*\<^sup>* s ?s" and here: "map_of objects (sha d) \<noteq> None"
    using stored_object [OF Inr] one_effect [OF effect.put_object [OF assms(1), where s = s and sha = sha and lossy = lossy]] by (auto simp: hm_get_put)
  have "effect sha C lossy ?s (add_version p (sha d) (length d) ts owner ?s)"
    using assms here by (intro effect.add) simp_all
  then have "(effect sha C lossy)\<^sup>*\<^sup>* s (fst (commit RecoveryDb (xr_commit env) ?s (add_version p (sha d) (length d) ts owner ?s) (Some (sha d))))"
    by (intro commit_effects put rtranclp.rtrancl_into_rtrancl [OF put])
  then show ?thesis using put by (simp add: backup_content_def Inr Let_def)
qed (simp add: backup_content_def Let_def)

definition read_content :: "u64 \<Rightarrow> recovery_env \<Rightarrow> string set" where
  "read_content limit env = (case xr_content env of None \<Rightarrow> {} | Some c \<Rightarrow> {take (unat (sat_add limit 1)) c})"

lemma backup_effects:
  assumes "read_content (rv_max_file_bytes s) env \<subseteq> C"
  shows "(effect sha C lossy)\<^sup>*\<^sup>* s (fst (backup sha env p ts owner s))"
  using assms by (auto simp: backup_def read_content_def Let_def too_large_effects split: option.split intro!: content_effects)

lemma found_version:
  assumes "version_at env p i s = Inr v"
  obtains r where "r \<in> set (rv_versions s)" "map_version r = Some v" "vr_path r = p" "int (vr_id r) = i"
  using assms by (auto simp: version_at_def split: if_splits option.splits dest!: find_SomeD)

lemma map_version_parts: "map_version r = Some v \<Longrightarrow> bv_id v = vr_id r \<and> bv_hash v = vr_hash r \<and> bv_path v = vr_path r
    \<and> bv_known_good v = vr_known_good r \<and> bv_size v = of_int (vr_size r) \<and> bv_timestamp_ms v = of_int (vr_timestamp_ms r)"
  by (auto simp: map_version_def column_u64_def split: if_splits)

lemma verified_present: "read_verified sha env v s = Inr d \<Longrightarrow> map_of (rv_objects s) (bv_hash v) \<noteq> None"
  by (auto simp: read_verified_def split: if_splits option.splits)

lemma mark_effects: "(effect sha C lossy)\<^sup>*\<^sup>* s (fst (mark_known_good sha env p i note s))"
proof (cases "version_at env p i s")
  case (Inr v)
  then obtain r where r: "r \<in> set (rv_versions s)" "map_version r = Some v" by (rule found_version)
  have "effect sha C lossy s (set_verdict True (trim note) (bv_id v) s)" if "read_verified sha env v s = Inr d" for d
    using effect.mark [OF r(1), where why = "trim note" and sha = sha and C = C and lossy = lossy] verified_present [OF that] map_version_parts [OF r(2)]
    by (simp add: present_def)
  then show ?thesis
    by (auto simp: mark_known_good_def Inr commit_def split: sum.split commit_outcome.split intro!: one_effect)
qed (simp add: mark_known_good_def)

lemma revoke_effects: "(effect sha C lossy)\<^sup>*\<^sup>* s (fst (revoke_known_good env p i note s))"
  by (auto simp: revoke_known_good_def commit_def split: sum.split commit_outcome.split intro!: one_effect effect.revoke)

lemma restore_effects: "(effect sha C lossy)\<^sup>*\<^sup>* s (fst (restore sha env p before s))"
  using one_effect [OF effect.other [where s = s and st = "rv_status s" and sha = sha and C = C and lossy = lossy]]
  by (auto simp: restore_def split: sum.split)

lemma test_effects: "(effect sha C lossy)\<^sup>*\<^sup>* s (fst (test_restore sha env p before s))"
  by (auto simp: test_restore_def Let_def commit_def status_effect split: commit_outcome.split)

lemma prune_effects:
  assumes "xr_commit env = NotCommitted \<Longrightarrow> lossy"
  shows "(effect sha C lossy)\<^sup>*\<^sup>* s (fst (prune env keep s))"
  using assms one_effect [OF effect.drop [where s = s and env = env and keep = "unat (min keep i64_max)" and sha = sha and C = C and lossy = lossy]]
    one_effect [OF effect.lost [where s = s and env = env and keep = "unat (min keep i64_max)" and sha = sha and C = C and lossy = lossy]]
  by (auto simp: prune_def commit_def Let_def kept_rows_def split: commit_outcome.split)

lemma pin_one_effects: "(effect sha C lossy)\<^sup>*\<^sup>* s (fst (pin_in_transaction env incident actor reason v s))"
  using one_effect [OF effect.pin [OF refl, where s = s and env = env and v = v and incident = incident and actor = actor and reason = reason and sha = sha and C = C and lossy = lossy]]
  by (auto simp: pin_in_transaction_def Let_def split: option.split)

lemma pin_each_effects: "(effect sha C lossy)\<^sup>*\<^sup>* s (fst (pin_each env incident actor reason vs s))"
proof (induction vs arbitrary: s)
  case (Cons v vs)
  show ?case using rtranclp_trans [OF pin_one_effects Cons] by (simp add: case_prod_unfold)
qed simp

lemma pin_effects: "(effect sha C lossy)\<^sup>*\<^sup>* s (fst (pin_version env p i incident actor reason s))"
  using pin_one_effects by (auto simp: pin_version_def case_prod_unfold split: sum.split intro!: commit_effects)

lemma pin_good_effects: "(effect sha C lossy)\<^sup>*\<^sup>* s (fst (pin_known_good_before env p t incident actor reason s))"
  using pin_each_effects
  by (auto simp: pin_known_good_before_def case_prod_unfold simp del: pin_each.simps split: sum.split list.split intro!: commit_effects)

lemma release_pin_effects: "(effect sha C lossy)\<^sup>*\<^sup>* s (fst (release_pin env i approval s))"
proof -
  have "effect sha C lossy s (release_in_transaction env approval pin s')"
    if "get_pin env i s = Inr pin" "pin_released_at_ms pin = None" "record_approval env [pin] approval s = Inr s'" for pin s'
    using effect.release [OF that(3), where sha = sha and C = C and lossy = lossy] that(1,2)
    by (auto simp: get_pin_def split: if_splits option.splits dest!: find_SomeD)
  then show ?thesis
    by (auto simp: release_pin_def Let_def split: sum.split intro!: commit_effects intro: one_effect)
qed

lemma release_incident_effects:
  assumes "distinct (map pin_id (rv_pins s))"
  shows "(effect sha C lossy)\<^sup>*\<^sup>* s (fst (release_incident env incident approval s))"
proof -
  have "effect sha C lossy s (fold (release_in_transaction env approval) pins s')"
    if "retention_pins env (Some incident) False s = Inr pins" "record_approval env pins approval s = Inr s'" for pins s'
  proof (rule effect.release [OF that(2)])
    have pins: "pins = filter (\<lambda>p. pin_incident_id p = incident \<and> pin_released_at_ms p = None) (rv_pins s)"
      using that(1) by (auto simp: retention_pins_def split: if_splits)
    show "distinct (map pin_id pins)" unfolding pins using assms by (rule distinct_map_filter)
    show "set pins \<subseteq> {p \<in> set (rv_pins s). pin_released_at_ms p = None}" by (auto simp: pins)
  qed
  then show ?thesis
    by (auto simp: release_incident_def Let_def split: sum.split intro!: commit_effects intro: one_effect)
qed

section \<open>Invariants of the store\<close>

definition row_content :: "(string \<Rightarrow> string) \<Rightarrow> string set \<Rightarrow> u64 \<Rightarrow> version_row \<Rightarrow> bool" where
  "row_content sha C limit r =
     (\<exists>d\<in>C. sha d = vr_hash r \<and> vr_size r = int (length d) \<and> length d \<le> unat limit)"

definition store_inv :: "(string \<Rightarrow> string) \<Rightarrow> string set \<Rightarrow> recovery_store \<Rightarrow> bool" where
  "store_inv sha C s =
     (hm_wf (rv_objects s) \<and> (\<forall>h d. map_of (rv_objects s) h = Some d \<longrightarrow> d \<in> C \<and> sha d = h)
      \<and> distinct (map vr_id (rv_versions s))
      \<and> (\<forall>r\<in>set (rv_versions s). vr_id r \<le> rv_version_seq s \<and> row_content sha C (rv_max_file_bytes s) r))"

definition trusted_present :: "recovery_store \<Rightarrow> bool" where
  "trusted_present s = (\<forall>r\<in>set (rv_versions s). vr_known_good r \<longrightarrow> present s r)"

definition all_present :: "recovery_store \<Rightarrow> bool" where
  "all_present s = (\<forall>r\<in>set (rv_versions s). present s r)"

lemma record_approval_parts:
  "record_approval env pins approval s = Inr s' \<Longrightarrow> rv_objects s' = rv_objects s \<and> rv_versions s' = rv_versions s
     \<and> rv_version_seq s' = rv_version_seq s \<and> rv_max_file_bytes s' = rv_max_file_bytes s \<and> rv_pins s' = rv_pins s \<and> rv_audit s' = rv_audit s"
  by (auto simp: record_approval_def split: if_splits)

lemma release_keeps:
  "rv_objects (fold (release_in_transaction env approval) pins s) = rv_objects s"
  "rv_versions (fold (release_in_transaction env approval) pins s) = rv_versions s"
  "rv_version_seq (fold (release_in_transaction env approval) pins s) = rv_version_seq s"
  "rv_max_file_bytes (fold (release_in_transaction env approval) pins s) = rv_max_file_bytes s"
  "rv_approvals (fold (release_in_transaction env approval) pins s) = rv_approvals s"
  by (induction pins arbitrary: s) (simp_all add: release_in_transaction_def append_audit_def)

lemma swept_get:
  "hm_wf objects \<Longrightarrow> map_of (sweep_objects env rows objects) h =
     (case map_of objects h of None \<Rightarrow> None | Some d \<Rightarrow> if h \<in> vr_hash ` set rows \<or> \<not> xr_removes env h then Some d else None)"
  by (simp add: sweep_objects_def hm_get_retain)

lemma swept_present:
  "hm_wf objects \<Longrightarrow> r \<in> set rows \<Longrightarrow> map_of (sweep_objects env rows objects) (vr_hash r) = map_of objects (vr_hash r)"
  by (auto simp: swept_get split: option.split)

lemma swept_wf: "hm_wf objects \<Longrightarrow> hm_wf (sweep_objects env rows objects)"
  by (simp add: sweep_objects_def hm_wf_retain)

lemma verdict_ids: "map vr_id (rv_versions (set_verdict good why i s)) = map vr_id (rv_versions s)"
  by (auto simp: set_verdict_def)

lemma verdict_row:
  assumes "r' \<in> set (rv_versions (set_verdict good why i s))"
  obtains r where "r \<in> set (rv_versions s)" "vr_id r' = vr_id r" "vr_hash r' = vr_hash r" "vr_size r' = vr_size r" "vr_path r' = vr_path r"
    "vr_known_good r' = (if vr_id r = i then good else vr_known_good r)"
  using assms by (auto simp: set_verdict_def split: if_splits)

lemma verdict_keeps: "rv_objects (set_verdict good why i s) = rv_objects s" "rv_version_seq (set_verdict good why i s) = rv_version_seq s"
  "rv_max_file_bytes (set_verdict good why i s) = rv_max_file_bytes s" "rv_pins (set_verdict good why i s) = rv_pins s"
  "rv_approvals (set_verdict good why i s) = rv_approvals s" "rv_audit (set_verdict good why i s) = rv_audit s"
  by (simp_all add: set_verdict_def)

lemma verdict_store_inv: "store_inv sha C s \<Longrightarrow> store_inv sha C (set_verdict good why i s)"
  by (auto simp: store_inv_def verdict_ids verdict_keeps row_content_def elim!: verdict_row)

lemma limit_constant: "effect sha C lossy s t \<Longrightarrow> rv_max_file_bytes t = rv_max_file_bytes s"
  by (erule effectE) (auto simp: add_version_def set_verdict_def append_audit_def release_keeps dest!: record_approval_parts)

lemma effect_store_inv:
  assumes "effect sha C lossy s t" "store_inv sha C s"
  shows "store_inv sha C t"
  using assms
proof cases
  case (add d p ts owner)
  then have "vr_id r \<noteq> rv_version_seq s + 1" if "r \<in> set (rv_versions s)" for r using assms(2) that by (auto simp: store_inv_def)
  then show ?thesis using assms(2) add by (auto simp: store_inv_def add_version_def row_content_def)
next
  case (release env pins approval s')
  then show ?thesis using assms(2) record_approval_parts [OF release(2)] by (simp add: store_inv_def release_keeps)
next
  case drop
  then show ?thesis using assms(2)
    by (auto simp: store_inv_def swept_wf swept_get kept_rows_def distinct_map_filter split: option.splits if_splits)
next
  case lost
  then show ?thesis using assms(2) by (auto simp: store_inv_def swept_wf swept_get split: option.splits if_splits)
next
  case (mark r why)
  then show ?thesis using assms(2) by (simp add: verdict_store_inv)
next
  case (revoke why i)
  then show ?thesis using assms(2) by (simp add: verdict_store_inv)
qed (use assms(2) in \<open>auto simp: store_inv_def hm_wf_put hm_get_put append_audit_def split: if_splits\<close>)

lemma kept_row: "r \<in> set (kept_rows keep s) \<Longrightarrow> r \<in> set (rv_versions s)"
  by (simp add: kept_rows_def)

lemma effect_trusted:
  assumes "effect sha C lossy s t" "store_inv sha C s" "trusted_present s"
  shows "trusted_present t"
  using assms(1)
proof cases
  case (mark r why)
  have "present s x" if "x \<in> set (rv_versions s)" "vr_id x = vr_id r" for x
  proof -
    have "x = r" using that mark(2) assms(2) by (auto simp: store_inv_def distinct_map dest: inj_onD)
    then show ?thesis using mark(3) by simp
  qed
  then show ?thesis using assms(3) mark
    by (auto simp: trusted_present_def present_def verdict_keeps elim!: verdict_row split: if_splits)
next
  case (revoke why i)
  then show ?thesis using assms(3)
    by (auto simp: trusted_present_def present_def verdict_keeps elim!: verdict_row split: if_splits)
next
  case drop
  have "hm_wf (rv_objects s)" using assms(2) by (simp add: store_inv_def)
  then show ?thesis using assms(3) drop kept_row by (auto simp: trusted_present_def present_def swept_present)
next
  case lost
  have wf: "hm_wf (rv_objects s)" using assms(2) by (simp add: store_inv_def)
  have "r \<in> set (kept_rows keep s)" if "r \<in> set (rv_versions s)" "vr_known_good r" for r keep
    using that by (simp add: kept_rows_def expendable_def)
  then show ?thesis using assms(3) lost wf by (auto simp: trusted_present_def present_def swept_present)
next
  case (release env pins approval s')
  then show ?thesis using assms(3) record_approval_parts [OF release(2)] by (simp add: trusted_present_def present_def release_keeps)
qed (use assms(3) in \<open>auto simp: trusted_present_def present_def hm_get_put append_audit_def add_version_def\<close>)

lemma effect_all:
  assumes "effect sha C False s t" "store_inv sha C s" "all_present s"
  shows "all_present t"
  using assms(1)
proof cases
  case drop
  have "hm_wf (rv_objects s)" using assms(2) by (simp add: store_inv_def)
  then show ?thesis using assms(3) drop kept_row by (auto simp: all_present_def present_def swept_present)
next
  case (release env pins approval s')
  then show ?thesis using assms(3) record_approval_parts [OF release(2)] by (simp add: all_present_def present_def release_keeps)
next
  case (mark r why)
  then show ?thesis using assms(3) by (auto simp: all_present_def present_def verdict_keeps elim!: verdict_row)
next
  case (revoke why i)
  then show ?thesis using assms(3) by (auto simp: all_present_def present_def verdict_keeps elim!: verdict_row)
qed (use assms(3) in \<open>auto simp: all_present_def present_def hm_get_put append_audit_def add_version_def\<close>)

section \<open>Held versions\<close>

definition holds :: "version_row \<Rightarrow> recovery_store \<Rightarrow> bool" where
  "holds r s = (\<exists>q\<in>set (rv_versions s). vr_id q = vr_id r \<and> vr_path q = vr_path r \<and> vr_hash q = vr_hash r \<and> vr_size q = vr_size r \<and> present s q)"

lemma effect_holds:
  assumes "effect sha C lossy s t" "store_inv sha C s" "holds r s" "p \<in> set (rv_pins s)" "active_pin (vr_id r) p"
  shows "holds r t"
proof -
  obtain q where q: "q \<in> set (rv_versions s)" "vr_id q = vr_id r" "vr_path q = vr_path r" "vr_hash q = vr_hash r" "vr_size q = vr_size r" "present s q"
    using assms(3) by (auto simp: holds_def)
  have kept: "q \<in> set (kept_rows keep s)" for keep
    using q assms(4,5) by (auto simp: kept_rows_def expendable_def list_ex_iff)
  have wf: "hm_wf (rv_objects s)" using assms(2) by (simp add: store_inv_def)
  have swept: "map_of (sweep_objects env (kept_rows keep s) (rv_objects s)) (vr_hash r) = map_of (rv_objects s) (vr_hash r)" for env keep
    using swept_present [OF wf kept] q(4) by simp
  show ?thesis using assms(1)
  proof cases
    case drop
    then show ?thesis using q kept unfolding holds_def by (intro bexI [of _ q]) (simp_all add: present_def swept)
  next
    case lost
    then show ?thesis using q kept unfolding holds_def by (intro bexI [of _ q]) (simp_all add: present_def swept)
  next
    case (release env pins approval s')
    then show ?thesis using assms(3) record_approval_parts [OF release(2)] by (simp add: holds_def present_def release_keeps)
  next
    case (mark x why)
    then show ?thesis using q unfolding holds_def
      by (intro bexI [of _ "if vr_id q = vr_id x then q\<lparr>vr_known_good := True, vr_trust_note := Some why\<rparr> else q"])
        (auto simp: present_def set_verdict_def)
  next
    case (revoke why i)
    then show ?thesis using q unfolding holds_def
      by (intro bexI [of _ "if vr_id q = i then q\<lparr>vr_known_good := False, vr_trust_note := Some why\<rparr> else q"])
        (auto simp: present_def set_verdict_def)
  qed (use q in \<open>auto simp: holds_def present_def hm_get_put append_audit_def add_version_def\<close>)
qed

lemma release_pins:
  "p \<in> set (rv_pins (fold (release_in_transaction env approval) pins s)) \<Longrightarrow> pin_released_at_ms p = None \<Longrightarrow> p \<in> set (rv_pins s)"
  by (induction pins arbitrary: s)
    (fastforce simp: release_in_transaction_def append_audit_def released_pin_def split: if_splits)+

lemma release_pins_length: "length (rv_pins (fold (release_in_transaction env approval) pins s)) = length (rv_pins s)"
  by (induction pins arbitrary: s) (simp_all add: release_in_transaction_def append_audit_def)

lemma effect_pins:
  assumes "effect sha C lossy s t"
  shows "length (rv_pins s) \<le> length (rv_pins t)"
    and "p \<in> set (rv_pins t) \<Longrightarrow> pin_released_at_ms p = None \<Longrightarrow> pin_id p \<le> length (rv_pins s) \<Longrightarrow> p \<in> set (rv_pins s)"
  using assms
  by (auto simp: add_version_def verdict_keeps append_audit_def release_pins_length new_pin_def elim!: effectE
      dest!: release_pins dest: record_approval_parts)

lemma held_survives:
  assumes "(effect sha C lossy)\<^sup>*\<^sup>* s t" "store_inv sha C s" "holds r s" "pin_id p \<le> length (rv_pins s)"
    "active_pin (vr_id r) p" "p \<in> set (rv_pins t)"
  shows "holds r t"
proof -
  have "store_inv sha C t \<and> pin_id p \<le> length (rv_pins t) \<and> (p \<in> set (rv_pins t) \<longrightarrow> holds r t)"
    using assms(1)
  proof induction
    case base
    then show ?case using assms by simp
  next
    case (step t u)
    have free: "pin_released_at_ms p = None" using assms(5) by (simp add: active_pin_def)
    have "holds r u" if "p \<in> set (rv_pins u)"
      using effect_holds [OF step(2) _ _ _ assms(5)] effect_pins(2) [OF step(2) that free] step(3) by blast
    then show ?case using effect_store_inv [OF step(2)] effect_pins(1) [OF step(2)] step(3) by simp
  qed
  then show ?thesis using assms(6) by simp
qed

section \<open>Releases need a second person\<close>

definition history :: "recovery_store \<Rightarrow> retention_pin \<Rightarrow> (retention_action \<times> string \<times> string option) list" where
  "history s p = map (\<lambda>a. (rae_action a, rae_actor a, rae_approval_id a)) (filter (\<lambda>a. rae_pin_id a = pin_id p) (rv_audit s))"

definition pin_accounted :: "recovery_store \<Rightarrow> retention_pin \<Rightarrow> bool" where
  "pin_accounted s p =
     (case pin_released_at_ms p of
        None \<Rightarrow> history s p = [(Pinned, pin_actor p, None)]
      | Some _ \<Rightarrow> list_ex (\<lambda>a. apr_approver a \<noteq> pin_actor p \<and> pin_release_approval_id p = Some (apr_approval_id a)
            \<and> pin_released_by p = Some (apr_approver a)
            \<and> history s p = [(Pinned, pin_actor p, None), (Released, apr_approver a, Some (apr_approval_id a))]) (rv_approvals s))"

definition retention_inv :: "recovery_store \<Rightarrow> bool" where
  "retention_inv s =
     (map pin_id (rv_pins s) = [1..<Suc (length (rv_pins s))]
      \<and> map rae_id (rv_audit s) = [1..<Suc (length (rv_audit s))]
      \<and> distinct (map apr_approval_id (rv_approvals s))
      \<and> (\<forall>a\<in>set (rv_audit s). rae_pin_id a \<le> length (rv_pins s))
      \<and> (\<forall>p\<in>set (rv_pins s). pin_accounted s p))"

lemma pin_ids: "retention_inv s \<Longrightarrow> p \<in> set (rv_pins s) \<Longrightarrow> pin_id p \<le> length (rv_pins s)"
proof -
  assume "retention_inv s" "p \<in> set (rv_pins s)"
  then have "pin_id p \<in> set [1..<Suc (length (rv_pins s))]" by (metis image_eqI list.set_map retention_inv_def)
  then show ?thesis by auto
qed

lemma pin_accounted_same:
  "history t p = history s p \<Longrightarrow> set (rv_approvals s) \<subseteq> set (rv_approvals t) \<Longrightarrow> pin_accounted s p \<Longrightarrow> pin_accounted t p"
  by (cases "pin_released_at_ms p") (auto simp: pin_accounted_def list_ex_iff)

lemma pin_ids_distinct: "retention_inv s \<Longrightarrow> distinct (map pin_id (rv_pins s))"
  by (metis distinct_upt retention_inv_def)

lemma new_pin_inv:
  assumes "retention_inv s" "p = new_pin env v incident actor reason s"
  shows "retention_inv (append_audit p Pinned actor reason t None (s\<lparr>rv_pins := rv_pins s @ [p]\<rparr>))" (is "retention_inv ?s")
proof -
  have new: "pin_id p = Suc (length (rv_pins s))" "pin_released_at_ms p = None" "pin_actor p = actor"
    using assms(2) by (simp_all add: new_pin_def)
  have old: "history ?s q = history s q" if "q \<in> set (rv_pins s)" for q
    using pin_ids [OF assms(1) that] new(1) by (simp add: history_def append_audit_def)
  have none: "filter (\<lambda>a. rae_pin_id a = pin_id p) (rv_audit s) = []"
    using assms(1) new(1) by (auto simp: filter_empty_conv retention_inv_def)
  have "pin_accounted ?s q" if "q \<in> set (rv_pins s)" for q
    using assms(1) that old [OF that] by (intro pin_accounted_same [OF old]) (auto simp: retention_inv_def append_audit_def)
  moreover have "pin_accounted ?s p" using new none by (simp add: pin_accounted_def history_def append_audit_def)
  ultimately show ?thesis using assms(1) new(1) by (auto simp: retention_inv_def append_audit_def)
qed

lemma release_one_inv:
  assumes inv: "retention_inv s" and pin: "pin \<in> set (rv_pins s)" "pin_released_at_ms pin = None"
    and a: "a \<in> set (rv_approvals s)" "apr_approval_id a = rel_approval_id approval" "apr_approver a = trim (rel_approver approval)"
      "apr_approver a \<noteq> pin_actor pin"
  shows "retention_inv (release_in_transaction env approval pin s)" (is "retention_inv ?s")
proof -
  have same: "q = pin" if "q \<in> set (rv_pins s)" "pin_id q = pin_id pin" for q
    using pin_ids_distinct [OF inv] that pin(1) by (auto simp: distinct_map dest: inj_onD)
  have hist: "history ?s q = history s q @ (if pin_id q = pin_id pin then [(Released, apr_approver a, Some (apr_approval_id a))] else [])" for q
    using a(2,3) by (simp add: history_def release_in_transaction_def append_audit_def)
  have pins: "rv_pins ?s = map (\<lambda>q. if q = pin then released_pin env approval q else q) (rv_pins s)"
    using same pin(2) by (auto simp: release_in_transaction_def append_audit_def)
  have approvals: "rv_approvals ?s = rv_approvals s" by (simp add: release_in_transaction_def append_audit_def)
  have "history s pin = [(Pinned, pin_actor pin, None)]" using inv pin by (auto simp: retention_inv_def pin_accounted_def)
  then have "history ?s (released_pin env approval pin) = [(Pinned, pin_actor pin, None), (Released, apr_approver a, Some (apr_approval_id a))]"
    by (simp add: hist) (simp add: history_def released_pin_def)
  then have "pin_accounted ?s (released_pin env approval pin)"
    using a by (auto simp: pin_accounted_def list_ex_iff released_pin_def approvals intro!: bexI [of _ a])
  moreover have "pin_accounted ?s q" if "q \<in> set (rv_pins s)" "q \<noteq> pin" for q
  proof (rule pin_accounted_same)
    show "history ?s q = history s q" using hist [of q] same that by auto
    show "pin_accounted s q" using inv that by (simp add: retention_inv_def)
  qed (simp add: approvals)
  ultimately have "\<forall>q\<in>set (rv_pins ?s). pin_accounted ?s q" unfolding pins by auto
  moreover have "map pin_id (rv_pins ?s) = map pin_id (rv_pins s)" by (auto simp: pins released_pin_def)
  moreover have "length (rv_pins ?s) = length (rv_pins s)" by (simp add: pins)
  moreover have "map rae_id (rv_audit ?s) = [1..<Suc (length (rv_audit ?s))] \<and> (\<forall>x\<in>set (rv_audit ?s). rae_pin_id x \<le> length (rv_pins s))"
    using inv pin_ids [OF inv pin(1)] by (auto simp: retention_inv_def release_in_transaction_def append_audit_def)
  ultimately show ?thesis using inv by (simp add: retention_inv_def approvals)
qed

lemma release_all_inv:
  assumes "retention_inv s" "distinct (map pin_id pins)" "set pins \<subseteq> {p \<in> set (rv_pins s). pin_released_at_ms p = None}"
    "a \<in> set (rv_approvals s)" "apr_approval_id a = rel_approval_id approval" "apr_approver a = trim (rel_approver approval)"
    "apr_approver a \<notin> pin_actor ` set pins"
  shows "retention_inv (fold (release_in_transaction env approval) pins s)"
  using assms
proof (induction pins arbitrary: s)
  case (Cons pin pins)
  let ?s = "release_in_transaction env approval pin s"
  have "p \<in> set (rv_pins ?s)" if "p \<in> set pins" for p
    using that Cons.prems(2,3) by (auto simp: release_in_transaction_def append_audit_def intro!: image_eqI [of _ _ p])
  moreover have "retention_inv ?s" using Cons.prems by (intro release_one_inv [where a = a]) auto
  moreover have "rv_approvals ?s = rv_approvals s" by (simp add: release_in_transaction_def append_audit_def)
  ultimately show ?case using Cons.prems Cons.IH [of ?s] by auto
qed simp

lemma approved_inv:
  assumes "record_approval env pins approval s = Inr s'" "retention_inv s"
  shows "retention_inv s' \<and> (\<exists>a\<in>set (rv_approvals s'). apr_approval_id a = rel_approval_id approval
    \<and> apr_approver a = trim (rel_approver approval) \<and> apr_approver a \<notin> pin_actor ` set pins)"
proof -
  let ?a = "\<lparr>apr_approval_id = rel_approval_id approval, apr_approver = trim (rel_approver approval),
    apr_reason = trim (rel_reason approval), apr_timestamp_ms = min (xr_now_ms env) i64_max\<rparr>"
  have a: "s' = s\<lparr>rv_approvals := rv_approvals s @ [?a]\<rparr>" "trim (rel_approver approval) \<notin> pin_actor ` set pins"
    "rel_approval_id approval \<notin> apr_approval_id ` set (rv_approvals s)"
    using assms(1) by (auto simp: record_approval_def list_ex_iff split: if_splits)
  have "history s' q = history s q" for q by (simp add: history_def a(1))
  then have "pin_accounted s q \<Longrightarrow> pin_accounted s' q" for q
    by (rule pin_accounted_same) (auto simp: a(1))
  then have "retention_inv s'" using assms(2) a(3) by (auto simp: retention_inv_def a(1))
  then show ?thesis using a(2) by (auto simp: a(1))
qed

lemma effect_retention_inv:
  assumes "effect sha C lossy s t" "retention_inv s"
  shows "retention_inv t"
  using assms(1)
proof cases
  case (pin p)
  then show ?thesis using new_pin_inv [OF assms(2)] by blast
next
  case (release env pins approval s')
  obtain a where "retention_inv s'" "a \<in> set (rv_approvals s')" "apr_approval_id a = rel_approval_id approval"
    "apr_approver a = trim (rel_approver approval)" "apr_approver a \<notin> pin_actor ` set pins"
    using approved_inv [OF release(2) assms(2)] by blast
  then show ?thesis using release record_approval_parts [OF release(2)] release_all_inv [of s' pins a approval env] by simp
qed (use assms(2) in \<open>simp_all add: retention_inv_def pin_accounted_def history_def verdict_keeps add_version_def cong: option.case_cong\<close>)

section \<open>Runs are effects\<close>

definition seen_contents :: "u64 \<Rightarrow> (recovery_call \<times> recovery_env) list \<Rightarrow> string set" where
  "seen_contents limit calls = (\<Union>(c, env)\<in>set calls. read_content limit env)"

definition prune_lost :: "(recovery_call \<times> recovery_env) list \<Rightarrow> bool" where
  "prune_lost calls = list_ex (\<lambda>(c, env). (case c of PruneCall _ \<Rightarrow> True | _ \<Rightarrow> False) \<and> xr_commit env = NotCommitted) calls"

lemma call_effects:
  assumes "retention_inv s" "read_content (rv_max_file_bytes s) env \<subseteq> C" "prune_lost [(c, env)] \<Longrightarrow> lossy"
  shows "(effect sha C lossy)\<^sup>*\<^sup>* s (recovery_call_step sha (c, env) s)"
  using assms pin_ids_distinct
  by (cases c) (auto simp: prune_lost_def backup_effects prune_effects mark_effects revoke_effects restore_effects test_effects
      pin_effects pin_good_effects release_pin_effects release_incident_effects)

lemma effects_limit: "(effect sha C lossy)\<^sup>*\<^sup>* s t \<Longrightarrow> rv_max_file_bytes t = rv_max_file_bytes s"
  by (induction rule: rtranclp_induct) (simp_all add: limit_constant)

lemma effects_retention: "(effect sha C lossy)\<^sup>*\<^sup>* s t \<Longrightarrow> retention_inv s \<Longrightarrow> retention_inv t"
  by (induction rule: rtranclp_induct) (simp_all add: effect_retention_inv)

lemma effects_store: "(effect sha C lossy)\<^sup>*\<^sup>* s t \<Longrightarrow> store_inv sha C s \<Longrightarrow> store_inv sha C t"
  by (induction rule: rtranclp_induct) (simp_all add: effect_store_inv)

lemma effects_trusted: "(effect sha C lossy)\<^sup>*\<^sup>* s t \<Longrightarrow> store_inv sha C s \<Longrightarrow> trusted_present s \<Longrightarrow> store_inv sha C t \<and> trusted_present t"
  by (induction rule: rtranclp_induct) (auto intro: effect_store_inv effect_trusted)

lemma effects_all: "(effect sha C False)\<^sup>*\<^sup>* s t \<Longrightarrow> store_inv sha C s \<Longrightarrow> all_present s \<Longrightarrow> store_inv sha C t \<and> all_present t"
  by (induction rule: rtranclp_induct) (auto intro: effect_store_inv effect_all)

lemma release_audit: "prefix (rv_audit s) (rv_audit (fold (release_in_transaction env approval) pins s))"
proof (induction pins arbitrary: s)
  case (Cons pin pins)
  have "prefix (rv_audit s) (rv_audit (release_in_transaction env approval pin s))"
    by (simp add: release_in_transaction_def append_audit_def)
  then show ?case using Cons.IH [of "release_in_transaction env approval pin s"] by (auto intro: prefix_order.trans)
qed simp

lemma effect_audit: "effect sha C lossy s t \<Longrightarrow> prefix (rv_audit s) (rv_audit t)"
proof (erule effectE)
  fix env pins approval s'
  assume "t = fold (release_in_transaction env approval) pins s'" "record_approval env pins approval s = Inr s'"
  then show ?thesis using record_approval_parts release_audit [of s' env approval pins] by force
qed (auto simp: add_version_def verdict_keeps append_audit_def)

lemma effects_audit: "(effect sha C lossy)\<^sup>*\<^sup>* s t \<Longrightarrow> prefix (rv_audit s) (rv_audit t)"
  by (induction rule: rtranclp_induct) (auto intro: effect_audit prefix_order.trans)

lemma run_effects:
  assumes "retention_inv s" "seen_contents (rv_max_file_bytes s) calls \<subseteq> C" "prune_lost calls \<Longrightarrow> lossy"
  shows "(effect sha C lossy)\<^sup>*\<^sup>* s (recovery_run sha calls s)"
  using assms
proof (induction calls arbitrary: s)
  case (Cons call calls)
  obtain c env where call: "call = (c, env)" by (cases call)
  let ?s = "recovery_call_step sha call s"
  have first: "(effect sha C lossy)\<^sup>*\<^sup>* s ?s"
    using Cons.prems unfolding call by (intro call_effects) (auto simp: seen_contents_def prune_lost_def)
  have "(effect sha C lossy)\<^sup>*\<^sup>* ?s (recovery_run sha calls ?s)"
  proof (rule Cons.IH)
    show "retention_inv ?s" using effects_retention [OF first Cons.prems(1)] .
    show "seen_contents (rv_max_file_bytes ?s) calls \<subseteq> C"
      using Cons.prems(2) effects_limit [OF first] by (auto simp: seen_contents_def)
    show lossy if "prune_lost calls" using Cons.prems(3) that by (simp add: prune_lost_def)
  qed
  then show ?case using first by (simp add: recovery_run_def)
qed (simp add: recovery_run_def)

lemma open_invs: "store_inv sha C (recovery_open limit files)" "retention_inv (recovery_open limit files)"
  "trusted_present (recovery_open limit files)" "all_present (recovery_open limit files)"
  by (simp_all add: store_inv_def retention_inv_def trusted_present_def all_present_def recovery_open_def)

text \<open>The accounting of the holds is an invariant of every call, with every fault.\<close>

interpretation holds_log: invariant_system "recovery_open limit files" "recovery_call_step sha" retention_inv for limit files sha
proof
  show "retention_inv (recovery_open limit files)" by (rule open_invs)
  show "retention_inv (recovery_call_step sha call s)" if "retention_inv s" for call s
    using effects_retention [OF call_effects [OF that, of "snd call" UNIV "fst call" True sha] that] by simp
qed

lemma run_state:
  assumes "s = recovery_run sha calls (recovery_open limit files)"
  shows "store_inv sha (seen_contents limit calls) s" "retention_inv s" "trusted_present s"
    "\<not> prune_lost calls \<Longrightarrow> all_present s" "rv_max_file_bytes s = limit"
proof -
  have l: "rv_max_file_bytes (recovery_open limit files) = limit" by (simp add: recovery_open_def)
  have e: "(effect sha (seen_contents limit calls) lossy)\<^sup>*\<^sup>* (recovery_open limit files) s" if "prune_lost calls \<Longrightarrow> lossy" for lossy
    using run_effects [OF open_invs(2), of limit files calls "seen_contents limit calls" lossy sha] that l assms by simp
  note t = e [of True]
  show "store_inv sha (seen_contents limit calls) s" using effects_store [OF t open_invs(1)] by simp
  show "retention_inv s" unfolding assms recovery_run_def by (rule holds_log.invar_run)
  show "trusted_present s" using effects_trusted [OF t open_invs(1,3)] by simp
  show "rv_max_file_bytes s = limit" using effects_limit [OF t] l by simp
  show "all_present s" if "\<not> prune_lost calls" using effects_all [OF e open_invs(1,4)] that by blast
qed

lemma present_readable:
  assumes inv: "store_inv sha C s" and inj: "inj_on sha C" and sha: "\<forall>d. hash_text (sha d)"
    and r: "r \<in> set (rv_versions s)" "present s r" and v: "map_version r = Some v" and env: "\<not> xr_fails env ReadObject"
  shows "\<exists>d\<in>C. read_verified sha env v s = Inr d \<and> sha d = vr_hash r \<and> int (length d) = vr_size r"
proof -
  obtain d where d: "d \<in> C" "sha d = vr_hash r" "vr_size r = int (length d)" "length d \<le> unat (rv_max_file_bytes s)"
    using inv r(1) by (auto simp: store_inv_def row_content_def)
  obtain x where x: "map_of (rv_objects s) (vr_hash r) = Some x" using r(2) by (auto simp: present_def)
  then have "x \<in> C" "sha x = vr_hash r" using inv by (auto simp: store_inv_def)
  then have same: "x = d" using inj d by (metis inj_onD)
  have "bv_size v = of_nat (length d)" using map_version_parts [OF v] d(3) by simp
  moreover have "length d < 2 ^ 64" using d(4) unat_lt64 [of "rv_max_file_bytes s"] by simp
  ultimately have "unat (bv_size v) = length d" by (simp add: unsigned_of_nat take_bit_nat_eq_self)
  moreover have "unat (bv_size v) \<le> unat (sat_add (bv_size v) 1)"
    using unat_lt64 [of "bv_size v"] by (simp add: unat_sat_add)
  ultimately have "length d \<le> unat (sat_add (bv_size v) 1)" by simp
  moreover have "hash_text (vr_hash r)" using sha d(2) by metis
  ultimately show ?thesis using d x same map_version_parts [OF v] env
    by (intro bexI [of _ d]) (auto simp: read_verified_def Let_def)
qed

text \<open>
  C32: whatever calls are made on a backup store and whatever fails in them, every version that the
  operator judged good can be read back: the object is there and has the recorded digest and length,
  and it is one of the contents that were read for a backup.  The same holds of every version of the
  index as long as no pruning failed at its commit.  The digest is a hash text and tells the contents
  that were read apart.
\<close>

theorem trusted_version_is_restorable:
  assumes "s = recovery_run sha calls (recovery_open limit files)"
    and "\<forall>d. hash_text (sha d)" "inj_on sha (seen_contents limit calls)"
    and "r \<in> set (rv_versions s)" "vr_known_good r \<or> \<not> prune_lost calls" "map_version r = Some v" "\<not> xr_fails env ReadObject"
  shows "\<exists>d. d \<in> seen_contents limit calls \<and> read_verified sha env v s = Inr d \<and> sha d = vr_hash r \<and> int (length d) = vr_size r"
proof -
  note st = run_state [OF assms(1)]
  have "present s r" using assms(4,5) st(3,4) by (auto simp: trusted_present_def all_present_def)
  from present_readable [OF st(1) assms(3,2,4) this assms(6,7)] show ?thesis by blast
qed

text \<open>
  C33: a version whose object is present and that is held by an incident stays in the index with its
  digest, and its object stays readable, through any further calls and faults, pruning and revoked
  verdicts included, as long as that hold has not been released.
\<close>

theorem held_version_survives:
  assumes "s = recovery_run sha calls (recovery_open limit files)" "t = recovery_run sha later s"
    and "r \<in> set (rv_versions s)" "present s r" "p \<in> set (rv_pins s)" "active_pin (vr_id r) p" "p \<in> set (rv_pins t)"
  shows "\<exists>q. q \<in> set (rv_versions t) \<and> vr_id q = vr_id r \<and> vr_path q = vr_path r \<and> vr_hash q = vr_hash r \<and> vr_size q = vr_size r
     \<and> (\<exists>d. map_of (rv_objects t) (vr_hash r) = Some d \<and> sha d = vr_hash r)"
proof -
  let ?C = "seen_contents limit (calls @ later)"
  note st = run_state [OF assms(1)]
  have C: "seen_contents limit calls \<subseteq> ?C" "seen_contents limit later \<subseteq> ?C" by (auto simp: seen_contents_def)
  have "t = recovery_run sha (calls @ later) (recovery_open limit files)" using assms(1,2) by (simp add: recovery_run_def)
  note fin = run_state(1) [OF this]
  have "store_inv sha ?C s" using st(1) C(1) by (fastforce simp: store_inv_def row_content_def)
  moreover have "(effect sha ?C True)\<^sup>*\<^sup>* s t" using run_effects [OF st(2), of later ?C True sha] st(5) C(2) assms(2) by simp
  moreover have "holds r s" using assms(3,4) by (auto simp: holds_def)
  ultimately have "holds r t" using held_survives assms(5-7) pin_ids [OF st(2)] by blast
  then show ?thesis using fin by (fastforce simp: holds_def present_def store_inv_def)
qed

text \<open>
  C34: in every state that a backup store reaches, the history of a hold is complete: it has the entry
  of its creation and, when it was released, exactly one entry of its release under an approval by
  somebody other than the person who created the hold.  Approval numbers are used once, the entries
  of the audit are numbered without gaps, and later calls only append to it.
\<close>

theorem release_needs_second_person:
  assumes "s = recovery_run sha calls (recovery_open limit files)" "p \<in> set (rv_pins s)"
  shows "(case pin_released_at_ms p of
        None \<Rightarrow> history s p = [(Pinned, pin_actor p, None)]
      | Some _ \<Rightarrow> \<exists>a. a \<in> set (rv_approvals s) \<and> apr_approver a \<noteq> pin_actor p \<and> pin_release_approval_id p = Some (apr_approval_id a)
          \<and> pin_released_by p = Some (apr_approver a)
          \<and> history s p = [(Pinned, pin_actor p, None), (Released, apr_approver a, Some (apr_approval_id a))])
    \<and> distinct (map apr_approval_id (rv_approvals s)) \<and> map rae_id (rv_audit s) = [1..<Suc (length (rv_audit s))]
    \<and> prefix (rv_audit s) (rv_audit (recovery_run sha later s))"
proof -
  note st = run_state [OF assms(1)]
  have "pin_accounted s p" using st(2) assms(2) by (simp add: retention_inv_def)
  moreover have "(effect sha (seen_contents limit later) True)\<^sup>*\<^sup>* s (recovery_run sha later s)"
    using run_effects [OF st(2), of later "seen_contents limit later" True sha] st(5) by simp
  then have "prefix (rv_audit s) (rv_audit (recovery_run sha later s))" by (rule effects_audit)
  ultimately show ?thesis using st(2) by (cases "pin_released_at_ms p") (auto simp: retention_inv_def pin_accounted_def list_ex_iff)
qed

section \<open>Restoring is all or nothing\<close>

definition trusted_before :: "path \<Rightarrow> u64 option \<Rightarrow> version_row \<Rightarrow> bool" where
  "trusted_before p before_ms r =
     (vr_path r = p \<and> vr_known_good r \<and> (case before_ms of None \<Rightarrow> True | Some cutoff \<Rightarrow> of_int (vr_timestamp_ms r) < cutoff))"

lemma collected: "collect_versions rs = Some vs \<Longrightarrow> map map_version rs = map Some vs"
  by (induction rs arbitrary: vs) (auto split: option.splits)

lemma newest_first: "sorted (rev (map f (rev (sort_key f xs))))" for f :: "'a \<Rightarrow> 'b::linorder"
  by (simp add: rev_map)

lemma recommended_newest:
  assumes "recommend env p before_ms s = Inr v"
  shows "\<exists>r\<in>set (rv_versions s). map_version r = Some v \<and> trusted_before p before_ms r
    \<and> (\<forall>q\<in>set (rv_versions s). trusted_before p before_ms q \<longrightarrow> vr_timestamp_ms q \<le> vr_timestamp_ms r)"
proof -
  let ?rows = "rev (sort_key vr_timestamp_ms (filter (\<lambda>r. vr_path r = p) (rv_versions s)))"
  let ?P = "\<lambda>v. bv_known_good v \<and> (case before_ms of None \<Rightarrow> True | Some cutoff \<Rightarrow> bv_timestamp_ms v < cutoff)"
  obtain vs where vs: "collect_versions ?rows = Some vs" "find ?P vs = Some v"
    using assms by (auto simp: recommend_def versions_of_def split: if_splits option.splits list.splits sum.splits)
  have len: "length vs = length ?rows" using arg_cong [OF collected [OF vs(1)], of length] by simp
  have nth: "map_version (?rows ! k) = Some (vs ! k)" if "k < length vs" for k
    using arg_cong [OF collected [OF vs(1)], of "\<lambda>xs. xs ! k"] that len by simp
  have mem: "?rows ! k \<in> set (rv_versions s)" "vr_path (?rows ! k) = p" if "k < length vs" for k
    using nth_mem [of k ?rows] that len by auto
  have P: "?P (vs ! k) \<longleftrightarrow> trusted_before p before_ms (?rows ! k)" if "k < length vs" for k
    using map_version_parts [OF nth [OF that]] mem(2) [OF that] by (simp add: trusted_before_def split: option.split)
  obtain i where i: "i < length vs" "?P (vs ! i)" "v = vs ! i" "\<forall>j<i. \<not> ?P (vs ! j)"
    using vs(2) by (auto simp: find_Some_iff)
  have "vr_timestamp_ms q \<le> vr_timestamp_ms (?rows ! i)" if "q \<in> set (rv_versions s)" "trusted_before p before_ms q" for q
  proof -
    have "q \<in> set ?rows" using that by (simp add: trusted_before_def)
    then obtain k where k: "k < length vs" "q = ?rows ! k" using len by (metis in_set_conv_nth)
    then have "i \<le> k" using i(4) P that(2) by (meson leI)
    then show ?thesis using sorted_rev_nth_mono [OF newest_first [of vr_timestamp_ms "filter (\<lambda>r. vr_path r = p) (rv_versions s)"]] k len
      by (simp del: sort_key_simps)
  qed
  then show ?thesis using nth [OF i(1)] i P [OF i(1)] mem(1) [OF i(1)] by blast
qed

text \<open>
  C35: restoring a path either fails and leaves every file as it was, whatever step failed, or replaces
  exactly that path by bytes with the digest of the newest version judged good for it before the given
  time.  A replaced file keeps its owner and its permission bits without the special ones; a new file
  is private to the owner of the process.
\<close>

theorem restore_is_atomic:
  assumes "restore sha env p before_ms s = (s', result)"
  shows "case result of
      Inl _ \<Rightarrow> s' = s
    | Inr v \<Rightarrow> \<exists>r d mode uid gid. r \<in> set (rv_versions s) \<and> map_version r = Some v \<and> trusted_before p before_ms r
        \<and> list_all (\<lambda>q. trusted_before p before_ms q \<longrightarrow> vr_timestamp_ms q \<le> vr_timestamp_ms r) (rv_versions s)
        \<and> s' = s\<lparr>rv_files := hm_put p (RegularFile d mode uid gid) (rv_files s)\<rparr> \<and> sha d = vr_hash r
        \<and> (case map_of (rv_files s) p of
             None \<Rightarrow> mode = 384 \<and> (uid, gid) = xr_owner env
           | Some (RegularFile _ m u g) \<Rightarrow> mode = and m 511 \<and> uid = u \<and> gid = g
           | Some OtherNode \<Rightarrow> False)"
proof (cases result)
  case (Inl e)
  then show ?thesis using assms by (auto simp: restore_def split: sum.splits if_splits)
next
  case (Inr v)
  obtain d node where parts: "recommend env p before_ms s = Inr v" "read_verified sha env v s = Inr d"
    "map_of (rv_files s) p \<noteq> Some OtherNode" "apply_restore_metadata env (map_of (rv_files s) p) d = Inr node"
    "s' = s\<lparr>rv_files := hm_put p node (rv_files s)\<rparr>"
    using assms unfolding Inr restore_def by (auto split: sum.splits if_splits)
  obtain r where r: "r \<in> set (rv_versions s)" "map_version r = Some v" "trusted_before p before_ms r"
    "\<forall>q\<in>set (rv_versions s). trusted_before p before_ms q \<longrightarrow> vr_timestamp_ms q \<le> vr_timestamp_ms r"
    using recommended_newest [OF parts(1)] by blast
  have "sha d = vr_hash r"
    using parts(2) map_version_parts [OF r(2)] by (auto simp: read_verified_def Let_def split: if_splits option.splits)
  moreover obtain mode uid gid where "node = RegularFile d mode uid gid" "case map_of (rv_files s) p of
      None \<Rightarrow> mode = 384 \<and> (uid, gid) = xr_owner env
    | Some (RegularFile _ m u g) \<Rightarrow> mode = and m 511 \<and> uid = u \<and> gid = g | Some OtherNode \<Rightarrow> False"
    using parts(3,4) by (auto simp: apply_restore_metadata_def split: option.splits file_node.splits if_splits)
  ultimately show ?thesis using r parts(5) unfolding Inr sum.case list_all_iff
    by (intro exI [of _ r] exI [of _ d] exI [of _ mode] exI [of _ uid] exI [of _ gid]) simp
qed

section \<open>A pruning that fails at its commit\<close>

definition calm_env :: recovery_env where
  "calm_env = \<lparr>xr_fails = (\<lambda>_. False), xr_commit = Committed, xr_statement = Committed, xr_opens = (\<lambda>_. Opened), xr_counter = 0,
     xr_now_ms = 100, xr_metadata = Some (True, 1), xr_content = Some ''a'', xr_read_back = (\<lambda>d. d), xr_removes = (\<lambda>_. True),
     xr_canonical = (\<lambda>_. None), xr_store_dir = None, xr_owner = (0, 0)\<rparr>"

definition sample_sha :: "string \<Rightarrow> string" where
  "sample_sha d = (if d = ''a'' then replicate 64 (CHR ''a'') else replicate 64 (CHR ''b''))"

definition first_version :: version_row where
  "first_version = \<lparr>vr_id = 1, vr_path = ''/srv/f'', vr_hash = sample_sha ''a'', vr_size = 1, vr_timestamp_ms = 10, vr_pid = 7,
     vr_known_good = False, vr_trust_note = None\<rparr>"

definition one_backup :: "(recovery_call \<times> recovery_env) list" where
  "one_backup = [(BackupCall ''/srv/f'' 10 7, calm_env)]"

lemma calm_parts: "\<not> xr_fails calm_env step" "xr_commit calm_env = Committed" "xr_statement calm_env = Committed"
  "create_restore_temp calm_env = Inr 0" "xr_metadata calm_env = Some (True, 1)" "xr_content calm_env = Some ''a''"
  "xr_now_ms calm_env = 100" "xr_removes calm_env name" "xr_owner calm_env = (0, 0)" "xr_read_back calm_env d = d"
  using try_temp.simps(2) [of "\<lambda>_. Opened" 99 0] by (simp_all add: calm_env_def create_restore_temp_def)

lemma lost_parts: "\<not> xr_fails (calm_env\<lparr>xr_commit := c\<rparr>) step" "xr_removes (calm_env\<lparr>xr_commit := c\<rparr>) name"
  by (simp_all add: calm_env_def)

lemma one_backup_state:
  "recovery_run sample_sha one_backup (recovery_open 100 []) =
     (recovery_open 100 [])\<lparr>rv_objects := [(sample_sha ''a'', ''a'')], rv_versions := [first_version], rv_version_seq := 1\<rparr>"
  by (simp add: recovery_run_def one_backup_def backup_def backup_content_def calm_parts recovery_open_def Let_def latest_hash_def
      store_object_def hm_put_def commit_def add_version_def first_version_def sat_add_def)

text \<open>
  C39: pruning removes object files before its transaction commits.  When the commit then fails, the
  rows come back without their objects: the version is listed, cannot be read, and backing up the
  same content again reports that nothing changed, so the content is never stored again.
\<close>

theorem failed_prune_loses_content:
  "let s = recovery_run sample_sha (one_backup @ [(PruneCall 0, calm_env\<lparr>xr_commit := NotCommitted\<rparr>)]) (recovery_open 100 []);
       v = \<lparr>bv_id = 1, bv_path = ''/srv/f'', bv_hash = sample_sha ''a'', bv_size = 1, bv_timestamp_ms = 10, bv_pid = 7,
            bv_known_good = False, bv_trust_note = None\<rparr>
   in versions_of calm_env ''/srv/f'' s = Inr [v] \<and> read_verified sample_sha calm_env v s = Inl RecoveryIo
      \<and> backup sample_sha calm_env ''/srv/f'' 20 7 s = (s, Inr None)"
proof -
  let ?s = "(recovery_open 100 [])\<lparr>rv_objects := [], rv_versions := [first_version], rv_version_seq := 1\<rparr>"
  have "recovery_run sample_sha (one_backup @ [(PruneCall 0, calm_env\<lparr>xr_commit := NotCommitted\<rparr>)]) (recovery_open 100 []) = ?s"
    using one_backup_state
    by (simp add: recovery_run_def prune_def calm_parts lost_parts commit_def Let_def expendable_def recency_def first_version_def recovery_open_def
        sweep_objects_def hm_retain_def)
  moreover have "versions_of calm_env ''/srv/f'' ?s = Inr [\<lparr>bv_id = 1, bv_path = ''/srv/f'', bv_hash = sample_sha ''a'', bv_size = 1,
      bv_timestamp_ms = 10, bv_pid = 7, bv_known_good = False, bv_trust_note = None\<rparr>]"
    by (simp add: versions_of_def calm_parts first_version_def map_version_def column_u64_def)
  moreover have "hash_text (sample_sha ''a'')" by code_simp
  ultimately show ?thesis
    by (simp add: read_verified_def calm_parts recovery_open_def backup_def backup_content_def latest_hash_def first_version_def
        Let_def sat_add_def)
qed

section \<open>A held version\<close>

definition held_calls :: "(recovery_call \<times> recovery_env) list" where
  "held_calls = one_backup @ [(PinCall ''/srv/f'' 1 ''inc'' ''alice'' ''hold'', calm_env)]"

definition hold :: retention_pin where
  "hold = \<lparr>pin_id = 1, pin_incident_id = ''inc'', pin_version_id = 1, pin_path = ''/srv/f'', pin_hash = sample_sha ''a'', pin_actor = ''alice'',
     pin_reason = ''hold'', pin_pinned_at_ms = 100, pin_released_at_ms = None, pin_release_approval_id = None, pin_released_by = None,
     pin_release_reason = None\<rparr>"

definition second_person :: release_approval where
  "second_person = \<lparr>rel_approval_id = ''A1'', rel_approver = ''bob'', rel_reason = ''closed''\<rparr>"

definition held_state :: recovery_store where
  "held_state = append_audit hold Pinned ''alice'' ''hold'' 100 None
     ((recovery_open 100 [])\<lparr>rv_objects := [(sample_sha ''a'', ''a'')], rv_versions := [first_version], rv_version_seq := 1, rv_pins := [hold]\<rparr>)"

lemma texts_valid: "validate_request ''/srv/f'' ''inc'' ''alice'' ''hold''" "trim ''alice'' = ''alice''" "trim ''hold'' = ''hold''"
  "validate_incident ''A1''" "validate_text ''bob'' 256" "validate_text ''closed'' 4096" "trim ''bob'' = ''bob''" "trim ''closed'' = ''closed''"
  by code_simp+

lemma held_run: "recovery_run sample_sha held_calls (recovery_open 100 []) = held_state"
proof -
  have "recovery_run sample_sha held_calls (recovery_open 100 []) =
      recovery_call_step sample_sha (PinCall ''/srv/f'' 1 ''inc'' ''alice'' ''hold'', calm_env)
        (recovery_run sample_sha one_backup (recovery_open 100 []))"
    by (simp add: recovery_run_def held_calls_def)
  also have "\<dots> = held_state" unfolding one_backup_state
    by (simp add: pin_version_def texts_valid calm_parts version_at_def first_version_def map_version_def column_u64_def
        pin_in_transaction_def new_pin_def commit_def held_state_def hold_def recovery_open_def i64_max_def Let_def)
  finally show ?thesis .
qed

lemma sample_sha_text: "\<forall>d. hash_text (sample_sha d)"
proof
  fix d
  have "hash_text (replicate 64 (CHR ''a''))" "hash_text (replicate 64 (CHR ''b''))" by code_simp+
  then show "hash_text (sample_sha d)" by (simp add: sample_sha_def)
qed

lemma one_content: "seen_contents 100 one_backup = {''a''}"
  by (auto simp: seen_contents_def one_backup_def read_content_def calm_parts sat_add_def)

theorem trusted_version_is_restorable_witness:
  "\<exists>v d. map_version first_version = Some v
     \<and> read_verified sample_sha calm_env v (recovery_run sample_sha one_backup (recovery_open 100 [])) = Inr d \<and> d = ''a''"
proof -
  obtain v where v: "map_version first_version = Some v" by (simp add: map_version_def first_version_def column_u64_def)
  have "\<not> prune_lost one_backup" by (simp add: prune_lost_def one_backup_def)
  from trusted_version_is_restorable [OF refl sample_sha_text, of 100 one_backup first_version "[]" v calm_env] this v show ?thesis
    by (auto simp: one_backup_state one_content calm_parts)
qed

theorem held_version_survives_witness:
  "\<exists>q. q \<in> set (rv_versions (recovery_run sample_sha [(PruneCall 0, calm_env)] held_state)) \<and> vr_hash q = sample_sha ''a''"
proof -
  have held: "rv_pins held_state = [hold]" "rv_versions held_state = [first_version]" "rv_objects held_state = [(sample_sha ''a'', ''a'')]"
    by (simp_all add: held_state_def append_audit_def)
  have a: "active_pin (vr_id first_version) hold" by (simp add: active_pin_def first_version_def hold_def)
  have "rv_pins (recovery_run sample_sha [(PruneCall 0, calm_env)] held_state) = [hold]"
    by (simp add: recovery_run_def prune_def calm_parts commit_def Let_def held)
  moreover have "present held_state first_version" by (simp add: present_def held first_version_def)
  ultimately show ?thesis
    using held_version_survives [OF held_run [symmetric] refl, of first_version hold "[(PruneCall 0, calm_env)]"] a held
    by (auto simp: first_version_def)
qed

theorem release_needs_second_person_witness:
  "history (recovery_run sample_sha (held_calls @ [(ReleasePinCall 1 second_person, calm_env)]) (recovery_open 100 []))
     (released_pin calm_env second_person hold) = [(Pinned, ''alice'', None), (Released, ''bob'', Some ''A1'')]"
proof -
  let ?s = "recovery_run sample_sha (held_calls @ [(ReleasePinCall 1 second_person, calm_env)]) (recovery_open 100 [])"
  have "?s = recovery_call_step sample_sha (ReleasePinCall 1 second_person, calm_env) held_state"
    using held_run by (simp add: recovery_run_def)
  moreover have "rv_pins held_state = [hold]" "rv_approvals held_state = []" by (simp_all add: held_state_def append_audit_def recovery_open_def)
  ultimately have "released_pin calm_env second_person hold \<in> set (rv_pins ?s)"
    by (simp add: release_pin_def calm_parts get_pin_def record_approval_def second_person_def texts_valid release_in_transaction_def
        append_audit_def commit_def Let_def released_pin_def) (simp add: hold_def)
  moreover have "pin_released_at_ms (released_pin calm_env second_person hold) = Some 100"
    "pin_actor (released_pin calm_env second_person hold) = ''alice''"
    "pin_release_approval_id (released_pin calm_env second_person hold) = Some ''A1''"
    "pin_released_by (released_pin calm_env second_person hold) = Some ''bob''"
    by (simp_all add: released_pin_def second_person_def texts_valid hold_def calm_parts i64_max_def)
  ultimately show ?thesis using release_needs_second_person [OF refl, of "released_pin calm_env second_person hold"] by fastforce
qed

theorem restore_is_atomic_witness:
  "\<exists>s' v. restore sample_sha calm_env ''/srv/f'' None (set_verdict True ''ok'' 1 held_state) = (s', Inr v)
     \<and> map_of (rv_files s') ''/srv/f'' \<noteq> None"
proof -
  define t where "t = set_verdict True ''ok'' 1 held_state"
  have t: "rv_versions t = [first_version\<lparr>vr_known_good := True, vr_trust_note := Some ''ok''\<rparr>]" "rv_files t = []"
    "rv_objects t = [(sample_sha ''a'', ''a'')]"
    by (simp_all add: t_def set_verdict_def held_state_def append_audit_def first_version_def recovery_open_def)
  have "hash_text (sample_sha ''a'')" using sample_sha_text by blast
  then have "\<exists>s' v. restore sample_sha calm_env ''/srv/f'' None t = (s', Inr v)"
    by (simp add: restore_def recommend_def versions_of_def calm_parts t first_version_def map_version_def column_u64_def
        read_verified_def apply_restore_metadata_def sat_add_def Let_def)
  then obtain s' v where r: "restore sample_sha calm_env ''/srv/f'' None t = (s', Inr v)" by blast
  from restore_is_atomic [OF r] r show ?thesis unfolding t_def by (auto simp: hm_get_put)
qed

end
