(* ===== verification/Agent_Backup.thy ===== *)
theory Agent_Backup
  imports Recovery_Store Storage_Outbox "HOL-Library.Multiset"
begin

text \<open>
  Crate \<^verbatim>\<open>argos-agent\<close>, \<^verbatim>\<open>backup_worker.rs\<close>: the worker that backs up changed files and prunes the
  store, the walk over the watched directories at the start, and the worker that turns the retention
  jobs of the detections into holds on the backups.  Pauses, stop flags and log lines are left out.
\<close>

section \<open>Backing up\<close>

record backup_metrics =
  bx_failed :: u64
  bx_oversized :: u64
  bx_completed :: u64

definition metrics_default :: backup_metrics where
  "metrics_default = \<lparr>bx_failed = 0, bx_oversized = 0, bx_completed = 0\<rparr>"

text \<open>One captured file: every hundredth completed backup prunes the store.\<close>

definition capture ::
  "(string \<Rightarrow> string) \<Rightarrow> usize \<Rightarrow> recovery_env \<Rightarrow> recovery_env \<Rightarrow> path \<Rightarrow> u64 \<Rightarrow> pid \<Rightarrow> recovery_store \<times> backup_metrics
     \<Rightarrow> recovery_store \<times> backup_metrics" where
  "capture sha keep env prune_env p now owner sm =
     (case sm of (s, m) \<Rightarrow>
      case backup sha env p now owner s of
        (s, Inr _) \<Rightarrow>
          let m = m\<lparr>bx_completed := bx_completed m + 1\<rparr>
          in if bx_completed m mod 100 = 0
             then (case prune prune_env keep s of
                     (s, Inl _) \<Rightarrow> (s, m\<lparr>bx_failed := bx_failed m + 1\<rparr>) | (s, Inr _) \<Rightarrow> (s, m))
             else (s, m)
      | (s, Inl (TooLarge _ _)) \<Rightarrow> (s, m\<lparr>bx_oversized := bx_oversized m + 1\<rparr>)
      | (s, Inl _) \<Rightarrow> (s, m\<lparr>bx_failed := bx_failed m + 1\<rparr>))"

text \<open>
  The directory tree as the walk finds it: files, directories with the entries that could be read,
  and everything that is skipped (symbolic links, special files, paths that cannot be examined).
\<close>

datatype watched = WatchedFile path | WatchedDir "watched list" | Skipped

text \<open>The stack of the walk; its last element is popped and the entries of a directory are pushed.\<close>

function baseline_walk :: "watched list \<Rightarrow> path list" where
  "baseline_walk stack =
     (case rev stack of
        [] \<Rightarrow> []
      | WatchedFile p # below \<Rightarrow> p # baseline_walk (rev below)
      | WatchedDir entries # below \<Rightarrow> baseline_walk (rev below @ entries)
      | Skipped # below \<Rightarrow> baseline_walk (rev below))"
  by pat_completeness auto

section \<open>Holding the versions of a detection\<close>

definition PIN_ACTOR :: string where
  "PIN_ACTOR = ''argos-agent''"

text \<open>The reason of the hold, in UTF-8.\<close>

definition PIN_REASON :: string where
  "PIN_REASON = map char_of [237, 131, 144, 236, 167, 128, 32, 236, 157, 180, 236, 160, 132, 32, 236, 160, 149, 236, 131, 129, 32,
     235, 179, 181, 234, 181, 172, 32, 236, 167, 128, 236, 160, 144, 32, 236, 158, 144, 235, 143, 153, 32, 235, 179, 180, 236, 161, 180::nat]"

definition incident_of :: "retention_job \<Rightarrow> string" where
  "incident_of job = ''detection-'' @ show_nat (rj_detection_id job)"

text \<open>All paths are tried; the last failure is the one that is recorded.\<close>

fun pin_paths ::
  "(nat \<Rightarrow> recovery_env) \<Rightarrow> nat \<Rightarrow> u64 \<Rightarrow> string \<Rightarrow> path list \<Rightarrow> recovery_store \<times> recovery_error option \<Rightarrow> recovery_store \<times> recovery_error option" where
  "pin_paths envs k before incident [] sf = sf"
| "pin_paths envs k before incident (p # ps) (s, failure) =
     (case pin_known_good_before (envs k) p before incident PIN_ACTOR PIN_REASON s of
        (s, Inl e) \<Rightarrow> pin_paths envs (k + 1) before incident ps (s, Some e)
      | (s, Inr _) \<Rightarrow> pin_paths envs (k + 1) before incident ps (s, failure))"

definition retention_delay :: "nat \<Rightarrow> u64" where
  "retention_delay attempts = min (sat_mul 1000 (push_bit (min attempts 6) 1)) 60000"

definition retention_job_step ::
  "(recovery_error \<Rightarrow> string) \<Rightarrow> (nat \<Rightarrow> recovery_env) \<Rightarrow> sql_env \<Rightarrow> retention_job \<Rightarrow> recovery_store \<times> event_store
     \<Rightarrow> recovery_store \<times> event_store \<times> bool" where
  "retention_job_step message envs env job w =
     (case w of (s, es) \<Rightarrow>
      case pin_paths envs 0 (d_timestamp_ms (rj_detection job)) (incident_of job) (d_paths (rj_detection job)) (s, None) of
        (s, failure) \<Rightarrow>
          case (case failure of
                  Some e \<Rightarrow> record_retention_failure env (rj_detection_id job) (message e)
                     (min (sat_add (sq_now env) (retention_delay (rj_attempts job))) i64_max) es
                | None \<Rightarrow> acknowledge_retention_job env (rj_detection_id job) es) of
            (es, Inl _) \<Rightarrow> (s, es, True) | (es, Inr _) \<Rightarrow> (s, es, False))"

text \<open>One round: the due jobs, one after the other; jobs whose outcome could not be written are counted.\<close>

fun retention_jobs ::
  "(recovery_error \<Rightarrow> string) \<Rightarrow> (nat \<Rightarrow> nat \<Rightarrow> recovery_env) \<Rightarrow> (nat \<Rightarrow> sql_env) \<Rightarrow> nat \<Rightarrow> retention_job list \<Rightarrow> recovery_store \<times> event_store \<times> nat
     \<Rightarrow> recovery_store \<times> event_store \<times> nat" where
  "retention_jobs message envs sqls k [] w = w"
| "retention_jobs message envs sqls k (job # jobs) (s, es, errors) =
     (case retention_job_step message (envs k) (sqls k) job (s, es) of (s, es, failed) \<Rightarrow>
      retention_jobs message envs sqls (k + 1) jobs (s, es, errors + (if failed then 1 else 0)))"

definition retention_round ::
  "storage_lib \<Rightarrow> (recovery_error \<Rightarrow> string) \<Rightarrow> (nat \<Rightarrow> nat \<Rightarrow> recovery_env) \<Rightarrow> (nat \<Rightarrow> sql_env) \<Rightarrow> u64 \<Rightarrow> recovery_store \<times> event_store \<times> nat
     \<Rightarrow> recovery_store \<times> event_store \<times> nat" where
  "retention_round lib message envs sqls now w =
     (case w of (s, es, errors) \<Rightarrow>
      case pending_retention_jobs lib now 16 es of
        Inl _ \<Rightarrow> (s, es, errors + 1)
      | Inr jobs \<Rightarrow> retention_jobs message envs sqls 0 jobs (s, es, errors))"

section \<open>The walk ends\<close>

fun watched_files :: "watched \<Rightarrow> path list" where
  "watched_files (WatchedFile p) = [p]"
| "watched_files (WatchedDir entries) = concat (map watched_files entries)"
| "watched_files Skipped = []"

fun watched_weight :: "watched \<Rightarrow> nat" where
  "watched_weight (WatchedDir entries) = Suc (sum_list (map watched_weight entries))"
| "watched_weight w = 1"

termination baseline_walk
  by (relation "measure (\<lambda>stack. sum_list (map watched_weight stack))") (auto simp: rev_eq_Cons_iff)

declare baseline_walk.simps [simp del]

lemma baseline_walk_snoc:
  "baseline_walk [] = []"
  "baseline_walk (stack @ [WatchedFile p]) = p # baseline_walk stack"
  "baseline_walk (stack @ [WatchedDir entries]) = baseline_walk (stack @ entries)"
  "baseline_walk (stack @ [Skipped]) = baseline_walk stack"
  by (simp_all add: baseline_walk.simps [of "[]"] baseline_walk.simps [of "_ @ [_]"])


section \<open>An acknowledged job holds the good versions\<close>

definition held_for :: "string \<Rightarrow> u64 \<Rightarrow> path \<Rightarrow> recovery_store \<Rightarrow> bool" where
  "held_for incident before p s =
     (\<forall>r\<in>set (rv_versions s). trusted_before p (Some before) r
        \<longrightarrow> list_ex (\<lambda>pin. active_pin (vr_id r) pin \<and> pin_incident_id pin = incident) (rv_pins s))"

lemma pin_one_parts:
  "rv_versions (fst (pin_in_transaction env incident actor reason v s)) = rv_versions s"
  "set (rv_pins s) \<subseteq> set (rv_pins (fst (pin_in_transaction env incident actor reason v s)))"
  "list_ex (\<lambda>pin. active_pin (bv_id v) pin \<and> pin_incident_id pin = incident) (rv_pins (fst (pin_in_transaction env incident actor reason v s)))"
  by (auto simp: pin_in_transaction_def append_audit_def Let_def list_ex_iff new_pin_def active_pin_def split: option.split dest!: find_SomeD)

lemma pin_each_parts:
  "rv_versions (fst (pin_each env incident actor reason vs s)) = rv_versions s
   \<and> set (rv_pins s) \<subseteq> set (rv_pins (fst (pin_each env incident actor reason vs s)))
   \<and> (\<forall>v\<in>set vs. list_ex (\<lambda>pin. active_pin (bv_id v) pin \<and> pin_incident_id pin = incident) (rv_pins (fst (pin_each env incident actor reason vs s))))"
proof (induction vs arbitrary: s)
  case (Cons v vs)
  let ?s = "fst (pin_in_transaction env incident actor reason v s)"
  have step: "fst (pin_each env incident actor reason (v # vs) s) = fst (pin_each env incident actor reason vs ?s)"
    by (simp add: case_prod_unfold)
  show ?case using Cons [of ?s] pin_one_parts [where s = s and v = v and env = env and incident = incident and actor = actor and reason = reason]
    unfolding step by (auto simp: list_ex_iff)
qed simp

lemma mapped_some:
  assumes "map f xs = map Some ys" "x \<in> set xs"
  obtains y where "y \<in> set ys" "f x = Some y"
proof -
  have "f x \<in> set (map f xs)" using assms(2) by simp
  then show thesis using that unfolding assms(1) by auto
qed

lemma pin_good_parts:
  assumes "pin_known_good_before env p before incident actor reason s = (s', result)"
  shows "rv_versions s' = rv_versions s" "set (rv_pins s) \<subseteq> set (rv_pins s')" "isl result \<or> held_for incident before p s'"
proof -
  show "rv_versions s' = rv_versions s" "set (rv_pins s) \<subseteq> set (rv_pins s')"
    using assms pin_each_parts [of env incident "trim actor" "trim reason" _ s]
    by (auto simp: pin_known_good_before_def commit_def case_prod_unfold simp del: pin_each.simps
        split: if_splits sum.splits list.splits commit_outcome.splits)
  show "isl result \<or> held_for incident before p s'"
  proof (cases result)
    case (Inr pins)
    let ?P = "\<lambda>v. bv_known_good v \<and> bv_timestamp_ms v < before"
    obtain vs where vs: "versions_of env p s = Inr vs"
      and s': "s' = fst (pin_each env incident (trim actor) (trim reason) (filter ?P vs) s)"
      using assms unfolding Inr pin_known_good_before_def
      by (auto simp: commit_def case_prod_unfold simp del: pin_each.simps split: if_splits sum.splits list.splits commit_outcome.splits)
    have "list_ex (\<lambda>pin. active_pin (vr_id r) pin \<and> pin_incident_id pin = incident) (rv_pins s')"
      if r: "r \<in> set (rv_versions s)" "trusted_before p (Some before) r" for r
    proof -
      have "map map_version (rev (sort_key vr_timestamp_ms (filter (\<lambda>r. vr_path r = p) (rv_versions s)))) = map Some vs"
        using vs by (auto simp: versions_of_def split: if_splits option.splits dest!: collected)
      moreover have "r \<in> set (rev (sort_key vr_timestamp_ms (filter (\<lambda>r. vr_path r = p) (rv_versions s))))"
        using r by (simp add: trusted_before_def)
      ultimately obtain v where v: "v \<in> set vs" "map_version r = Some v" by (rule mapped_some)
      then have good: "v \<in> set (filter ?P vs)" and i: "bv_id v = vr_id r"
        using map_version_parts [OF v(2)] r(2) by (auto simp: trusted_before_def)
      have all: "\<forall>v\<in>set (filter ?P vs). list_ex (\<lambda>pin. active_pin (bv_id v) pin \<and> pin_incident_id pin = incident) (rv_pins s')"
        using pin_each_parts [of env incident "trim actor" "trim reason" "filter ?P vs" s] unfolding s' by blast
      show ?thesis using bspec [OF all good] by (simp add: i)
    qed
    then show ?thesis using \<open>rv_versions s' = rv_versions s\<close> by (simp add: held_for_def)
  qed simp
qed
lemma held_for_mono:
  "held_for incident before p s \<Longrightarrow> rv_versions t = rv_versions s \<Longrightarrow> set (rv_pins s) \<subseteq> set (rv_pins t) \<Longrightarrow> held_for incident before p t"
  by (fastforce simp: held_for_def list_ex_iff)

lemma pin_paths_parts:
  assumes "pin_paths envs k before incident ps (s, failure) = (t, failure')"
  shows "rv_versions t = rv_versions s \<and> set (rv_pins s) \<subseteq> set (rv_pins t)
    \<and> (failure' = None \<longrightarrow> failure = None \<and> (\<forall>p\<in>set ps. held_for incident before p t))"
  using assms
proof (induction ps arbitrary: k s failure)
  case (Cons p ps)
  obtain u result where u: "pin_known_good_before (envs k) p before incident PIN_ACTOR PIN_REASON s = (u, result)" by fastforce
  note parts = pin_good_parts [OF u]
  show ?case
  proof (cases result)
    case (Inl e)
    then show ?thesis using Cons.IH [of "k + 1" u "Some e"] Cons.prems parts(1,2) u by auto
  next
    case (Inr pins)
    then have "pin_paths envs (k + 1) before incident ps (u, failure) = (t, failure')" using Cons.prems u by simp
    from Cons.IH [OF this] show ?thesis using parts Inr held_for_mono [of incident before p u t] by auto
  qed
qed simp

lemma failure_keeps_job: "map rr_detection_id (es_jobs (fst (record_retention_failure env i e later s))) = map rr_detection_id (es_jobs s)"
  by (auto simp: record_retention_failure_def commit_def Let_def split: commit_outcome.split)

text \<open>
  C36: when the retention worker removes a job from the queue, then for every path of the detection,
  every version of the path that was judged good and is older than the detection is held for this
  incident in the backup store; the versions themselves and all earlier holds are unchanged.
\<close>

theorem acknowledged_job_holds_good_versions:
  assumes "retention_job_step message envs env job (s, es) = (s', es', failed)"
    and "rj_detection_id job \<in> rr_detection_id ` set (es_jobs es)" "rj_detection_id job \<notin> rr_detection_id ` set (es_jobs es')"
  shows "rv_versions s' = rv_versions s \<and> set (rv_pins s) \<subseteq> set (rv_pins s')
    \<and> (\<forall>p r. p \<in> set (d_paths (rj_detection job)) \<and> r \<in> set (rv_versions s) \<and> trusted_before p (Some (d_timestamp_ms (rj_detection job))) r
        \<longrightarrow> list_ex (\<lambda>pin. active_pin (vr_id r) pin \<and> pin_incident_id pin = incident_of job) (rv_pins s'))"
proof -
  obtain t failure where t: "pin_paths envs 0 (d_timestamp_ms (rj_detection job)) (incident_of job) (d_paths (rj_detection job)) (s, None) = (t, failure)"
    by fastforce
  have "failure = None"
  proof (rule ccontr)
    assume "failure \<noteq> None"
    then obtain e where e: "failure = Some e" by blast
    then have "es' = fst (record_retention_failure env (rj_detection_id job) (message e)
        (min (sat_add (sq_now env) (retention_delay (rj_attempts job))) i64_max) es)"
      using assms(1) t by (auto simp: retention_job_step_def split: prod.splits sum.splits)
    then show False using assms(2,3) failure_keeps_job by (metis list.set_map)
  qed
  moreover have "s' = t" using assms(1) t by (auto simp: retention_job_step_def split: prod.splits sum.splits option.splits)
  ultimately show ?thesis using pin_paths_parts [OF t] by (auto simp: held_for_def)
qed

section \<open>A sample job\<close>

definition sample_job :: retention_job where
  "sample_job = \<lparr>rj_detection_id = 3, rj_detection = sample_detection\<lparr>d_timestamp_ms := 50, d_paths := [''/srv/f'']\<rparr>, rj_attempts = 0\<rparr>"

definition reviewed_state :: recovery_store where
  "reviewed_state = (recovery_open 100 [])\<lparr>rv_objects := [(sample_sha ''a'', ''a'')],
     rv_versions := [first_version\<lparr>vr_known_good := True, vr_trust_note := Some ''ok''\<rparr>], rv_version_seq := 1\<rparr>"

definition waiting_job :: event_store where
  "waiting_job = init_schema\<lparr>es_jobs := [\<lparr>rr_detection_id = 3, rr_detection_json = ''d'', rr_attempts = 0, rr_last_error = None, rr_next_attempt_ms = 0\<rparr>]\<rparr>"

lemma job_valid: "validate_request ''/srv/f'' (incident_of sample_job) PIN_ACTOR PIN_REASON"
proof -
  have "incident_of sample_job = ''detection-3''" by (simp add: incident_of_def sample_job_def show_nat.simps) code_simp
  moreover have "validate_request ''/srv/f'' ''detection-3'' PIN_ACTOR PIN_REASON" by code_simp
  ultimately show ?thesis by simp
qed

theorem acknowledged_job_holds_good_versions_witness:
  "list_ex (\<lambda>pin. active_pin 1 pin \<and> pin_incident_id pin = incident_of sample_job)
     (rv_pins (fst (retention_job_step (\<lambda>_. ''e'') (\<lambda>_. calm_env) (sample_sql_env ''x'') sample_job (reviewed_state, waiting_job))))"
proof -
  let ?r = "first_version\<lparr>vr_known_good := True, vr_trust_note := Some ''ok''\<rparr>"
  obtain s' es' failed where step: "retention_job_step (\<lambda>_. ''e'') (\<lambda>_. calm_env) (sample_sql_env ''x'') sample_job (reviewed_state, waiting_job)
      = (s', es', failed)" using prod_cases3 by blast
  have versions: "rv_versions reviewed_state = [?r]" by (simp add: reviewed_state_def)
  have job: "d_timestamp_ms (rj_detection sample_job) = 50" "d_paths (rj_detection sample_job) = [''/srv/f'']" "rj_detection_id sample_job = 3"
    by (simp_all add: sample_job_def)
  have v: "versions_of calm_env ''/srv/f'' reviewed_state = Inr [the (map_version ?r)]"
    by (simp add: versions_of_def calm_parts versions map_version_def first_version_def column_u64_def)
  have good: "bv_known_good (the (map_version ?r)) \<and> bv_timestamp_ms (the (map_version ?r)) < 50"
    by (simp add: map_version_def first_version_def column_u64_def)
  have "\<exists>t pins. pin_known_good_before calm_env ''/srv/f'' 50 (incident_of sample_job) PIN_ACTOR PIN_REASON reviewed_state = (t, Inr pins)"
    using good by (simp add: pin_known_good_before_def job_valid i64_max_def calm_parts v commit_def case_prod_unfold)
  then have "es_jobs es' = []"
    using step by (auto simp: retention_job_step_def job acknowledge_retention_job_def sample_sql_env_def commit_def waiting_job_def Let_def
        split: prod.splits)
  then have "list_ex (\<lambda>pin. active_pin (vr_id ?r) pin \<and> pin_incident_id pin = incident_of sample_job) (rv_pins s')"
    using acknowledged_job_holds_good_versions [OF step] versions
    by (auto simp: job waiting_job_def trusted_before_def) (simp_all add: first_version_def)
  then show ?thesis by (simp add: step first_version_def)
qed

end
