(* ===== verification/Spec2Isabelle.thy ===== *)
theory Spec2Isabelle
  imports Vault_Queue Agent_Pipeline Policy_Simulation Agent_Backup
begin

text \<open>
  A verification library for Argos, an agent that watches a host for ransomware, and the services
  around it.  All paths below are under \<^verbatim>\<open>src/crates/\<close>.

  \<^bold>\<open>The program.\<close>  Sensors turn file system and process activity into events
  (\<^verbatim>\<open>argos-common\<close>).  The detection engine (\<^verbatim>\<open>argos-detect\<close>) samples the content of changed files,
  scores the recent behaviour of every process and of groups of processes, and decides what is
  reported and what may be blocked.  Its configuration comes from a file or from a signed policy
  (\<^verbatim>\<open>argos-policy\<close>).  A detection is stored locally together with its delivery and its retention
  job (\<^verbatim>\<open>argos-storage\<close>); changed files are backed up and restored by \<^verbatim>\<open>argos-recovery\<close>; the loop of \<^verbatim>\<open>argos-agent\<close> ties these parts together, compares watched
  configuration files with their last observation, kills a process through \<^verbatim>\<open>argos-response\<close> when
  blocking is on and the policy valid, and its reporter delivers the detections to the central
  server (\<^verbatim>\<open>argos-central\<close>).  Backup bundles go through a local upload queue to an append-only vault
  server that answers with signed receipts (\<^verbatim>\<open>argos-vault\<close>).

  \<^bold>\<open>The theories and the code.\<close>
  \<^item> \<^verbatim>\<open>Argos_Prelude\<close>: Rust integers as words with saturating and checked operations, UTF-8
    strings and Unix paths, hash maps, the outcome of a database transaction, and the
    interfaces \<^verbatim>\<open>keyed_map\<close>, \<^verbatim>\<open>bounded_cache\<close> and \<^verbatim>\<open>invariant_system\<close> that the scorers interpret.
  \<^item> \<^verbatim>\<open>Argos_F64\<close>: IEEE binary64 arithmetic on rationals with rounding to nearest even; the
    interface \<^verbatim>\<open>monotone_rounding\<close> carries the bounds of the scores.
  \<^item> \<^verbatim>\<open>Argos_Hex\<close>: lower case hexadecimal text and the interface \<^verbatim>\<open>hex_codec\<close>.
  \<^item> \<^verbatim>\<open>Argos_Common\<close>: \<^verbatim>\<open>argos-common/src/event.rs\<close> and \<^verbatim>\<open>config.rs\<close>.
  \<^item> \<^verbatim>\<open>Detect_Entropy\<close>, \<^verbatim>\<open>Detect_Scorer\<close>, \<^verbatim>\<open>Detect_Multi_Window\<close>, \<^verbatim>\<open>Detect_Engine\<close>: the files
    \<^verbatim>\<open>entropy.rs\<close>, \<^verbatim>\<open>scorer.rs\<close>, \<^verbatim>\<open>multi_window.rs\<close> and \<^verbatim>\<open>lib.rs\<close> of \<^verbatim>\<open>argos-detect\<close>.
  \<^item> \<^verbatim>\<open>Policy_Trust\<close>: \<^verbatim>\<open>argos-policy/src/lib.rs\<close> and \<^verbatim>\<open>trust.rs\<close>.
  \<^item> \<^verbatim>\<open>Vault_Core\<close>, \<^verbatim>\<open>Vault_Quota\<close>, \<^verbatim>\<open>Vault_Server\<close>, \<^verbatim>\<open>Vault_Queue\<close>: \<^verbatim>\<open>lib.rs\<close> and \<^verbatim>\<open>bundle.rs\<close>, \<^verbatim>\<open>quota.rs\<close>,
    \<^verbatim>\<open>server.rs\<close> and \<^verbatim>\<open>queue.rs\<close> of \<^verbatim>\<open>argos-vault\<close>.
  \<^item> \<^verbatim>\<open>Storage_Outbox\<close>: \<^verbatim>\<open>argos-storage/src/outbox.rs\<close> and \<^verbatim>\<open>insert_detection\<close> of its \<^verbatim>\<open>lib.rs\<close>.
  \<^item> \<^verbatim>\<open>Central_Server\<close>: \<^verbatim>\<open>argos-central/src/main.rs\<close>; \<^verbatim>\<open>Agent_Reporter\<close>: \<^verbatim>\<open>argos-agent/src/reporter.rs\<close>
    together with the outbox and the server as one system.
  \<^item> \<^verbatim>\<open>Storage_Evidence\<close>: the tables of events and responses and the queries of \<^verbatim>\<open>lib.rs\<close>, \<^verbatim>\<open>evidence.rs\<close>
    and \<^verbatim>\<open>response_audit.rs\<close>; the interface \<^verbatim>\<open>logged_table\<close>, interpreted for each of the four tables,
    carries the exactness of a page.
  \<^item> \<^verbatim>\<open>Agent_Semantic\<close>: \<^verbatim>\<open>argos-agent/src/semantic.rs\<close>; \<^verbatim>\<open>Agent_Response\<close>: \<^verbatim>\<open>argos-response/src/lib.rs\<close>;
    \<^verbatim>\<open>Sensor_Health\<close>: \<^verbatim>\<open>argos-sensor/src/health.rs\<close>.
  \<^item> \<^verbatim>\<open>Policy_Simulation\<close>: \<^verbatim>\<open>simulation.rs\<close> and \<^verbatim>\<open>exception_audit.rs\<close> of \<^verbatim>\<open>argos-policy\<close>, on the engine and the
    stored events.
  \<^item> \<^verbatim>\<open>Recovery_Store\<close>: \<^verbatim>\<open>argos-recovery/src/lib.rs\<close> and \<^verbatim>\<open>retention.rs\<close>; the relation \<^verbatim>\<open>effect\<close> takes every call
    apart into elementary effects, on which the invariants are shown by rule inversion.
  \<^item> \<^verbatim>\<open>Agent_Backup\<close>: \<^verbatim>\<open>argos-agent/src/backup_worker.rs\<close> on the backup store and the retention jobs.
  \<^item> \<^verbatim>\<open>Agent_Pipeline\<close>: \<^verbatim>\<open>argos-agent/src/main.rs\<close>: the start (\<^verbatim>\<open>agent_start\<close>), one file event
    (\<^verbatim>\<open>process_file_event\<close>, the function \<^verbatim>\<open>process_event\<close>), the health decision and the loop
    (\<^verbatim>\<open>agent_run\<close>), with the queue of \<^verbatim>\<open>backup_worker.rs\<close>.

  A struct is a record, an enum a datatype, a function a definition of the same name; a method
  on \<^verbatim>\<open>&mut self\<close> maps the state to the new state and the result.  A \<^verbatim>\<open>Result\<close> is a sum with the error
  on the left.  SQLite tables are lists of records in the order of their row ids; a transaction
  is rolled back, committed, or committed although an error is reported.  Iteration over a hash
  map is iteration over an association list, and no result depends on its order.

  \<^bold>\<open>Parameters.\<close>  Code outside the repository is an argument: cryptographic
  primitives and hex of the crates, JSON and TOML codecs, \<^verbatim>\<open>log2\<close>, HTTP headers, clocks, random
  identifiers, and the answers and failures of the operating system and of SQLite.  What a
  theorem needs of them is a hypothesis of that theorem, and its witness instantiates them.

  \<^bold>\<open>What is shown.\<close>
  \<^item> Detection: the scores of every accepted configuration stay finite and within 0 to 100; the
    windows hold exactly what the history of events says as long as no limit reported a
    truncation; memory stays within the limits; blocking needs complete evidence of the process
    itself; a tampered canary always counts; approvals and exclusions are as narrow as stated.
  \<^item> Policy: an activated policy is signed, valid and addressed to this host; versions only
    increase; a rollback restores settings accepted before with an approval used once; failures
    leave the active policy alone; the audit trail has no gaps.  A simulation on stored events
    lists exactly the processes that either policy would have blocked, and the audit of the
    approved changes counts exactly the events the engine attributes to each of them.
  \<^item> Vault: the accounting of the capacity is exact and admissions stay within their budgets;
    files are never overwritten, whatever step fails; an acknowledged upload can be read back and
    its receipt verifies; a failed write closes the vault; the bearer token separates the agents.
  \<^item> Queue: an accepted object is stored or archived with a verified receipt after any sequence
    of operations and faults; leases are exclusive; ids and limits hold.
  \<^item> Delivery: every recorded detection is pending or acknowledged, every retention request is
    pending, completed or counted as overflow; delivery to the central server is exactly once
    under lost requests, lost answers, failing transactions and restarts; undisturbed turns
    drain the backlog; the server separates its agents by token.
  \<^item> Agent: a signal goes only to a handle of the process instance that made the event, with
    blocking on, the policy valid and the block score reached; once the policy was seen outside its
    validity nothing is sent again; every candidate for a block is audited with a truthful outcome;
    every stored score is one the server accepts; a healthy report means that no event was lost; a
    configuration file raises an alert exactly when its meaning changed.
  \<^item> Backups: a version judged good, and every held version, stays readable through any calls and
    faults; holds are released only by a second person and fully audited; restoring is all or
    nothing and takes the newest good content; a retention job is done only when the good versions
    are held; the walk at the start ends and captures every file once.  One theorem shows the
    converse for a pruning that fails at its commit: the content is lost.
  \<^item> Evidence: queries return exactly the stored rows they ask for, in order, and say when rows
    were left out.

  \<^bold>\<open>Bounds.\<close>  No definition uses fuel: every loop of the code is structural
  recursion over a list or has a termination proof.  Counters of SQLite rows are natural numbers;
  the code reads them as 64-bit integers, and where an overflow is refused the refusal is a
  branch.

  \<^bold>\<open>Not modelled.\<close>  The kernel interfaces of the sensors, the firewall commands of the
  responses, the threads and the health file of the agent, the recovery of services through systemd
  and PostgreSQL, the language model client and the command line have little logic apart from the
  effects they trigger.  The bundle routes of the vault server, the bundle jobs of the queue, the
  coverage decisions of the sensors and the validation of the language model's answers are pure
  enough to be modelled in the same way.
\<close>

end
